(* ===== verification/Prelude.thy ===== *)
theory Prelude
  imports Complex_Main "HOL-Library.Word" "HOL-Library.Sublist"
begin

text \<open>
  Shared vocabulary of the development: the machine types of the Go code, the
  big- and little-endian byte orders of encoding/binary, bounded windows (the
  "append, then keep the last n" idiom of the router, the dashboard hub and the
  node sampler), decimal printing, and the collections the component theories
  add their facts to.
\<close>

unbundle bit_operations_syntax

named_theorems inv_intros \<open>preservation lemmas, one per operation of a component\<close>
named_theorems frame_simps \<open>fields an operation leaves alone\<close>

section \<open>Types\<close>

type_synonym byte = "8 word"
type_synonym u16 = "16 word"
type_synonym u32 = "32 word"
type_synonym u64 = "64 word"

text \<open>
  A point in time (\<open>time.Time\<close>) and a duration (\<open>time.Duration\<close>) are integers
  in nanoseconds; 0 is Go's zero time.
\<close>

type_synonym time = int
type_synonym duration = int

abbreviation millisecond :: duration where "millisecond \<equiv> 1000000"
abbreviation second :: duration where "second \<equiv> 1000000000"

text \<open>
  Values of type \<open>float64\<close> are exact rationals. Audio durations at the locked
  rate of 16000 Hz are multiples of 1/16 ms, which float64 represents exactly.
\<close>

type_synonym float64 = rat

definition seconds :: "duration \<Rightarrow> float64" where
  "seconds d = of_int d / 1000000000"

text \<open>Go's conversion \<open>int64(x)\<close> of a float64: truncation towards zero.\<close>

definition trunc64 :: "float64 \<Rightarrow> int" where
  "trunc64 x = (if 0 \<le> x then \<lfloor>x\<rfloor> else \<lceil>x\<rceil>)"

lemma trunc64_nonneg: "0 \<le> x \<Longrightarrow> 0 \<le> trunc64 x"
  by (simp add: trunc64_def)

lemma trunc64_le: "0 \<le> x \<Longrightarrow> of_int (trunc64 x) \<le> x"
  by (simp add: trunc64_def)

section \<open>Byte orders\<close>

text \<open>\<open>binary.BigEndian.PutUint32\<close> and its kin: the most significant byte first.\<close>

definition be_put :: "nat \<Rightarrow> 'a::len word \<Rightarrow> byte list" where
  "be_put n w = map (\<lambda>i. ucast (drop_bit (8 * i) w)) (rev [0..<n])"

definition be_get :: "byte list \<Rightarrow> 'a::len word" where
  "be_get bs = foldl (\<lambda>acc b. push_bit 8 acc OR ucast b) 0 bs"

definition le_put :: "nat \<Rightarrow> 'a::len word \<Rightarrow> byte list" where
  "le_put n w = rev (be_put n w)"

definition le_get :: "byte list \<Rightarrow> 'a::len word" where
  "le_get bs = be_get (rev bs)"

lemma length_be_put [simp]: "length (be_put n w) = n"
  by (simp add: be_put_def)

lemma length_le_put [simp]: "length (le_put n w) = n"
  by (simp add: le_put_def)

lemma be_get_Nil [simp]: "be_get [] = 0"
  by (simp add: be_get_def)

lemma be_get_snoc: "be_get (bs @ [b]) = (push_bit 8 (be_get bs) OR ucast b :: 'a::len word)"
  by (simp add: be_get_def)

lemma be_put_Suc: "be_put (Suc n) w = ucast (drop_bit (8 * n) w) # be_put n w"
  by (simp add: be_put_def)

lemma be_put_snoc: "be_put (Suc n) w = be_put n (drop_bit 8 w) @ [ucast w]"
proof (induction n)
  case 0
  show ?case by (simp add: be_put_def)
next
  case (Suc n)
  have "be_put (Suc (Suc n)) w = ucast (drop_bit (8 + 8 * n) w) # be_put (Suc n) w"
    by (simp add: be_put_Suc [of "Suc n"])
  also have "\<dots> = be_put (Suc n) (drop_bit 8 w) @ [ucast w]"
    by (simp add: Suc.IH be_put_Suc [of n "drop_bit 8 w"] add.commute)
  finally show ?case .
qed

lemma be_get_put_aux:
  "be_get (be_put n w) = (take_bit (8 * n) w :: 'a::len word)"
proof (induction n arbitrary: w)
  case 0
  then show ?case by (simp add: be_put_def)
next
  case (Suc n)
  have "be_get (be_put (Suc n) w)
      = (push_bit 8 (take_bit (8 * n) (drop_bit 8 w)) OR ucast (ucast w :: byte) :: 'a word)"
    by (simp add: be_put_snoc be_get_snoc Suc.IH)
  also have "\<dots> = take_bit (8 * Suc n) w"
    by (rule bit_word_eqI)
      (auto simp: bit_simps not_le dest: bit_imp_le_length)
  finally show ?case .
qed

lemma be_get_put: "LENGTH('a) \<le> 8 * n \<Longrightarrow> be_get (be_put n w) = (w :: 'a::len word)"
  by (simp add: be_get_put_aux take_bit_word_eq_self)

lemma be_put_get:
  "8 * length bs \<le> LENGTH('a) \<Longrightarrow> be_put (length bs) (be_get bs :: 'a::len word) = bs"
proof (induction bs rule: rev_induct)
  case Nil
  then show ?case by (simp add: be_put_def)
next
  case (snoc b bs)
  let ?g = "be_get bs :: 'a word"
  have small: "8 + 8 * length bs \<le> LENGTH('a)" using snoc.prems by simp
  have bound: "take_bit (8 * length bs) ?g = ?g"
    using be_get_put_aux [of "length bs" ?g] snoc.IH snoc.prems by simp
  have low: "n < 8 * length bs" if "bit ?g n" for n
    using that bit_take_bit_iff [of "8 * length bs" ?g n] by (simp add: bound)
  have "drop_bit 8 (push_bit 8 ?g OR ucast b) = ?g"
    using small by (intro bit_word_eqI) (fastforce simp: bit_simps dest: low bit_imp_le_length)
  moreover have "ucast (push_bit 8 ?g OR ucast b) = b"
    using small by (intro bit_word_eqI) (auto simp: bit_simps)
  ultimately show ?case
    using snoc.IH small by (simp add: be_get_snoc be_put_snoc)
qed

lemma le_get_put: "LENGTH('a) \<le> 8 * n \<Longrightarrow> le_get (le_put n w) = (w :: 'a::len word)"
  by (simp add: le_get_def le_put_def be_get_put)

lemma le_put_get:
  "8 * length bs \<le> LENGTH('a) \<Longrightarrow> le_put (length bs) (le_get bs :: 'a::len word) = bs"
  using be_put_get [of "rev bs", where 'a = 'a] by (simp add: le_get_def le_put_def)

section \<open>Bounded windows\<close>

text \<open>
  \<open>xs = append(xs, x); if len(xs) > n { xs = xs[len(xs)-n:] }\<close>: the window keeps
  the newest \<open>n\<close> entries, oldest first.
\<close>

definition keep_last :: "nat \<Rightarrow> 'a list \<Rightarrow> 'a list" where
  "keep_last n xs = drop (length xs - n) xs"

lemma keep_last_length [simp]: "length (keep_last n xs) = min n (length xs)"
  by (simp add: keep_last_def)

lemma keep_last_short [simp]: "length xs \<le> n \<Longrightarrow> keep_last n xs = xs"
  by (simp add: keep_last_def)

lemma keep_last_snoc: "0 < n \<Longrightarrow> keep_last n (xs @ [x]) = keep_last (n - 1) xs @ [x]"
  by (cases n) (simp_all add: keep_last_def)

lemma keep_last_keep_last_snoc:
  "0 < n \<Longrightarrow> keep_last n (keep_last n xs @ [x]) = keep_last n (xs @ [x])"
  by (simp add: keep_last_def Suc_diff_le split: nat_diff_split)

lemma keep_last_append: "keep_last n (keep_last n xs @ ys) = keep_last n (xs @ ys)"
proof (cases "length xs \<le> n")
  case False
  then have "keep_last n xs @ ys = drop (length xs - n) (xs @ ys)" by (simp add: keep_last_def)
  then show ?thesis using False by (simp add: keep_last_def add.commute)
qed simp

lemma set_keep_last: "set (keep_last n xs) \<subseteq> set xs"
  by (simp add: keep_last_def set_drop_subset)

lemma suffix_keep_last: "suffix (keep_last n xs) xs"
  by (simp add: keep_last_def suffix_drop)

lemma keep_last_last: "0 < n \<Longrightarrow> xs \<noteq> [] \<Longrightarrow> last (keep_last n xs) = last xs"
  by (simp add: keep_last_def)

lemma sorted_keep_last: "sorted_wrt P xs \<Longrightarrow> sorted_wrt P (keep_last n xs)"
  by (simp add: keep_last_def sorted_wrt_drop)

lemma distinct_keep_last: "distinct xs \<Longrightarrow> distinct (keep_last n xs)"
  by (simp add: keep_last_def)

section \<open>Decimal printing\<close>

text \<open>\<open>fmt.Sprintf("%d", n)\<close> of an unsigned value.\<close>

fun decimal :: "nat \<Rightarrow> string" where
  "decimal n = (if n < 10 then [char_of (48 + n)]
                else decimal (n div 10) @ [char_of (48 + n mod 10)])"

declare decimal.simps [simp del]

lemma decimal_one [simp]: "decimal (Suc 0) = ''1''"
  by code_simp

text \<open>Reading a string of decimal digits back.\<close>

definition undecimal :: "string \<Rightarrow> nat" where
  "undecimal s = foldl (\<lambda>acc c. 10 * acc + (of_char c - 48)) 0 s"

lemma undecimal_snoc: "undecimal (s @ [c]) = 10 * undecimal s + (of_char c - 48)"
  by (simp add: undecimal_def)

lemma of_char_digit: "d < 10 \<Longrightarrow> of_char (char_of (48 + d) :: char) = (48 + d :: nat)"
  by (simp add: of_char_of)

lemma undecimal_decimal [simp]: "undecimal (decimal n) = n"
proof (induction n rule: decimal.induct)
  case (1 n)
  show ?case
  proof (cases "n < 10")
    case True
    then show ?thesis by (simp add: decimal.simps [of n] undecimal_def of_char_digit)
  next
    case False
    then have "decimal n = decimal (n div 10) @ [char_of (48 + n mod 10)]"
      by (simp add: decimal.simps [of n])
    then show ?thesis using "1.IH" False
      by (simp add: undecimal_snoc of_char_digit)
  qed
qed

lemma decimal_inj [simp]: "decimal m = decimal n \<longleftrightarrow> m = n"
  by (metis undecimal_decimal)

lemma decimal_nonempty [simp]: "decimal n \<noteq> []"
  by (subst decimal.simps) simp

lemma decimal_digits: "c \<in> set (decimal n) \<Longrightarrow> of_char c \<in> {48..57::nat}"
proof (induction n rule: decimal.induct)
  case (1 n)
  then show ?case
    by (cases "n < 10") (auto simp: decimal.simps [of n] of_char_of)
qed

end
