(* ===== verification/Window.thy ===== *)
theory Window
  imports Prelude
begin

text \<open>
  The contract of every bounded history of the program: the journal's ring, the
  router's latency and outcome windows, the dashboard's event log. A client appends
  and reads the contents; the provider promises that only the oldest entries are
  forgotten, and only above its capacity.
\<close>

locale bounded_window =
  fixes capacity :: nat and good :: "'s \<Rightarrow> bool" and append :: "'s \<Rightarrow> 'a \<Rightarrow> 's" and contents :: "'s \<Rightarrow> 'a list"
  assumes capacity_pos: "0 < capacity"
    and good_append: "good s \<Longrightarrow> good (append s x)"
    and contents_append: "good s \<Longrightarrow> contents (append s x) = keep_last capacity (contents s @ [x])"
    and contents_bound: "good s \<Longrightarrow> length (contents s) \<le> capacity"
begin

lemma good_run: "good s \<Longrightarrow> good (foldl append s xs)"
  by (induction xs rule: rev_induct) (simp_all add: good_append)

lemma contents_run:
  assumes "good s"
  shows "contents (foldl append s xs) = keep_last capacity (contents s @ xs)"
proof (induction xs rule: rev_induct)
  case Nil
  then show ?case using contents_bound [OF assms] by simp
next
  case (snoc x xs)
  have "contents (foldl append s (xs @ [x])) = keep_last capacity (keep_last capacity (contents s @ xs) @ [x])"
    using contents_append [OF good_run [OF assms, of xs], of x] snoc by simp
  also have "\<dots> = keep_last capacity (contents s @ xs @ [x])"
    using keep_last_keep_last_snoc [OF capacity_pos, of "contents s @ xs" x] by simp
  finally show ?case .
qed

lemma run_suffix: "good s \<Longrightarrow> suffix (contents (foldl append s xs)) (contents s @ xs)"
  by (simp add: contents_run suffix_keep_last)

lemma run_complete:
  "good s \<Longrightarrow> length (contents s @ xs) \<le> capacity \<Longrightarrow> contents (foldl append s xs) = contents s @ xs"
  by (simp add: contents_run)

lemma run_sorted:
  "good s \<Longrightarrow> sorted_wrt P (contents s @ xs) \<Longrightarrow> sorted_wrt P (contents (foldl append s xs))"
  by (simp add: contents_run sorted_keep_last)

end

text \<open>The slice idiom \<open>xs = append(xs, x); if len(xs) > n { xs = xs[len(xs)-n:] }\<close> is one.\<close>

definition push_window :: "nat \<Rightarrow> 'a list \<Rightarrow> 'a \<Rightarrow> 'a list" where
  "push_window n xs x = keep_last n (xs @ [x])"

interpretation slice: bounded_window "Suc n" "\<lambda>xs. length xs \<le> Suc n" "push_window (Suc n)" "\<lambda>xs. xs" for n
  by unfold_locales (simp_all add: push_window_def)

end
