(* ===== verification/Json.thy ===== *)
theory Json
  imports Prelude "HOL-Library.Monad_Syntax"
begin

text \<open>
  What the gateway uses of Go's text formats: \<open>json.Unmarshal\<close> into a struct, the two
  base64 alphabets, \<open>strconv.Atoi\<close> and \<open>strings.TrimSpace\<close>. A JSON text is the value
  it denotes (none when it is malformed), an object the list of its members in order.
  A number literal without fraction and exponent is \<open>JInt\<close>. Case folding and white
  space are ASCII, which is all the field names and headers of the code contain.
\<close>

section \<open>JSON values and struct decoding\<close>

datatype json =
    JNull
  | JBool bool
  | JInt int
  | JReal rat
  | JString string
  | JArray "json list"
  | JObject "(string \<times> json) list"

definition lower_char :: "char \<Rightarrow> char" where
  "lower_char c = (let n = of_char c :: nat in if 65 \<le> n \<and> n \<le> 90 then char_of (n + 32) else c)"

definition fold_eq :: "string \<Rightarrow> string \<Rightarrow> bool" where
  "fold_eq a b \<longleftrightarrow> map lower_char a = map lower_char b"

text \<open>The members an input object has for a struct field, in order.\<close>

definition members :: "string \<Rightarrow> (string \<times> json) list \<Rightarrow> json list" where
  "members name kvs = map snd (filter (\<lambda>(k, _). fold_eq k name) kvs)"

text \<open>
  A field is decoded once per member, in order: \<open>null\<close> leaves it as it is, a value of
  the wrong type is an error (\<open>None\<close>), a later member is decoded over an earlier one.
  A pointer field becomes nil on \<open>null\<close>.
\<close>

definition decode_into :: "('a \<Rightarrow> json \<Rightarrow> 'a option) \<Rightarrow> string \<Rightarrow> 'a \<Rightarrow> (string \<times> json) list \<Rightarrow> 'a option" where
  "decode_into dec name old kvs =
     foldl (\<lambda>acc v. case acc of None \<Rightarrow> None
              | Some x \<Rightarrow> if v = JNull then Some x else dec x v) (Some old) (members name kvs)"

definition decode_field :: "(json \<Rightarrow> 'a option) \<Rightarrow> string \<Rightarrow> 'a \<Rightarrow> (string \<times> json) list \<Rightarrow> 'a option" where
  "decode_field dec name zero kvs = decode_into (\<lambda>_. dec) name zero kvs"

definition decode_pointer :: "('a \<Rightarrow> json \<Rightarrow> 'a option) \<Rightarrow> 'a \<Rightarrow> string \<Rightarrow> (string \<times> json) list \<Rightarrow> 'a option option" where
  "decode_pointer dec zero name kvs =
     foldl (\<lambda>acc v. case acc of None \<Rightarrow> None
              | Some p \<Rightarrow> if v = JNull then Some None
                         else map_option Some (dec (case p of None \<Rightarrow> zero | Some x \<Rightarrow> x) v))
       (Some None) (members name kvs)"

fun json_string :: "json \<Rightarrow> string option" where
  "json_string (JString s) = Some s"
| "json_string _ = None"

fun json_bool :: "json \<Rightarrow> bool option" where
  "json_bool (JBool b) = Some b"
| "json_bool _ = None"

fun json_int :: "json \<Rightarrow> int option" where
  "json_int (JInt n) = (if - (2 ^ 63) \<le> n \<and> n < 2 ^ 63 then Some n else None)"
| "json_int _ = None"

fun json_uint64 :: "json \<Rightarrow> u64 option" where
  "json_uint64 (JInt n) = (if 0 \<le> n \<and> n < 2 ^ 64 then Some (of_int n) else None)"
| "json_uint64 _ = None"

fun json_float :: "json \<Rightarrow> float64 option" where
  "json_float (JInt n) = Some (of_int n)"
| "json_float (JReal x) = Some x"
| "json_float _ = None"

fun json_strings :: "json \<Rightarrow> string list option" where
  "json_strings (JArray vs) = those (map (\<lambda>v. if v = JNull then Some '''' else json_string v) vs)"
| "json_strings _ = None"

fun json_object :: "json \<Rightarrow> (string \<times> json) list option" where
  "json_object (JObject kvs) = Some kvs"
| "json_object _ = None"

text \<open>The members a struct sees: a top-level \<open>null\<close> decodes to the zero value.\<close>

definition struct_of :: "json \<Rightarrow> (string \<times> json) list option" where
  "struct_of v = (if v = JNull then Some [] else json_object v)"

lemma members_Nil [simp]: "members name [] = []"
  by (simp add: members_def)

lemma decode_field_absent [simp]: "members name kvs = [] \<Longrightarrow> decode_field dec name z kvs = Some z"
  by (simp add: decode_field_def decode_into_def)

lemma decode_field_single:
  "members name kvs = [v] \<Longrightarrow> v \<noteq> JNull \<Longrightarrow> decode_field dec name z kvs = dec v"
  by (simp add: decode_field_def decode_into_def)

section \<open>Numbers in text\<close>

definition is_digit :: "char \<Rightarrow> bool" where
  "is_digit c \<longleftrightarrow> (let n = of_char c :: nat in 48 \<le> n \<and> n \<le> 57)"

text \<open>\<open>strconv.Atoi\<close>: an optional sign, at least one decimal digit, the value an \<open>int\<close>.\<close>

definition atoi :: "string \<Rightarrow> int option" where
  "atoi s =
     (let neg = (s \<noteq> [] \<and> hd s = CHR ''-'');
          ds = (if s \<noteq> [] \<and> (hd s = CHR ''-'' \<or> hd s = CHR ''+'') then tl s else s);
          n = int (undecimal ds); v = (if neg then - n else n)
      in if ds = [] \<or> \<not> list_all is_digit ds then None
         else if - (2 ^ 63) \<le> v \<and> v < 2 ^ 63 then Some v else None)"

text \<open>\<open>strconv.Itoa\<close>.\<close>

definition show_int :: "int \<Rightarrow> string" where
  "show_int n = (if n < 0 then CHR ''-'' # decimal (nat (- n)) else decimal (nat n))"

definition is_space :: "char \<Rightarrow> bool" where
  "is_space c \<longleftrightarrow> (let n = of_char c :: nat in n = 32 \<or> 9 \<le> n \<and> n \<le> 13)"

definition trim_space :: "string \<Rightarrow> string" where
  "trim_space s = rev (dropWhile is_space (rev (dropWhile is_space s)))"

text \<open>\<open>int64\<close> arithmetic wraps.\<close>

definition wrap64 :: "int \<Rightarrow> int" where
  "wrap64 x = (x + 2 ^ 63) mod 2 ^ 64 - 2 ^ 63"

lemma wrap64_id: "- (2 ^ 63) \<le> x \<Longrightarrow> x < 2 ^ 63 \<Longrightarrow> wrap64 x = x"
  by (simp add: wrap64_def)

lemma digits_decimal: "list_all is_digit (decimal n)"
  using decimal_digits by (fastforce simp: list_all_iff is_digit_def)

lemma decimal_hd_digit: "is_digit (hd (decimal n))"
  using digits_decimal [of n] by (cases "decimal n") (simp_all add: list_all_iff)

lemma digit_not_sign: "is_digit c \<Longrightarrow> c \<noteq> CHR ''-'' \<and> c \<noteq> CHR ''+''"
  by (auto simp: is_digit_def)

lemma atoi_decimal: "int n < 2 ^ 63 \<Longrightarrow> atoi (decimal n) = Some (int n)"
  using digit_not_sign [OF decimal_hd_digit [of n]] by (simp add: atoi_def digits_decimal)

lemma digit_not_space: "is_digit c \<Longrightarrow> \<not> is_space c"
  by (auto simp: is_digit_def is_space_def Let_def)

lemma trim_space_none: "list_all (\<lambda>c. \<not> is_space c) s \<Longrightarrow> trim_space s = s"
  unfolding trim_space_def
  by (metis (no_types, lifting) dropWhile_eq_self_iff list_all_iff hd_in_set rev_rev_ident set_rev)

section \<open>Base64\<close>

text \<open>
  The alphabets differ in the last two symbols; \<open>RawURLEncoding\<close> also drops the
  padding. A sextet is a number below 64, three bytes are four sextets.
\<close>

definition std_symbol :: "nat \<Rightarrow> char" where
  "std_symbol d = char_of (if d < 26 then 65 + d else if d < 52 then 71 + d
      else if d < 62 then d - 4 else if d = 62 then 43 else 47 :: nat)"

definition url_symbol :: "nat \<Rightarrow> char" where
  "url_symbol d = (if d = 62 then CHR ''-'' else if d = 63 then CHR ''_'' else std_symbol d)"

definition std_value :: "char \<Rightarrow> nat option" where
  "std_value c = (let n = of_char c :: nat in
      if 65 \<le> n \<and> n \<le> 90 then Some (n - 65) else if 97 \<le> n \<and> n \<le> 122 then Some (n - 71)
      else if 48 \<le> n \<and> n \<le> 57 then Some (n + 4) else if n = 43 then Some 62
      else if n = 47 then Some 63 else None)"

definition octet :: "byte \<Rightarrow> nat" where "octet b = unat b"

fun base64_with :: "(nat \<Rightarrow> char) \<Rightarrow> string \<Rightarrow> string \<Rightarrow> byte list \<Rightarrow> string" where
  "base64_with sy p1 p2 [] = []"
| "base64_with sy p1 p2 [a] =
     [sy (octet a div 4), sy (octet a mod 4 * 16)] @ p2"
| "base64_with sy p1 p2 [a, b] =
     [sy (octet a div 4), sy (octet a mod 4 * 16 + octet b div 16), sy (octet b mod 16 * 4)] @ p1"
| "base64_with sy p1 p2 (a # b # c # rest) =
     [sy (octet a div 4), sy (octet a mod 4 * 16 + octet b div 16),
      sy (octet b mod 16 * 4 + octet c div 64), sy (octet c mod 64)] @ base64_with sy p1 p2 rest"

definition base64_std :: "byte list \<Rightarrow> string" where
  "base64_std = base64_with std_symbol ''='' ''==''"

definition base64_raw_url :: "byte list \<Rightarrow> string" where
  "base64_raw_url = base64_with url_symbol '''' ''''"

text \<open>\<open>StdEncoding.DecodeString\<close>: line breaks are skipped, padding only ends the text.\<close>

fun base64_quads :: "string \<Rightarrow> byte list option" where
  "base64_quads [] = Some []"
| "base64_quads (c1 # c2 # c3 # c4 # rest) =
     (case (std_value c1, std_value c2) of
        (Some v1, Some v2) \<Rightarrow>
          if c3 = CHR ''='' then
            (if c4 = CHR ''='' \<and> rest = [] then Some [of_nat (v1 * 4 + v2 div 16)] else None)
          else
            (case std_value c3 of None \<Rightarrow> None
             | Some v3 \<Rightarrow>
                 if c4 = CHR ''='' then
                   (if rest = [] then Some [of_nat (v1 * 4 + v2 div 16), of_nat (v2 * 16 + v3 div 4)] else None)
                 else
                   (case (std_value c4, base64_quads rest) of
                      (Some v4, Some bs) \<Rightarrow>
                        Some (of_nat (v1 * 4 + v2 div 16) # of_nat (v2 * 16 + v3 div 4)
                              # of_nat (v3 * 64 + v4) # bs)
                    | _ \<Rightarrow> None))
      | _ \<Rightarrow> None)"
| "base64_quads _ = None"

definition base64_decode :: "string \<Rightarrow> byte list option" where
  "base64_decode s = base64_quads (filter (\<lambda>c. c \<noteq> CHR 0x0A \<and> c \<noteq> CHR 0x0D) s)"


lemma octet_less [simp]: "octet b < 256"
  unfolding octet_def by (rule less_le_trans [OF unsigned_less]) simp

lemma of_nat_octet: "n mod 256 = octet b \<Longrightarrow> (of_nat n :: byte) = b"
proof -
  assume "n mod 256 = octet b"
  then have "unat (of_nat n :: byte) = unat b" by (simp add: unsigned_of_nat take_bit_eq_mod octet_def)
  then show ?thesis by (rule word_unat_eq_iff [THEN iffD2])
qed

lemma of_char_std_symbol:
  "d < 64 \<Longrightarrow> of_char (std_symbol d) = (if d < 26 then 65 + d else if d < 52 then 71 + d
      else if d < 62 then d - 4 else if d = 62 then 43 else 47 :: nat)"
  by (simp add: std_symbol_def)

lemma std_value_symbol: "d < 64 \<Longrightarrow> std_value (std_symbol d) = Some d"
  by (auto simp: std_value_def Let_def of_char_std_symbol)

lemma std_symbol_plain:
  assumes "d < 64"
  shows "std_symbol d \<noteq> CHR ''='' \<and> std_symbol d \<noteq> CHR 0x0A \<and> std_symbol d \<noteq> CHR 0x0D"
proof -
  have "of_char (std_symbol d) \<notin> {61, 10, 13 :: nat}"
    unfolding of_char_std_symbol [OF assms] by auto
  then show ?thesis by auto
qed

lemma div_digit: "d < k \<Longrightarrow> (n * k + d) div k = (n :: nat)"
  by (metis add.commute add.right_neutral div_less div_mult_self3 gr_implies_not0)

lemma octet_parts [simp]: "octet b div 16 < 16" "octet b div 64 < 4" "octet b div 4 < 64"
  using octet_less [of b] by (simp_all add: div_less_iff_less_mult)

lemma digit_pair: "h < m \<Longrightarrow> l < k \<Longrightarrow> h * k + l < m * (k :: nat)"
proof -
  assume "h < m" "l < k"
  then have "h * k + l < Suc h * k" by simp
  also have "\<dots> \<le> m * k" using \<open>h < m\<close> by (intro mult_le_mono) simp_all
  finally show ?thesis .
qed

lemma sextets [simp]:
  "octet a mod 4 * 16 + octet b div 16 < 64" "octet a mod 4 * 16 < 64"
  "octet b mod 16 * 4 + octet c div 64 < 64" "octet b mod 16 * 4 < 64" "octet c mod 64 < 64"
  using digit_pair [of "octet a mod 4" 4 "octet b div 16" 16] digit_pair [of "octet a mod 4" 4 0 16]
    digit_pair [of "octet b mod 16" 16 "octet c div 64" 4] digit_pair [of "octet b mod 16" 16 0 4]
  by simp_all

lemma base64_std_chars:
  "list_all (\<lambda>c. c \<noteq> CHR 0x0A \<and> c \<noteq> CHR 0x0D) (base64_with std_symbol ''='' ''=='' bs)"
  by (induction std_symbol "''=''" "''==''" bs rule: base64_with.induct) (simp_all add: std_symbol_plain)

lemma base64_quads_with: "base64_quads (base64_with std_symbol ''='' ''=='' bs) = Some bs"
  by (induction std_symbol "''=''" "''==''" bs rule: base64_with.induct)
    (simp_all add: std_value_symbol std_symbol_plain of_nat_octet div_digit del: of_nat_add of_nat_mult)

lemma base64_round_trip: "base64_decode (base64_std bs) = Some bs"
proof -
  have "filter (\<lambda>c. c \<noteq> CHR 0x0A \<and> c \<noteq> CHR 0x0D) (base64_std bs) = base64_std bs"
    using base64_std_chars by (simp add: filter_id_conv base64_std_def list_all_iff)
  then show ?thesis by (simp add: base64_decode_def base64_std_def base64_quads_with)
qed

end
