(* ===== verification/Wire.thy ===== *)
theory Wire
  imports Prelude Json
begin

text \<open>
  The client/gateway binary frame codec and the control-message rules of
  \<^verbatim>\<open>internal/wire/frame.go\<close>. \<open>MsgType\<close> is a Go \<open>uint8\<close>, so the frame carries a
  byte and \<open>Decode\<close> checks it. Errors are the sentinels of the package with the
  values they are formatted with. The syntax of JSON is a parameter: the value a text
  denotes, none where it is malformed.
\<close>

section \<open>Frames\<close>

definition MsgAudio :: byte where "MsgAudio = 1"
definition MsgControl :: byte where "MsgControl = 2"

definition HeaderSize :: nat where "HeaderSize = 1 + 8 + 4 + 4"
definition BytesPerSample :: nat where "BytesPerSample = 2"

record frame =
  f_type :: byte
  f_seq :: u64
  f_capture_ms :: u32
  f_num_samples :: u32
  f_payload :: "byte list"

datatype wire_error =
    ErrFrameTooShort
  | ErrUnknownType byte
  | ErrDurationMismatch u32 nat nat \<comment> \<open>declared samples, bytes implied, bytes received\<close>
  | ErrUnknownMode string
  | ErrUnsupportedFormat int string int
  | ErrControlJson
  | ErrMalformedStart
  | ErrMalformedEnd
  | ErrUnknownControl string

definition duration_ms :: "frame \<Rightarrow> u32 \<Rightarrow> float64" where
  "duration_ms f sampleRateHz =
     of_nat (unat (f_num_samples f)) * 1000 / of_nat (unat sampleRateHz)"

definition encode :: "frame \<Rightarrow> byte list" where
  "encode f = f_type f # be_put 8 (f_seq f) @ be_put 4 (f_capture_ms f)
                @ be_put 4 (f_num_samples f) @ f_payload f"

text \<open>The slice expression \<open>buf[a:b]\<close>, used where \<open>b \<le> len(buf)\<close>.\<close>

definition sub_bytes :: "nat \<Rightarrow> nat \<Rightarrow> 'a list \<Rightarrow> 'a list" where
  "sub_bytes a b xs = take (b - a) (drop a xs)"

definition decode :: "byte list \<Rightarrow> wire_error + frame" where
  "decode buf =
     (if length buf < HeaderSize then Inl ErrFrameTooShort
      else let t = buf ! 0 in
        if t \<noteq> MsgAudio \<and> t \<noteq> MsgControl then Inl (ErrUnknownType t)
        else Inr \<lparr> f_type = t,
                   f_seq = be_get (sub_bytes 1 9 buf),
                   f_capture_ms = be_get (sub_bytes 9 13 buf),
                   f_num_samples = be_get (sub_bytes 13 17 buf),
                   f_payload = drop HeaderSize buf \<rparr>)"

definition validate_audio_frame :: "frame \<Rightarrow> wire_error option" where
  "validate_audio_frame f =
     (let want = unat (f_num_samples f) * BytesPerSample in
      if length (f_payload f) \<noteq> want
      then Some (ErrDurationMismatch (f_num_samples f) want (length (f_payload f)))
      else None)"

section \<open>Control messages\<close>

record session_start =
  ss_type :: string
  ss_mode :: string
  ss_sample_rate_hz :: int
  ss_encoding :: string
  ss_channels :: int
  ss_nominal_frame_ms :: int

definition RequiredSampleRateHz :: int where "RequiredSampleRateHz = 16000"
definition RequiredEncoding :: string where "RequiredEncoding = ''pcm_s16le''"
definition RequiredChannels :: int where "RequiredChannels = 1"

definition validate_session_start :: "session_start \<Rightarrow> wire_error option" where
  "validate_session_start ss =
     (if ss_mode ss \<noteq> ''online'' \<and> ss_mode ss \<noteq> ''offline''
      then Some (ErrUnknownMode (ss_mode ss))
      else if ss_sample_rate_hz ss \<noteq> RequiredSampleRateHz \<or> ss_encoding ss \<noteq> RequiredEncoding
              \<or> ss_channels ss \<noteq> RequiredChannels
      then Some (ErrUnsupportedFormat (ss_sample_rate_hz ss) (ss_encoding ss) (ss_channels ss))
      else None)"

text \<open>The messages \<open>DecodeControl\<close> returns.\<close>

datatype control = CtlStart session_start | CtlEnd string

definition control_type :: "json \<Rightarrow> string option" where
  "control_type v = do { kvs \<leftarrow> struct_of v; decode_field json_string ''type'' '''' kvs }"

definition decode_session_start :: "json \<Rightarrow> session_start option" where
  "decode_session_start v = do {
     kvs \<leftarrow> struct_of v;
     ty \<leftarrow> decode_field json_string ''type'' '''' kvs;
     mode \<leftarrow> decode_field json_string ''mode'' '''' kvs;
     rate \<leftarrow> decode_field json_int ''sample_rate_hz'' 0 kvs;
     enc \<leftarrow> decode_field json_string ''encoding'' '''' kvs;
     ch \<leftarrow> decode_field json_int ''channels'' 0 kvs;
     ms \<leftarrow> decode_field json_int ''nominal_frame_ms'' 0 kvs;
     Some \<lparr> ss_type = ty, ss_mode = mode, ss_sample_rate_hz = rate, ss_encoding = enc,
            ss_channels = ch, ss_nominal_frame_ms = ms \<rparr> }"

definition decode_control :: "(byte list \<Rightarrow> json option) \<Rightarrow> byte list \<Rightarrow> wire_error + control" where
  "decode_control parse payload =
     (case parse payload of
        None \<Rightarrow> Inl ErrControlJson
      | Some v \<Rightarrow>
          (case control_type v of
             None \<Rightarrow> Inl ErrControlJson
           | Some ty \<Rightarrow>
               if ty = ''session.start'' then
                 (case decode_session_start v of None \<Rightarrow> Inl ErrMalformedStart | Some m \<Rightarrow> Inr (CtlStart m))
               else if ty = ''session.end'' then
                 (case control_type v of None \<Rightarrow> Inl ErrMalformedEnd | Some m \<Rightarrow> Inr (CtlEnd m))
               else Inl (ErrUnknownControl ty)))"

section \<open>Lemmas\<close>

lemmas wire_consts = MsgAudio_def MsgControl_def HeaderSize_def BytesPerSample_def

lemma length_encode [simp]: "length (encode f) = HeaderSize + length (f_payload f)"
  by (simp add: encode_def HeaderSize_def)

lemma slice_append_exact:
  "length xs = a \<Longrightarrow> length ys = b - a \<Longrightarrow> sub_bytes a b (xs @ ys @ zs) = ys"
  by (simp add: sub_bytes_def)

lemma encode_slices:
  shows "sub_bytes (Suc 0) 9 (encode f) = be_put 8 (f_seq f)"
    and "sub_bytes 9 13 (encode f) = be_put 4 (f_capture_ms f)"
    and "sub_bytes 13 17 (encode f) = be_put 4 (f_num_samples f)"
    and "drop HeaderSize (encode f) = f_payload f"
  by (simp_all add: encode_def sub_bytes_def HeaderSize_def)

lemma encode_nth_0: "encode f ! 0 = f_type f"
  by (simp add: encode_def)

lemma length_sub_bytes [simp]: "b \<le> length xs \<Longrightarrow> length (sub_bytes a b xs) = b - a"
  by (simp add: sub_bytes_def)

lemma slices_rebuild:
  assumes "HeaderSize \<le> length buf"
  shows "buf = buf ! 0 # sub_bytes 1 9 buf @ sub_bytes 9 13 buf @ sub_bytes 13 17 buf @ drop HeaderSize buf"
proof -
  have "buf = take 1 buf @ drop 1 buf" by simp
  also have "take 1 buf = [buf ! 0]"
    using assms by (cases buf) (simp_all add: HeaderSize_def)
  also have "drop 1 buf = sub_bytes 1 9 buf @ drop 9 buf"
    using append_take_drop_id [of 8 "drop 1 buf"] by (simp add: sub_bytes_def)
  also have "drop 9 buf = sub_bytes 9 13 buf @ drop 13 buf"
    using append_take_drop_id [of 4 "drop 9 buf"] by (simp add: sub_bytes_def)
  also have "drop 13 buf = sub_bytes 13 17 buf @ drop HeaderSize buf"
    using append_take_drop_id [of 4 "drop 13 buf"] by (simp add: sub_bytes_def HeaderSize_def)
  finally show ?thesis by simp
qed

lemma be_put_sub_bytes:
  assumes "b \<le> length buf" "8 * (b - a) \<le> LENGTH('a)"
  shows "be_put (b - a) (be_get (sub_bytes a b buf) :: 'a::len word) = sub_bytes a b buf"
  using be_put_get [of "sub_bytes a b buf", where 'a = 'a] assms by simp

lemma decode_encode_aux:
  "f_type f = MsgAudio \<or> f_type f = MsgControl \<Longrightarrow> decode (encode f) = Inr f"
  by (simp add: decode_def Let_def encode_slices be_get_put encode_nth_0)

lemma encode_decode_aux:
  assumes "decode buf = Inr f"
  shows "encode f = buf"
proof -
  from assms have len: "HeaderSize \<le> length buf"
    by (auto simp: decode_def split: if_splits)
  with assms have f: "f_type f = buf ! 0" "f_seq f = be_get (sub_bytes 1 9 buf)"
      "f_capture_ms f = be_get (sub_bytes 9 13 buf)" "f_num_samples f = be_get (sub_bytes 13 17 buf)"
      "f_payload f = drop HeaderSize buf"
    by (auto simp: decode_def Let_def split: if_splits)
  have "be_put 8 (f_seq f) = sub_bytes 1 9 buf"
    using be_put_sub_bytes [of 9 buf 1, where 'a = 64] len f by (simp add: HeaderSize_def)
  moreover have "be_put 4 (f_capture_ms f) = sub_bytes 9 13 buf"
    using be_put_sub_bytes [of 13 buf 9, where 'a = 32] len f by (simp add: HeaderSize_def)
  moreover have "be_put 4 (f_num_samples f) = sub_bytes 13 17 buf"
    using be_put_sub_bytes [of 17 buf 13, where 'a = 32] len f by (simp add: HeaderSize_def)
  ultimately show ?thesis
    using slices_rebuild [OF len] f by (simp add: encode_def)
qed

lemma decode_type: "decode buf = Inr f \<Longrightarrow> f_type f = MsgAudio \<or> f_type f = MsgControl"
  by (auto simp: decode_def Let_def split: if_splits)

section \<open>Properties\<close>

text \<open>
  C22: decoding is the exact inverse of encoding. A buffer decodes to a frame iff it
  is that frame's encoding and the type is one of the two known ones, so no two
  buffers decode to the same frame and every audio or control frame survives the
  round trip; the remaining buffers are refused with the error that tells why.
\<close>

theorem decode_is_inverse_of_encode:
  "(decode buf = Inr f) = (buf = encode f \<and> f_type f \<in> {MsgAudio, MsgControl})
   \<and> (decode buf = Inl e) =
      (if length buf < HeaderSize then e = ErrFrameTooShort
       else buf ! 0 \<notin> {MsgAudio, MsgControl} \<and> e = ErrUnknownType (buf ! 0))"
proof
  show "(decode buf = Inr f) = (buf = encode f \<and> f_type f \<in> {MsgAudio, MsgControl})"
    using decode_encode_aux [of f] encode_decode_aux [of buf f] decode_type [of buf f] by auto
  show "(decode buf = Inl e) =
      (if length buf < HeaderSize then e = ErrFrameTooShort
       else buf ! 0 \<notin> {MsgAudio, MsgControl} \<and> e = ErrUnknownType (buf ! 0))"
    by (auto simp: decode_def Let_def)
qed

end
