(* ===== verification/Session.thy ===== *)
theory Session
  imports Prelude
begin

text \<open>
  \<^verbatim>\<open>internal/session\<close>: the sequence validator (seq.go), the platform-side session
  record (state.go) and the emitter that enforces the transcript contract
  (events.go). A Go panic is a value of type \<open>panic\<close>. The lemmas show that the
  validator accepts each sequence number at most once and reports exactly the
  numbers it skipped, and that every stream of events the emitter can produce
  keeps revisions increasing and an utterance closed after its final.
\<close>

section \<open>Sequence validation (seq.go)\<close>

datatype seq_outcome = SeqExpected | SeqDuplicate | SeqGap

record discontinuity_range =
  dr_seq_start :: u64
  dr_seq_end :: u64

record seq_validator =
  sv_expected :: u64

definition new_seq_validator :: seq_validator where
  "new_seq_validator = \<lparr>sv_expected = 0\<rparr>"

definition no_range :: discontinuity_range where
  "no_range = \<lparr>dr_seq_start = 0, dr_seq_end = 0\<rparr>"

definition validate :: "seq_validator \<Rightarrow> u64 \<Rightarrow> (seq_outcome \<times> discontinuity_range) \<times> seq_validator" where
  "validate v seq =
     (if seq = sv_expected v then ((SeqExpected, no_range), v\<lparr>sv_expected := sv_expected v + 1\<rparr>)
      else if seq < sv_expected v then ((SeqDuplicate, no_range), v)
      else ((SeqGap, \<lparr>dr_seq_start = sv_expected v, dr_seq_end = seq\<rparr>),
            v\<lparr>sv_expected := seq + 1\<rparr>))"

text \<open>The sequence numbers accepted and the ranges reported while a session runs.\<close>

fun validate_all :: "seq_validator \<Rightarrow> u64 list \<Rightarrow> u64 list \<times> discontinuity_range list \<times> seq_validator" where
  "validate_all v [] = ([], [], v)"
| "validate_all v (s # ss) =
     (let ((oc, r), v') = validate v s; (acc, gaps, v'') = validate_all v' ss in
      ((if oc = SeqDuplicate then acc else s # acc),
       (if oc = SeqGap then r # gaps else gaps), v''))"

definition range_nats :: "discontinuity_range \<Rightarrow> nat set" where
  "range_nats r = {unat (dr_seq_start r) ..< unat (dr_seq_end r)}"

lemma unat_plus_one:
  assumes "w \<noteq> - 1"
  shows "unat (w + 1 :: 'a::len word) = Suc (unat w)"
proof -
  have "1 + w \<noteq> 0" using assms max_word_wrap [of w] by (auto simp: add.commute)
  then show ?thesis using unatSuc [of w] by (simp add: add.commute)
qed

lemma unat_max64: "unat (- 1 :: u64) = 2 ^ 64 - 1"
  by (simp add: unsigned_minus_1_eq_mask mask_eq_exp_minus_1)

lemma not_max64: "unat w < 2 ^ 64 - 1 \<Longrightarrow> (w :: u64) \<noteq> - 1"
  using unat_max64 by force

lemma validate_cases:
  assumes "validate v s = ((oc, r), v1)" "s \<noteq> - 1"
  obtains (Dup) "oc = SeqDuplicate" "v1 = v"
  | (Exp) "oc = SeqExpected" "unat s = unat (sv_expected v)" "unat (sv_expected v1) = Suc (unat s)"
  | (Gap) "oc = SeqGap" "unat (sv_expected v) < unat s" "unat (sv_expected v1) = Suc (unat s)"
      "range_nats r = {unat (sv_expected v) ..< unat s}"
proof (cases rule: linorder_cases [of s "sv_expected v"])
  case less
  then have "s \<noteq> sv_expected v" by auto
  with less show ?thesis using assms that by (auto simp: validate_def)
next
  case equal
  then show ?thesis using assms that unat_plus_one [OF assms(2)] by (auto simp: validate_def)
next
  case greater
  then have "\<not> s < sv_expected v" "s \<noteq> sv_expected v" "unat (sv_expected v) < unat s"
    by (auto simp: word_less_nat_alt)
  then show ?thesis using assms that unat_plus_one [OF assms(2)]
    by (auto simp: validate_def range_nats_def)
qed

text \<open>
  The numbers below the final expectation split into the accepted ones and the
  reported gaps, the accepted ones come in strictly increasing order, and no
  accepted number is in a reported gap.
\<close>

lemma validate_all_partition:
  assumes "- 1 \<notin> set ss" "validate_all v ss = (acc, gaps, v')"
  shows "unat (sv_expected v) \<le> unat (sv_expected v')
    \<and> unat ` set acc \<union> \<Union> (range_nats ` set gaps) = {unat (sv_expected v) ..< unat (sv_expected v')}
    \<and> sorted_wrt (<) acc
    \<and> (\<forall>r \<in> set gaps. unat ` set acc \<inter> range_nats r = {})"
  using assms
proof (induction ss arbitrary: v acc gaps v')
  case Nil
  then show ?case by simp
next
  case (Cons s ss)
  obtain oc r v1 where one: "validate v s = ((oc, r), v1)" by (metis surj_pair)
  obtain acc' gaps' where rest: "validate_all v1 ss = (acc', gaps', v')"
    using Cons.prems(2) by (simp add: one split: prod.splits)
  have acc: "acc = (if oc = SeqDuplicate then acc' else s # acc')"
    and gaps: "gaps = (if oc = SeqGap then r # gaps' else gaps')"
    using Cons.prems(2) by (auto simp: one rest)
  from Cons.prems(1) have smax: "s \<noteq> - 1" and "- 1 \<notin> set ss" by auto
  note IH = Cons.IH [OF \<open>- 1 \<notin> set ss\<close> rest]
  let ?e = "unat (sv_expected v)" and ?e1 = "unat (sv_expected v1)" and ?e2 = "unat (sv_expected v')"
  have later: "?e1 \<le> unat x" if "x \<in> set acc'" for x
    using IH that by (metis UnI1 atLeastLessThan_iff imageI)
  have above: "range_nats q \<subseteq> {?e1..<?e2}" if "q \<in> set gaps'" for q
    using IH that by blast
  from one smax show ?case
  proof (cases rule: validate_cases)
    case Dup
    with IH show ?thesis by (simp add: acc gaps)
  next
    case Exp
    have "{?e..<?e2} = insert (unat s) {?e1..<?e2}" using Exp IH by auto
    moreover have "\<forall>x\<in>set acc'. s < x" using later Exp by (auto simp: word_less_nat_alt Suc_le_eq)
    moreover have "unat s \<notin> range_nats q" if "q \<in> set gaps'" for q
      using above [OF that] Exp by auto
    ultimately show ?thesis using Exp IH by (auto simp: acc gaps)
  next
    case Gap
    have "{?e..<?e2} = insert (unat s) ({?e..<unat s} \<union> {?e1..<?e2})" using Gap IH by auto
    moreover have "\<forall>x\<in>set acc'. s < x" using later Gap by (auto simp: word_less_nat_alt Suc_le_eq)
    moreover have "\<forall>x\<in>set acc'. unat x \<notin> {?e..<unat s}" using later Gap by fastforce
    moreover have "unat s \<notin> range_nats q" if "q \<in> set gaps'" for q
      using above [OF that] Gap by auto
    ultimately show ?thesis using Gap IH by (auto simp: acc gaps)
  qed
qed

section \<open>The session record (state.go)\<close>

definition ModeOnline :: string where "ModeOnline = ''online''"
definition ModeOffline :: string where "ModeOffline = ''offline''"

type_synonym cache_compatibility_key = string

record inference_state =
  st_session_id :: string
  st_utterance_id :: u64
  st_utterance_start_seq :: u64
  st_mode :: string
  st_sample_rate_hz :: int
  st_worker_id :: string
  st_handle :: string
  st_compatibility_key :: cache_compatibility_key
  st_stream_epoch :: u64
  st_failover_epoch :: u64
  st_generation :: u64
  st_last_applied_seq :: u64
  st_committed_seq :: u64
  st_partial_revision :: u64
  st_last_partial :: string
  st_finalized :: bool

definition new_inference_state :: "string \<Rightarrow> string \<Rightarrow> inference_state" where
  "new_inference_state sessionID mode =
     \<lparr> st_session_id = sessionID, st_utterance_id = 1, st_utterance_start_seq = 0,
       st_mode = mode, st_sample_rate_hz = 0, st_worker_id = '''', st_handle = '''',
       st_compatibility_key = '''', st_stream_epoch = 0, st_failover_epoch = 0,
       st_generation = 0, st_last_applied_seq = 0, st_committed_seq = 0,
       st_partial_revision = 0, st_last_partial = '''', st_finalized = False \<rparr>"

definition new_utterance :: "inference_state \<Rightarrow> inference_state" where
  "new_utterance s = s\<lparr> st_utterance_id := st_utterance_id s + 1, st_utterance_start_seq := 0,
     st_partial_revision := 0, st_last_partial := '''', st_finalized := False \<rparr>"

definition utterance_label :: "inference_state \<Rightarrow> string" where
  "utterance_label s = CHR ''u'' # decimal (unat (st_utterance_id s))"

section \<open>Transcript events and the emitter (events.go)\<close>

record final_event =
  fe_session_id :: string
  fe_utterance_id :: string
  fe_seq_start :: u64
  fe_seq_end :: u64
  fe_text :: string

datatype event =
    AckEvent string u64
  | SpeechStartEvent string string u64
  | PartialEvent string string u64 u64 string
      \<comment> \<open>session, utterance, revision, failover epoch, text\<close>
  | PartialResetEvent string string u64 u64
  | FinalEvent final_event
  | DiscontinuityEvent string u64 u64
  | ErrorEvent string string
  | OverloadedEvent string string int

datatype panic = PanicAfterFinal string string string | PanicNilLastFinal

text \<open>
  The emitter shares its state with the session loop through a pointer, so its
  operations take the state and return it; its own field is the last final.
\<close>

type_synonym last_final = "final_event option"

definition must_not_be_finalized :: "inference_state \<Rightarrow> string \<Rightarrow> panic option" where
  "must_not_be_finalized s eventType =
     (if st_finalized s
      then Some (PanicAfterFinal eventType (utterance_label s) (st_session_id s)) else None)"

definition em_ack :: "inference_state \<Rightarrow> u64 \<Rightarrow> event" where
  "em_ack s highest = AckEvent (st_session_id s) highest"

definition em_speech_start :: "inference_state \<Rightarrow> u64 \<Rightarrow> panic + (inference_state \<times> event)" where
  "em_speech_start s seqStart =
     (case must_not_be_finalized s ''speech.start'' of Some p \<Rightarrow> Inl p
      | None \<Rightarrow> let s' = s\<lparr>st_utterance_start_seq := seqStart\<rparr> in
          Inr (s', SpeechStartEvent (st_session_id s') (utterance_label s') seqStart))"

definition em_partial :: "inference_state \<Rightarrow> string \<Rightarrow> panic + (inference_state \<times> event)" where
  "em_partial s text =
     (case must_not_be_finalized s ''partial'' of Some p \<Rightarrow> Inl p
      | None \<Rightarrow>
          let s' = s\<lparr>st_partial_revision := st_partial_revision s + 1, st_last_partial := text\<rparr> in
          Inr (s', PartialEvent (st_session_id s') (utterance_label s') (st_partial_revision s')
                     (st_failover_epoch s') text))"

definition em_partial_reset :: "inference_state \<Rightarrow> panic + (inference_state \<times> event)" where
  "em_partial_reset s =
     (case must_not_be_finalized s ''partial.reset'' of Some p \<Rightarrow> Inl p
      | None \<Rightarrow>
          let s' = s\<lparr>st_partial_revision := st_partial_revision s + 1, st_last_partial := ''''\<rparr> in
          Inr (s', PartialResetEvent (st_session_id s') (utterance_label s')
                     (st_partial_revision s') (st_failover_epoch s')))"

text \<open>
  \<open>Final\<close> returns the event and \<open>isNew\<close>. A finalized state without a stored final
  would dereference a nil pointer.
\<close>

definition em_final :: "inference_state \<Rightarrow> last_final \<Rightarrow> string \<Rightarrow> u64 \<Rightarrow> u64 \<Rightarrow>
    panic + (inference_state \<times> last_final \<times> final_event \<times> bool)" where
  "em_final s lf text seqStart seqEnd =
     (if st_finalized s
      then (case lf of None \<Rightarrow> Inl PanicNilLastFinal | Some ev \<Rightarrow> Inr (s, lf, ev, False))
      else let s' = s\<lparr>st_finalized := True, st_committed_seq := seqEnd\<rparr>;
               ev = \<lparr> fe_session_id = st_session_id s', fe_utterance_id = utterance_label s',
                      fe_seq_start = seqStart, fe_seq_end = seqEnd, fe_text = text \<rparr>
           in Inr (s', Some ev, ev, True))"

definition em_discontinuity :: "inference_state \<Rightarrow> discontinuity_range \<Rightarrow> event" where
  "em_discontinuity s r = DiscontinuityEvent (st_session_id s) (dr_seq_start r) (dr_seq_end r)"

text \<open>\<open>retryAfter.Milliseconds()\<close> truncates the nanosecond count towards zero.\<close>

definition milliseconds :: "duration \<Rightarrow> int" where
  "milliseconds d = (if 0 \<le> d then d div 1000000 else - ((- d) div 1000000))"

definition em_overloaded :: "inference_state \<Rightarrow> string \<Rightarrow> duration \<Rightarrow> event" where
  "em_overloaded s reason retryAfter =
     OverloadedEvent (st_session_id s) reason (milliseconds retryAfter)"

definition em_error :: "inference_state \<Rightarrow> string \<Rightarrow> event" where
  "em_error s reason = ErrorEvent (st_session_id s) reason"

section \<open>The transcript contract\<close>

text \<open>
  The utterance an event belongs to (none for the session-scoped events) and the
  revision it carries.
\<close>

fun ev_utterance :: "event \<Rightarrow> string option" where
  "ev_utterance (SpeechStartEvent _ u _) = Some u"
| "ev_utterance (PartialEvent _ u _ _ _) = Some u"
| "ev_utterance (PartialResetEvent _ u _ _) = Some u"
| "ev_utterance (FinalEvent fe) = Some (fe_utterance_id fe)"
| "ev_utterance _ = None"

fun ev_revision :: "event \<Rightarrow> u64 option" where
  "ev_revision (PartialEvent _ _ r _ _) = Some r"
| "ev_revision (PartialResetEvent _ _ r _) = Some r"
| "ev_revision _ = None"

fun is_final :: "event \<Rightarrow> bool" where
  "is_final (FinalEvent _) = True"
| "is_final _ = False"

text \<open>
  Invariants 9 and 10 of the protocol as a relation between an event and a later
  one of the same utterance: revisions strictly increase, and after a final comes
  nothing but the same final again.
\<close>

definition follows_ok :: "event \<Rightarrow> event \<Rightarrow> bool" where
  "follows_ok a b \<longleftrightarrow>
     (ev_utterance a \<noteq> None \<and> ev_utterance a = ev_utterance b \<longrightarrow>
        (is_final a \<longrightarrow> b = a) \<and>
        (\<forall>r r'. ev_revision a = Some r \<and> ev_revision b = Some r' \<longrightarrow> r < r'))"

definition transcript_ok :: "event list \<Rightarrow> bool" where
  "transcript_ok evs \<longleftrightarrow> sorted_wrt follows_ok evs"

text \<open>
  What ties an emitter's state to the events it has produced. The labels used so
  far are those of the current and the earlier utterances; an event of the current
  one has a revision the counter has reached, and the current utterance has a final
  in the stream only as the stored last final.
\<close>

definition label_upto :: "nat \<Rightarrow> string \<Rightarrow> bool" where
  "label_upto n u \<longleftrightarrow> (\<exists>k \<le> n. u = CHR ''u'' # decimal k)"

definition event_known :: "inference_state \<Rightarrow> last_final \<Rightarrow> event \<Rightarrow> bool" where
  "event_known s lf e \<longleftrightarrow>
     (\<forall>u. ev_utterance e = Some u \<longrightarrow>
        label_upto (unat (st_utterance_id s)) u \<and>
        (u = utterance_label s \<longrightarrow>
           (\<forall>r. ev_revision e = Some r \<longrightarrow> r \<le> st_partial_revision s) \<and>
           (is_final e \<longrightarrow> st_finalized s \<and> (\<exists>f. lf = Some f \<and> e = FinalEvent f))))"

definition emitter_inv :: "inference_state \<Rightarrow> last_final \<Rightarrow> event list \<Rightarrow> bool" where
  "emitter_inv s lf evs \<longleftrightarrow>
     transcript_ok evs
   \<and> (\<forall>e \<in> set evs. event_known s lf e)
   \<and> unat (st_partial_revision s) \<le> length evs
   \<and> unat (st_utterance_id s) \<le> (if st_finalized s then length evs else Suc (length evs))
   \<and> (st_finalized s \<longrightarrow> (\<exists>f. lf = Some f \<and> fe_utterance_id f = utterance_label s))"

subsection \<open>Preservation, one lemma per operation\<close>

lemma label_upto_current [simp]: "label_upto (unat (st_utterance_id s)) (utterance_label s)"
  by (auto simp: label_upto_def utterance_label_def)

lemma label_upto_mono: "label_upto n u \<Longrightarrow> n \<le> m \<Longrightarrow> label_upto m u"
  by (auto simp: label_upto_def intro: order_trans)

lemma label_not_upto: "n < unat (st_utterance_id s) \<Longrightarrow> \<not> label_upto n (utterance_label s)"
  by (auto simp: label_upto_def utterance_label_def)

lemma utterance_label_cong:
  "st_utterance_id s' = st_utterance_id s \<Longrightarrow> utterance_label s' = utterance_label s"
  by (simp add: utterance_label_def)

lemma emitter_inv_cong:
  assumes "st_utterance_id s' = st_utterance_id s" "st_partial_revision s' = st_partial_revision s"
    "st_finalized s' = st_finalized s"
  shows "emitter_inv s' lf evs \<longleftrightarrow> emitter_inv s lf evs"
  using assms by (simp add: emitter_inv_def event_known_def utterance_label_def)

lemma transcript_ok_snoc:
  "transcript_ok (evs @ [e]) \<longleftrightarrow> transcript_ok evs \<and> (\<forall>a \<in> set evs. follows_ok a e)"
  by (auto simp: transcript_ok_def sorted_wrt_append)

lemma emitter_inv_session_scoped [inv_intros]:
  assumes "emitter_inv s lf evs" "ev_utterance e = None"
  shows "emitter_inv s lf (evs @ [e])"
  using assms by (auto simp: emitter_inv_def transcript_ok_snoc follows_ok_def event_known_def
      split: if_splits)

text \<open>
  An event of the current, still open utterance: it may follow everything emitted
  so far if its revision is above the counter.
\<close>

lemma known_follows_ok:
  assumes "event_known s lf a" "ev_utterance e = Some (utterance_label s)"
    "\<not> st_finalized s" "\<And>r. ev_revision e = Some r \<Longrightarrow> st_partial_revision s < r"
  shows "follows_ok a e"
  using assms by (auto simp: follows_ok_def event_known_def dest: order.strict_trans1)

lemma event_known_not_final:
  assumes "event_known s lf a" "\<not> st_finalized s"
    and "st_utterance_id s' = st_utterance_id s" "st_partial_revision s \<le> st_partial_revision s'"
  shows "event_known s' lf' a"
proof (cases "ev_utterance a")
  case None
  then show ?thesis by (simp add: event_known_def)
next
  case (Some u)
  then show ?thesis using assms(1,2,4)
    by (auto simp: event_known_def utterance_label_cong [OF assms(3)] assms(3) intro: order_trans)
qed

lemma emitter_inv_snoc:
  assumes "emitter_inv s lf evs"
    and "\<And>a. a \<in> set evs \<Longrightarrow> event_known s lf a \<Longrightarrow> follows_ok a e"
    and "\<And>a. a \<in> set evs \<Longrightarrow> event_known s lf a \<Longrightarrow> event_known s' lf' a"
    and "event_known s' lf' e"
    and "unat (st_partial_revision s') \<le> Suc (length evs)"
    and "unat (st_utterance_id s') \<le> (if st_finalized s' then Suc (length evs) else Suc (Suc (length evs)))"
    and "st_finalized s' \<Longrightarrow> \<exists>f. lf' = Some f \<and> fe_utterance_id f = utterance_label s'"
  shows "emitter_inv s' lf' (evs @ [e])"
proof -
  have known: "\<forall>a\<in>set evs. event_known s lf a" and ok: "transcript_ok evs"
    using assms(1) by (simp_all add: emitter_inv_def)
  show ?thesis
    by (cases "st_finalized s'")
      (use known ok assms(2-7) in \<open>simp_all add: emitter_inv_def transcript_ok_snoc ball_Un\<close>)
qed

lemma emitter_invD:
  assumes "emitter_inv s lf evs"
  shows "unat (st_partial_revision s) \<le> length evs"
    and "\<not> st_finalized s \<Longrightarrow> unat (st_utterance_id s) \<le> Suc (length evs)"
    and "st_finalized s \<Longrightarrow> unat (st_utterance_id s) \<le> length evs"
    and "st_finalized s \<Longrightarrow> \<exists>f. lf = Some f \<and> fe_utterance_id f = utterance_label s"
  using assms by (simp_all add: emitter_inv_def)

lemma emitter_inv_new_state:
  assumes "emitter_inv s lf evs" "length evs < 2 ^ 64 - 1" "\<not> st_finalized s"
    and "st_utterance_id s' = st_utterance_id s" "st_finalized s' = st_finalized s"
    and "st_partial_revision s' = st_partial_revision s + 1"
    and "ev_utterance e = Some (utterance_label s)" "ev_revision e = Some (st_partial_revision s')"
    and "\<not> is_final e"
  shows "emitter_inv s' lf (evs @ [e])"
proof -
  have rev: "unat (st_partial_revision s) \<le> length evs" and known: "\<forall>a\<in>set evs. event_known s lf a"
    using assms(1) by (simp_all add: emitter_inv_def)
  have "st_partial_revision s \<noteq> - 1" using rev assms(2) by (intro not_max64) linarith
  then have up: "unat (st_partial_revision s') = Suc (unat (st_partial_revision s))"
    by (simp add: assms unat_plus_one)
  then have less: "st_partial_revision s < st_partial_revision s'"
    by (simp add: word_less_nat_alt)
  have lab: "utterance_label s' = utterance_label s" by (simp add: utterance_label_def assms)
  show ?thesis
  proof (rule emitter_inv_snoc [OF assms(1)])
    show "follows_ok a e" if "event_known s lf a" for a
      using assms(3,7,8) less by (intro known_follows_ok [OF that]) auto
    show "event_known s' lf a" if "event_known s lf a" for a
      using assms(3,4) less by (intro event_known_not_final [OF that]) auto
    show "event_known s' lf e"
      using assms(4,7-9) lab label_upto_current [of s'] by (simp add: event_known_def)
  qed (use rev up emitter_invD(2) [OF assms(1,3)] assms(3-5) in auto)
qed

lemma em_partial_inv [inv_intros]:
  assumes "emitter_inv s lf evs" "length evs < 2 ^ 64 - 1" "em_partial s t = Inr (s', e)"
  shows "emitter_inv s' lf (evs @ [e])"
  using assms by (auto simp: em_partial_def must_not_be_finalized_def Let_def utterance_label_def
      intro!: emitter_inv_new_state [of s lf evs] split: if_splits)

lemma em_partial_reset_inv [inv_intros]:
  assumes "emitter_inv s lf evs" "length evs < 2 ^ 64 - 1" "em_partial_reset s = Inr (s', e)"
  shows "emitter_inv s' lf (evs @ [e])"
  using assms by (auto simp: em_partial_reset_def must_not_be_finalized_def Let_def
      utterance_label_def intro!: emitter_inv_new_state [of s lf evs] split: if_splits)

lemma em_speech_start_inv [inv_intros]:
  assumes inv: "emitter_inv s lf evs" and run: "em_speech_start s q = Inr (s', e)"
  shows "emitter_inv s' lf (evs @ [e])"
proof -
  from run have open_: "\<not> st_finalized s" and e: "e = SpeechStartEvent (st_session_id s) (utterance_label s) q"
    and s': "s' = s\<lparr>st_utterance_start_seq := q\<rparr>"
    by (auto simp: em_speech_start_def must_not_be_finalized_def Let_def utterance_label_def
        split: if_splits)
  have "emitter_inv s lf (evs @ [e])"
  proof (rule emitter_inv_snoc [OF inv])
    show "follows_ok a e" if "event_known s lf a" for a
      using open_ by (intro known_follows_ok [OF that]) (auto simp: e)
    show "event_known s lf e" by (simp add: e event_known_def)
  qed (use emitter_invD [OF inv] open_ in auto)
  then show ?thesis by (subst emitter_inv_cong [of s' s]) (simp_all add: s')
qed

lemma follows_repeated_final:
  assumes "event_known s (Some f) a" "fe_utterance_id f = utterance_label s"
  shows "follows_ok a (FinalEvent f)"
proof (cases "ev_utterance a = Some (utterance_label s)")
  case True
  then show ?thesis using assms by (auto simp: follows_ok_def event_known_def)
next
  case False
  then show ?thesis using assms(2) by (auto simp: follows_ok_def)
qed

lemma em_final_inv [inv_intros]:
  assumes inv: "emitter_inv s lf evs" and run: "em_final s lf t a b = Inr (s', lf', f, n)"
  shows "emitter_inv s' lf' (evs @ [FinalEvent f])"
proof (cases "st_finalized s")
  case True
  with run have same: "s' = s" "lf' = Some f" "lf = Some f"
    by (auto simp: em_final_def split: option.splits)
  from inv True same have lab: "fe_utterance_id f = utterance_label s"
    by (auto simp: emitter_inv_def)
  show ?thesis unfolding same(1,2)
  proof (rule emitter_inv_snoc [OF inv])
    show "follows_ok a (FinalEvent f)" if "event_known s lf a" for a
      using that lab by (auto simp: same(3) intro: follows_repeated_final)
    show "event_known s (Some f) (FinalEvent f)"
      using True lab by (simp add: event_known_def)
  qed (use emitter_invD [OF inv] True lab in \<open>auto simp: same(3)\<close>)
next
  case False
  with run have s': "s' = s\<lparr>st_finalized := True, st_committed_seq := b\<rparr>" and lf': "lf' = Some f"
    and lab: "fe_utterance_id f = utterance_label s"
    by (auto simp: em_final_def Let_def utterance_label_def)
  have lab': "utterance_label s' = utterance_label s" by (simp add: s' utterance_label_def)
  show ?thesis
  proof (rule emitter_inv_snoc [OF inv])
    show "follows_ok a (FinalEvent f)" if "event_known s lf a" for a
      using False lab by (intro known_follows_ok [OF that]) auto
    show "event_known s' lf' a" if "event_known s lf a" for a
      using False by (intro event_known_not_final [OF that]) (auto simp: s')
    show "event_known s' lf' (FinalEvent f)"
      using lab lab' label_upto_current [of s'] by (simp add: event_known_def s' lf')
  qed (use emitter_invD [OF inv] False lab lab' in \<open>auto simp: s' lf'\<close>)
qed

lemma new_utterance_inv [inv_intros]:
  assumes inv: "emitter_inv s lf evs" and fin: "st_finalized s" and len: "length evs < 2 ^ 64 - 1"
  shows "emitter_inv (new_utterance s) lf evs"
proof -
  have uid: "unat (st_utterance_id s) \<le> length evs" using inv fin by (simp add: emitter_inv_def)
  have "st_utterance_id s \<noteq> - 1" using uid len by (intro not_max64) linarith
  then have up: "unat (st_utterance_id (new_utterance s)) = Suc (unat (st_utterance_id s))"
    by (simp add: new_utterance_def unat_plus_one)
  have known: "event_known (new_utterance s) lf e" if e: "event_known s lf e" for e
  proof (cases "ev_utterance e")
    case None
    then show ?thesis by (simp add: event_known_def)
  next
    case (Some u)
    then have u: "label_upto (unat (st_utterance_id s)) u" using e by (simp add: event_known_def)
    then have "label_upto (unat (st_utterance_id (new_utterance s))) u"
      by (rule label_upto_mono) (simp add: up)
    moreover have "u \<noteq> utterance_label (new_utterance s)"
      using u label_not_upto [of "unat (st_utterance_id s)" "new_utterance s"] up by auto
    ultimately show ?thesis using Some by (simp add: event_known_def)
  qed
  have "st_partial_revision (new_utterance s) = 0" "\<not> st_finalized (new_utterance s)"
    by (simp_all add: new_utterance_def)
  then show ?thesis using inv uid up known by (simp add: emitter_inv_def)
qed

lemma new_session_inv: "emitter_inv (new_inference_state sid m) lf []"
  by (simp add: emitter_inv_def transcript_ok_def new_inference_state_def)

text \<open>The guard: after a final the open-utterance operations panic, and only they.\<close>

lemma panics_iff_finalized:
  shows "(\<exists>p. em_partial s t = Inl p) \<longleftrightarrow> st_finalized s"
    and "(\<exists>p. em_partial_reset s = Inl p) \<longleftrightarrow> st_finalized s"
    and "(\<exists>p. em_speech_start s q = Inl p) \<longleftrightarrow> st_finalized s"
  by (auto simp: em_partial_def em_partial_reset_def em_speech_start_def
      must_not_be_finalized_def Let_def)

section \<open>Every run of the emitter\<close>

text \<open>
  The session loop as the emitter sees it: it emits, it opens the next utterance
  after a final, and it changes fields the contract does not depend on (the worker
  bound to the session, the epochs, the applied and committed sequence).
\<close>

type_synonym em_config = "inference_state \<times> last_final \<times> event list"

inductive em_step :: "em_config \<Rightarrow> em_config \<Rightarrow> bool" where
  step_ack: "em_step (s, lf, evs) (s, lf, evs @ [em_ack s q])"
| step_start: "em_speech_start s q = Inr (s', e) \<Longrightarrow> em_step (s, lf, evs) (s', lf, evs @ [e])"
| step_partial: "em_partial s t = Inr (s', e) \<Longrightarrow> em_step (s, lf, evs) (s', lf, evs @ [e])"
| step_reset: "em_partial_reset s = Inr (s', e) \<Longrightarrow> em_step (s, lf, evs) (s', lf, evs @ [e])"
| step_final: "em_final s lf t a b = Inr (s', lf', fe, isNew) \<Longrightarrow>
    em_step (s, lf, evs) (s', lf', evs @ [FinalEvent fe])"
| step_discontinuity: "em_step (s, lf, evs) (s, lf, evs @ [em_discontinuity s r])"
| step_overloaded: "em_step (s, lf, evs) (s, lf, evs @ [em_overloaded s t d])"
| step_error: "em_step (s, lf, evs) (s, lf, evs @ [em_error s t])"
| step_next: "st_finalized s \<Longrightarrow> em_step (s, lf, evs) (new_utterance s, lf, evs)"
| step_other: "\<lbrakk>st_utterance_id s' = st_utterance_id s; st_partial_revision s' = st_partial_revision s;
     st_finalized s' = st_finalized s\<rbrakk> \<Longrightarrow> em_step (s, lf, evs) (s', lf, evs)"

inductive_cases em_stepE: "em_step (s, lf, evs) c"
inductive_simps em_step_simps: "em_step (s, lf, evs) (s', lf', evs')"

lemma em_step_inv:
  assumes "em_step (s, lf, evs) (s', lf', evs')" "emitter_inv s lf evs" "length evs < 2 ^ 64 - 1"
  shows "emitter_inv s' lf' evs'"
  using assms(1)
proof cases
  case step_start
  then show ?thesis using assms(2) by (blast intro: em_speech_start_inv)
next
  case step_partial
  then show ?thesis using assms(2,3) by (blast intro: em_partial_inv)
next
  case step_reset
  then show ?thesis using assms(2,3) by (blast intro: em_partial_reset_inv)
next
  case step_final
  then show ?thesis using assms(2) by (blast intro: em_final_inv)
next
  case step_next
  then show ?thesis using assms(2,3) by (blast intro: new_utterance_inv)
next
  case step_other
  then show ?thesis using assms(2) emitter_inv_cong [of s' s lf evs] by simp
qed (simp_all add: assms(2) emitter_inv_session_scoped em_ack_def em_discontinuity_def
    em_overloaded_def em_error_def)

lemma em_step_length: "em_step (s, lf, evs) (s', lf', evs') \<Longrightarrow> length evs \<le> length evs'"
  by (erule em_stepE) auto

lemma em_run_inv:
  assumes "em_step\<^sup>*\<^sup>* (s, lf, evs) (s', lf', evs')" "emitter_inv s lf evs" "length evs' < 2 ^ 64 - 1"
  shows "emitter_inv s' lf' evs'"
  using assms
proof (induction "(s', lf', evs')" arbitrary: s' lf' evs' rule: rtranclp_induct)
  case base
  then show ?case by simp
next
  case (step c)
  obtain s1 lf1 evs1 where c: "c = (s1, lf1, evs1)" by (cases c)
  have "length evs1 < 2 ^ 64 - 1"
    using em_step_length step.hyps(2) step.prems(2) unfolding c by fastforce
  then show ?case using step.hyps(3) [OF c step.prems(1)] step.hyps(2) c em_step_inv by blast
qed

section \<open>Properties\<close>

text \<open>
  While no frame carries the last sequence number, the frames the validator
  accepts have strictly increasing sequence numbers, and together with the
  discontinuity ranges it reports they cover the numbers from 0 to the next
  expected one exactly: nothing is accepted twice, and nothing is lost unreported.
\<close>

theorem validator_accounts_for_every_frame:
  assumes "- 1 \<notin> set ss" "validate_all new_seq_validator ss = (acc, gaps, v)"
  shows "unat ` set acc \<union> \<Union> (range_nats ` set gaps) = {0 ..< unat (sv_expected v)}
    \<and> sorted_wrt (<) acc \<and> (\<forall>r \<in> set gaps. unat ` set acc \<inter> range_nats r = {})"
  using validate_all_partition [OF assms] by (simp add: new_seq_validator_def)

theorem validator_accounts_for_every_frame_witness:
  "unat ` set [0, 1, 4 :: u64] \<union> \<Union> (range_nats ` set [\<lparr>dr_seq_start = 2, dr_seq_end = 4\<rparr>])
     = {0 ..< unat (sv_expected \<lparr>sv_expected = 5\<rparr>)}"
  using validator_accounts_for_every_frame
    [of "[0, 1, 1, 4]" "[0, 1, 4]" "[\<lparr>dr_seq_start = 2, dr_seq_end = 4\<rparr>]" "\<lparr>sv_expected = 5\<rparr>"]
  by (simp add: validate_def new_seq_validator_def no_range_def)

text \<open>
  C8: whatever a session does with its emitter, starting from a fresh state, the
  events it has emitted obey the transcript contract: within an utterance the
  revisions of partials and resets strictly increase, and after a final of an
  utterance no event of it follows other than that same final.
\<close>

theorem emitter_keeps_transcript_contract:
  assumes "em_step\<^sup>*\<^sup>* (new_inference_state sid mode, None, []) (s, lf, evs)"
    and "length evs < 2 ^ 64 - 1"
  shows "transcript_ok evs"
  using em_run_inv [OF assms(1) new_session_inv assms(2)] by (simp add: emitter_inv_def)

lemma em_run_example:
  "em_step\<^sup>*\<^sup>* (new_inference_state ''s'' ''online'', None, [])
     ((new_inference_state ''s'' ''online'')\<lparr>st_partial_revision := 1, st_last_partial := ''hi'',
         st_finalized := True, st_committed_seq := 9\<rparr>,
      Some \<lparr>fe_session_id = ''s'', fe_utterance_id = ''u1'', fe_seq_start = 3, fe_seq_end = 9, fe_text = ''hi''\<rparr>,
      [PartialEvent ''s'' ''u1'' 1 0 ''hi'',
       FinalEvent \<lparr>fe_session_id = ''s'', fe_utterance_id = ''u1'', fe_seq_start = 3, fe_seq_end = 9, fe_text = ''hi''\<rparr>])"
  (is "em_step\<^sup>*\<^sup>* (?s, None, []) (?s2, Some ?f, ?evs)")
proof (rule converse_rtranclp_into_rtranclp)
  let ?s1 = "?s\<lparr>st_partial_revision := 1, st_last_partial := ''hi''\<rparr>"
  have "em_partial ?s ''hi'' = Inr (?s1, PartialEvent ''s'' ''u1'' 1 0 ''hi'')"
    by (simp add: em_partial_def must_not_be_finalized_def utterance_label_def
        new_inference_state_def)
  then show "em_step (?s, None, []) (?s1, None, [] @ [PartialEvent ''s'' ''u1'' 1 0 ''hi''])"
    by (rule step_partial)
  have "em_final ?s1 None ''hi'' 3 9 = Inr (?s2, Some ?f, ?f, True)"
    by (simp add: em_final_def utterance_label_def new_inference_state_def Let_def)
  from step_final [OF this, of "[PartialEvent ''s'' ''u1'' 1 0 ''hi'']"]
  show "em_step\<^sup>*\<^sup>* (?s1, None, [] @ [PartialEvent ''s'' ''u1'' 1 0 ''hi'']) (?s2, Some ?f, ?evs)"
    by (simp add: r_into_rtranclp)
qed

theorem emitter_keeps_transcript_contract_witness:
  "transcript_ok [PartialEvent ''s'' ''u1'' 1 0 ''hi'',
     FinalEvent \<lparr>fe_session_id = ''s'', fe_utterance_id = ''u1'', fe_seq_start = 3, fe_seq_end = 9, fe_text = ''hi''\<rparr>]"
  by (rule emitter_keeps_transcript_contract [OF em_run_example]) simp

end
