(* ===== verification/Audio.thy ===== *)
theory Audio
  imports Wire
begin

text \<open>
  \<^verbatim>\<open>internal/audio\<close>: the chunk accumulator and the pass-through pipeline
  (pipeline.go), the VAD pipeline with its reframer, hysteresis and pre-roll
  (vad.go) and the WAV container (wav.go). The voice detector is third-party code
  and is a parameter: a function on its own state. The interface the rest of the
  system sees is the locale \<open>recutting\<close>; its client lemma says that replaying the
  journaled records cuts the chunks the live pipeline dispatched, whatever the
  schedule on which they were drained, and both pipelines are instances of it.
\<close>

section \<open>Data\<close>

record audio_ref =
  ref_seq :: u64
  ref_duration_ms :: float64
  ref_voiced :: bool

record chunk =
  ck_id :: u64
  ck_seq_start :: u64
  ck_seq_end :: u64
  ck_bytes :: "byte list"

record audio_record =
  rc_seq :: u64
  rc_duration_ms :: float64
  rc_voiced :: bool
  rc_payload :: "byte list"

record span =
  sp_chunk_id :: u64
  sp_seq_start :: u64
  sp_seq_end :: u64

datatype event_type = EventSpeechStart | EventEndpoint

record boundary_event =
  be_type :: event_type
  be_seq :: u64

section \<open>The accumulator\<close>

record accumulator =
  ac_chunk_ms :: float64
  ac_next_id :: u64
  ac_pending :: "byte list"
  ac_pending_ms :: float64
  ac_pending_start :: u64
  ac_pending_end :: u64
  ac_has_pending :: bool

definition new_accumulator :: "float64 \<Rightarrow> accumulator" where
  "new_accumulator chunkMs =
     \<lparr> ac_chunk_ms = chunkMs, ac_next_id = 0, ac_pending = [], ac_pending_ms = 0,
       ac_pending_start = 0, ac_pending_end = 0, ac_has_pending = False \<rparr>"

definition cut_pending :: "accumulator \<Rightarrow> chunk list \<times> accumulator" where
  "cut_pending a =
     ([\<lparr> ck_id = ac_next_id a, ck_seq_start = ac_pending_start a,
         ck_seq_end = ac_pending_end a, ck_bytes = ac_pending a \<rparr>],
      a\<lparr> ac_next_id := ac_next_id a + 1, ac_pending := [], ac_pending_ms := 0,
         ac_has_pending := False \<rparr>)"

definition feed :: "accumulator \<Rightarrow> u64 \<Rightarrow> float64 \<Rightarrow> bool \<Rightarrow> byte list \<Rightarrow> chunk list \<times> accumulator" where
  "feed a seq durationMs voiced payload =
     (if \<not> voiced then ([], a)
      else
        let a1 = (if ac_has_pending a then a
                  else a\<lparr>ac_pending_start := seq, ac_has_pending := True\<rparr>);
            a2 = a1\<lparr> ac_pending := ac_pending a1 @ payload,
                     ac_pending_ms := ac_pending_ms a1 + durationMs,
                     ac_pending_end := seq \<rparr>
        in if ac_pending_ms a2 < ac_chunk_ms a2 then ([], a2) else cut_pending a2)"

definition force_cut :: "accumulator \<Rightarrow> chunk list \<times> accumulator" where
  "force_cut a = (if \<not> ac_has_pending a then ([], a) else cut_pending a)"

section \<open>The pass-through pipeline\<close>

record passthrough =
  pp_sample_rate_hz :: u32
  pp_live :: accumulator
  pp_ready :: "chunk list"

definition new_passthrough :: "u32 \<Rightarrow> float64 \<Rightarrow> passthrough" where
  "new_passthrough sampleRateHz chunkMs =
     \<lparr> pp_sample_rate_hz = sampleRateHz, pp_live = new_accumulator chunkMs, pp_ready = [] \<rparr>"

definition pp_ingest :: "passthrough \<Rightarrow> frame \<Rightarrow> audio_ref \<times> passthrough" where
  "pp_ingest p f =
     (let dur = duration_ms f (pp_sample_rate_hz p);
          (cks, live) = feed (pp_live p) (f_seq f) dur True (f_payload f)
      in (\<lparr> ref_seq = f_seq f, ref_duration_ms = dur, ref_voiced = True \<rparr>,
          p\<lparr> pp_live := live, pp_ready := pp_ready p @ cks \<rparr>))"

definition pp_drain :: "passthrough \<Rightarrow> chunk list \<times> passthrough" where
  "pp_drain p = (pp_ready p, p\<lparr>pp_ready := []\<rparr>)"

definition pp_boundary :: "passthrough \<Rightarrow> boundary_event option" where
  "pp_boundary p = None"

definition pp_retention_start :: "passthrough \<Rightarrow> u64 option" where
  "pp_retention_start p = None"

definition pp_flush :: "passthrough \<Rightarrow> chunk list \<times> passthrough" where
  "pp_flush p = (let (cks, live) = force_cut (pp_live p) in (cks, p\<lparr>pp_live := live\<rparr>))"

fun recut_with :: "accumulator \<Rightarrow> audio_record list \<Rightarrow> chunk list" where
  "recut_with acc [] = []"
| "recut_with acc (r # rs) =
     (let (cks, acc') = feed acc (rc_seq r) (rc_duration_ms r) (rc_voiced r) (rc_payload r)
      in cks @ recut_with acc' rs)"

definition pp_recut :: "passthrough \<Rightarrow> audio_record list \<Rightarrow> chunk list" where
  "pp_recut p records = recut_with (new_accumulator (ac_chunk_ms (pp_live p))) records"

section \<open>The VAD pipeline\<close>

record vad_config =
  vc_window_ms :: int
  vc_start_speech_ms :: int
  vc_end_silence_ms :: int
  vc_pre_roll_ms :: int

definition DefaultVADConfig :: vad_config where
  "DefaultVADConfig = \<lparr> vc_window_ms = 20, vc_start_speech_ms = 40, vc_end_silence_ms = 600,
     vc_pre_roll_ms = 160 \<rparr>"

datatype audio_error =
    UnsupportedRate u32
  | BadWindow int
  | BadHysteresis
  | OddPayload nat
  | VADDecision string

definition vad_config_validate :: "vad_config \<Rightarrow> u32 \<Rightarrow> audio_error option" where
  "vad_config_validate c sampleRateHz =
     (if sampleRateHz \<noteq> 8000 \<and> sampleRateHz \<noteq> 16000 \<and> sampleRateHz \<noteq> 32000 \<and> sampleRateHz \<noteq> 48000
      then Some (UnsupportedRate sampleRateHz)
      else if vc_window_ms c \<noteq> 10 \<and> vc_window_ms c \<noteq> 20 \<and> vc_window_ms c \<noteq> 30
      then Some (BadWindow (vc_window_ms c))
      else if vc_start_speech_ms c < vc_window_ms c \<or> vc_end_silence_ms c < vc_window_ms c
              \<or> vc_pre_roll_ms c < 0
      then Some BadHysteresis
      else None)"

record pending_record =
  pr_seq :: u64
  pr_duration_ms :: float64
  pr_payload :: "byte list"

text \<open>
  The pipeline without its detector: the detector's state \<open>'d\<close> and its decision
  function are passed beside it to the one operation that uses them.
\<close>

record vad_pipeline =
  vp_sample_rate_hz :: u32
  vp_config :: vad_config
  vp_reframe :: "16 word list"
  vp_live :: accumulator
  vp_ready :: "chunk list"
  vp_boundaries :: "boundary_event list"
  vp_active :: bool
  vp_voice_ms :: int
  vp_silence_ms :: int
  vp_pre_roll :: "pending_record list"
  vp_pre_roll_ms :: float64

type_synonym 'd vad = "'d \<Rightarrow> 16 word list \<Rightarrow> (string + bool) \<times> 'd"

definition new_vad_pipeline :: "u32 \<Rightarrow> float64 \<Rightarrow> vad_config \<Rightarrow> vad_pipeline" where
  "new_vad_pipeline sampleRateHz chunkMs cfg =
     \<lparr> vp_sample_rate_hz = sampleRateHz, vp_config = cfg, vp_reframe = [],
       vp_live = new_accumulator chunkMs, vp_ready = [], vp_boundaries = [], vp_active = False,
       vp_voice_ms = 0, vp_silence_ms = 0, vp_pre_roll = [], vp_pre_roll_ms = 0 \<rparr>"

fun pair_le :: "byte list \<Rightarrow> 16 word list" where
  "pair_le (a # b # rest) = le_get [a, b] # pair_le rest"
| "pair_le _ = []"

definition decode_pcm16le :: "byte list \<Rightarrow> audio_error + 16 word list" where
  "decode_pcm16le payload =
     (if length payload mod BytesPerSample \<noteq> 0 then Inl (OddPayload (length payload))
      else Inr (pair_le payload))"

text \<open>
  The trimming loop of \<open>keepPreRoll\<close>: records leave the front while the total
  exceeds the configured pre-roll.
\<close>

fun trim_pre_roll :: "float64 \<Rightarrow> pending_record list \<Rightarrow> float64 \<Rightarrow> pending_record list \<times> float64" where
  "trim_pre_roll limit [] tot = ([], tot)"
| "trim_pre_roll limit (r # rs) tot =
     (if limit < tot then trim_pre_roll limit rs (tot - pr_duration_ms r) else (r # rs, tot))"

definition keep_pre_roll :: "vad_pipeline \<Rightarrow> u64 \<Rightarrow> float64 \<Rightarrow> byte list \<Rightarrow> vad_pipeline" where
  "keep_pre_roll p seq durationMs payload =
     (let (roll, tot) = trim_pre_roll (of_int (vc_pre_roll_ms (vp_config p)))
            (vp_pre_roll p @ [\<lparr> pr_seq = seq, pr_duration_ms = durationMs, pr_payload = payload \<rparr>])
            (vp_pre_roll_ms p + durationMs)
      in p\<lparr> vp_pre_roll := roll, vp_pre_roll_ms := tot \<rparr>)"

fun feed_pending :: "accumulator \<Rightarrow> pending_record list \<Rightarrow> chunk list \<times> accumulator" where
  "feed_pending a [] = ([], a)"
| "feed_pending a (r # rs) =
     (let (c1, a1) = feed a (pr_seq r) (pr_duration_ms r) True (pr_payload r);
          (c2, a2) = feed_pending a1 rs
      in (c1 @ c2, a2))"

definition apply_hysteresis :: "vad_pipeline \<Rightarrow> u64 \<Rightarrow> float64 \<Rightarrow> byte list \<Rightarrow> bool \<Rightarrow> vad_pipeline" where
  "apply_hysteresis p seq durationMs payload rawVoice =
     (if \<not> vp_active p then
        let p1 = keep_pre_roll p seq durationMs payload;
            p2 = p1\<lparr>vp_voice_ms := (if rawVoice then vp_voice_ms p1 + trunc64 durationMs else 0)\<rparr>
        in if vp_voice_ms p2 < vc_start_speech_ms (vp_config p2) then p2
           else let (cks, live) = feed_pending (vp_live p2) (vp_pre_roll p2)
                in p2\<lparr> vp_active := True, vp_voice_ms := 0, vp_silence_ms := 0,
                       vp_boundaries := vp_boundaries p2 @ [\<lparr>be_type = EventSpeechStart, be_seq = seq\<rparr>],
                       vp_ready := vp_ready p2 @ cks, vp_live := live,
                       vp_pre_roll := [], vp_pre_roll_ms := 0 \<rparr>
      else if rawVoice then
        let (cks, live) = feed (vp_live p) seq durationMs True payload
        in p\<lparr> vp_silence_ms := 0, vp_pre_roll := [], vp_pre_roll_ms := 0,
              vp_ready := vp_ready p @ cks, vp_live := live \<rparr>
      else
        let p1 = keep_pre_roll p seq durationMs payload;
            p2 = p1\<lparr>vp_silence_ms := vp_silence_ms p1 + trunc64 durationMs\<rparr>
        in if vp_silence_ms p2 < vc_end_silence_ms (vp_config p2) then p2
           else keep_pre_roll
                  (p2\<lparr> vp_active := False, vp_silence_ms := 0,
                       vp_boundaries := vp_boundaries p2 @ [\<lparr>be_type = EventEndpoint, be_seq = seq\<rparr>] \<rparr>)
                  seq durationMs payload)"

definition window_samples :: "vad_pipeline \<Rightarrow> nat" where
  "window_samples p = nat (int (unat (vp_sample_rate_hz p)) * vc_window_ms (vp_config p) div 1000)"

text \<open>
  The reframing loop: the detector's decisions on the complete windows are
  disjoined; a detector error leaves the failing window in the buffer. A validated
  configuration has a window of at least 80 samples; for an empty window the Go
  loop would not end, and the definition stops.
\<close>

function vad_windows :: "'d vad \<Rightarrow> nat \<Rightarrow> 'd \<Rightarrow> 16 word list \<Rightarrow> bool \<Rightarrow>
    (string + bool) \<times> 'd \<times> 16 word list" where
  "vad_windows speech w d buf rawVoice =
     (if w = 0 \<or> length buf < w then (Inr rawVoice, d, buf)
      else case speech d (take w buf) of
             (Inl e, d') \<Rightarrow> (Inl e, d', buf)
           | (Inr voice, d') \<Rightarrow> vad_windows speech w d' (drop w buf) (rawVoice \<or> voice))"
  by pat_completeness auto
termination by (relation "measure (\<lambda>(_, _, _, buf, _). length buf)") auto

declare vad_windows.simps [simp del]

definition vad_ingest :: "'d vad \<Rightarrow> vad_pipeline \<Rightarrow> 'd \<Rightarrow> frame \<Rightarrow>
    (audio_error + audio_ref) \<times> vad_pipeline \<times> 'd" where
  "vad_ingest speech p d f =
     (case decode_pcm16le (f_payload f) of
        Inl e \<Rightarrow> (Inl e, p, d)
      | Inr samples \<Rightarrow>
          (case vad_windows speech (window_samples p) d (vp_reframe p @ samples) False of
             (Inl e, d', buf) \<Rightarrow> (Inl (VADDecision e), p\<lparr>vp_reframe := buf\<rparr>, d')
           | (Inr rawVoice, d', buf) \<Rightarrow>
               let durationMs = duration_ms f (vp_sample_rate_hz p) in
               (Inr \<lparr> ref_seq = f_seq f, ref_duration_ms = durationMs, ref_voiced = rawVoice \<rparr>,
                apply_hysteresis (p\<lparr>vp_reframe := buf\<rparr>) (f_seq f) durationMs (f_payload f) rawVoice,
                d')))"

definition vad_drain :: "vad_pipeline \<Rightarrow> chunk list \<times> vad_pipeline" where
  "vad_drain p = (vp_ready p, p\<lparr>vp_ready := []\<rparr>)"

definition vad_boundary :: "vad_pipeline \<Rightarrow> boundary_event option \<times> vad_pipeline" where
  "vad_boundary p =
     (case vp_boundaries p of [] \<Rightarrow> (None, p) | ev # evs \<Rightarrow> (Some ev, p\<lparr>vp_boundaries := evs\<rparr>))"

definition vad_retention_start :: "vad_pipeline \<Rightarrow> u64 option" where
  "vad_retention_start p = (case vp_pre_roll p of [] \<Rightarrow> None | r # _ \<Rightarrow> Some (pr_seq r))"

definition vad_flush :: "vad_pipeline \<Rightarrow> chunk list \<times> vad_pipeline" where
  "vad_flush p = (let (cks, live) = force_cut (vp_live p) in (cks, p\<lparr>vp_live := live\<rparr>))"

fun vad_recut_with :: "vad_pipeline \<Rightarrow> audio_record list \<Rightarrow> chunk list" where
  "vad_recut_with p [] = []"
| "vad_recut_with p (r # rs) =
     (let (cks, p') = vad_drain (apply_hysteresis p (rc_seq r) (rc_duration_ms r) (rc_payload r) (rc_voiced r))
      in cks @ vad_recut_with p' rs)"

definition vad_recut :: "vad_pipeline \<Rightarrow> audio_record list \<Rightarrow> chunk list" where
  "vad_recut p records =
     vad_recut_with (new_vad_pipeline (vp_sample_rate_hz p) (ac_chunk_ms (vp_live p)) (vp_config p)) records"

text \<open>\<open>NewVADPipeline\<close>: the configuration is checked before the detector is built.\<close>

definition NewVADPipeline :: "u32 \<Rightarrow> float64 \<Rightarrow> vad_config \<Rightarrow> audio_error + vad_pipeline" where
  "NewVADPipeline sampleRateHz chunkMs cfg =
     (case vad_config_validate cfg sampleRateHz of Some e \<Rightarrow> Inl e
      | None \<Rightarrow> Inr (new_vad_pipeline sampleRateHz chunkMs cfg))"

section \<open>The recutting contract\<close>

text \<open>
  What the journal and the failover coordinator rely on: a pipeline is a state fed
  records one at a time and drained at arbitrary moments, and \<open>recut\<close> cuts a list of
  records the way feeding them to a fresh pipeline would. A schedule is a list of
  \<open>Some\<close> record (ingest it) and \<open>None\<close> (call \<open>Ready\<close>).
\<close>

fun run_schedule :: "('s \<Rightarrow> 'r \<Rightarrow> 's) \<Rightarrow> ('s \<Rightarrow> 'c list \<times> 's) \<Rightarrow> 's \<Rightarrow> 'r option list \<Rightarrow> 'c list \<times> 's" where
  "run_schedule step drain s [] = ([], s)"
| "run_schedule step drain s (Some r # acts) = run_schedule step drain (step s r) acts"
| "run_schedule step drain s (None # acts) =
     (let (out, s1) = drain s; (out', s2) = run_schedule step drain s1 acts in (out @ out', s2))"

fun fed :: "'r option list \<Rightarrow> 'r list" where
  "fed [] = []"
| "fed (Some r # acts) = r # fed acts"
| "fed (None # acts) = fed acts"

locale recutting =
  fixes new :: 's and step :: "'s \<Rightarrow> 'r \<Rightarrow> 's" and drain :: "'s \<Rightarrow> 'c list \<times> 's"
    and recut :: "'r list \<Rightarrow> 'c list"
  assumes drain_new: "drain new = ([], new)"
    and drain_again: "drain (snd (drain s)) = ([], snd (drain s))"
    and drain_step: "drain (step s r) =
      (fst (drain s) @ fst (drain (step (snd (drain s)) r)), snd (drain (step (snd (drain s)) r)))"
    and recut_eq: "recut rs = fst (drain (foldl step new rs))"
begin

lemma drain_foldl:
  "drain (foldl step s rs) =
     (fst (drain s) @ fst (drain (foldl step (snd (drain s)) rs)),
      snd (drain (foldl step (snd (drain s)) rs)))"
proof (induction rs arbitrary: s)
  case Nil
  then show ?case by (simp add: drain_again)
next
  case (Cons r rs)
  have "drain (foldl step s (r # rs)) =
      (fst (drain (step s r)) @ fst (drain (foldl step (snd (drain (step s r))) rs)),
       snd (drain (foldl step (snd (drain (step s r))) rs)))"
    using Cons.IH [of "step s r"] by simp
  moreover have "drain (foldl step (step (snd (drain s)) r) rs) =
      (fst (drain (step (snd (drain s)) r)) @ fst (drain (foldl step (snd (drain (step s r))) rs)),
       snd (drain (foldl step (snd (drain (step s r))) rs)))"
    using Cons.IH [of "step (snd (drain s)) r"] by (simp add: drain_step [of s r])
  ultimately show ?case by (simp add: drain_step [of s r])
qed

lemma run_schedule_drained:
  "(let (out, s') = run_schedule step drain s acts in (out @ fst (drain s'), snd (drain s')))
     = drain (foldl step s (fed acts))"
proof (induction acts arbitrary: s)
  case Nil
  then show ?case by simp
next
  case (Cons a acts)
  show ?case
  proof (cases a)
    case None
    then show ?thesis
      using Cons.IH [of "snd (drain s)"] drain_foldl [of s "fed acts"]
      by (simp add: prod_eq_iff split_beta Let_def)
  next
    case (Some r)
    then show ?thesis using Cons.IH [of "step s r"] by simp
  qed
qed

text \<open>The client's view: whatever the schedule, what was drained is the recut.\<close>

lemma schedule_recut:
  assumes "run_schedule step drain new acts = (out, s')"
  shows "out @ fst (drain s') = recut (fed acts)"
  using run_schedule_drained [of new acts] by (simp add: assms recut_eq prod_eq_iff)

lemma recut_append:
  "recut (rs @ rs') = recut rs @ fst (drain (foldl step (snd (drain (foldl step new rs))) rs'))"
  using drain_foldl [of "foldl step new rs" rs'] by (simp add: recut_eq)

end

subsection \<open>Both pipelines keep it\<close>

definition pp_step :: "passthrough \<Rightarrow> audio_record \<Rightarrow> passthrough" where
  "pp_step p r =
     (let (cks, live) = feed (pp_live p) (rc_seq r) (rc_duration_ms r) (rc_voiced r) (rc_payload r)
      in p\<lparr> pp_live := live, pp_ready := pp_ready p @ cks \<rparr>)"

lemma pp_recut_foldl:
  "fst (pp_drain (foldl pp_step p rs)) = pp_ready p @ recut_with (pp_live p) rs"
proof (induction rs arbitrary: p)
  case Nil
  then show ?case by (simp add: pp_drain_def)
next
  case (Cons r rs)
  then show ?case by (simp add: pp_step_def split: prod.splits)
qed

interpretation pp: recutting "new_passthrough rate chunkMs" pp_step pp_drain
    "recut_with (new_accumulator chunkMs)" for rate chunkMs
proof
  show "pp_drain (new_passthrough rate chunkMs) = ([], new_passthrough rate chunkMs)"
    by (simp add: pp_drain_def new_passthrough_def)
  show "recut_with (new_accumulator chunkMs) rs
      = fst (pp_drain (foldl pp_step (new_passthrough rate chunkMs) rs))" for rs
    using pp_recut_foldl [of "new_passthrough rate chunkMs" rs] by (simp add: new_passthrough_def)
qed (simp_all add: pp_drain_def pp_step_def split: prod.splits)

definition vad_step :: "vad_pipeline \<Rightarrow> audio_record \<Rightarrow> vad_pipeline" where
  "vad_step p r = apply_hysteresis p (rc_seq r) (rc_duration_ms r) (rc_payload r) (rc_voiced r)"

lemma keep_pre_roll_frame [simp, frame_simps]:
  "vp_sample_rate_hz (keep_pre_roll p q d bs) = vp_sample_rate_hz p"
  "vp_config (keep_pre_roll p q d bs) = vp_config p"
  "vp_reframe (keep_pre_roll p q d bs) = vp_reframe p"
  "vp_live (keep_pre_roll p q d bs) = vp_live p"
  "vp_ready (keep_pre_roll p q d bs) = vp_ready p"
  "vp_boundaries (keep_pre_roll p q d bs) = vp_boundaries p"
  "vp_active (keep_pre_roll p q d bs) = vp_active p"
  "vp_voice_ms (keep_pre_roll p q d bs) = vp_voice_ms p"
  "vp_silence_ms (keep_pre_roll p q d bs) = vp_silence_ms p"
  by (simp_all add: keep_pre_roll_def Let_def split: prod.splits)

lemma keep_pre_roll_update [simp]:
  "keep_pre_roll (p\<lparr>vp_ready := xs\<rparr>) q d bs = (keep_pre_roll p q d bs)\<lparr>vp_ready := xs\<rparr>"
  "keep_pre_roll (p\<lparr>vp_reframe := ys\<rparr>) q d bs = (keep_pre_roll p q d bs)\<lparr>vp_reframe := ys\<rparr>"
  "keep_pre_roll (p\<lparr>vp_active := a\<rparr>) q d bs = (keep_pre_roll p q d bs)\<lparr>vp_active := a\<rparr>"
  "keep_pre_roll (p\<lparr>vp_silence_ms := m\<rparr>) q d bs = (keep_pre_roll p q d bs)\<lparr>vp_silence_ms := m\<rparr>"
  "keep_pre_roll (p\<lparr>vp_boundaries := es\<rparr>) q d bs = (keep_pre_roll p q d bs)\<lparr>vp_boundaries := es\<rparr>"
  by (simp_all add: keep_pre_roll_def Let_def split: prod.splits)

text \<open>What one record adds to the ready chunks does not depend on what is already ready.\<close>

definition hysteresis_cut :: "vad_pipeline \<Rightarrow> audio_record \<Rightarrow> chunk list" where
  "hysteresis_cut p r = vp_ready (vad_step (p\<lparr>vp_ready := []\<rparr>) r)"

lemma vad_step_ready:
  "vad_step (p\<lparr>vp_ready := xs\<rparr>) r
     = (vad_step (p\<lparr>vp_ready := []\<rparr>) r)\<lparr>vp_ready := xs @ hysteresis_cut p r\<rparr>"
  by (cases "vp_active p"; cases "rc_voiced r")
    (simp_all add: vad_step_def hysteresis_cut_def apply_hysteresis_def Let_def split: prod.splits)

lemma vad_step_reframe:
  "vad_step (p\<lparr>vp_reframe := xs\<rparr>) r = (vad_step p r)\<lparr>vp_reframe := xs\<rparr>"
  by (cases "vp_active p"; cases "rc_voiced r")
    (simp_all add: vad_step_def apply_hysteresis_def Let_def split: prod.splits)


interpretation vad: recutting "new_vad_pipeline rate chunkMs cfg" vad_step vad_drain
    "vad_recut_with (new_vad_pipeline rate chunkMs cfg)" for rate chunkMs cfg
proof
  show "vad_drain (new_vad_pipeline rate chunkMs cfg) = ([], new_vad_pipeline rate chunkMs cfg)"
    by (simp add: vad_drain_def new_vad_pipeline_def)
  show drain_step: "vad_drain (vad_step p r)
      = (fst (vad_drain p) @ fst (vad_drain (vad_step (snd (vad_drain p)) r)),
         snd (vad_drain (vad_step (snd (vad_drain p)) r)))" for p r
    using vad_step_ready [of "vp_ready p" p r] by (simp add: vad_drain_def hysteresis_cut_def)
  show "vad_recut_with (new_vad_pipeline rate chunkMs cfg) rs
      = fst (vad_drain (foldl vad_step (new_vad_pipeline rate chunkMs cfg) rs))" for rs
  proof -
    have "fst (vad_drain (foldl vad_step p rs)) = vp_ready p @ vad_recut_with (p\<lparr>vp_ready := []\<rparr>) rs" for p
    proof (induction rs arbitrary: p)
      case Nil
      then show ?case by (simp add: vad_drain_def)
    next
      case (Cons r rs)
      have "vp_ready (vad_step p r) = vp_ready p @ hysteresis_cut p r"
        and "(vad_step p r)\<lparr>vp_ready := []\<rparr> = (vad_step (p\<lparr>vp_ready := []\<rparr>) r)\<lparr>vp_ready := []\<rparr>"
        using vad_step_ready [of "vp_ready p" p r] by simp_all
      then show ?case
        using Cons.IH [of "vad_step p r"]
        by (simp add: vad_drain_def hysteresis_cut_def vad_step_def)
    qed
    from this [of "new_vad_pipeline rate chunkMs cfg"] show ?thesis
      by (simp add: new_vad_pipeline_def)
  qed
qed (simp add: vad_drain_def)

section \<open>The gateway's use of a pipeline\<close>

text \<open>
  The session loop ingests frames, journals each one it could ingest with the
  detector's decision, and polls \<open>Ready\<close> and \<open>Boundary\<close>. An ingest error ends the
  session.
\<close>

datatype pipeline_call = CallIngest frame | CallReady | CallBoundary

definition journaled :: "audio_ref \<Rightarrow> frame \<Rightarrow> audio_record" where
  "journaled ref f = \<lparr> rc_seq = f_seq f, rc_duration_ms = ref_duration_ms ref,
     rc_voiced = ref_voiced ref, rc_payload = f_payload f \<rparr>"

fun vad_live :: "'d vad \<Rightarrow> vad_pipeline \<Rightarrow> 'd \<Rightarrow> pipeline_call list \<Rightarrow>
    chunk list \<times> audio_record list \<times> vad_pipeline \<times> 'd" where
  "vad_live speech p d [] = ([], [], p, d)"
| "vad_live speech p d (CallIngest f # calls) =
     (case vad_ingest speech p d f of
        (Inl e, p', d') \<Rightarrow> ([], [], p', d')
      | (Inr ref, p', d') \<Rightarrow>
          let (out, recs, rest) = vad_live speech p' d' calls in (out, journaled ref f # recs, rest))"
| "vad_live speech p d (CallReady # calls) =
     (let (cks, p') = vad_drain p; (out, rest) = vad_live speech p' d calls in (cks @ out, rest))"
| "vad_live speech p d (CallBoundary # calls) = vad_live speech (snd (vad_boundary p)) d calls"

fun pp_live_run :: "passthrough \<Rightarrow> pipeline_call list \<Rightarrow> chunk list \<times> audio_record list \<times> passthrough" where
  "pp_live_run p [] = ([], [], p)"
| "pp_live_run p (CallIngest f # calls) =
     (let (ref, p') = pp_ingest p f; (out, recs, q) = pp_live_run p' calls
      in (out, journaled ref f # recs, q))"
| "pp_live_run p (CallReady # calls) =
     (let (cks, p') = pp_drain p; (out, rest) = pp_live_run p' calls in (cks @ out, rest))"
| "pp_live_run p (CallBoundary # calls) = pp_live_run p calls"

text \<open>The fields the hysteresis never reads.\<close>

definition strip :: "vad_pipeline \<Rightarrow> vad_pipeline" where
  "strip p = p\<lparr>vp_reframe := [], vp_boundaries := []\<rparr>"

lemma vad_step_boundaries:
  "(vad_step (p\<lparr>vp_boundaries := es\<rparr>) r)\<lparr>vp_boundaries := []\<rparr> = (vad_step p r)\<lparr>vp_boundaries := []\<rparr>"
  by (cases "vp_active p"; cases "rc_voiced r")
    (simp_all add: vad_step_def apply_hysteresis_def Let_def split: prod.splits)

lemma strip_vad_step:
  assumes "strip p = strip q"
  shows "strip (vad_step p r) = strip (vad_step q r)"
proof -
  have "strip (vad_step p r) = strip (vad_step (strip p) r)" for p
  proof -
    have "strip p = (p\<lparr>vp_boundaries := []\<rparr>)\<lparr>vp_reframe := []\<rparr>" by (simp add: strip_def)
    then have "strip (vad_step (strip p) r) = strip (vad_step (p\<lparr>vp_boundaries := []\<rparr>) r)"
      by (simp only: vad_step_reframe) (simp add: strip_def)
    also have "\<dots> = ((vad_step (p\<lparr>vp_boundaries := []\<rparr>) r)\<lparr>vp_boundaries := []\<rparr>)\<lparr>vp_reframe := []\<rparr>"
      by (simp add: strip_def)
    also have "\<dots> = strip (vad_step p r)"
      by (simp only: vad_step_boundaries) (simp add: strip_def)
    finally show ?thesis by simp
  qed
  then show ?thesis using assms by metis
qed

lemma strip_drain:
  "strip p = strip q \<Longrightarrow> fst (vad_drain p) = fst (vad_drain q)
     \<and> strip (snd (vad_drain p)) = strip (snd (vad_drain q))"
  by (cases p; cases q) (simp add: strip_def vad_drain_def)

lemma vad_ingest_step:
  assumes "vad_ingest speech p d f = (Inr ref, p', d')"
  shows "strip p' = strip (vad_step p (journaled ref f))"
proof -
  from assms obtain buf where
    "p' = vad_step (p\<lparr>vp_reframe := buf\<rparr>) (journaled ref f)"
    by (auto simp: vad_ingest_def journaled_def vad_step_def Let_def split: sum.splits prod.splits)
  then show ?thesis using vad_step_reframe [of buf p] by (simp add: strip_def)
qed

lemma vad_ingest_error:
  assumes "vad_ingest speech p d f = (Inl e, p', d')"
  shows "strip p' = strip p"
  using assms by (auto simp: vad_ingest_def strip_def Let_def split: sum.splits prod.splits)

lemma vad_live_schedule:
  assumes "vad_live speech p d calls = (out, recs, p', d')" "strip p = strip q"
  shows "\<exists>acts q'. fed acts = recs \<and> run_schedule vad_step vad_drain q acts = (out, q') \<and> strip p' = strip q'"
  using assms
proof (induction speech p d calls arbitrary: q out recs rule: vad_live.induct)
  case (1 speech p d)
  then show ?case by (intro exI [of _ "[]"]) simp
next
  case (2 speech p d f calls)
  obtain r p1 d1 where one: "vad_ingest speech p d f = (r, p1, d1)" by (cases "vad_ingest speech p d f")
  show ?case
  proof (cases r)
    case (Inl e)
    with one 2(2,3) vad_ingest_error [of speech p d f e] show ?thesis
      by (intro exI [of _ "[]"]) auto
  next
    case (Inr ref)
    obtain recs1 where live: "vad_live speech p1 d1 calls = (out, recs1, p', d')"
      and recs: "recs = journaled ref f # recs1"
      using 2(2) one Inr by (auto split: prod.splits)
    have "strip p1 = strip (vad_step q (journaled ref f))"
      using vad_ingest_step one Inr strip_vad_step [OF 2(3)] by metis
    from 2(1) [OF one [symmetric] Inr refl live this] obtain acts q'
      where "fed acts = recs1" "run_schedule vad_step vad_drain (vad_step q (journaled ref f)) acts = (out, q')"
        "strip p' = strip q'" by blast
    then show ?thesis by (intro exI [of _ "Some (journaled ref f) # acts"]) (simp add: recs)
  qed
next
  case (3 speech p d calls)
  obtain out1 where live: "vad_live speech (snd (vad_drain p)) d calls = (out1, recs, p', d')"
    and out: "out = fst (vad_drain p) @ out1"
    using 3(2) by (auto split: prod.splits)
  note sd = strip_drain [OF 3(3)]
  from 3(1) [OF _ _ live] sd obtain acts q'
    where "fed acts = recs" "run_schedule vad_step vad_drain (snd (vad_drain q)) acts = (out1, q')"
      "strip p' = strip q'" by (metis prod.collapse)
  then show ?case using sd
    by (intro exI [of _ "None # acts"]) (auto simp: out split: prod.splits)
next
  case (4 speech p d calls)
  have "strip (snd (vad_boundary p)) = strip q"
    using 4(3) by (auto simp: vad_boundary_def strip_def split: list.splits)
  with 4(1) 4(2) show ?case by simp
qed

lemma pp_ingest_step:
  "pp_ingest p f = (ref, p') \<Longrightarrow> p' = pp_step p (journaled ref f) \<and> rc_voiced (journaled ref f)"
  by (auto simp: pp_ingest_def pp_step_def journaled_def Let_def split: prod.splits)

lemma pp_live_schedule:
  assumes "pp_live_run p calls = (out, recs, p')"
  shows "\<exists>acts. fed acts = recs \<and> run_schedule pp_step pp_drain p acts = (out, p')"
  using assms
proof (induction p calls arbitrary: out recs rule: pp_live_run.induct)
  case (1 p)
  then show ?case by (intro exI [of _ "[]"]) simp
next
  case (2 p f calls)
  obtain ref p1 where one: "pp_ingest p f = (ref, p1)" by fastforce
  obtain recs1 where live: "pp_live_run p1 calls = (out, recs1, p')" and recs: "recs = journaled ref f # recs1"
    using 2(2) one by (auto split: prod.splits)
  from 2(1) [OF one [symmetric] refl live] obtain acts
    where "fed acts = recs1" "run_schedule pp_step pp_drain p1 acts = (out, p')" by blast
  then show ?case using pp_ingest_step [OF one]
    by (intro exI [of _ "Some (journaled ref f) # acts"]) (simp add: recs)
next
  case (3 p calls)
  obtain out1 where live: "pp_live_run (snd (pp_drain p)) calls = (out1, recs, p')"
    and out: "out = fst (pp_drain p) @ out1"
    using 3(2) by (auto split: prod.splits)
  from 3(1) [OF refl prod.collapse live] obtain acts
    where "fed acts = recs" "run_schedule pp_step pp_drain (snd (pp_drain p)) acts = (out1, p')" by blast
  then show ?case by (intro exI [of _ "None # acts"]) (auto simp: out split: prod.splits)
next
  case (4 p calls)
  then show ?case by simp
qed

section \<open>What a cut is\<close>

text \<open>
  The specification of chunk cutting, without an accumulator: the voiced records
  fall into consecutive groups, each the shortest run whose total duration reaches
  the chunk length; a chunk is the concatenation of its group.
\<close>

definition total_ms :: "audio_record list \<Rightarrow> float64" where
  "total_ms g = (\<Sum>r\<leftarrow>g. rc_duration_ms r)"

definition group_bytes :: "audio_record list \<Rightarrow> byte list" where
  "group_bytes g = concat (map rc_payload g)"

definition open_group :: "float64 \<Rightarrow> audio_record list \<Rightarrow> bool" where
  "open_group c g \<longleftrightarrow> (\<forall>n \<in> {1..length g}. total_ms (take n g) < c)"

definition minimal_group :: "float64 \<Rightarrow> audio_record list \<Rightarrow> bool" where
  "minimal_group c g \<longleftrightarrow> g \<noteq> [] \<and> open_group c (butlast g) \<and> c \<le> total_ms g"

definition chunk_of :: "u64 \<Rightarrow> audio_record list \<Rightarrow> chunk" where
  "chunk_of n g = \<lparr> ck_id = n, ck_seq_start = rc_seq (hd g), ck_seq_end = rc_seq (last g),
     ck_bytes = group_bytes g \<rparr>"

fun chunks_from :: "u64 \<Rightarrow> audio_record list list \<Rightarrow> chunk list" where
  "chunks_from n [] = []"
| "chunks_from n (g # gs) = chunk_of n g # chunks_from (n + 1) gs"

definition holds_group :: "accumulator \<Rightarrow> audio_record list \<Rightarrow> bool" where
  "holds_group a g \<longleftrightarrow> open_group (ac_chunk_ms a) g \<and> ac_has_pending a = (g \<noteq> [])
     \<and> ac_pending a = group_bytes g \<and> ac_pending_ms a = total_ms g
     \<and> (g \<noteq> [] \<longrightarrow> ac_pending_start a = rc_seq (hd g) \<and> ac_pending_end a = rc_seq (last g))"

lemma open_group_Nil [simp]: "open_group c []"
  by (simp add: open_group_def)

lemma open_group_snoc: "open_group c (g @ [r]) \<longleftrightarrow> open_group c g \<and> total_ms (g @ [r]) < c"
proof -
  have "{1..length (g @ [r])} = insert (Suc (length g)) {1..length g}" by auto
  then show ?thesis by (auto simp: open_group_def)
qed

lemma open_group_single: "open_group c [r] \<longleftrightarrow> rc_duration_ms r < c"
  using open_group_snoc [of c "[]" r] by (simp add: total_ms_def)

lemma holds_group_new [simp]: "holds_group (new_accumulator c) []"
  by (simp add: holds_group_def new_accumulator_def group_bytes_def total_ms_def)

lemma feed_group:
  assumes "holds_group a g" "rc_voiced r"
    and "feed a (rc_seq r) (rc_duration_ms r) True (rc_payload r) = (cks, a')"
  shows "ac_chunk_ms a' = ac_chunk_ms a \<and>
    (if total_ms (g @ [r]) < ac_chunk_ms a
     then cks = [] \<and> ac_next_id a' = ac_next_id a \<and> holds_group a' (g @ [r])
     else cks = [chunk_of (ac_next_id a) (g @ [r])] \<and> minimal_group (ac_chunk_ms a) (g @ [r])
          \<and> ac_next_id a' = ac_next_id a + 1 \<and> holds_group a' [])"
  using assms
  by (cases "g = []")
    (auto simp: feed_def holds_group_def cut_pending_def chunk_of_def group_bytes_def total_ms_def
      minimal_group_def open_group_snoc open_group_single Let_def split: if_splits)

lemma recut_groups:
  assumes "holds_group a g"
  shows "\<exists>groups rest. g @ filter rc_voiced rs = concat groups @ rest
     \<and> list_all (minimal_group (ac_chunk_ms a)) groups \<and> open_group (ac_chunk_ms a) rest
     \<and> recut_with a rs = chunks_from (ac_next_id a) groups"
  using assms
proof (induction rs arbitrary: a g)
  case Nil
  then show ?case by (intro exI [of _ "[]"] exI [of _ g]) (simp add: holds_group_def)
next
  case (Cons r rs)
  show ?case
  proof (cases "rc_voiced r")
    case False
    then have "recut_with a (r # rs) = recut_with a rs" by (simp add: feed_def)
    with Cons.IH [OF Cons.prems] False show ?thesis by simp
  next
    case True
    obtain cks a' where one: "feed a (rc_seq r) (rc_duration_ms r) True (rc_payload r) = (cks, a')"
      by fastforce
    then have rec: "recut_with a (r # rs) = cks @ recut_with a' rs" using True by simp
    note fg = feed_group [OF Cons.prems True one]
    then have same: "ac_chunk_ms a' = ac_chunk_ms a" by simp
    show ?thesis
    proof (cases "total_ms (g @ [r]) < ac_chunk_ms a")
      case less: True
      with fg have a': "cks = []" "ac_next_id a' = ac_next_id a" "holds_group a' (g @ [r])" by simp_all
      from Cons.IH [OF a'(3)] True show ?thesis unfolding rec by (simp add: a'(1,2) same)
    next
      case False
      with fg have a': "cks = [chunk_of (ac_next_id a) (g @ [r])]" "holds_group a' []"
        "ac_next_id a' = ac_next_id a + 1" "minimal_group (ac_chunk_ms a) (g @ [r])" by simp_all
      from Cons.IH [OF a'(2)] obtain groups rest where
        "filter rc_voiced rs = concat groups @ rest" "list_all (minimal_group (ac_chunk_ms a)) groups"
        "open_group (ac_chunk_ms a) rest" "recut_with a' rs = chunks_from (ac_next_id a + 1) groups"
        by (auto simp: same a'(3))
      then show ?thesis unfolding rec using True a'(1,4)
        by (intro exI [of _ "(g @ [r]) # groups"] exI [of _ rest]) simp
    qed
  qed
qed

section \<open>Properties\<close>

text \<open>
  The pass-through pipeline's recut is exactly the minimal grouping. The voiced
  records, in order, split into groups that each just reach the chunk length, plus
  a tail that has not; the chunks are these groups with consecutive ids, the tail
  is withheld, and silence contributes nothing.
\<close>

theorem recut_is_minimal_grouping:
  "\<exists>groups rest. filter rc_voiced rs = concat groups @ rest
     \<and> list_all (minimal_group (ac_chunk_ms (pp_live p))) groups
     \<and> open_group (ac_chunk_ms (pp_live p)) rest
     \<and> pp_recut p rs = chunks_from 0 groups"
  using recut_groups [OF holds_group_new [of "ac_chunk_ms (pp_live p)"], of rs]
  by (simp add: pp_recut_def new_accumulator_def)

text \<open>
  C9: recovery sees the chunks the worker saw. For any detector and any order in
  which the session loop ingests frames and polls the VAD pipeline, the chunks
  drained so far and those still ready are the recut of the records journaled so
  far, with the same ids, sequence spans and bytes.
\<close>

theorem vad_recut_reproduces_live_dispatch:
  assumes "vad_live speech (new_vad_pipeline rate chunkMs cfg) d calls = (out, recs, p', d')"
  shows "out @ vp_ready p' = vad_recut (new_vad_pipeline rate chunkMs cfg) recs"
proof -
  obtain acts q' where acts: "fed acts = recs"
    and run: "run_schedule vad_step vad_drain (new_vad_pipeline rate chunkMs cfg) acts = (out, q')"
    and eq: "strip p' = strip q'"
    using vad_live_schedule [OF assms refl] by blast
  have "vp_ready p' = fst (vad_drain q')"
    using strip_drain [OF eq] by (simp add: vad_drain_def)
  with vad.schedule_recut [OF run] acts show ?thesis
    by (simp add: vad_recut_def new_vad_pipeline_def new_accumulator_def)
qed

text \<open>
  The same holds of the pass-through pipeline: what was drained and what is still
  ready is the recut of the records journaled so far.
\<close>

theorem passthrough_recut_reproduces_live_dispatch:
  assumes "pp_live_run (new_passthrough rate chunkMs) calls = (out, recs, p')"
  shows "out @ pp_ready p' = pp_recut (new_passthrough rate chunkMs) recs"
proof -
  obtain acts where acts: "fed acts = recs"
    and run: "run_schedule pp_step pp_drain (new_passthrough rate chunkMs) acts = (out, p')"
    using pp_live_schedule [OF assms] by blast
  from pp.schedule_recut [OF run] acts show ?thesis
    by (simp add: pp_recut_def new_passthrough_def new_accumulator_def pp_drain_def)
qed

text \<open>The pipeline's own invariant: pre-roll accounting and alternating boundaries.\<close>

definition roll_ms :: "pending_record list \<Rightarrow> float64" where
  "roll_ms rs = (\<Sum>r\<leftarrow>rs. pr_duration_ms r)"

fun alternating :: "boundary_event list \<Rightarrow> bool \<Rightarrow> bool" where
  "alternating [] active = (\<not> active)"
| "alternating (e # es) active =
     (be_type e = EventSpeechStart \<and>
      (case es of [] \<Rightarrow> active
       | e' # es' \<Rightarrow> be_type e' = EventEndpoint \<and> alternating es' active))"

lemma alternating_start:
  "alternating es False \<Longrightarrow> alternating (es @ [\<lparr>be_type = EventSpeechStart, be_seq = q\<rparr>]) True"
proof (induction "length es" arbitrary: es rule: less_induct)
  case less
  then show ?case by (cases es; cases "tl es") (auto split: list.splits)
qed

lemma alternating_end:
  "alternating es True \<Longrightarrow> alternating (es @ [\<lparr>be_type = EventEndpoint, be_seq = q\<rparr>]) False"
proof (induction "length es" arbitrary: es rule: less_induct)
  case less
  then show ?case by (cases es; cases "tl es") (auto split: list.splits)
qed

definition vad_inv :: "vad_pipeline \<Rightarrow> bool" where
  "vad_inv p \<longleftrightarrow> vp_pre_roll_ms p = roll_ms (vp_pre_roll p)
     \<and> vp_pre_roll_ms p \<le> of_int (vc_pre_roll_ms (vp_config p))
     \<and> 0 \<le> vc_pre_roll_ms (vp_config p)
     \<and> alternating (vp_boundaries p) (vp_active p)"

lemma trim_pre_roll_bound:
  assumes "trim_pre_roll limit rs tot = (rs', tot')" "tot = roll_ms rs" "0 \<le> limit"
  shows "tot' = roll_ms rs' \<and> tot' \<le> limit \<and> suffix rs' rs"
  using assms
proof (induction limit rs tot rule: trim_pre_roll.induct)
  case (1 limit tot)
  then show ?case by (simp add: roll_ms_def)
next
  case (2 limit r rs tot)
  then show ?case by (auto simp: roll_ms_def suffix_ConsI split: if_splits)
qed

lemma keep_pre_roll_inv [inv_intros]: "vad_inv p \<Longrightarrow> vad_inv (keep_pre_roll p q d bs)"
  using trim_pre_roll_bound
    [of "of_int (vc_pre_roll_ms (vp_config p))"
      "vp_pre_roll p @ [\<lparr>pr_seq = q, pr_duration_ms = d, pr_payload = bs\<rparr>]" "vp_pre_roll_ms p + d"]
  by (auto simp: vad_inv_def keep_pre_roll_def roll_ms_def Let_def split: prod.splits)

lemma vad_step_inv [inv_intros]: "vad_inv p \<Longrightarrow> vad_inv (vad_step p r)"
  using keep_pre_roll_inv [of p "rc_seq r" "rc_duration_ms r" "rc_payload r"]
    keep_pre_roll_inv [of "keep_pre_roll p (rc_seq r) (rc_duration_ms r) (rc_payload r)"
      "rc_seq r" "rc_duration_ms r" "rc_payload r"]
  by (cases "vp_active p"; cases "rc_voiced r")
    (auto simp: vad_step_def apply_hysteresis_def Let_def vad_inv_def roll_ms_def
      intro: alternating_start alternating_end split: prod.splits)

lemma new_vad_pipeline_inv:
  "0 \<le> vc_pre_roll_ms cfg \<Longrightarrow> vad_inv (new_vad_pipeline rate chunkMs cfg)"
  by (simp add: vad_inv_def new_vad_pipeline_def roll_ms_def)

lemma vad_run_inv:
  assumes "0 \<le> vc_pre_roll_ms cfg"
  shows "vad_inv (foldl vad_step (new_vad_pipeline rate chunkMs cfg) rs)"
proof (induction rs rule: rev_induct)
  case Nil
  then show ?case by (simp add: new_vad_pipeline_inv assms)
next
  case (snoc r rs)
  then show ?case by (simp add: vad_step_inv)
qed

text \<open>A run used by the witnesses: two voiced 10 ms frames of one sample, drained, then one more.\<close>

definition example_frame :: "u64 \<Rightarrow> frame" where
  "example_frame q = \<lparr> f_type = MsgAudio, f_seq = q, f_capture_ms = 0, f_num_samples = 1,
     f_payload = [1, 0] \<rparr>"

definition example_calls :: "pipeline_call list" where
  "example_calls = [CallIngest (example_frame 0), CallBoundary, CallReady,
     CallIngest (example_frame 1), CallReady, CallIngest (example_frame 2)]"

definition example_vad :: vad_pipeline where
  "example_vad = new_vad_pipeline 100 20 \<lparr> vc_window_ms = 10, vc_start_speech_ms = 10,
     vc_end_silence_ms = 10, vc_pre_roll_ms = 30 \<rparr>"

definition always_voice :: "unit vad" where
  "always_voice d w = (Inr True, d)"

theorem vad_recut_reproduces_live_dispatch_witness:
  "let (out, recs, p', d') = vad_live always_voice example_vad () example_calls
   in out @ vp_ready p' = vad_recut example_vad recs \<and> length out = 1 \<and> length recs = 3"
proof -
  obtain out recs p' d' where run: "vad_live always_voice example_vad () example_calls = (out, recs, p', d')"
    by (metis prod.exhaust)
  have "length (fst (vad_live always_voice example_vad () example_calls)) = 1"
    and "length (fst (snd (vad_live always_voice example_vad () example_calls))) = 3"
    by code_simp+
  with run vad_recut_reproduces_live_dispatch [OF run [unfolded example_vad_def]]
  show ?thesis by (simp add: example_vad_def)
qed

theorem passthrough_recut_reproduces_live_dispatch_witness:
  "let (out, recs, p') = pp_live_run (new_passthrough 100 20) example_calls
   in out @ pp_ready p' = pp_recut (new_passthrough 100 20) recs \<and> length out = 1 \<and> length recs = 3"
proof -
  obtain out recs p' where run: "pp_live_run (new_passthrough 100 20) example_calls = (out, recs, p')"
    by (metis prod.exhaust)
  have "length (fst (pp_live_run (new_passthrough 100 20) example_calls)) = 1"
    and "length (fst (snd (pp_live_run (new_passthrough 100 20) example_calls))) = 3"
    by code_simp+
  with run passthrough_recut_reproduces_live_dispatch [OF run] show ?thesis by simp
qed

text \<open>
  With a non-negative pre-roll setting, whatever records the hysteresis is fed,
  the retained pre-roll is never longer than configured, its running total is the
  sum of the durations it holds, and the boundaries strictly alternate between
  speech start and endpoint, the pipeline being active iff the last is a start.
\<close>

theorem vad_hysteresis_keeps_its_bounds:
  assumes "0 \<le> vc_pre_roll_ms cfg" "p = foldl vad_step (new_vad_pipeline rate chunkMs cfg) rs"
  shows "roll_ms (vp_pre_roll p) = vp_pre_roll_ms p
     \<and> vp_pre_roll_ms p \<le> of_int (vc_pre_roll_ms (vp_config p))
     \<and> alternating (vp_boundaries p) (vp_active p)"
  using vad_run_inv [OF assms(1), of rate chunkMs rs] by (simp add: vad_inv_def assms(2))

definition twenty :: "nat \<Rightarrow> bool \<Rightarrow> audio_record" where
  "twenty n v = \<lparr> rc_seq = of_nat n, rc_duration_ms = 20, rc_voiced = v, rc_payload = [of_nat n, 0] \<rparr>"

definition short_gap_config :: vad_config where
  "short_gap_config = \<lparr> vc_window_ms = 20, vc_start_speech_ms = 20, vc_end_silence_ms = 40,
     vc_pre_roll_ms = 60 \<rparr>"

definition speech_then_silence :: "audio_record list" where
  "speech_then_silence = [twenty 0 True, twenty 1 False, twenty 2 False]"

theorem vad_hysteresis_keeps_its_bounds_witness:
  "let p = foldl vad_step (new_vad_pipeline 16000 60 short_gap_config) speech_then_silence in
     vp_pre_roll_ms p \<le> 60 \<and> \<not> vp_active p \<and> length (vp_boundaries p) = 2"
proof -
  let ?p = "foldl vad_step (new_vad_pipeline 16000 60 short_gap_config) speech_then_silence"
  have "\<not> vp_active ?p" "length (vp_boundaries ?p) = 2" "vc_pre_roll_ms (vp_config ?p) = 60"
    by code_simp+
  with vad_hysteresis_keeps_its_bounds [of short_gap_config ?p 16000 60 speech_then_silence]
  show ?thesis by (simp add: short_gap_config_def)
qed


text \<open>
  Two accumulators that differ in the next id only (and in the stale bounds of an
  empty one) cut the same chunks, up to the ids.
\<close>

definition same_pending :: "accumulator \<Rightarrow> accumulator \<Rightarrow> bool" where
  "same_pending a b \<longleftrightarrow> ac_chunk_ms a = ac_chunk_ms b \<and> ac_pending a = ac_pending b
     \<and> ac_pending_ms a = ac_pending_ms b \<and> ac_has_pending a = ac_has_pending b
     \<and> (ac_has_pending a \<longrightarrow> ac_pending_start a = ac_pending_start b \<and> ac_pending_end a = ac_pending_end b)"

definition shift_id :: "u64 \<Rightarrow> chunk \<Rightarrow> chunk" where
  "shift_id n c = c\<lparr>ck_id := ck_id c + n\<rparr>"

lemma feed_same_pending:
  assumes "same_pending a b" "ac_next_id a = ac_next_id b + n"
    and "feed a q d v bs = (xs, a')" "feed b q d v bs = (ys, b')"
  shows "xs = map (shift_id n) ys \<and> same_pending a' b' \<and> ac_next_id a' = ac_next_id b' + n"
  using assms
  by (cases "ac_has_pending a")
    (auto simp: feed_def same_pending_def cut_pending_def shift_id_def Let_def split: if_splits)

lemma recut_same_pending:
  assumes "same_pending a b" "ac_next_id a = ac_next_id b + n"
  shows "recut_with a rs = map (shift_id n) (recut_with b rs)"
  using assms
proof (induction rs arbitrary: a b)
  case Nil
  then show ?case by simp
next
  case (Cons r rs)
  obtain xs a' where a': "feed a (rc_seq r) (rc_duration_ms r) (rc_voiced r) (rc_payload r) = (xs, a')"
    by fastforce
  obtain ys b' where b': "feed b (rc_seq r) (rc_duration_ms r) (rc_voiced r) (rc_payload r) = (ys, b')"
    by fastforce
  from feed_same_pending [OF Cons.prems a' b'] Cons.IH [of a' b'] show ?case
    by (simp add: a' b')
qed

lemma recut_with_append:
  "\<exists>a'. recut_with a (rs @ rs') = recut_with a rs @ recut_with a' rs'
     \<and> ac_chunk_ms a' = ac_chunk_ms a
     \<and> pp_live (foldl pp_step p rs) = (if pp_live p = a then a' else pp_live (foldl pp_step p rs))"
proof (induction rs arbitrary: a p)
  case Nil
  then show ?case by (intro exI [of _ a]) simp
next
  case (Cons r rs)
  obtain xs a1 where a1: "feed a (rc_seq r) (rc_duration_ms r) (rc_voiced r) (rc_payload r) = (xs, a1)"
    by fastforce
  then have ms: "ac_chunk_ms a1 = ac_chunk_ms a"
    by (auto simp: feed_def cut_pending_def Let_def split: if_splits)
  from Cons.IH [of a1 "pp_step p r"] obtain a' where
    "recut_with a1 (rs @ rs') = recut_with a1 rs @ recut_with a' rs'" "ac_chunk_ms a' = ac_chunk_ms a1"
    "pp_live (foldl pp_step (pp_step p r) rs)
       = (if pp_live (pp_step p r) = a1 then a' else pp_live (foldl pp_step (pp_step p r) rs))" by blast
  moreover have "pp_live p = a \<Longrightarrow> pp_live (pp_step p r) = a1"
    by (simp add: pp_step_def a1)
  ultimately show ?case by (intro exI [of _ a']) (auto simp: a1 ms)
qed

text \<open>
  Replay may start at any point where the live accumulator was empty. If after
  the records \<open>rs\<close> nothing is pending, the chunks of \<open>rs @ rs'\<close> are those of \<open>rs\<close>
  followed by the recut of \<open>rs'\<close> alone with its ids shifted: the same boundaries,
  spans and bytes. A checkpoint or a committed final is such a point.
\<close>

theorem recut_resumes_at_empty_accumulator:
  assumes "\<not> ac_has_pending a" "ac_pending a = []" "ac_pending_ms a = 0"
    and "a = pp_live (foldl pp_step (new_passthrough rate chunkMs) rs)"
  shows "pp_recut (new_passthrough rate chunkMs) (rs @ rs')
     = pp_recut (new_passthrough rate chunkMs) rs
       @ map (shift_id (ac_next_id a)) (pp_recut (new_passthrough rate chunkMs) rs')"
proof -
  obtain a' where app: "recut_with (new_accumulator chunkMs) (rs @ rs')
        = recut_with (new_accumulator chunkMs) rs @ recut_with a' rs'"
    and ms: "ac_chunk_ms a' = chunkMs" and a': "a = a'"
    using recut_with_append [of "new_accumulator chunkMs" rs rs' "new_passthrough rate chunkMs"]
    by (auto simp: assms(4) new_passthrough_def new_accumulator_def)
  have "same_pending a (new_accumulator chunkMs)"
    using assms(1-3) ms by (simp add: a' same_pending_def new_accumulator_def)
  from recut_same_pending [OF this, of "ac_next_id a"] app show ?thesis
    by (simp add: a' pp_recut_def new_passthrough_def new_accumulator_def)
qed

theorem recut_resumes_at_empty_accumulator_witness:
  "pp_recut (new_passthrough 100 40) ([twenty 0 True, twenty 1 True] @ [twenty 2 True, twenty 3 True])
   = pp_recut (new_passthrough 100 40) [twenty 0 True, twenty 1 True]
     @ map (shift_id 1) (pp_recut (new_passthrough 100 40) [twenty 2 True, twenty 3 True])"
proof -
  define a where a: "a = pp_live (foldl pp_step (new_passthrough 100 40) [twenty 0 True, twenty 1 True])"
  have empty: "\<not> ac_has_pending a" "ac_pending a = []" "ac_pending_ms a = 0" and id: "ac_next_id a = 1"
    unfolding a by code_simp+
  from recut_resumes_at_empty_accumulator [OF empty a, of "[twenty 2 True, twenty 3 True]"]
  show ?thesis unfolding id .
qed


end
