(* ===== verification/Wav.thy ===== *)
theory Wav
  imports Audio
begin

text \<open>
  The WAV container written by \<^verbatim>\<open>internal/audio/wav.go\<close> and the reader of
  \<^verbatim>\<open>internal/corpus/wav.go\<close>. Opening a file is outside the model: the reader works
  on the file's bytes, with \<open>io.ReadFull\<close> and \<open>Seek\<close> as operations on what is left of
  it. The lemma that matters is the round trip through both.
\<close>

section \<open>Writing (audio/wav.go)\<close>

definition ascii :: "string \<Rightarrow> byte list" where
  "ascii s = map of_char s"

definition wavPCMFormat :: u16 where "wavPCMFormat = 1"
definition wavChannels :: u16 where "wavChannels = 1"
definition wavBitDepth :: u16 where "wavBitDepth = 16"

definition wrap_wav :: "byte list \<Rightarrow> u32 \<Rightarrow> byte list" where
  "wrap_wav pcm sampleRateHz =
     (let byteRate = sampleRateHz * ucast wavChannels * ucast wavBitDepth div 8;
          blockAlign = wavChannels * wavBitDepth div 8
      in ascii ''RIFF'' @ le_put 4 (of_nat (4 + 24 + 8 + length pcm) :: u32) @ ascii ''WAVE''
         @ ascii ''fmt '' @ le_put 4 (16 :: u32) @ le_put 2 wavPCMFormat @ le_put 2 wavChannels
         @ le_put 4 sampleRateHz @ le_put 4 byteRate @ le_put 2 blockAlign @ le_put 2 wavBitDepth
         @ ascii ''data'' @ le_put 4 (of_nat (length pcm) :: u32) @ pcm)"

definition WAVFromRecords :: "audio_record list \<Rightarrow> u32 \<Rightarrow> byte list" where
  "WAVFromRecords records sampleRateHz = wrap_wav (concat (map rc_payload records)) sampleRateHz"

section \<open>Reading (corpus/wav.go)\<close>

record clip =
  cl_sample_rate_hz :: int
  cl_channels :: int
  cl_bits_per_sample :: int
  cl_pcm :: "byte list"

datatype corpus_error =
    ReadRIFFHeader | NotRIFF | ReadChunkHeader | ReadFmtChunk | FmtTooShort
  | NotPCM u16 | ReadDataChunk | MissingChunk

datatype read_result = ReadOk "byte list" "byte list" | ReadEOF | ReadUnexpectedEOF

text \<open>
  \<open>io.ReadFull\<close>: the bytes read and the rest, a clean end of file when nothing could
  be read, an unexpected one when fewer bytes than asked for were left.
\<close>

definition read_full :: "nat \<Rightarrow> byte list \<Rightarrow> read_result" where
  "read_full n rest =
     (if n \<le> length rest then ReadOk (take n rest) (drop n rest)
      else if rest = [] then ReadEOF else ReadUnexpectedEOF)"

lemma read_full_length: "read_full n rest = ReadOk bs rest' \<Longrightarrow> length rest' = length rest - n"
  by (auto simp: read_full_def split: if_splits)

definition new_clip :: clip where
  "new_clip = \<lparr>cl_sample_rate_hz = 0, cl_channels = 0, cl_bits_per_sample = 0, cl_pcm = []\<rparr>"

text \<open>RIFF chunks are word-aligned: the pad byte of an odd chunk is skipped.\<close>

definition skip_pad :: "nat \<Rightarrow> byte list \<Rightarrow> byte list" where
  "skip_pad chunkSize rest = (if chunkSize mod 2 = 1 then drop 1 rest else rest)"

lemma length_skip_pad: "length (skip_pad n rest) \<le> length rest"
  by (simp add: skip_pad_def)

text \<open>One chunk after its header: the clip, which of the two chunks it was, and the rest.\<close>

definition read_chunk :: "byte list \<Rightarrow> byte list \<Rightarrow> clip \<times> bool \<times> bool \<Rightarrow> byte list \<Rightarrow>
    corpus_error + (clip \<times> bool \<times> bool) \<times> byte list" where
  "read_chunk chunkID sizeBytes st rest =
     (let chunkSize = unat (le_get sizeBytes :: u32); (cl, haveFmt, haveData) = st
      in if chunkID = ascii ''fmt '' then
           (case read_full chunkSize rest of
              ReadOk body rest' \<Rightarrow>
                if length body < 16 then Inl FmtTooShort
                else let audioFormat = le_get (sub_bytes 0 2 body) :: u16 in
                  if audioFormat \<noteq> 1 then Inl (NotPCM audioFormat)
                  else Inr ((cl\<lparr> cl_channels := int (unat (le_get (sub_bytes 2 4 body) :: u16)),
                                cl_sample_rate_hz := int (unat (le_get (sub_bytes 4 8 body) :: u32)),
                                cl_bits_per_sample := int (unat (le_get (sub_bytes 14 16 body) :: u16)) \<rparr>,
                             True, haveData), skip_pad chunkSize rest')
            | _ \<Rightarrow> Inl ReadFmtChunk)
         else if chunkID = ascii ''data'' then
           (case read_full chunkSize rest of
              ReadOk body rest' \<Rightarrow> Inr ((cl\<lparr>cl_pcm := body\<rparr>, haveFmt, True), skip_pad chunkSize rest')
            | _ \<Rightarrow> Inl ReadDataChunk)
         else Inr (st, skip_pad chunkSize (drop chunkSize rest)))"

lemma read_chunk_cases:
  assumes "read_chunk i n st rest = Inr (st', rest')"
  obtains k bs r where "rest' = skip_pad k r" "read_full k rest = ReadOk bs r"
  | k where "rest' = skip_pad k (drop k rest)"
proof (cases "i = ascii ''fmt '' \<or> i = ascii ''data''")
  case True
  obtain cl hf hd where st: "st = (cl, hf, hd)" by (cases st)
  from True assms obtain bs r where "read_full (unat (le_get n :: u32)) rest = ReadOk bs r"
    "rest' = skip_pad (unat (le_get n :: u32)) r"
    unfolding read_chunk_def Let_def st prod.case
    by (cases "read_full (unat (le_get n :: u32)) rest") (simp_all split: if_splits)
  then show ?thesis using that(1) by blast
next
  case False
  obtain cl hf hd where st: "st = (cl, hf, hd)" by (cases st)
  from False assms have "rest' = skip_pad (unat (le_get n :: u32)) (drop (unat (le_get n :: u32)) rest)"
    unfolding read_chunk_def Let_def st prod.case by simp
  then show ?thesis by (rule that(2))
qed

lemma read_chunk_shrinks:
  assumes "read_chunk i n st rest = Inr (st', rest')"
  shows "length rest' \<le> length rest"
  using assms
proof (cases rule: read_chunk_cases)
  case (1 k bs r)
  then show ?thesis using length_skip_pad [of k r] read_full_length [of k rest bs r] by simp
next
  case (2 k)
  then show ?thesis using length_skip_pad [of k "drop k rest"] by simp
qed

lemma walk_decreases:
  assumes "read_full 8 rest = ReadOk header rest1" "read_chunk i n st rest1 = Inr (st', rest2)"
  shows "length rest2 < length rest"
proof -
  have "8 \<le> length rest" using assms(1) by (simp add: read_full_def split: if_splits)
  then show ?thesis using read_full_length [OF assms(1)] read_chunk_shrinks [OF assms(2)] by simp
qed

function walk_chunks :: "clip \<times> bool \<times> bool \<Rightarrow> byte list \<Rightarrow> corpus_error + clip \<times> bool \<times> bool" where
  "walk_chunks st rest =
     (case read_full 8 rest of
        ReadEOF \<Rightarrow> Inr st
      | ReadUnexpectedEOF \<Rightarrow> Inl ReadChunkHeader
      | ReadOk header rest1 \<Rightarrow>
          (case read_chunk (sub_bytes 0 4 header) (sub_bytes 4 8 header) st rest1 of
             Inl e \<Rightarrow> Inl e
           | Inr (st', rest2) \<Rightarrow> walk_chunks st' rest2))"
  by pat_completeness auto
termination
  by (relation "measure (\<lambda>(_, rest). length rest)") (auto dest: walk_decreases)

declare walk_chunks.simps [simp del]

definition load_wav :: "byte list \<Rightarrow> corpus_error + clip" where
  "load_wav contents =
     (case read_full 12 contents of
        ReadOk h rest \<Rightarrow>
          if sub_bytes 0 4 h \<noteq> ascii ''RIFF'' \<or> sub_bytes 8 12 h \<noteq> ascii ''WAVE'' then Inl NotRIFF
          else (case walk_chunks (new_clip, False, False) rest of
                  Inl e \<Rightarrow> Inl e
                | Inr (cl, haveFmt, haveData) \<Rightarrow>
                    if \<not> haveFmt \<or> \<not> haveData then Inl MissingChunk else Inr cl)
      | _ \<Rightarrow> Inl ReadRIFFHeader)"

section \<open>Lemmas\<close>

lemma length_ascii [simp]: "length (ascii s) = length s"
  by (simp add: ascii_def)

lemma read_full_append: "length xs = n \<Longrightarrow> read_full n (xs @ ys) = ReadOk xs ys"
  by (simp add: read_full_def)

lemma read_full_all [simp]: "read_full (length xs) xs = ReadOk xs []"
  by (simp add: read_full_def)

lemma walk_one:
  assumes "length i = 4" "length n = 4"
  shows "walk_chunks st (i @ n @ rest) =
     (case read_chunk i n st rest of Inl e \<Rightarrow> Inl e | Inr (st', rest2) \<Rightarrow> walk_chunks st' rest2)"
proof -
  have "read_full 8 ((i @ n) @ rest) = ReadOk (i @ n) rest"
    by (rule read_full_append) (simp add: assms)
  then show ?thesis
    by (subst walk_chunks.simps) (simp add: sub_bytes_def assms)
qed

lemma walk_end [simp]: "walk_chunks st [] = Inr st"
  by (subst walk_chunks.simps) (simp add: read_full_def)

lemma ascii_tags:
  "ascii ''fmt '' \<noteq> ascii ''data''" "ascii ''data'' \<noteq> ascii ''fmt ''"
  by (simp_all add: ascii_def)

lemma read_fmt_chunk:
  "read_chunk (ascii ''fmt '') (le_put 4 (16 :: u32))
     (cl, hf, dn)
     (le_put 2 (1 :: u16) @ le_put 2 ch @ le_put 4 rate @ le_put 4 (br :: u32) @ le_put 2 (ba :: u16) @ le_put 2 bits @ rest)
   = Inr ((cl\<lparr>cl_channels := int (unat (ch :: u16)), cl_sample_rate_hz := int (unat (rate :: u32)),
        cl_bits_per_sample := int (unat (bits :: u16))\<rparr>, True, dn), rest)"
proof -
  let ?body = "le_put 2 (1 :: u16) @ le_put 2 ch @ le_put 4 rate @ le_put 4 (br :: u32)
    @ le_put 2 (ba :: u16) @ le_put 2 bits"
  have n: "unat (le_get (le_put 4 (16 :: u32)) :: u32) = 16"
    by (simp add: le_get_put)
  have "read_full 16 (?body @ rest) = ReadOk ?body rest"
    by (rule read_full_append) simp
  moreover have "le_get (sub_bytes 0 2 ?body) = (1 :: u16)" "le_get (sub_bytes 2 4 ?body) = ch"
    "le_get (sub_bytes 4 8 ?body) = rate" "le_get (sub_bytes 14 16 ?body) = bits"
    by (simp_all add: sub_bytes_def le_get_put)
  ultimately show ?thesis
    by (simp add: read_chunk_def n skip_pad_def Let_def)
qed

lemma read_data_chunk:
  assumes "length pcm < 2 ^ 32"
  shows "read_chunk (ascii ''data'') (le_put 4 (of_nat (length pcm) :: u32)) (cl, hf, dn) pcm
    = Inr ((cl\<lparr>cl_pcm := pcm\<rparr>, hf, True), [])"
proof -
  have n: "unat (le_get (le_put 4 (of_nat (length pcm) :: u32)) :: u32) = length pcm"
    using assms by (simp add: le_get_put unat_of_nat take_bit_nat_eq_self)
  show ?thesis by (simp add: read_chunk_def n skip_pad_def ascii_tags Let_def)
qed

lemma wrap_wav_shape:
  "wrap_wav pcm rate = (ascii ''RIFF'' @ le_put 4 (of_nat (4 + 24 + 8 + length pcm) :: u32) @ ascii ''WAVE'')
     @ ascii ''fmt '' @ le_put 4 (16 :: u32) @
     (le_put 2 (1 :: u16) @ le_put 2 (1 :: u16) @ le_put 4 rate
        @ le_put 4 (rate * ucast wavChannels * ucast wavBitDepth div 8)
        @ le_put 2 (wavChannels * wavBitDepth div 8) @ le_put 2 (16 :: u16)
        @ ascii ''data'' @ le_put 4 (of_nat (length pcm) :: u32) @ pcm)"
  by (simp add: wrap_wav_def Let_def wavPCMFormat_def wavChannels_def wavBitDepth_def)

lemma load_wrapped:
  assumes "length pcm < 2 ^ 32"
  shows "load_wav (wrap_wav pcm rate) =
    Inr \<lparr>cl_sample_rate_hz = int (unat rate), cl_channels = 1, cl_bits_per_sample = 16, cl_pcm = pcm\<rparr>"
proof -
  let ?h = "ascii ''RIFF'' @ le_put 4 (of_nat (4 + 24 + 8 + length pcm) :: u32) @ ascii ''WAVE''"
  let ?body = "ascii ''fmt '' @ le_put 4 (16 :: u32) @
     (le_put 2 (1 :: u16) @ le_put 2 (1 :: u16) @ le_put 4 rate
        @ le_put 4 (rate * ucast wavChannels * ucast wavBitDepth div 8)
        @ le_put 2 (wavChannels * wavBitDepth div 8) @ le_put 2 (16 :: u16)
        @ ascii ''data'' @ le_put 4 (of_nat (length pcm) :: u32) @ pcm)"
  have "read_full 12 (?h @ ?body) = ReadOk ?h ?body"
    by (rule read_full_append) simp
  moreover have "sub_bytes 0 4 ?h = ascii ''RIFF''" "sub_bytes 8 12 ?h = ascii ''WAVE''"
    by (simp_all add: sub_bytes_def)
  moreover have "walk_chunks (new_clip, False, False) ?body =
      Inr (\<lparr>cl_sample_rate_hz = int (unat rate), cl_channels = 1, cl_bits_per_sample = 16, cl_pcm = pcm\<rparr>,
           True, True)"
    by (subst walk_one, simp, simp, subst read_fmt_chunk, simp, subst walk_one, simp, simp,
        subst read_data_chunk [OF assms]) (simp add: new_clip_def)
  ultimately show ?thesis
    unfolding wrap_wav_shape load_wav_def by simp
qed

section \<open>Properties\<close>

text \<open>
  What the gateway writes the corpus reader reads. As long as the audio fits the
  32-bit size field, the WAV made of any journaled records parses to a clip with
  the session's rate, one channel, 16 bits, and exactly the records' bytes in order.
\<close>

theorem wav_round_trip:
  assumes "length (concat (map rc_payload records)) < 2 ^ 32"
  shows "load_wav (WAVFromRecords records rate) =
    Inr \<lparr> cl_sample_rate_hz = int (unat rate), cl_channels = 1, cl_bits_per_sample = 16,
          cl_pcm = concat (map rc_payload records) \<rparr>"
  using load_wrapped [OF assms] by (simp add: WAVFromRecords_def)

theorem wav_round_trip_witness:
  "load_wav (WAVFromRecords [twenty 1 True, twenty 2 False] 16000) =
    Inr \<lparr> cl_sample_rate_hz = 16000, cl_channels = 1, cl_bits_per_sample = 16,
          cl_pcm = [1, 0, 2, 0] \<rparr>"
  using wav_round_trip [of "[twenty 1 True, twenty 2 False]" 16000] by (simp add: twenty_def)

end
