(* ===== verification/Journal.thy ===== *)
theory Journal
  imports Audio Window
begin

text \<open>
  The audio journal of \<^verbatim>\<open>internal/journal/journal.go\<close>: a preallocated ring of
  records with a committed floor. The ring refines a list, the last \<open>capacity\<close>
  records appended, and is an instance of the bounded-window contract; the
  properties say when a replay from the floor is complete.
\<close>

section \<open>The ring\<close>

record journal =
  j_records :: "audio_record list"
  j_write_idx :: nat
  j_size :: nat
  j_committed_seq :: u64
  j_have_committed :: bool

text \<open>The zero value a slot holds before it is written.\<close>

definition zero_record :: audio_record where
  "zero_record = \<lparr> rc_seq = 0, rc_duration_ms = 0, rc_voiced = False, rc_payload = [] \<rparr>"

text \<open>\<open>New\<close> panics (\<open>None\<close>) on a capacity that is not positive.\<close>

definition new_journal :: "int \<Rightarrow> journal option" where
  "new_journal capacity =
     (if capacity \<le> 0 then None
      else Some \<lparr> j_records = replicate (nat capacity) zero_record, j_write_idx = 0, j_size = 0,
                  j_committed_seq = 0, j_have_committed = False \<rparr>)"

definition journal_append :: "journal \<Rightarrow> audio_record \<Rightarrow> journal" where
  "journal_append j r =
     (let capN = length (j_records j) in
      j\<lparr> j_records := (j_records j)[j_write_idx j := r],
         j_write_idx := (j_write_idx j + 1) mod capN,
         j_size := (if j_size j < capN then j_size j + 1 else j_size j) \<rparr>)"

definition ring_start :: "journal \<Rightarrow> nat" where
  "ring_start j = (j_write_idx j + length (j_records j) - j_size j) mod length (j_records j)"

definition entries :: "journal \<Rightarrow> audio_record list" where
  "entries j =
     (let capN = length (j_records j); start = ring_start j
      in map (\<lambda>i. j_records j ! ((start + i) mod capN)) [0..<j_size j])"

definition read_after :: "journal \<Rightarrow> u64 \<Rightarrow> audio_record list" where
  "read_after j seq = filter (\<lambda>r. seq < rc_seq r) (entries j)"

definition read_from_committed :: "journal \<Rightarrow> audio_record list" where
  "read_from_committed j =
     (if \<not> j_have_committed j then entries j else read_after j (j_committed_seq j))"

definition trim_before :: "journal \<Rightarrow> u64 \<Rightarrow> journal" where
  "trim_before j seq = j\<lparr> j_committed_seq := seq, j_have_committed := True \<rparr>"

definition journal_len :: "journal \<Rightarrow> nat" where
  "journal_len j = j_size j"

definition journal_cap :: "journal \<Rightarrow> nat" where
  "journal_cap j = length (j_records j)"

definition span_ms :: "journal \<Rightarrow> int" where
  "span_ms j = trunc64 (foldl (\<lambda>tot r. tot + rc_duration_ms r) 0 (entries j))"

section \<open>The ring refines a list\<close>

definition journal_inv :: "nat \<Rightarrow> journal \<Rightarrow> bool" where
  "journal_inv c j \<longleftrightarrow> 0 < c \<and> length (j_records j) = c \<and> j_write_idx j < c \<and> j_size j \<le> c"

lemma new_journal_inv: "new_journal c = Some j \<Longrightarrow> journal_inv (nat c) j \<and> entries j = []"
  by (auto simp: new_journal_def journal_inv_def entries_def split: if_splits)

lemma append_inv [inv_intros]: "journal_inv c j \<Longrightarrow> journal_inv c (journal_append j r)"
  by (auto simp: journal_inv_def journal_append_def Let_def)

lemma trim_inv [inv_intros]: "journal_inv c j \<Longrightarrow> journal_inv c (trim_before j q)"
  by (simp add: journal_inv_def trim_before_def)

lemma entries_trim [simp]: "entries (trim_before j q) = entries j"
  by (simp add: entries_def trim_before_def ring_start_def)

lemma length_entries [simp]: "length (entries j) = j_size j"
  by (simp add: entries_def Let_def)

lemma write_idx_eq:
  assumes "journal_inv c j"
  shows "j_write_idx j = (ring_start j + j_size j) mod c"
proof -
  have "(ring_start j + j_size j) mod c = (j_write_idx j + c - j_size j + j_size j) mod c"
    using assms by (simp add: ring_start_def journal_inv_def mod_add_left_eq)
  also have "\<dots> = j_write_idx j" using assms by (simp add: journal_inv_def)
  finally show ?thesis by simp
qed

lemma ring_start_append:
  assumes "journal_inv c j"
  shows "ring_start (journal_append j r)
    = (if j_size j < c then ring_start j else (ring_start j + 1) mod c)"
proof -
  let ?w = "j_write_idx j" and ?n = "j_size j"
  have c: "0 < c" "?w < c" "?n \<le> c" "length (j_records j) = c" using assms by (auto simp: journal_inv_def)
  have wrap: "((?w + 1) mod c + c - k) mod c = (?w + 1 + c - k) mod c" if "k \<le> c" for k
  proof -
    have "((?w + 1) mod c + (c - k)) mod c = (?w + 1 + (c - k)) mod c" by (rule mod_add_left_eq)
    with that show ?thesis by (simp add: Suc_diff_le)
  qed
  show ?thesis
  proof (cases "?n < c")
    case True
    then show ?thesis using wrap [of "?n + 1"] c
      by (simp add: ring_start_def journal_append_def Let_def)
  next
    case False
    then have "?n = c" using c by simp
    then show ?thesis using wrap [of c] c
      by (simp add: ring_start_def journal_append_def Let_def mod_Suc_eq)
  qed
qed

lemma slots_differ:
  "i < n \<Longrightarrow> n - i < c \<Longrightarrow> (s + i) mod c \<noteq> (s + n) mod (c :: nat)"
proof
  assume "i < n" "n - i < c" "(s + i) mod c = (s + n) mod c"
  then have "c dvd (s + n) - (s + i)" by (metis mod_eq_dvd_iff_nat add_le_cancel_left less_imp_le)
  then have "c dvd n - i" by simp
  with \<open>i < n\<close> \<open>n - i < c\<close> show False by (simp add: nat_dvd_not_less)
qed

lemma entries_append:
  assumes inv: "journal_inv c j"
  shows "entries (journal_append j r) = keep_last c (entries j @ [r])"
proof -
  have c: "0 < c" "j_size j \<le> c" "length (j_records j) = c" "j_write_idx j < c"
    using inv by (auto simp: journal_inv_def)
  note w = write_idx_eq [OF inv] and st = ring_start_append [OF inv, of r]
  let ?s = "ring_start j"
  have recs: "j_records (journal_append j r) = (j_records j)[j_write_idx j := r]"
    by (simp add: journal_append_def Let_def)
  show ?thesis
  proof (cases "j_size j < c")
    case True
    have "entries (journal_append j r) =
        map (\<lambda>i. (j_records j)[j_write_idx j := r] ! ((?s + i) mod c)) [0..<Suc (j_size j)]"
      using True c st by (simp add: entries_def recs) (simp add: journal_append_def)
    also have "\<dots> = entries j @ [r]"
    proof -
      have "j_write_idx j \<noteq> (?s + i) mod c" if "i < j_size j" for i
      proof -
        have "(?s + i) mod c \<noteq> (?s + j_size j) mod c"
          by (rule slots_differ) (use that True in simp_all)
        then show ?thesis by (metis w)
      qed
      then have "\<forall>i\<in>{0..<j_size j}. (j_records j)[j_write_idx j := r] ! ((?s + i) mod c)
          = j_records j ! ((?s + i) mod c)" by simp
      then show ?thesis using c by (simp add: entries_def Let_def w [symmetric])
    qed
    finally show ?thesis using True by simp
  next
    case False
    then have full: "j_size j = c" using c by simp
    then have ws: "j_write_idx j = ?s mod c" using w by simp
    have "entries (journal_append j r) =
        map (\<lambda>i. (j_records j)[j_write_idx j := r] ! ((?s + Suc i) mod c)) [0..<c]"
      using False full c st by (simp add: entries_def recs mod_Suc_eq) (simp add: journal_append_def mod_add_left_eq)
    also have "\<dots> = tl (entries j) @ [r]"
    proof (rule nth_equalityI)
      fix i assume "i < length (map (\<lambda>i. (j_records j)[j_write_idx j := r] ! ((?s + Suc i) mod c)) [0..<c])"
      then have i: "i < c" by simp
      show "map (\<lambda>i. (j_records j)[j_write_idx j := r] ! ((?s + Suc i) mod c)) [0..<c] ! i
          = (tl (entries j) @ [r]) ! i"
      proof (cases "Suc i < c")
        case True
        then have "(?s + Suc i) mod c \<noteq> j_write_idx j"
          using slots_differ [of 0 "Suc i" c ?s] ws by simp
        then show ?thesis using True i full by (simp add: nth_append nth_tl entries_def Let_def c)
      next
        case last: False
        then have "Suc i = c" using i by simp
        then have "(?s + Suc i) mod c = j_write_idx j" "i = c - 1" using ws by auto
        then show ?thesis using i full c by (simp add: nth_append del: add_Suc_right)
      qed
    qed (use full c in simp)
    also have "\<dots> = keep_last c (entries j @ [r])"
      using full c(1) by (simp add: keep_last_def drop_Suc)
    finally show ?thesis .
  qed
qed

lemma journal_window: "0 < c \<Longrightarrow> bounded_window c (journal_inv c) journal_append entries"
  by unfold_locales (auto simp: entries_append append_inv, simp add: journal_inv_def)

interpretation ring: bounded_window "Suc n" "journal_inv (Suc n)" journal_append entries for n
  by (rule journal_window) simp

section \<open>Histories of operations\<close>

datatype journal_op = OpAppend audio_record | OpTrim u64

fun journal_do :: "journal \<Rightarrow> journal_op \<Rightarrow> journal" where
  "journal_do j (OpAppend r) = journal_append j r"
| "journal_do j (OpTrim q) = trim_before j q"

text \<open>The specification: everything ever appended, and the last floor set.\<close>

fun appended :: "journal_op list \<Rightarrow> audio_record list" where
  "appended [] = []"
| "appended (OpAppend r # ops) = r # appended ops"
| "appended (OpTrim q # ops) = appended ops"

fun floor_after :: "u64 option \<Rightarrow> journal_op list \<Rightarrow> u64 option" where
  "floor_after fl [] = fl"
| "floor_after fl (OpAppend r # ops) = floor_after fl ops"
| "floor_after fl (OpTrim q # ops) = floor_after (Some q) ops"

definition above :: "u64 option \<Rightarrow> audio_record list \<Rightarrow> audio_record list" where
  "above fl rs = (case fl of None \<Rightarrow> rs | Some q \<Rightarrow> filter (\<lambda>r. q < rc_seq r) rs)"

definition floor_of :: "journal \<Rightarrow> u64 option" where
  "floor_of j = (if j_have_committed j then Some (j_committed_seq j) else None)"

lemma read_from_committed_above: "read_from_committed j = above (floor_of j) (entries j)"
  by (simp add: read_from_committed_def above_def floor_of_def read_after_def)

lemma floor_append [simp]: "floor_of (journal_append j r) = floor_of j"
  by (simp add: floor_of_def journal_append_def Let_def)

lemma floor_trim [simp]: "floor_of (trim_before j q) = Some q"
  by (simp add: floor_of_def trim_before_def)

lemma journal_run:
  assumes "journal_inv (Suc n) j"
  shows "journal_inv (Suc n) (foldl journal_do j ops)
    \<and> entries (foldl journal_do j ops) = keep_last (Suc n) (entries j @ appended ops)
    \<and> floor_of (foldl journal_do j ops) = floor_after (floor_of j) ops"
  using assms
proof (induction ops arbitrary: j)
  case Nil
  then show ?case using ring.contents_bound [OF Nil] by simp
next
  case (Cons op ops)
  show ?case
  proof (cases op)
    case (OpTrim q)
    then show ?thesis using Cons.IH [OF trim_inv [OF Cons.prems]] by simp
  next
    case (OpAppend r)
    with Cons.IH [OF append_inv [OF Cons.prems], of r] show ?thesis
      by (simp add: entries_append [OF Cons.prems] keep_last_append)
  qed
qed

section \<open>Properties\<close>

text \<open>
  C13: the ring refines a list. After any sequence of appends and trims on a fresh
  journal of capacity \<open>Suc n\<close>, the journal holds the last \<open>Suc n\<close> records appended in
  their order, and the two replay reads are exactly the records among them above
  the given sequence, respectively above the last floor set (all of them when no
  final has been committed).
\<close>

theorem journal_refines_list:
  assumes "new_journal (int (Suc n)) = Some j0" "j = foldl journal_do j0 ops"
  shows "entries j = keep_last (Suc n) (appended ops)
    \<and> read_after j q = filter (\<lambda>r. q < rc_seq r) (keep_last (Suc n) (appended ops))
    \<and> read_from_committed j = above (floor_after None ops) (keep_last (Suc n) (appended ops))
    \<and> journal_len j = min (Suc n) (length (appended ops)) \<and> journal_cap j = Suc n"
proof -
  have j0: "journal_inv (Suc n) j0" "entries j0 = []" "floor_of j0 = None"
    using new_journal_inv [OF assms(1)] assms(1)
    by (simp_all only: nat_int) (auto simp: new_journal_def floor_of_def)
  from journal_run [OF j0(1), of ops] j0(2,3) have e: "entries j = keep_last (Suc n) (appended ops)"
    and f: "floor_of j = floor_after None ops" and i: "journal_inv (Suc n) j"
    by (simp_all add: assms(2))
  have "journal_len j = length (entries j)" by (simp add: journal_len_def)
  with e f i show ?thesis
    by (simp add: read_after_def read_from_committed_above journal_cap_def journal_inv_def)
qed

definition three_ops :: "journal_op list" where
  "three_ops = [OpAppend (twenty 1 True), OpTrim 1, OpAppend (twenty 2 True), OpAppend (twenty 3 False)]"

theorem journal_refines_list_witness:
  "read_from_committed (foldl journal_do (the (new_journal 2)) three_ops) = [twenty 2 True, twenty 3 False]"
proof -
  have j0: "new_journal (int (Suc 1)) = Some (the (new_journal 2))" by (simp add: new_journal_def)
  from journal_refines_list [OF j0 refl, of three_ops] show ?thesis
    by (simp add: three_ops_def keep_last_def above_def twenty_def)
qed

lemma keep_last_above:
  assumes "sorted_wrt (\<lambda>r r'. rc_seq r < rc_seq r') rs" "length (above (Some q) rs) \<le> n"
  shows "above (Some q) (keep_last n rs) = above (Some q) rs"
  using assms
proof (induction rs)
  case Nil
  then show ?case by (simp add: keep_last_def)
next
  case (Cons r rs)
  show ?case
  proof (cases "length rs < n")
    case False
    have le: "length (above (Some q) rs) \<le> n" using Cons.prems(2) by (simp add: above_def split: if_splits)
    have "\<not> q < rc_seq r"
    proof
      assume "q < rc_seq r"
      then have "above (Some q) (r # rs) = r # rs"
        using Cons.prems(1) by (auto simp: above_def intro!: filter_True)
      with Cons.prems(2) False show False by simp
    qed
    moreover have "keep_last n (r # rs) = keep_last n rs"
      using False by (simp add: keep_last_def Suc_diff_le)
    ultimately show ?thesis using Cons.IH [OF _ le] Cons.prems(1) by (simp add: above_def)
  qed simp
qed

text \<open>
  A replay is complete until the ring overruns its floor. When the appended
  records have increasing sequence numbers (which the validator guarantees) and at
  most \<open>Suc n\<close> of them lie above the floor, \<open>ReadFromCommitted\<close> returns every record
  ever appended above the floor, none lost to wrap-around.
\<close>

theorem replay_from_floor_is_complete:
  assumes "new_journal (int (Suc n)) = Some j0" "j = foldl journal_do j0 ops"
    and "sorted_wrt (\<lambda>r r'. rc_seq r < rc_seq r') (appended ops)"
    and "floor_after None ops = Some q" "length (above (Some q) (appended ops)) \<le> Suc n"
  shows "read_from_committed j = filter (\<lambda>r. q < rc_seq r) (appended ops)"
  using journal_refines_list [OF assms(1,2)] keep_last_above [OF assms(3,5)] assms(4)
  by (simp add: above_def)

theorem replay_from_floor_is_complete_witness:
  "read_from_committed (foldl journal_do (the (new_journal 2)) three_ops) = [twenty 2 True, twenty 3 False]"
proof -
  have j0: "new_journal (int (Suc 1)) = Some (the (new_journal 2))" by (simp add: new_journal_def)
  from replay_from_floor_is_complete [OF j0 refl, of three_ops 1] show ?thesis
    by (simp add: three_ops_def above_def twenty_def)
qed

end
