(* ===== verification/Admission.thy ===== *)
theory Admission
  imports Prelude
begin

text \<open>
  The admission controller of \<^verbatim>\<open>internal/admission/admission.go\<close>. The operations are
  given twice: as atomic functions, and as the interleaved steps of any number of
  sessions (load, compare-and-swap, the locked high-water update), which is where
  the hard ceiling has to hold. The counter of refused sessions is the package
  metric the code increments.
\<close>

section \<open>Configuration and state\<close>

record decision =
  dc_refused :: bool
  dc_reason :: string
  dc_retry_after :: duration

definition admitted_decision :: decision where
  "admitted_decision = \<lparr> dc_refused = False, dc_reason = '''', dc_retry_after = 0 \<rparr>"

record admission_config =
  cf_max_sessions :: int
  cf_soft_sessions :: int
  cf_retry_after :: duration

definition default_admission_config :: admission_config where
  "default_admission_config =
     \<lparr> cf_max_sessions = 200, cf_soft_sessions = 150, cf_retry_after = second \<rparr>"

record controller =
  ct_cfg :: admission_config
  ct_admitted :: int
  ct_high_water :: int
  ct_rejected :: int \<comment> \<open>metrics.AdmissionRejectedTotal\<close>

text \<open>Go's integer division truncates; both operands are positive here.\<close>

definition new_controller :: "admission_config \<Rightarrow> controller" where
  "new_controller cfg0 =
     (let cfg = (if cf_max_sessions cfg0 \<le> 0 then default_admission_config else cfg0);
          cfg' = (if cf_soft_sessions cfg \<le> 0 \<or> cf_soft_sessions cfg > cf_max_sessions cfg
                  then cfg\<lparr>cf_soft_sessions := cf_max_sessions cfg * 3 div 4\<rparr> else cfg)
      in \<lparr> ct_cfg = cfg', ct_admitted = 0, ct_high_water = 0, ct_rejected = 0 \<rparr>)"

definition refusal :: "admission_config \<Rightarrow> decision" where
  "refusal cfg = \<lparr> dc_refused = True, dc_reason = ''gateway at session capacity'',
     dc_retry_after = cf_retry_after cfg \<rparr>"

definition note_high_water :: "controller \<Rightarrow> int \<Rightarrow> controller" where
  "note_high_water c n = (if n > ct_high_water c then c\<lparr>ct_high_water := n\<rparr> else c)"

text \<open>\<open>Admit\<close> when no other call interferes: the first compare-and-swap succeeds.\<close>

definition admit :: "controller \<Rightarrow> decision \<times> controller" where
  "admit c =
     (let cur = ct_admitted c in
      if cur \<ge> cf_max_sessions (ct_cfg c)
      then (refusal (ct_cfg c), c\<lparr>ct_rejected := ct_rejected c + 1\<rparr>)
      else (admitted_decision, note_high_water (c\<lparr>ct_admitted := cur + 1\<rparr>) (cur + 1)))"

definition release :: "controller \<Rightarrow> controller" where
  "release c =
     (let c' = c\<lparr>ct_admitted := ct_admitted c - 1\<rparr> in
      if ct_admitted c' < 0 then c'\<lparr>ct_admitted := 0\<rparr> else c')"

definition degraded :: "controller \<Rightarrow> bool" where
  "degraded c \<longleftrightarrow> ct_admitted c > cf_soft_sessions (ct_cfg c)"

definition chunk_policy :: "controller \<Rightarrow> float64 \<Rightarrow> float64 \<Rightarrow> float64" where
  "chunk_policy c normalMs degradedMs = (if degraded c then degradedMs else normalMs)"

section \<open>Interleaved sessions\<close>

text \<open>
  Where a session's goroutine is: before its \<open>Admit\<close>, after the load of the counter,
  after winning the swap but before the high-water update, holding a slot, or done
  (refused or released). Each constructor is reached by one atomic action of the
  code; a goroutine releases only the slot it holds, once.
\<close>

datatype session_pc =
    Arriving
  | Loaded int
  | Won int
  | Holding
  | Done

type_synonym gate = "controller \<times> session_pc list"

inductive gate_step :: "gate \<Rightarrow> gate \<Rightarrow> bool" where
  gate_arrive: "gate_step (c, ts) (c, ts @ [Arriving])"
| gate_load: "\<lbrakk>i < length ts; ts ! i = Arriving\<rbrakk> \<Longrightarrow>
    gate_step (c, ts) (c, ts[i := Loaded (ct_admitted c)])"
| gate_refuse: "\<lbrakk>i < length ts; ts ! i = Loaded cur; cur \<ge> cf_max_sessions (ct_cfg c)\<rbrakk> \<Longrightarrow>
    gate_step (c, ts) (c\<lparr>ct_rejected := ct_rejected c + 1\<rparr>, ts[i := Done])"
| gate_swap: "\<lbrakk>i < length ts; ts ! i = Loaded cur; cur < cf_max_sessions (ct_cfg c); ct_admitted c = cur\<rbrakk> \<Longrightarrow>
    gate_step (c, ts) (c\<lparr>ct_admitted := cur + 1\<rparr>, ts[i := Won (cur + 1)])"
| gate_retry: "\<lbrakk>i < length ts; ts ! i = Loaded cur; cur < cf_max_sessions (ct_cfg c); ct_admitted c \<noteq> cur\<rbrakk> \<Longrightarrow>
    gate_step (c, ts) (c, ts[i := Arriving])"
| gate_note: "\<lbrakk>i < length ts; ts ! i = Won n\<rbrakk> \<Longrightarrow>
    gate_step (c, ts) (note_high_water c n, ts[i := Holding])"
| gate_release: "\<lbrakk>i < length ts; ts ! i = Holding\<rbrakk> \<Longrightarrow>
    gate_step (c, ts) (release c, ts[i := Done])"

inductive_cases gate_stepE: "gate_step (c, ts) g"

definition occupies :: "session_pc \<Rightarrow> int" where
  "occupies t = (case t of Won _ \<Rightarrow> 1 | Holding \<Rightarrow> 1 | _ \<Rightarrow> 0)"

definition slots :: "session_pc list \<Rightarrow> int" where
  "slots ts = (\<Sum>t\<leftarrow>ts. occupies t)"

lemma occupies_simps [simp]:
  "occupies Arriving = 0" "occupies (Loaded n) = 0" "occupies (Won n) = 1" "occupies Holding = 1"
  "occupies Done = 0"
  by (simp_all add: occupies_def)

lemma slots_update: "i < length ts \<Longrightarrow> slots (ts[i := t]) = slots ts + occupies t - occupies (ts ! i)"
  by (induction ts arbitrary: i) (auto simp: slots_def split: nat.splits)

lemma slots_snoc [simp]: "slots (ts @ [t]) = slots ts + occupies t"
  by (simp add: slots_def)

lemma slots_nonneg: "0 \<le> slots ts"
  by (induction ts) (auto simp: slots_def occupies_def split: session_pc.splits)

lemma slots_pos:
  assumes "i < length ts" "occupies (ts ! i) = 1"
  shows "1 \<le> slots ts"
  using slots_update [OF assms(1), of Done] slots_nonneg [of "ts[i := Done]"] assms(2) by simp

definition pc_bounded :: "int \<Rightarrow> session_pc \<Rightarrow> bool" where
  "pc_bounded m t = (case t of Won n \<Rightarrow> n \<le> m | _ \<Rightarrow> True)"

text \<open>
  The counter equals the number of slots held, never exceeds the ceiling, and the
  recorded high water never exceeds it either.
\<close>

definition gate_inv :: "gate \<Rightarrow> bool" where
  "gate_inv g = (case g of (c, ts) \<Rightarrow>
     ct_admitted c = slots ts \<and> ct_admitted c \<le> cf_max_sessions (ct_cfg c)
     \<and> ct_high_water c \<le> cf_max_sessions (ct_cfg c)
     \<and> list_all (pc_bounded (cf_max_sessions (ct_cfg c))) ts)"

lemma note_high_water_frame [simp]:
  "ct_cfg (note_high_water c n) = ct_cfg c" "ct_admitted (note_high_water c n) = ct_admitted c"
  "ct_high_water (note_high_water c n) = max (ct_high_water c) n"
  "ct_rejected (note_high_water c n) = ct_rejected c"
  by (simp_all add: note_high_water_def)

lemma release_frame [simp]:
  "ct_cfg (release c) = ct_cfg c" "ct_high_water (release c) = ct_high_water c"
  "ct_admitted (release c) = max 0 (ct_admitted c - 1)" "ct_rejected (release c) = ct_rejected c"
  by (simp_all add: release_def Let_def)

lemma list_all_update: "list_all P ts \<Longrightarrow> P t \<Longrightarrow> list_all P (ts[i := t])"
  by (auto simp: list_all_iff dest!: set_update_subset_insert [THEN subsetD])

lemma gate_step_inv:
  assumes "gate_step g g'" "gate_inv g"
  shows "gate_inv g'"
  using assms
proof (induction rule: gate_step.induct)
  case (gate_note i ts n c)
  then have "n \<le> cf_max_sessions (ct_cfg c)"
    by (auto simp: gate_inv_def list_all_length pc_bounded_def split: session_pc.splits)
  with gate_note show ?case
    by (auto simp: gate_inv_def slots_update pc_bounded_def intro: list_all_update)
next
  case (gate_release i ts c)
  with slots_pos [of i ts] show ?case
    by (auto simp: gate_inv_def slots_update pc_bounded_def intro: list_all_update)
qed (auto simp: gate_inv_def slots_update pc_bounded_def intro: list_all_update)

definition initial_gate :: "admission_config \<Rightarrow> gate" where
  "initial_gate cfg = (new_controller cfg, [])"

lemma initial_gate_inv: "gate_inv (initial_gate cfg)"
  by (auto simp: gate_inv_def initial_gate_def new_controller_def slots_def Let_def
      default_admission_config_def)

lemma gate_reachable_inv: "gate_step\<^sup>*\<^sup>* (initial_gate cfg) g \<Longrightarrow> gate_inv g"
  by (induction rule: rtranclp_induct) (auto intro: initial_gate_inv gate_step_inv)

lemma gate_cfg: "gate_step g g' \<Longrightarrow> ct_cfg (fst g') = ct_cfg (fst g)"
  by (induction rule: gate_step.induct) simp_all

lemma gate_reachable_cfg: "gate_step\<^sup>*\<^sup>* g g' \<Longrightarrow> ct_cfg (fst g') = ct_cfg (fst g)"
  by (induction rule: rtranclp_induct) (auto dest: gate_cfg)

section \<open>Properties\<close>

text \<open>
  C12: the ceiling is hard under every interleaving. Whatever the order in which any
  number of sessions load the counter, win or lose the swap, note the high water and
  release, the counter is the number of slots held, it is between 0 and the
  configured maximum, and the high water never exceeds that maximum.
\<close>

theorem admission_ceiling_is_hard:
  assumes "gate_step\<^sup>*\<^sup>* (initial_gate cfg) (c, ts)"
  shows "ct_admitted c = slots ts \<and> 0 \<le> ct_admitted c
     \<and> ct_admitted c \<le> cf_max_sessions (ct_cfg (new_controller cfg))
     \<and> ct_high_water c \<le> cf_max_sessions (ct_cfg (new_controller cfg))"
proof -
  have "ct_cfg c = ct_cfg (new_controller cfg)"
    using gate_reachable_cfg [OF assms] by (simp add: initial_gate_def)
  with gate_reachable_inv [OF assms] slots_nonneg [of ts] show ?thesis
    by (simp add: gate_inv_def)
qed

text \<open>A session that is admitted without interference runs exactly \<open>admit\<close>.\<close>

lemma admit_refines_steps:
  "gate_step\<^sup>*\<^sup>* (c, ts @ [Arriving])
     (snd (admit c), ts @ [if dc_refused (fst (admit c)) then Done else Holding])"
proof -
  let ?n = "length ts" and ?m = "cf_max_sessions (ct_cfg c)"
  have load: "gate_step (c, ts @ [Arriving]) (c, ts @ [Loaded (ct_admitted c)])"
    using gate_load [of ?n "ts @ [Arriving]" c] by simp
  show ?thesis
  proof (cases "ct_admitted c \<ge> ?m")
    case True
    have "gate_step (c, ts @ [Loaded (ct_admitted c)]) (c\<lparr>ct_rejected := ct_rejected c + 1\<rparr>, ts @ [Done])"
      using gate_refuse [of ?n "ts @ [Loaded (ct_admitted c)]" "ct_admitted c" c] True by simp
    with load True show ?thesis
      by (auto simp: admit_def refusal_def Let_def intro: converse_rtranclp_into_rtranclp)
  next
    case False
    let ?c1 = "c\<lparr>ct_admitted := ct_admitted c + 1\<rparr>"
    have "gate_step (c, ts @ [Loaded (ct_admitted c)]) (?c1, ts @ [Won (ct_admitted c + 1)])"
      using gate_swap [of ?n "ts @ [Loaded (ct_admitted c)]" "ct_admitted c" c] False by simp
    moreover have "gate_step (?c1, ts @ [Won (ct_admitted c + 1)])
        (note_high_water ?c1 (ct_admitted c + 1), ts @ [Holding])"
      using gate_note [of ?n "ts @ [Won (ct_admitted c + 1)]" "ct_admitted c + 1" ?c1] by simp
    ultimately show ?thesis using load False
      by (auto simp: admit_def admitted_decision_def Let_def intro: converse_rtranclp_into_rtranclp)
  qed
qed

lemma two_admitted:
  "gate_step\<^sup>*\<^sup>* (initial_gate \<lparr>cf_max_sessions = 1, cf_soft_sessions = 1, cf_retry_after = 5\<rparr>)
     (\<lparr> ct_cfg = \<lparr>cf_max_sessions = 1, cf_soft_sessions = 1, cf_retry_after = 5\<rparr>,
        ct_admitted = 1, ct_high_water = 1, ct_rejected = 1 \<rparr>, [Holding, Done])"
  (is "gate_step\<^sup>*\<^sup>* ?g ?g'")
proof -
  let ?c = "new_controller \<lparr>cf_max_sessions = 1, cf_soft_sessions = 1, cf_retry_after = 5\<rparr>"
  let ?c1 = "snd (admit ?c)"
  have eval: "dc_refused (fst (admit ?c)) = False" "dc_refused (fst (admit ?c1)) = True"
    "snd (admit ?c1) = fst ?g'"
    by (simp_all add: new_controller_def admit_def refusal_def admitted_decision_def note_high_water_def Let_def)
  have "gate_step\<^sup>*\<^sup>* (?c, [] @ [Arriving]) (?c1, [] @ [Holding])"
    using admit_refines_steps [of ?c "[]"] unfolding eval(1) by simp
  moreover have "gate_step\<^sup>*\<^sup>* (?c1, [Holding] @ [Arriving]) (fst ?g', [Holding] @ [Done])"
    using admit_refines_steps [of ?c1 "[Holding]"] unfolding eval(2,3) by simp
  ultimately show ?thesis
    using gate_arrive [of ?c "[]"] gate_arrive [of ?c1 "[Holding]"] unfolding initial_gate_def
    by (auto intro: converse_rtranclp_into_rtranclp rtranclp_trans)
qed

theorem admission_ceiling_is_hard_witness:
  "(1 :: int) = slots [Holding, Done] \<and>
   ct_high_water (\<lparr> ct_cfg = \<lparr>cf_max_sessions = 1, cf_soft_sessions = 1, cf_retry_after = 5\<rparr>,
        ct_admitted = 1, ct_high_water = 1, ct_rejected = 1 \<rparr>) \<le> 1"
  using admission_ceiling_is_hard [OF two_admitted] by (simp add: new_controller_def)

text \<open>
  A slot given back can be taken. In any reachable state with a session holding a
  slot, releasing it leaves room, so the next \<open>Admit\<close> that runs undisturbed is
  admitted; at the ceiling \<open>Admit\<close> refuses with the configured retry delay and counts
  the refusal, leaving the slots alone.
\<close>

theorem release_makes_room:
  assumes "gate_step\<^sup>*\<^sup>* (initial_gate cfg) (c, ts)" "i < length ts" "ts ! i = Holding"
  shows "\<not> dc_refused (fst (admit (release c)))
     \<and> ct_admitted (snd (admit (release c))) = ct_admitted c
     \<and> (ct_admitted c = cf_max_sessions (ct_cfg c) \<longrightarrow>
          admit c = (\<lparr> dc_refused = True, dc_reason = ''gateway at session capacity'',
                       dc_retry_after = cf_retry_after (ct_cfg c) \<rparr>,
                     c\<lparr>ct_rejected := ct_rejected c + 1\<rparr>))"
proof -
  have "gate_inv (c, ts)" using assms(1) by (rule gate_reachable_inv)
  then have "1 \<le> ct_admitted c" "ct_admitted c \<le> cf_max_sessions (ct_cfg c)"
    using slots_pos [of i ts] assms(2,3) by (simp_all add: gate_inv_def)
  then show ?thesis
    by (simp add: admit_def refusal_def admitted_decision_def Let_def)
qed

theorem release_makes_room_witness:
  "\<not> dc_refused (fst (admit (release (\<lparr> ct_cfg = \<lparr>cf_max_sessions = 1, cf_soft_sessions = 1, cf_retry_after = 5\<rparr>,
        ct_admitted = 1, ct_high_water = 1, ct_rejected = 1 \<rparr>))))"
  using release_makes_room [OF two_admitted, of 0] by simp

end
