(* ===== verification/Bucket.thy ===== *)
theory Bucket
  imports Prelude
begin

text \<open>
  The per-worker rate-limit bucket of \<^verbatim>\<open>internal/router/bucket.go\<close>. The clock is an
  argument of every operation; token counts, limits and headroom are exact. A nil
  \<open>*Bucket\<close> is \<open>None\<close>. The lemmas bound the tokens and, over any run of operations
  with a clock that does not go back, the number of tokens handed out.
\<close>

record bucket =
  bk_limit :: float64
  bk_tokens :: float64
  bk_headroom :: float64
  bk_blocked_until :: time
  bk_last_refill :: time

definition defaultBucketLimit :: float64 where "defaultBucketLimit = 200"
definition defaultHeadroom :: float64 where "defaultHeadroom = 1 / 5"

definition new_bucket :: "time \<Rightarrow> float64 \<Rightarrow> float64 \<Rightarrow> bucket" where
  "new_bucket now limit headroom =
     \<lparr> bk_limit = limit, bk_tokens = limit, bk_headroom = headroom, bk_blocked_until = 0,
       bk_last_refill = now \<rparr>"

definition refill :: "bucket \<Rightarrow> time \<Rightarrow> bucket" where
  "refill b now =
     (if bk_last_refill b = 0 then b\<lparr>bk_last_refill := now\<rparr>
      else let elapsed = seconds (now - bk_last_refill b) in
        if elapsed \<le> 0 then b
        else let tok = bk_tokens b + elapsed * bk_limit b in
          b\<lparr> bk_last_refill := now, bk_tokens := (if tok > bk_limit b then bk_limit b else tok) \<rparr>)"

definition available_at :: "bucket \<Rightarrow> time \<Rightarrow> bool \<times> bucket" where
  "available_at b now =
     (let b' = refill b now in
      (\<not> now < bk_blocked_until b' \<and> bk_tokens b' > bk_limit b' * bk_headroom b', b'))"

definition take_at :: "bucket \<Rightarrow> time \<Rightarrow> bool \<times> bucket" where
  "take_at b now =
     (let b' = refill b now in
      if now < bk_blocked_until b' \<or> bk_tokens b' \<le> bk_limit b' * bk_headroom b' then (False, b')
      else (True, b'\<lparr>bk_tokens := bk_tokens b' - 1\<rparr>))"

definition on429_at :: "bucket \<Rightarrow> time \<Rightarrow> duration \<Rightarrow> bucket" where
  "on429_at b now retryAfter =
     b\<lparr> bk_tokens := 0, bk_last_refill := now, bk_blocked_until := now + retryAfter \<rparr>"

definition bucket_available :: "bucket option \<Rightarrow> time \<Rightarrow> bool \<times> bucket option" where
  "bucket_available b now =
     (case b of None \<Rightarrow> (True, None) | Some b \<Rightarrow> let (ok, b') = available_at b now in (ok, Some b'))"

definition bucket_take :: "bucket option \<Rightarrow> time \<Rightarrow> bool \<times> bucket option" where
  "bucket_take b now =
     (case b of None \<Rightarrow> (True, None) | Some b \<Rightarrow> let (ok, b') = take_at b now in (ok, Some b'))"

definition bucket_on429 :: "bucket option \<Rightarrow> time \<Rightarrow> duration \<Rightarrow> bucket option" where
  "bucket_on429 b now retryAfter = map_option (\<lambda>b. on429_at b now retryAfter) b"

definition bucket_blocked :: "bucket option \<Rightarrow> time \<Rightarrow> bool" where
  "bucket_blocked b now = (case b of None \<Rightarrow> False | Some b \<Rightarrow> now < bk_blocked_until b)"

section \<open>Lemmas\<close>

lemma refill_frame [simp]:
  "bk_limit (refill b now) = bk_limit b" "bk_headroom (refill b now) = bk_headroom b"
  "bk_blocked_until (refill b now) = bk_blocked_until b"
  by (simp_all add: refill_def Let_def)

lemma seconds_pos_iff [simp]: "seconds d \<le> 0 \<longleftrightarrow> d \<le> 0" "0 < seconds d \<longleftrightarrow> 0 < d"
  by (simp_all add: seconds_def divide_le_0_iff zero_less_divide_iff)

lemma seconds_mono: "d \<le> e \<Longrightarrow> seconds d \<le> seconds e"
  by (simp add: seconds_def divide_right_mono)

lemma seconds_diff: "seconds (d - e) = seconds d - seconds e"
  by (simp add: seconds_def diff_divide_distrib)

lemma refill_twice [simp]: "refill (refill b now) now = refill b now"
  by (simp add: refill_def Let_def)

text \<open>
  The bucket's state, seen from time \<open>t\<close> of the last operation: tokens within their
  bounds and the last refill neither zero nor in the future.
\<close>

definition bucket_inv :: "time \<Rightarrow> bucket \<Rightarrow> bool" where
  "bucket_inv t b \<longleftrightarrow> 0 \<le> bk_headroom b \<and> 1 \<le> bk_limit b * bk_headroom b \<and> 0 < bk_limit b
     \<and> 0 \<le> bk_tokens b \<and> bk_tokens b \<le> bk_limit b
     \<and> 0 < bk_last_refill b \<and> bk_last_refill b \<le> t"

lemma new_bucket_inv:
  "0 < now \<Longrightarrow> 0 < limit \<Longrightarrow> 0 \<le> headroom \<Longrightarrow> 1 \<le> limit * headroom \<Longrightarrow>
     bucket_inv now (new_bucket now limit headroom)"
  by (simp add: bucket_inv_def new_bucket_def)

lemma refill_inv [inv_intros]:
  assumes "bucket_inv t b" "t \<le> now"
  shows "bucket_inv now (refill b now)"
  using assms by (auto simp: bucket_inv_def refill_def Let_def less_imp_le)

text \<open>
  Tokens minus what the clock has credited so far: refilling can only lose credit,
  spending a token lowers it by one, a 429 forfeits what is left.
\<close>

definition credit :: "bucket \<Rightarrow> float64" where
  "credit b = bk_tokens b - bk_limit b * seconds (bk_last_refill b)"

lemma refill_credit:
  assumes "bucket_inv t b" "t \<le> now"
  shows "credit (refill b now) \<le> credit b"
  using assms
  by (auto simp: bucket_inv_def refill_def credit_def Let_def seconds_diff algebra_simps)

lemma take_inv [inv_intros]:
  assumes "bucket_inv t b" "t \<le> now" "take_at b now = (ok, b')"
  shows "bucket_inv now b'"
  using refill_inv [OF assms(1,2)] assms(3)
  by (auto simp: take_at_def bucket_inv_def Let_def split: if_splits)

lemma take_credit:
  assumes "bucket_inv t b" "t \<le> now" "take_at b now = (ok, b')"
  shows "credit b' \<le> credit b - of_bool ok"
  using refill_credit [OF assms(1,2)] assms(3)
  by (auto simp: take_at_def credit_def Let_def split: if_splits)

lemma on429_inv [inv_intros]:
  "bucket_inv t b \<Longrightarrow> t \<le> now \<Longrightarrow> bucket_inv now (on429_at b now d)"
  by (auto simp: bucket_inv_def on429_at_def)

lemma on429_credit:
  assumes "bucket_inv t b" "t \<le> now"
  shows "credit (on429_at b now d) \<le> credit b"
proof -
  have "seconds (bk_last_refill b) \<le> seconds now"
    using assms by (auto simp: bucket_inv_def intro: seconds_mono)
  then have "bk_limit b * seconds (bk_last_refill b) \<le> bk_limit b * seconds now"
    using assms(1) by (simp add: bucket_inv_def)
  moreover have "credit (on429_at b now d) = - (bk_limit b * seconds now)"
    by (simp add: credit_def on429_at_def)
  moreover have "0 \<le> bk_tokens b" using assms(1) by (simp add: bucket_inv_def)
  ultimately show ?thesis unfolding credit_def by linarith
qed

section \<open>Runs\<close>

datatype bucket_op = OpAvailable | OpTake | OpRefuse duration

fun bucket_do :: "bucket \<Rightarrow> time \<times> bucket_op \<Rightarrow> nat \<times> bucket" where
  "bucket_do b (now, OpAvailable) = (0, snd (available_at b now))"
| "bucket_do b (now, OpTake) = (let (ok, b') = take_at b now in (of_bool ok, b'))"
| "bucket_do b (now, OpRefuse d) = (0, on429_at b now d)"

fun bucket_run :: "bucket \<Rightarrow> (time \<times> bucket_op) list \<Rightarrow> nat \<times> bucket" where
  "bucket_run b [] = (0, b)"
| "bucket_run b (op # ops) =
     (let (n, b1) = bucket_do b op; (m, b2) = bucket_run b1 ops in (n + m, b2))"

lemma bucket_do_step:
  assumes "bucket_inv t b" "t \<le> fst op" "bucket_do b op = (n, b')"
  shows "bucket_inv (fst op) b' \<and> credit b' + of_nat n \<le> credit b \<and> bk_limit b' = bk_limit b
    \<and> bk_headroom b' = bk_headroom b"
proof (cases op)
  case (Pair now k)
  show ?thesis
  proof (cases k)
    case OpAvailable
    then show ?thesis using assms Pair refill_inv [of t b now] refill_credit [of t b now]
      by (auto simp: available_at_def Let_def)
  next
    case OpTake
    obtain ok b1 where "take_at b now = (ok, b1)" by fastforce
    moreover from this have "bk_limit b1 = bk_limit b" "bk_headroom b1 = bk_headroom b"
      by (auto simp: take_at_def Let_def split: if_splits)
    ultimately show ?thesis
      using assms Pair OpTake take_inv [of t b now ok b1] take_credit [of t b now ok b1] by auto
  next
    case (OpRefuse d)
    then show ?thesis using assms Pair on429_inv [of t b now d] on429_credit [of t b now d]
      by (auto simp: on429_at_def)
  qed
qed

lemma take_reserve:
  assumes "bucket_inv t b" "t \<le> now" "take_at b now = (True, b')"
  shows "bk_limit b * bk_headroom b - 1 - bk_limit b * seconds now < credit b'"
proof -
  have b': "b' = (refill b now)\<lparr>bk_tokens := bk_tokens (refill b now) - 1\<rparr>"
    and more: "bk_limit b * bk_headroom b < bk_tokens (refill b now)"
    using assms(3) by (auto simp: take_at_def Let_def split: if_splits)
  have "bk_last_refill (refill b now) \<le> now" "0 < bk_limit b"
    using refill_inv [OF assms(1,2)] by (auto simp: bucket_inv_def)
  then have "bk_limit b * seconds (bk_last_refill (refill b now)) \<le> bk_limit b * seconds now"
    using seconds_mono by simp
  with more show ?thesis unfolding credit_def b' by simp
qed

text \<open>
  The tokens handed out by a run are covered by the credit at its start, less the
  reserve that is never spent.
\<close>

lemma bucket_run_bound:
  assumes "bucket_inv t b" "sorted (t # map fst ops)" "bucket_run b ops = (n, b')"
  shows "n = 0 \<or> of_nat n < credit b + bk_limit b * seconds (last (t # map fst ops))
           - bk_limit b * bk_headroom b + 1"
  using assms
proof (induction ops arbitrary: t b n)
  case Nil
  then show ?case by simp
next
  case (Cons op ops)
  let ?finish = "last (fst op # map fst ops)"
  obtain k b1 where one: "bucket_do b op = (k, b1)" by fastforce
  obtain m where rest: "bucket_run b1 ops = (m, b')" and n: "n = k + m"
    using Cons.prems(3) by (auto simp: one split: prod.splits)
  have le: "t \<le> fst op" "sorted (fst op # map fst ops)" using Cons.prems(2) by simp_all
  note step = bucket_do_step [OF Cons.prems(1) le(1) one]
  show ?case
  proof (cases "m = 0")
    case False
    with step Cons.IH [OF _ le(2) rest] n show ?thesis by auto
  next
    case True
    show ?thesis
    proof (cases "k = 0")
      case False
      then have take: "take_at b (fst op) = (True, b1)" and k: "k = 1"
        using one by (cases op; cases "snd op"; auto split: prod.splits)+
      have "fst op \<le> ?finish" using le(2) by (cases "map fst ops") (auto simp: last_in_set)
      moreover have "0 < bk_limit b" using Cons.prems(1) by (simp add: bucket_inv_def)
      ultimately have "bk_limit b * seconds (fst op) \<le> bk_limit b * seconds ?finish"
        using seconds_mono by simp
      moreover have "credit b1 + 1 \<le> credit b" using step k by simp
      ultimately show ?thesis
        using take_reserve [OF Cons.prems(1) le(1) take] True k n by simp
    qed (use True n in simp)
  qed
qed

section \<open>Properties\<close>

text \<open>
  C19: the bucket limits the rate, and keeps its headroom. Over any run of checks,
  takes and 429s on a fresh bucket, with a clock that does not go back, the number
  of tokens handed out is less than the unreserved part of one full bucket plus one
  plus what the elapsed time refills.
\<close>

theorem bucket_limits_rate:
  assumes "0 < t0" "0 < limit" "0 \<le> headroom" "1 \<le> limit * headroom"
    and "sorted (t0 # map fst ops)" "bucket_run (new_bucket t0 limit headroom) ops = (n, b)" "0 < n"
  shows "of_nat n < limit * (1 - headroom) + 1 + limit * seconds (last (t0 # map fst ops) - t0)"
proof -
  have inv: "bucket_inv t0 (new_bucket t0 limit headroom)" using assms by (intro new_bucket_inv)
  show ?thesis using bucket_run_bound [OF inv assms(5,6)] assms(7)
    by (simp add: credit_def new_bucket_def seconds_diff algebra_simps)
qed

theorem bucket_limits_rate_witness:
  "let (n, b) = bucket_run (new_bucket 1000000000 5 (1/5)) (replicate 7 (1000000000, OpTake)) in
     n = 4 \<and> of_nat n < 5 * (1 - 1/5) + 1 + 5 * seconds 0"
proof -
  have run: "bucket_run (new_bucket 1000000000 5 (1/5)) (replicate 7 (1000000000, OpTake))
      = (4, snd (bucket_run (new_bucket 1000000000 5 (1/5)) (replicate 7 (1000000000, OpTake))))"
    by (simp add: take_at_def new_bucket_def refill_def seconds_def numeral_eq_Suc)
  show ?thesis
    by (subst run)
      (use bucket_limits_rate [of 1000000000 5 "1/5" "replicate 7 (1000000000, OpTake)" 4, OF _ _ _ _ _ run]
       in \<open>simp add: numeral_eq_Suc\<close>)
qed

text \<open>
  The check predicts the spend, and a 429 is obeyed. \<open>takeAt\<close> succeeds exactly
  when \<open>availableAt\<close> says so at the same time, whatever the checks before it, and
  after a worker's refusal neither grants anything until its Retry-After has passed.
\<close>

theorem available_predicts_take:
  "fst (take_at b now) = fst (available_at b now)
   \<and> fst (take_at (snd (available_at b now)) now) = fst (take_at b now)
   \<and> fst (take_at (on429_at b t d) now) = (fst (take_at (on429_at b t d) now) \<and> t + d \<le> now)
   \<and> bucket_blocked (Some (on429_at b t d)) now = (now < t + d)"
  by (auto simp: take_at_def available_at_def on429_at_def bucket_blocked_def Let_def)

end
