(* ===== verification/Backend.thy ===== *)
theory Backend
  imports Json
begin

text \<open>
  \<^verbatim>\<open>internal/backend/client.go\<close>: the request and response types, the \<open>Client\<close>
  interface (a record of functions over the state \<open>'e\<close> of everything outside the
  gateway) and \<open>HTTPClient\<close>, which implements it over a transport: \<open>http.Client.Do\<close>
  is the parameter, from a request to a connection error or a response. A response
  carries the JSON value its body denotes (none when it is malformed) and its text.
\<close>

section \<open>HTTP\<close>

datatype form_part = FieldPart string string | FilePart string string "byte list"

datatype http_body = NoBody | JsonBody json | RawBody "byte list" | FormBody "form_part list"

record http_request =
  hq_method :: string
  hq_url :: string
  hq_headers :: "(string \<times> string) list"
  hq_body :: http_body

record http_response =
  hp_status :: int
  hp_retry_after :: string
  hp_json :: "json option"
  hp_text :: string

type_synonym 'e transport = "http_request \<Rightarrow> 'e \<Rightarrow> (string + http_response) \<times> 'e"

section \<open>Errors\<close>

datatype backend_error =
    ErrStaleGeneration
  | ErrNotSupported
  | RateLimitError duration
  | ErrTransport string string \<comment> \<open>the call, the connection error\<close>
  | ErrDecode string
  | ErrStatus string int string \<comment> \<open>the call, the status, the body where the code prints it\<close>
  | ErrStateMissing string \<comment> \<open>424 on the stateless path\<close>
  | ErrDisabled

definition retryFallback :: duration where "retryFallback = second"

text \<open>\<open>time.Duration(secs) * time.Second\<close> is a wrapping 64-bit product.\<close>

definition parse_retry_after :: "string \<Rightarrow> duration" where
  "parse_retry_after h =
     (if h = '''' then retryFallback
      else case atoi (trim_space h) of
             None \<Rightarrow> retryFallback
           | Some secs \<Rightarrow> if secs < 0 then retryFallback else wrap64 (secs * second))"

section \<open>Messages\<close>

record capabilities =
  ca_streaming :: bool
  ca_serializable :: bool
  ca_endpointing :: bool
  ca_modes :: "string list"
  ca_min_chunk_ms :: int
  ca_max_chunk_ms :: int

record open_req =
  or_session_id :: string
  or_sample_rate_hz :: int
  or_mode :: string

record open_resp =
  os_handle :: string
  os_compatibility_key_hash :: string
  os_capabilities :: capabilities
  os_generation :: u64

record push_req =
  pq_handle :: string
  pq_seq_start :: u64
  pq_seq_end :: u64
  pq_expected_generation :: u64
  pq_audio :: "byte list"

record push_resp =
  pp_text :: string
  pp_last_seq_applied :: u64
  pp_generation :: u64

record flush_resp =
  fl_text :: string
  fl_final :: bool

record restore_req =
  rr_checkpoint_blob :: "byte list"
  rr_last_seq_applied :: u64

record restore_resp =
  rs_handle :: string
  rs_generation :: u64
  rs_last_seq_applied :: u64

record checkpoint_resp =
  cp_checkpoint_blob :: "byte list"
  cp_generation :: u64
  cp_last_seq_applied :: u64

record kv_tier_advert =
  ka_enabled :: bool
  ka_url :: string
  ka_local_hits :: int
  ka_tier_hits :: int
  ka_misses :: int

record worker_advert =
  wa_worker_id :: string
  wa_status :: string
  wa_model :: string
  wa_compatibility_key_hash :: string
  wa_capabilities :: capabilities
  wa_active_sessions :: int
  wa_state_bytes :: int
  wa_queue_depth :: int
  wa_rtf_p50 :: "float64 option"
  wa_last_heartbeat_ms :: int
  wa_kv_tier :: "kv_tier_advert option"
  wa_inflight :: int
  wa_running :: int
  wa_inflight_high_water :: int
  wa_uptime_s :: float64
  wa_rss_bytes :: "int option"
  wa_cgroup_memory_bytes :: "int option"
  wa_cgroup_memory_limit_bytes :: "int option"
  wa_cpu_percent :: "float64 option"

section \<open>The interface\<close>

record 'e client =
  c_open :: "open_req \<Rightarrow> 'e \<Rightarrow> (backend_error + open_resp) \<times> 'e"
  c_push :: "push_req \<Rightarrow> 'e \<Rightarrow> (backend_error + push_resp) \<times> 'e"
  c_flush :: "string \<Rightarrow> 'e \<Rightarrow> (backend_error + flush_resp) \<times> 'e"
  c_restore :: "restore_req \<Rightarrow> 'e \<Rightarrow> (backend_error + restore_resp) \<times> 'e"
  c_checkpoint :: "string \<Rightarrow> 'e \<Rightarrow> (backend_error + checkpoint_resp) \<times> 'e"
  c_close :: "string \<Rightarrow> 'e \<Rightarrow> backend_error option \<times> 'e"
  c_health :: "'e \<Rightarrow> (backend_error + worker_advert) \<times> 'e"

section \<open>Decoding the answers\<close>

definition no_capabilities :: capabilities where
  "no_capabilities = \<lparr> ca_streaming = False, ca_serializable = False, ca_endpointing = False,
     ca_modes = [], ca_min_chunk_ms = 0, ca_max_chunk_ms = 0 \<rparr>"

definition decode_capabilities :: "capabilities \<Rightarrow> json \<Rightarrow> capabilities option" where
  "decode_capabilities old v = do {
     kvs \<leftarrow> struct_of v;
     streaming \<leftarrow> decode_field json_bool ''streaming'' (ca_streaming old) kvs;
     serializable \<leftarrow> decode_field json_bool ''serializable'' (ca_serializable old) kvs;
     endpointing \<leftarrow> decode_field json_bool ''endpointing'' (ca_endpointing old) kvs;
     modes \<leftarrow> decode_field json_strings ''modes'' (ca_modes old) kvs;
     mn \<leftarrow> decode_field json_int ''min_chunk_ms'' (ca_min_chunk_ms old) kvs;
     mx \<leftarrow> decode_field json_int ''max_chunk_ms'' (ca_max_chunk_ms old) kvs;
     Some \<lparr> ca_streaming = streaming, ca_serializable = serializable, ca_endpointing = endpointing,
            ca_modes = modes, ca_min_chunk_ms = mn, ca_max_chunk_ms = mx \<rparr> }"

definition decode_open_resp :: "json \<Rightarrow> open_resp option" where
  "decode_open_resp v = do {
     kvs \<leftarrow> struct_of v;
     handle \<leftarrow> decode_field json_string ''handle'' '''' kvs;
     key \<leftarrow> decode_field json_string ''compatibility_key_hash'' '''' kvs;
     caps \<leftarrow> decode_into decode_capabilities ''capabilities'' no_capabilities kvs;
     gen \<leftarrow> decode_field json_uint64 ''generation'' 0 kvs;
     Some \<lparr> os_handle = handle, os_compatibility_key_hash = key, os_capabilities = caps,
            os_generation = gen \<rparr> }"

definition decode_push_resp :: "json \<Rightarrow> push_resp option" where
  "decode_push_resp v = do {
     kvs \<leftarrow> struct_of v;
     txt \<leftarrow> decode_field json_string ''text'' '''' kvs;
     applied \<leftarrow> decode_field json_uint64 ''last_seq_applied'' 0 kvs;
     gen \<leftarrow> decode_field json_uint64 ''generation'' 0 kvs;
     Some \<lparr> pp_text = txt, pp_last_seq_applied = applied, pp_generation = gen \<rparr> }"

definition decode_flush_resp :: "json \<Rightarrow> flush_resp option" where
  "decode_flush_resp v = do {
     kvs \<leftarrow> struct_of v;
     txt \<leftarrow> decode_field json_string ''text'' '''' kvs;
     fin \<leftarrow> decode_field json_bool ''final'' False kvs;
     Some \<lparr> fl_text = txt, fl_final = fin \<rparr> }"

definition decode_restore_resp :: "json \<Rightarrow> restore_resp option" where
  "decode_restore_resp v = do {
     kvs \<leftarrow> struct_of v;
     handle \<leftarrow> decode_field json_string ''handle'' '''' kvs;
     gen \<leftarrow> decode_field json_uint64 ''generation'' 0 kvs;
     applied \<leftarrow> decode_field json_uint64 ''last_seq_applied'' 0 kvs;
     Some \<lparr> rs_handle = handle, rs_generation = gen, rs_last_seq_applied = applied \<rparr> }"

text \<open>The anonymous struct of \<open>Checkpoint\<close>; the blob is still base64.\<close>

definition decode_checkpoint :: "json \<Rightarrow> (string \<times> u64 \<times> u64) option" where
  "decode_checkpoint v = do {
     kvs \<leftarrow> struct_of v;
     blob \<leftarrow> decode_field json_string ''checkpoint_blob'' '''' kvs;
     gen \<leftarrow> decode_field json_uint64 ''generation'' 0 kvs;
     applied \<leftarrow> decode_field json_uint64 ''last_seq_applied'' 0 kvs;
     Some (blob, gen, applied) }"

definition no_kv_tier :: kv_tier_advert where
  "no_kv_tier = \<lparr> ka_enabled = False, ka_url = '''', ka_local_hits = 0, ka_tier_hits = 0, ka_misses = 0 \<rparr>"

definition decode_kv_tier :: "kv_tier_advert \<Rightarrow> json \<Rightarrow> kv_tier_advert option" where
  "decode_kv_tier old v = do {
     kvs \<leftarrow> struct_of v;
     on \<leftarrow> decode_field json_bool ''enabled'' (ka_enabled old) kvs;
     url \<leftarrow> decode_field json_string ''url'' (ka_url old) kvs;
     lh \<leftarrow> decode_field json_int ''local_hits'' (ka_local_hits old) kvs;
     th \<leftarrow> decode_field json_int ''tier_hits'' (ka_tier_hits old) kvs;
     ms \<leftarrow> decode_field json_int ''misses'' (ka_misses old) kvs;
     Some \<lparr> ka_enabled = on, ka_url = url, ka_local_hits = lh, ka_tier_hits = th, ka_misses = ms \<rparr> }"

definition decode_worker_advert :: "json \<Rightarrow> worker_advert option" where
  "decode_worker_advert v = do {
     kvs \<leftarrow> struct_of v;
     worker \<leftarrow> decode_field json_string ''worker_id'' '''' kvs;
     status \<leftarrow> decode_field json_string ''status'' '''' kvs;
     model \<leftarrow> decode_field json_string ''model'' '''' kvs;
     key \<leftarrow> decode_field json_string ''compatibility_key_hash'' '''' kvs;
     caps \<leftarrow> decode_into decode_capabilities ''capabilities'' no_capabilities kvs;
     active \<leftarrow> decode_field json_int ''active_sessions'' 0 kvs;
     bytes \<leftarrow> decode_field json_int ''state_bytes'' 0 kvs;
     queue \<leftarrow> decode_field json_int ''queue_depth'' 0 kvs;
     rtf \<leftarrow> decode_pointer (\<lambda>_. json_float) 0 ''rtf_p50'' kvs;
     beat \<leftarrow> decode_field json_int ''last_heartbeat_ms'' 0 kvs;
     kv \<leftarrow> decode_pointer decode_kv_tier no_kv_tier ''kv_tier'' kvs;
     inflight \<leftarrow> decode_field json_int ''inflight'' 0 kvs;
     running \<leftarrow> decode_field json_int ''running'' 0 kvs;
     high \<leftarrow> decode_field json_int ''inflight_high_water'' 0 kvs;
     uptime \<leftarrow> decode_field json_float ''uptime_s'' 0 kvs;
     rss \<leftarrow> decode_pointer (\<lambda>_. json_int) 0 ''rss_bytes'' kvs;
     cg \<leftarrow> decode_pointer (\<lambda>_. json_int) 0 ''cgroup_memory_bytes'' kvs;
     cgl \<leftarrow> decode_pointer (\<lambda>_. json_int) 0 ''cgroup_memory_limit_bytes'' kvs;
     cpu \<leftarrow> decode_pointer (\<lambda>_. json_float) 0 ''cpu_percent'' kvs;
     Some \<lparr> wa_worker_id = worker, wa_status = status, wa_model = model,
            wa_compatibility_key_hash = key, wa_capabilities = caps, wa_active_sessions = active,
            wa_state_bytes = bytes, wa_queue_depth = queue, wa_rtf_p50 = rtf,
            wa_last_heartbeat_ms = beat, wa_kv_tier = kv, wa_inflight = inflight,
            wa_running = running, wa_inflight_high_water = high, wa_uptime_s = uptime,
            wa_rss_bytes = rss, wa_cgroup_memory_bytes = cg, wa_cgroup_memory_limit_bytes = cgl,
            wa_cpu_percent = cpu \<rparr> }"

section \<open>HTTPClient\<close>

record http_client =
  hc_base_url :: string

definition new_http_client :: "string \<Rightarrow> http_client" where
  "new_http_client baseURL = \<lparr>hc_base_url = baseURL\<rparr>"

text \<open>
  \<open>postJSON\<close>: the response and the decoded output. \<open>dec\<close> is none where the caller
  passes no output; decoding happens below status 300 only.
\<close>

definition post_json :: "'e transport \<Rightarrow> http_client \<Rightarrow> string \<Rightarrow> json \<Rightarrow> (json \<Rightarrow> 'a option) option \<Rightarrow> 'a \<Rightarrow>
    'e \<Rightarrow> (backend_error + http_response \<times> 'a) \<times> 'e" where
  "post_json tr c path body dec zero e =
     (case tr \<lparr> hq_method = ''POST'', hq_url = hc_base_url c @ path,
                hq_headers = [(''Content-Type'', ''application/json'')], hq_body = JsonBody body \<rparr> e of
        (Inl err, e') \<Rightarrow> (Inl (ErrTransport path err), e')
      | (Inr resp, e') \<Rightarrow>
          (case dec of
             None \<Rightarrow> (Inr (resp, zero), e')
           | Some d \<Rightarrow>
               if hp_status resp < 300 then
                 (case Option.bind (hp_json resp) d of
                    None \<Rightarrow> (Inl (ErrDecode path), e')
                  | Some out \<Rightarrow> (Inr (resp, out), e'))
               else (Inr (resp, zero), e')))"

definition then_check :: "(backend_error + 'a) \<times> 'e \<Rightarrow> ('a \<Rightarrow> backend_error + 'b) \<Rightarrow> (backend_error + 'b) \<times> 'e" where
  "then_check r f = (case r of (Inl err, e) \<Rightarrow> (Inl err, e) | (Inr x, e) \<Rightarrow> (f x, e))"

definition http_open :: "'e transport \<Rightarrow> http_client \<Rightarrow> open_req \<Rightarrow> 'e \<Rightarrow> (backend_error + open_resp) \<times> 'e" where
  "http_open tr c r e =
     then_check
       (post_json tr c ''/v1/stream/open''
          (JObject [(''session_id'', JString (or_session_id r)),
                    (''sample_rate_hz'', JInt (or_sample_rate_hz r)), (''mode'', JString (or_mode r))])
          (Some decode_open_resp)
          \<lparr> os_handle = '''', os_compatibility_key_hash = '''', os_capabilities = no_capabilities,
            os_generation = 0 \<rparr> e)
       (\<lambda>(resp, out).
          if hp_status resp = 429 then Inl (RateLimitError (parse_retry_after (hp_retry_after resp)))
          else if hp_status resp \<noteq> 200 then Inl (ErrStatus ''open'' (hp_status resp) '''')
          else Inr out)"

definition http_push :: "'e transport \<Rightarrow> http_client \<Rightarrow> push_req \<Rightarrow> 'e \<Rightarrow> (backend_error + push_resp) \<times> 'e" where
  "http_push tr c r e =
     (case tr \<lparr> hq_method = ''POST'', hq_url = hc_base_url c @ ''/v1/stream/push'',
                hq_headers = [(''Content-Type'', ''application/octet-stream''), (''X-Handle'', pq_handle r),
                  (''X-Seq-Start'', decimal (unat (pq_seq_start r))),
                  (''X-Seq-End'', decimal (unat (pq_seq_end r))),
                  (''X-Expected-Generation'', decimal (unat (pq_expected_generation r)))],
                hq_body = RawBody (pq_audio r) \<rparr> e of
        (Inl err, e') \<Rightarrow> (Inl (ErrTransport ''push'' err), e')
      | (Inr resp, e') \<Rightarrow>
          (if hp_status resp = 409 then Inl ErrStaleGeneration
           else if hp_status resp = 429 then Inl (RateLimitError (parse_retry_after (hp_retry_after resp)))
           else if hp_status resp \<noteq> 200 then Inl (ErrStatus ''push'' (hp_status resp) (hp_text resp))
           else case Option.bind (hp_json resp) decode_push_resp of
                  None \<Rightarrow> Inl (ErrDecode ''push'')
                | Some out \<Rightarrow> Inr out, e'))"

definition http_flush :: "'e transport \<Rightarrow> http_client \<Rightarrow> string \<Rightarrow> 'e \<Rightarrow> (backend_error + flush_resp) \<times> 'e" where
  "http_flush tr c handle e =
     then_check
       (post_json tr c ''/v1/stream/flush'' (JObject [(''handle'', JString handle)])
          (Some decode_flush_resp) \<lparr> fl_text = '''', fl_final = False \<rparr> e)
       (\<lambda>(resp, out). if hp_status resp \<noteq> 200 then Inl (ErrStatus ''flush'' (hp_status resp) '''') else Inr out)"

definition http_restore :: "'e transport \<Rightarrow> http_client \<Rightarrow> restore_req \<Rightarrow> 'e \<Rightarrow>
    (backend_error + restore_resp) \<times> 'e" where
  "http_restore tr c r e =
     then_check
       (post_json tr c ''/v1/stream/restore''
          (JObject [(''checkpoint_blob'', JString (base64_std (rr_checkpoint_blob r))),
                    (''last_seq_applied'', JInt (uint (rr_last_seq_applied r)))])
          (Some decode_restore_resp) \<lparr> rs_handle = '''', rs_generation = 0, rs_last_seq_applied = 0 \<rparr> e)
       (\<lambda>(resp, out).
          if hp_status resp = 501 then Inl ErrNotSupported
          else if hp_status resp \<noteq> 200 then Inl (ErrStatus ''restore'' (hp_status resp) '''')
          else Inr out)"

definition http_checkpoint :: "'e transport \<Rightarrow> http_client \<Rightarrow> string \<Rightarrow> 'e \<Rightarrow>
    (backend_error + checkpoint_resp) \<times> 'e" where
  "http_checkpoint tr c handle e =
     then_check
       (post_json tr c ''/v1/stream/checkpoint'' (JObject [(''handle'', JString handle)])
          (Some decode_checkpoint) ('''', 0, 0) e)
       (\<lambda>(resp, txt, gen, applied).
          if hp_status resp = 501 then Inl ErrNotSupported
          else if hp_status resp \<noteq> 200 then Inl (ErrStatus ''checkpoint'' (hp_status resp) '''')
          else case base64_decode txt of
                 None \<Rightarrow> Inl (ErrDecode ''blob'')
               | Some blob \<Rightarrow> Inr \<lparr> cp_checkpoint_blob = blob, cp_generation = gen,
                                   cp_last_seq_applied = applied \<rparr>)"

definition http_close :: "'e transport \<Rightarrow> http_client \<Rightarrow> string \<Rightarrow> 'e \<Rightarrow> backend_error option \<times> 'e" where
  "http_close tr c handle e =
     (case post_json tr c ''/v1/stream/close'' (JObject [(''handle'', JString handle)]) None () e of
        (Inl err, e') \<Rightarrow> (Some err, e')
      | (Inr (resp, _), e') \<Rightarrow>
          (if hp_status resp \<noteq> 200 then Some (ErrStatus ''close'' (hp_status resp) '''') else None, e'))"

definition http_health :: "'e transport \<Rightarrow> http_client \<Rightarrow> 'e \<Rightarrow> (backend_error + worker_advert) \<times> 'e" where
  "http_health tr c e =
     (case tr \<lparr> hq_method = ''GET'', hq_url = hc_base_url c @ ''/health'', hq_headers = [], hq_body = NoBody \<rparr> e of
        (Inl err, e') \<Rightarrow> (Inl (ErrTransport ''health'' err), e')
      | (Inr resp, e') \<Rightarrow>
          (if hp_status resp \<noteq> 200 then Inl (ErrStatus ''health'' (hp_status resp) '''')
           else case Option.bind (hp_json resp) decode_worker_advert of
                  None \<Rightarrow> Inl (ErrDecode ''health'')
                | Some out \<Rightarrow> Inr out, e'))"

definition http_backend :: "'e transport \<Rightarrow> http_client \<Rightarrow> 'e client" where
  "http_backend tr c =
     \<lparr> c_open = http_open tr c, c_push = http_push tr c, c_flush = http_flush tr c,
       c_restore = http_restore tr c, c_checkpoint = http_checkpoint tr c, c_close = http_close tr c,
       c_health = http_health tr c \<rparr>"

section \<open>Properties\<close>

lemma trim_space_decimal: "trim_space (decimal n) = decimal n"
  using digits_decimal [of n] by (intro trim_space_none) (auto simp: list_all_iff digit_not_space)

lemma parse_retry_after_decimal:
  assumes "int n < 2 ^ 63"
  shows "parse_retry_after (decimal n) = wrap64 (int n * second)"
  using assms by (simp add: parse_retry_after_def trim_space_decimal atoi_decimal)

lemma retry_after_exact: "n \<le> 9223372036 \<Longrightarrow> parse_retry_after (decimal n) = int n * second"
  by (simp add: parse_retry_after_decimal wrap64_id)

text \<open>
  What \<open>Restore\<close> sends for a checkpoint is the string the worker sent for it.
\<close>

lemma checkpoint_decoded:
  assumes "tr \<lparr> hq_method = ''POST'', hq_url = hc_base_url c @ ''/v1/stream/checkpoint'',
      hq_headers = [(''Content-Type'', ''application/json'')],
      hq_body = JsonBody (JObject [(''handle'', JString h)]) \<rparr> e = (Inr resp, e')"
    and "hp_status resp = 200"
    and "hp_json resp = Some (JObject [(''checkpoint_blob'', JString (base64_std blob)),
      (''generation'', JInt (uint g)), (''last_seq_applied'', JInt (uint q))])"
  shows "http_checkpoint tr c h e =
    (Inr \<lparr> cp_checkpoint_blob = blob, cp_generation = g, cp_last_seq_applied = q \<rparr>, e')"
proof -
  have u: "uint w < 2 ^ 64" for w :: u64 using uint_lt2p [of w] by simp
  have fields: "fold_eq ''checkpoint_blob'' ''checkpoint_blob''" "\<not> fold_eq ''generation'' ''checkpoint_blob''"
    "\<not> fold_eq ''last_seq_applied'' ''checkpoint_blob''" "\<not> fold_eq ''checkpoint_blob'' ''generation''"
    "fold_eq ''generation'' ''generation''" "\<not> fold_eq ''last_seq_applied'' ''generation''"
    "\<not> fold_eq ''checkpoint_blob'' ''last_seq_applied''" "\<not> fold_eq ''generation'' ''last_seq_applied''"
    "fold_eq ''last_seq_applied'' ''last_seq_applied''"
    by (code_simp)+
  have "decode_checkpoint (JObject [(''checkpoint_blob'', JString (base64_std blob)),
      (''generation'', JInt (uint g)), (''last_seq_applied'', JInt (uint q))]) = Some (base64_std blob, g, q)"
    using u [of g] u [of q] by (simp add: decode_checkpoint_def struct_of_def decode_field_def decode_into_def members_def fields)
  then show ?thesis
    using assms by (simp add: http_checkpoint_def post_json_def then_check_def base64_round_trip)
qed

text \<open>
  A checkpoint survives the trip through JSON. If the worker serializes a state
  as the base64 text of a blob, the gateway holds that blob, generation and position,
  and a later \<open>Restore\<close> of it against any worker posts exactly that text and position.
\<close>

theorem checkpoint_survives_the_wire:
  assumes "tr \<lparr> hq_method = ''POST'', hq_url = hc_base_url c @ ''/v1/stream/checkpoint'',
      hq_headers = [(''Content-Type'', ''application/json'')],
      hq_body = JsonBody (JObject [(''handle'', JString h)]) \<rparr> e = (Inr resp, e')"
    and "hp_status resp = 200"
    and "hp_json resp = Some (JObject [(''checkpoint_blob'', JString (base64_std blob)),
      (''generation'', JInt (uint g)), (''last_seq_applied'', JInt (uint (q :: u64)))])"
  shows "\<exists>cp. http_checkpoint tr c h e = (Inr cp, e') \<and> cp_generation cp = g
    \<and> http_restore tr2 c2 \<lparr> rr_checkpoint_blob = cp_checkpoint_blob cp,
        rr_last_seq_applied = cp_last_seq_applied cp \<rparr> e2
      = then_check (post_json tr2 c2 ''/v1/stream/restore''
          (JObject [(''checkpoint_blob'', JString (base64_std blob)), (''last_seq_applied'', JInt (uint q))])
          (Some decode_restore_resp) \<lparr> rs_handle = '''', rs_generation = 0, rs_last_seq_applied = 0 \<rparr> e2)
        (\<lambda>(resp, out). if hp_status resp = 501 then Inl ErrNotSupported
          else if hp_status resp \<noteq> 200 then Inl (ErrStatus ''restore'' (hp_status resp) '''') else Inr out)"
proof -
  have "http_checkpoint tr c h e = (Inr \<lparr> cp_checkpoint_blob = blob, cp_generation = g,
      cp_last_seq_applied = q \<rparr>, e')"
    by (rule checkpoint_decoded) (fact assms)+
  then show ?thesis by (simp add: http_restore_def)
qed

theorem checkpoint_survives_the_wire_witness:
  "\<exists>cp. http_checkpoint (\<lambda>_ (e :: nat).
       (Inr \<lparr> hp_status = 200, hp_retry_after = '''',
          hp_json = Some (JObject [(''checkpoint_blob'', JString (base64_std [1, 2, 3, 255])),
            (''generation'', JInt (uint (5 :: u64))), (''last_seq_applied'', JInt (uint (40 :: u64)))]),
          hp_text = '''' \<rparr>, e)) (new_http_client ''u'') ''h'' 0 = (Inr cp, 0) \<and> cp_generation cp = 5"
proof -
  define resp where "resp = \<lparr> hp_status = 200, hp_retry_after = '''',
          hp_json = Some (JObject [(''checkpoint_blob'', JString (base64_std [1, 2, 3, 255])),
            (''generation'', JInt (uint (5 :: u64))), (''last_seq_applied'', JInt (uint (40 :: u64)))]),
          hp_text = '''' \<rparr>"
  define tr where "tr = (\<lambda>(_ :: http_request) (e :: nat). (Inr resp :: string + http_response, e))"
  have "tr r 0 = (Inr resp, 0)" "hp_status resp = 200"
    "hp_json resp = Some (JObject [(''checkpoint_blob'', JString (base64_std [1, 2, 3, 255])),
      (''generation'', JInt (uint (5 :: u64))), (''last_seq_applied'', JInt (uint (40 :: u64)))])"
    for r by (simp_all add: resp_def tr_def)
  from checkpoint_survives_the_wire [of tr "new_http_client ''u''" "''h''" 0 resp 0 "[1, 2, 3, 255]" 5 40
      tr "new_http_client ''v''" 0, OF this]
  show ?thesis unfolding tr_def resp_def by (elim exE conjE) (intro exI conjI)
qed

end
