(* ===== verification/Router.thy ===== *)
theory Router
  imports Bucket Backend Session Window
begin

text \<open>
  Worker selection and health, \<^verbatim>\<open>internal/router/router.go\<close>: the rolling windows, the
  healthy/degraded/ejected machine with its half-open probe, the filter-then-score
  choice of \<open>Pick\<close>, the same-model baseline and the homogeneous pool. Workers are
  values in a list; a method on a \<open>*Worker\<close> found by id updates the first worker with
  that id. The clock and the random permutation of \<open>Pick\<close> are arguments. A worker's
  client handle is not part of the record: nothing in this package calls it.
\<close>

section \<open>Workers\<close>

datatype status = Healthy | Degraded | Ejected

fun status_string :: "status \<Rightarrow> string" where
  "status_string Healthy = ''healthy''"
| "status_string Degraded = ''degraded''"
| "status_string Ejected = ''ejected''"

definition windowSize :: nat where "windowSize = 50"
definition ejectDuration :: duration where "ejectDuration = 10 * second"
definition maxEjectBackoff :: duration where "maxEjectBackoff = 120 * second"
definition GrayFailureMultiple :: float64 where "GrayFailureMultiple = 3"
definition minLatencySamples :: nat where "minLatencySamples = 20"

record worker =
  w_id :: string
  w_compatibility_key :: cache_compatibility_key
  w_capabilities :: capabilities
  w_model :: string
  w_kv_tier_url :: string
  w_outstanding :: int
  w_bucket :: "bucket option"
  w_outcomes :: "bool list"
  w_latencies :: "duration list"
  w_status :: status
  w_eject_at :: time
  w_probing :: bool
  w_backoff :: duration
  w_draining :: bool

definition new_worker :: "time \<Rightarrow> string \<Rightarrow> cache_compatibility_key \<Rightarrow> capabilities \<Rightarrow> worker" where
  "new_worker now ident key caps =
     \<lparr> w_id = ident, w_compatibility_key = key, w_capabilities = caps, w_model = '''',
       w_kv_tier_url = '''', w_outstanding = 0,
       w_bucket = Some (new_bucket now defaultBucketLimit defaultHeadroom),
       w_outcomes = [], w_latencies = [], w_status = Healthy, w_eject_at = 0, w_probing = False,
       w_backoff = ejectDuration, w_draining = False \<rparr>"

definition set_draining :: "bool \<Rightarrow> worker \<Rightarrow> worker" where
  "set_draining on w = w\<lparr>w_draining := on\<rparr>"

definition bind_session :: "worker \<Rightarrow> worker" where
  "bind_session w = w\<lparr>w_outstanding := w_outstanding w + 1\<rparr>"

definition unbind_session :: "worker \<Rightarrow> worker" where
  "unbind_session w = w\<lparr>w_outstanding := w_outstanding w - 1\<rparr>"

definition eligible :: "worker \<Rightarrow> time \<Rightarrow> bool" where
  "eligible w now \<longleftrightarrow>
     (if w_draining w then False
      else case w_status w of
             Healthy \<Rightarrow> True
           | Degraded \<Rightarrow> True
           | Ejected \<Rightarrow> \<not> w_probing w \<and> now > w_eject_at w)"

definition due_for_probe :: "worker \<Rightarrow> time \<Rightarrow> bool" where
  "due_for_probe w now \<longleftrightarrow>
     (if w_draining w then False
      else w_status w = Ejected \<and> \<not> w_probing w \<and> now > w_eject_at w)"

definition begin_probe :: "worker \<Rightarrow> worker" where
  "begin_probe w = (if w_status w = Ejected then w\<lparr>w_probing := True\<rparr> else w)"

definition error_rate :: "worker \<Rightarrow> float64" where
  "error_rate w =
     (if w_outcomes w = [] then 0
      else of_nat (length (filter (\<lambda>ok. \<not> ok) (w_outcomes w))) / of_nat (length (w_outcomes w)))"

text \<open>
  \<open>int(float64(n) * 0.95)\<close>: for the window sizes that occur (at most 50) the float
  product truncates to \<open>95 n div 100\<close>.
\<close>

definition p95 :: "duration list \<Rightarrow> duration" where
  "p95 d =
     (if d = [] then 0
      else let sorted = sort d; i = length sorted * 95 div 100;
               idx = (if i \<ge> length sorted then length sorted - 1 else i)
           in sorted ! idx)"

definition latency_p95 :: "worker \<Rightarrow> duration" where
  "latency_p95 w = p95 (w_latencies w)"

definition worker_stats :: "worker \<Rightarrow> float64 \<times> duration \<times> nat" where
  "worker_stats w = (error_rate w, p95 (w_latencies w), length (w_latencies w))"

definition eject :: "worker \<Rightarrow> time \<Rightarrow> worker" where
  "eject w now = w\<lparr> w_status := Ejected, w_eject_at := now + w_backoff w, w_probing := False \<rparr>"

text \<open>The window idiom of \<open>report\<close>: one element too many drops the oldest.\<close>

definition slide :: "'a list \<Rightarrow> 'a \<Rightarrow> 'a list" where
  "slide xs x = (let ys = xs @ [x] in if length ys > windowSize then tl ys else ys)"

definition report_worker :: "worker \<Rightarrow> bool \<Rightarrow> duration \<Rightarrow> duration \<Rightarrow> time \<Rightarrow> worker" where
  "report_worker w ok latency clusterP95 now =
     (if w_status w = Ejected \<and> w_probing w then
        let w1 = w\<lparr>w_probing := False\<rparr> in
        if ok then w1\<lparr> w_status := Healthy, w_backoff := ejectDuration, w_outcomes := [], w_latencies := [] \<rparr>
        else let b2 = w_backoff w1 * 2; b = (if b2 > maxEjectBackoff then maxEjectBackoff else b2)
             in w1\<lparr> w_backoff := b, w_eject_at := now + b, w_status := Ejected \<rparr>
      else if w_status w = Ejected then w
      else
        let w1 = w\<lparr>w_outcomes := slide (w_outcomes w) ok\<rparr>;
            w2 = (if latency > 0 then w1\<lparr>w_latencies := slide (w_latencies w1) latency\<rparr> else w1);
            errRate = error_rate w2; myP95 = p95 (w_latencies w2)
        in if errRate > 1 / 2 then eject w2 now
           else if length (w_latencies w2) \<ge> minLatencySamples \<and> clusterP95 > 0
                   \<and> of_int myP95 > GrayFailureMultiple * of_int clusterP95 then eject w2 now
           else if errRate > 1 / 10 then w2\<lparr>w_status := Degraded\<rparr>
           else w2\<lparr>w_status := Healthy\<rparr>)"

section \<open>The router\<close>

type_synonym router = "worker list"

datatype router_error = NoWorkerID | WorkerExists string

definition router_add :: "router \<Rightarrow> worker option \<Rightarrow> router_error + router" where
  "router_add r w =
     (case w of
        None \<Rightarrow> Inl NoWorkerID
      | Some w \<Rightarrow>
          if w_id w = '''' then Inl NoWorkerID
          else if \<exists>e \<in> set r. w_id e = w_id w then Inl (WorkerExists (w_id w))
          else Inr (r @ [w]))"

definition router_find :: "router \<Rightarrow> string \<Rightarrow> worker option" where
  "router_find r ident = find (\<lambda>w. w_id w = ident) r"

definition pool :: "router \<Rightarrow> string \<Rightarrow> worker list" where
  "pool r ident =
     (case router_find r ident of
        None \<Rightarrow> []
      | Some self \<Rightarrow> self # filter (\<lambda>w. w_id w \<noteq> ident
            \<and> w_compatibility_key w = w_compatibility_key self) r)"

text \<open>A method call on the worker \<open>Find\<close> returns.\<close>

fun update_worker :: "string \<Rightarrow> (worker \<Rightarrow> worker) \<Rightarrow> router \<Rightarrow> router" where
  "update_worker ident f [] = []"
| "update_worker ident f (w # ws) =
     (if w_id w = ident then f w # ws else w # update_worker ident f ws)"

definition median :: "duration list \<Rightarrow> duration" where
  "median each = (if each = [] then 0 else sort each ! (length each div 2))"

definition peer_p95 :: "router \<Rightarrow> worker \<Rightarrow> duration" where
  "peer_p95 r subject =
     median (map (\<lambda>w. p95 (w_latencies w)) (filter (\<lambda>w. w_id w \<noteq> w_id subject
        \<and> w_compatibility_key w = w_compatibility_key subject
        \<and> length (w_latencies w) \<ge> minLatencySamples) r))"

definition cluster_p95 :: "router \<Rightarrow> duration" where
  "cluster_p95 r =
     median (map (\<lambda>w. p95 (w_latencies w)) (filter (\<lambda>w. length (w_latencies w) \<ge> minLatencySamples) r))"

definition mode_supported :: "string list \<Rightarrow> string \<Rightarrow> bool" where
  "mode_supported modes mode \<longleftrightarrow> list_ex (\<lambda>m. m = mode) modes"

section \<open>Pick\<close>

definition pick_score :: "cache_compatibility_key \<Rightarrow> worker \<Rightarrow> float64" where
  "pick_score prefer w =
     (let lat = seconds (latency_p95 w);
          latSec = (if lat \<le> 0 then 1 / 1000 else lat);
          score = of_int (w_outstanding w + 1) * latSec
      in if prefer \<noteq> '''' \<and> w_compatibility_key w = prefer then score * (1 / 2) else score)"

text \<open>
  The loop's variables: the workers (whose buckets the check refills), the best
  candidate with its score (none stands for \<open>math.MaxFloat64\<close>, above every score)
  and the first worker owed a probe.
\<close>

record scan =
  sc_workers :: router
  sc_best :: "(nat \<times> float64) option"
  sc_probe :: "nat option"

definition pick_visit :: "time \<Rightarrow> string \<Rightarrow> (string \<Rightarrow> bool) \<Rightarrow> cache_compatibility_key \<Rightarrow> scan \<Rightarrow> nat \<Rightarrow> scan" where
  "pick_visit now mode exclude prefer s idx =
     (let w = sc_workers s ! idx in
      if exclude (w_id w) then s
      else if \<not> eligible w now then s
      else
        let (avail, b) = bucket_available (w_bucket w) now;
            s1 = s\<lparr>sc_workers := (sc_workers s)[idx := w\<lparr>w_bucket := b\<rparr>]\<rparr>
        in if \<not> avail then s1
           else if mode = ModeOnline \<and> \<not> ca_streaming (w_capabilities w) then s1
           else if \<not> mode_supported (ca_modes (w_capabilities w)) mode then s1
           else if due_for_probe w now then
             (case sc_probe s1 of None \<Rightarrow> s1\<lparr>sc_probe := Some idx\<rparr> | Some _ \<Rightarrow> s1)
           else
             let score = pick_score prefer w in
             case sc_best s1 of
               None \<Rightarrow> s1\<lparr>sc_best := Some (idx, score)\<rparr>
             | Some (_, bestScore) \<Rightarrow>
                 if score < bestScore then s1\<lparr>sc_best := Some (idx, score)\<rparr> else s1)"

definition charge :: "time \<Rightarrow> nat \<Rightarrow> router \<Rightarrow> bool \<times> router" where
  "charge now i ws =
     (let (ok, b) = bucket_take (w_bucket (ws ! i)) now in (ok, ws[i := (ws ! i)\<lparr>w_bucket := b\<rparr>]))"

text \<open>\<open>Pick\<close>: the chosen worker's index or \<open>ErrNoCapacity\<close> (\<open>None\<close>), and the fleet after it.\<close>

definition pick :: "time \<Rightarrow> nat list \<Rightarrow> string \<Rightarrow> (string \<Rightarrow> bool) \<Rightarrow> cache_compatibility_key \<Rightarrow>
    router \<Rightarrow> nat option \<times> router" where
  "pick now perm mode exclude prefer r =
     (let s = foldl (pick_visit now mode exclude prefer) \<lparr>sc_workers = r, sc_best = None, sc_probe = None\<rparr> perm;
          (probed, ws) = (case sc_probe s of
              None \<Rightarrow> (None, sc_workers s)
            | Some i \<Rightarrow> let (ok, ws) = charge now i (sc_workers s) in
                if ok then (Some i, ws[i := begin_probe (ws ! i)]) else (None, ws))
      in case probed of
           Some i \<Rightarrow> (Some i, ws)
         | None \<Rightarrow>
             (case sc_best s of
                None \<Rightarrow> (None, ws)
              | Some (i, _) \<Rightarrow> let (ok, ws') = charge now i ws in
                  if ok then (Some i, ws') else (None, ws')))"

text \<open>The number is what \<open>metrics.Backend429Total\<close> is incremented by.\<close>

definition router_on429 :: "time \<Rightarrow> string \<Rightarrow> duration \<Rightarrow> router \<Rightarrow> int \<times> router" where
  "router_on429 now ident retryAfter r =
     (case router_find r ident of
        None \<Rightarrow> (0, r)
      | Some _ \<Rightarrow>
          (1, update_worker ident (\<lambda>w. w\<lparr>w_bucket := bucket_on429 (w_bucket w) now retryAfter\<rparr>) r))"

definition router_report :: "time \<Rightarrow> string \<Rightarrow> bool \<Rightarrow> duration \<Rightarrow> router \<Rightarrow> router" where
  "router_report now ident ok latency r =
     update_worker ident (\<lambda>w. report_worker w ok latency (peer_p95 r w) now) r"

definition mark_unhealthy :: "time \<Rightarrow> string \<Rightarrow> router \<Rightarrow> router" where
  "mark_unhealthy now ident r =
     update_worker ident (\<lambda>w. if w_status w \<noteq> Ejected then eject w now else w) r"

section \<open>The worker invariant\<close>

lemmas router_consts = windowSize_def ejectDuration_def maxEjectBackoff_def minLatencySamples_def
  GrayFailureMultiple_def

definition worker_inv :: "worker \<Rightarrow> bool" where
  "worker_inv w \<longleftrightarrow> length (w_outcomes w) \<le> windowSize \<and> length (w_latencies w) \<le> windowSize
     \<and> (\<forall>d \<in> set (w_latencies w). 0 < d)
     \<and> ejectDuration \<le> w_backoff w \<and> w_backoff w \<le> maxEjectBackoff
     \<and> (w_probing w \<longrightarrow> w_status w = Ejected)"

lemma slide_push: "length xs \<le> windowSize \<Longrightarrow> slide xs x = push_window windowSize xs x"
proof (cases "length xs = windowSize")
  case True
  then have "drop (Suc (length xs) - windowSize) (xs @ [x]) = tl (xs @ [x])"
    by (cases xs) (simp_all add: windowSize_def)
  then show ?thesis using True by (simp add: slide_def push_window_def keep_last_def Let_def)
qed (simp add: slide_def push_window_def Let_def)

lemma slide_length: "length xs \<le> windowSize \<Longrightarrow> length (slide xs x) \<le> windowSize"
  by (simp add: slide_push push_window_def)

lemma slide_set: "set (slide xs x) \<subseteq> insert x (set xs)"
  by (cases xs) (auto simp: slide_def Let_def)

interpretation health: bounded_window windowSize "\<lambda>xs. length xs \<le> windowSize" slide "\<lambda>xs. xs"
  by unfold_locales (auto simp: slide_push push_window_def windowSize_def)

lemma new_worker_inv: "worker_inv (new_worker now i k c)"
  by (simp add: worker_inv_def new_worker_def router_consts)

lemma eject_inv: "worker_inv w \<Longrightarrow> worker_inv (eject w now)"
  by (simp add: worker_inv_def eject_def)

lemma observe_inv:
  assumes "worker_inv w"
  shows "worker_inv (w\<lparr>w_outcomes := slide (w_outcomes w) ok,
      w_latencies := (if 0 < l then slide (w_latencies w) l else w_latencies w)\<rparr>)"
  using assms slide_length [of "w_outcomes w" ok] slide_length [of "w_latencies w" l]
    slide_set [of "w_latencies w" l]
  by (auto simp: worker_inv_def)

text \<open>The three branches of \<open>report\<close>, as equations.\<close>

lemma report_probe:
  "w_status w = Ejected \<Longrightarrow> w_probing w \<Longrightarrow> report_worker w ok l base now =
     (if ok then w\<lparr> w_probing := False, w_status := Healthy, w_backoff := ejectDuration,
                    w_outcomes := [], w_latencies := [] \<rparr>
      else w\<lparr> w_probing := False, w_backoff := min (2 * w_backoff w) maxEjectBackoff,
              w_eject_at := now + min (2 * w_backoff w) maxEjectBackoff \<rparr>)"
  by (simp add: report_worker_def Let_def min_def mult.commute)

lemma report_stray: "w_status w = Ejected \<Longrightarrow> \<not> w_probing w \<Longrightarrow> report_worker w ok l base now = w"
  by (simp add: report_worker_def)

definition observed :: "worker \<Rightarrow> bool \<Rightarrow> duration \<Rightarrow> worker" where
  "observed w ok l = w\<lparr> w_outcomes := slide (w_outcomes w) ok,
     w_latencies := (if 0 < l then slide (w_latencies w) l else w_latencies w) \<rparr>"

definition gray_failure :: "worker \<Rightarrow> duration \<Rightarrow> bool" where
  "gray_failure w base \<longleftrightarrow> minLatencySamples \<le> length (w_latencies w) \<and> 0 < base
     \<and> of_int (latency_p95 w) > GrayFailureMultiple * of_int base"

lemma report_live:
  assumes "w_status w \<noteq> Ejected"
  shows "report_worker w ok l base now =
     (let w' = observed w ok l in
      if error_rate w' > 1 / 2 \<or> gray_failure w' base then eject w' now
      else w'\<lparr>w_status := (if error_rate w' > 1 / 10 then Degraded else Healthy)\<rparr>)"
  using assms by (cases "0 < l")
    (simp_all add: report_worker_def observed_def gray_failure_def latency_p95_def Let_def)

lemma report_inv [inv_intros]:
  assumes "worker_inv w"
  shows "worker_inv (report_worker w ok l base now)"
proof (cases "w_status w = Ejected")
  case True
  then show ?thesis
  proof (cases "w_probing w")
    case True
    with \<open>w_status w = Ejected\<close> assms show ?thesis
      by (auto simp: report_probe worker_inv_def router_consts)
  qed (use assms in \<open>simp add: report_stray\<close>)
next
  case False
  have inv: "worker_inv (observed w ok l)" using observe_inv [OF assms] by (simp add: observed_def)
  have "\<not> w_probing (observed w ok l)" using assms False by (simp add: worker_inv_def observed_def)
  then have "worker_inv ((observed w ok l)\<lparr>w_status := st\<rparr>)" for st
    using inv by (simp add: worker_inv_def)
  then show ?thesis using eject_inv [OF inv]
    unfolding report_live [OF False] Let_def by (simp split del: if_split split: if_splits)
qed

lemma begin_probe_inv [inv_intros]: "worker_inv w \<Longrightarrow> worker_inv (begin_probe w)"
  by (auto simp: worker_inv_def begin_probe_def)

lemma bucket_update_inv [inv_intros]: "worker_inv w \<Longrightarrow> worker_inv (w\<lparr>w_bucket := b\<rparr>)"
  by (simp add: worker_inv_def)

lemma load_inv [inv_intros]:
  "worker_inv w \<Longrightarrow> worker_inv (bind_session w)" "worker_inv w \<Longrightarrow> worker_inv (unbind_session w)"
  "worker_inv w \<Longrightarrow> worker_inv (set_draining on w)"
  by (simp_all add: worker_inv_def bind_session_def unbind_session_def set_draining_def)

section \<open>What Pick does\<close>

definition candidate :: "time \<Rightarrow> string \<Rightarrow> (string \<Rightarrow> bool) \<Rightarrow> worker \<Rightarrow> bool" where
  "candidate now mode exclude w \<longleftrightarrow> \<not> exclude (w_id w) \<and> eligible w now
     \<and> fst (bucket_available (w_bucket w) now)
     \<and> (mode = ModeOnline \<longrightarrow> ca_streaming (w_capabilities w))
     \<and> mode_supported (ca_modes (w_capabilities w)) mode"

definition refilled :: "time \<Rightarrow> worker \<Rightarrow> worker" where
  "refilled now w = w\<lparr>w_bucket := snd (bucket_available (w_bucket w) now)\<rparr>"

lemma bucket_available_again:
  "bucket_available (snd (bucket_available b now)) now = (fst (bucket_available b now), snd (bucket_available b now))"
  by (cases b) (simp_all add: bucket_available_def available_at_def Let_def)

lemma refilled_twice [simp]: "refilled now (refilled now w) = refilled now w"
  by (simp add: refilled_def bucket_available_again)

lemma refilled_frame [simp]:
  "w_id (refilled now w) = w_id w" "w_status (refilled now w) = w_status w"
  "w_probing (refilled now w) = w_probing w" "w_draining (refilled now w) = w_draining w"
  "w_capabilities (refilled now w) = w_capabilities w"
  "w_compatibility_key (refilled now w) = w_compatibility_key w"
  "w_outstanding (refilled now w) = w_outstanding w" "w_latencies (refilled now w) = w_latencies w"
  "w_eject_at (refilled now w) = w_eject_at w"
  "eligible (refilled now w) t = eligible w t" "due_for_probe (refilled now w) t = due_for_probe w t"
  "pick_score p (refilled now w) = pick_score p w"
  "candidate now mode ex (refilled now w) = candidate now mode ex w"
  by (cases "w_status w"; simp add: refilled_def eligible_def due_for_probe_def pick_score_def
      latency_p95_def candidate_def bucket_available_again)+

text \<open>A visit refills at most the bucket of the visited worker.\<close>

definition like :: "time \<Rightarrow> router \<Rightarrow> router \<Rightarrow> bool" where
  "like now r ws \<longleftrightarrow> list_all2 (\<lambda>w w'. w' = w \<or> w' = refilled now w) r ws"

lemma like_nth:
  "like now r ws \<Longrightarrow> i < length r \<Longrightarrow> ws ! i = r ! i \<or> ws ! i = refilled now (r ! i)"
  by (simp add: like_def list_all2_conv_all_nth)

lemma like_length: "like now r ws \<Longrightarrow> length ws = length r"
  by (simp add: like_def list_all2_conv_all_nth)

lemma like_update: "like now r ws \<Longrightarrow> i < length r \<Longrightarrow> like now r (ws[i := refilled now (ws ! i)])"
  by (auto simp: like_def list_all2_conv_all_nth nth_list_update)

lemma like_refl [simp]: "like now r r"
  by (simp add: like_def list_all2_refl)

lemma like_worker:
  assumes "like now r ws" "i < length r"
  shows "candidate now mode ex (ws ! i) = candidate now mode ex (r ! i)"
    "due_for_probe (ws ! i) now = due_for_probe (r ! i) now"
    "pick_score p (ws ! i) = pick_score p (r ! i)" "eligible (ws ! i) now = eligible (r ! i) now"
    "w_id (ws ! i) = w_id (r ! i)"
  using like_nth [OF assms] by auto

lemma bucket_take_available: "fst (bucket_take b now) = fst (bucket_available b now)"
  by (cases b) (auto simp: bucket_take_def bucket_available_def take_at_def available_at_def Let_def)

definition scan_inv :: "time \<Rightarrow> string \<Rightarrow> (string \<Rightarrow> bool) \<Rightarrow> cache_compatibility_key \<Rightarrow> router \<Rightarrow> nat list \<Rightarrow> scan \<Rightarrow> bool" where
  "scan_inv now mode ex prefer r seen s \<longleftrightarrow>
     like now r (sc_workers s)
   \<and> (case sc_probe s of
        None \<Rightarrow> \<forall>j \<in> set seen. \<not> (candidate now mode ex (r ! j) \<and> due_for_probe (r ! j) now)
      | Some i \<Rightarrow> i \<in> set seen \<and> candidate now mode ex (r ! i) \<and> due_for_probe (r ! i) now)
   \<and> (case sc_best s of
        None \<Rightarrow> \<forall>j \<in> set seen. \<not> (candidate now mode ex (r ! j) \<and> \<not> due_for_probe (r ! j) now)
      | Some (i, v) \<Rightarrow> i \<in> set seen \<and> candidate now mode ex (r ! i) \<and> \<not> due_for_probe (r ! i) now
          \<and> v = pick_score prefer (r ! i)
          \<and> (\<forall>j \<in> set seen. candidate now mode ex (r ! j) \<and> \<not> due_for_probe (r ! j) now
               \<longrightarrow> v \<le> pick_score prefer (r ! j)))"

text \<open>A visit in terms of the original fleet: skip, refill only, note a probe, or compete.\<close>

lemma pick_visit_like:
  assumes "like now r (sc_workers s)" "i < length r"
  shows "like now r (sc_workers (pick_visit now mode ex prefer s i))"
  using like_update [OF assms] assms(1)
  by (auto simp: pick_visit_def refilled_def Let_def split: prod.splits option.splits)

lemma pick_visit_reject:
  assumes "like now r (sc_workers s)" "i < length r" "\<not> candidate now mode ex (r ! i)"
  shows "sc_probe (pick_visit now mode ex prefer s i) = sc_probe s
    \<and> sc_best (pick_visit now mode ex prefer s i) = sc_best s"
proof -
  have "\<not> candidate now mode ex (sc_workers s ! i)" using like_worker(1) [OF assms(1,2)] assms(3) by simp
  then show ?thesis
    by (auto simp: pick_visit_def candidate_def Let_def split: prod.splits option.splits)
qed

lemma pick_visit_accept:
  assumes "like now r (sc_workers s)" "i < length r" "candidate now mode ex (r ! i)"
  shows "if due_for_probe (r ! i) now
     then sc_probe (pick_visit now mode ex prefer s i) = (case sc_probe s of None \<Rightarrow> Some i | Some k \<Rightarrow> Some k)
        \<and> sc_best (pick_visit now mode ex prefer s i) = sc_best s
     else sc_probe (pick_visit now mode ex prefer s i) = sc_probe s
        \<and> sc_best (pick_visit now mode ex prefer s i) =
            (case sc_best s of
               None \<Rightarrow> Some (i, pick_score prefer (r ! i))
             | Some (k, v) \<Rightarrow> if pick_score prefer (r ! i) < v then Some (i, pick_score prefer (r ! i))
                              else Some (k, v))"
proof -
  note same = like_worker [OF assms(1,2)]
  have c: "candidate now mode ex (sc_workers s ! i)" using same(1) assms(3) by simp
  then show ?thesis unfolding same(2,3) [symmetric]
    by (auto simp: pick_visit_def candidate_def Let_def split: prod.splits option.splits)
qed

lemma scan_step:
  assumes inv: "scan_inv now mode ex prefer r seen s" and i: "i < length r"
  shows "scan_inv now mode ex prefer r (seen @ [i]) (pick_visit now mode ex prefer s i)"
proof -
  have like: "like now r (sc_workers s)" using inv by (simp add: scan_inv_def)
  note like' = pick_visit_like [OF like i, of mode ex "prefer"]
  show ?thesis
  proof (cases "candidate now mode ex (r ! i)")
    case False
    with pick_visit_reject [OF like i False, of "prefer"] inv like' show ?thesis
      by (auto simp: scan_inv_def split: option.splits)
  next
    case True
    show ?thesis
    proof (cases "due_for_probe (r ! i) now")
      case due: True
      with pick_visit_accept [OF like i True, of "prefer"] inv like' True show ?thesis
        by (auto simp: scan_inv_def split: option.splits)
    next
      case False
      with pick_visit_accept [OF like i True, of "prefer"] inv like' True show ?thesis
        by (cases "sc_best s"; cases "sc_probe s")
          (auto simp: scan_inv_def split: if_splits, (meson less_le_trans less_imp_le)+)
    qed
  qed
qed

lemma scan_run:
  assumes "set perm \<subseteq> {..<length r}"
  shows "scan_inv now mode ex prefer r perm
    (foldl (pick_visit now mode ex prefer) \<lparr>sc_workers = r, sc_best = None, sc_probe = None\<rparr> perm)"
  using assms
proof (induction perm rule: rev_induct)
  case Nil
  then show ?case by (simp add: scan_inv_def)
next
  case (snoc i perm)
  then show ?case by (simp add: scan_step)
qed

text \<open>What a pick leaves of each worker: everything but its bucket, and the probe mark.\<close>

definition after_pick :: "nat option \<Rightarrow> bool \<Rightarrow> nat \<Rightarrow> worker \<Rightarrow> worker \<Rightarrow> bool" where
  "after_pick res probed j w w' \<longleftrightarrow>
     (\<exists>b. w' = (if probed \<and> res = Some j then w\<lparr>w_bucket := b, w_probing := True\<rparr>
                else w\<lparr>w_bucket := b\<rparr>))"

lemma after_pick_like:
  assumes "like now r ws" "j < length r" "\<not> (probed \<and> res = Some j)"
  shows "after_pick res probed j (r ! j) (ws ! j)"
proof -
  have "ws ! j = (r ! j)\<lparr>w_bucket := w_bucket (ws ! j)\<rparr>"
    using like_nth [OF assms(1,2)] by (elim disjE) (simp_all add: refilled_def)
  then have "\<exists>b. ws ! j = (r ! j)\<lparr>w_bucket := b\<rparr>" by (rule exI)
  then show ?thesis unfolding after_pick_def if_not_P [OF assms(3)] .
qed

lemma charge_candidate:
  assumes "like now r ws" "i < length r" "candidate now mode ex (r ! i)"
  obtains ws' where "charge now i ws = (True, ws')" "length ws' = length r"
    and "\<And>j. j < length r \<Longrightarrow> after_pick None False j (r ! j) (ws' ! j)"
proof -
  have "fst (bucket_take (w_bucket (ws ! i)) now)"
    using like_worker(1) [OF assms(1,2), of mode ex] assms(3)
    by (simp add: bucket_take_available candidate_def)
  then obtain b where b: "bucket_take (w_bucket (ws ! i)) now = (True, b)" by (metis prod.collapse)
  show ?thesis
  proof (rule that)
    show "charge now i ws = (True, ws[i := (ws ! i)\<lparr>w_bucket := b\<rparr>])" by (simp add: charge_def b)
    show "length (ws[i := (ws ! i)\<lparr>w_bucket := b\<rparr>]) = length r" using like_length [OF assms(1)] by simp
    show "after_pick None False j (r ! j) (ws[i := (ws ! i)\<lparr>w_bucket := b\<rparr>] ! j)" if "j < length r" for j
      using after_pick_like [OF assms(1) that, of False None] like_length [OF assms(1)] that assms(2)
      by (auto simp: after_pick_def nth_list_update)
  qed
qed

lemma after_pick_begin_probe:
  assumes "length ws = length r" "\<And>j. j < length r \<Longrightarrow> after_pick None False j (r ! j) (ws ! j)"
    and "i < length r" "due_for_probe (r ! i) now" "j < length r"
  shows "after_pick (Some i) True j (r ! j) (ws[i := begin_probe (ws ! i)] ! j)"
proof (cases "j = i")
  case True
  obtain b where b: "ws ! i = (r ! i)\<lparr>w_bucket := b\<rparr>"
    using assms(2) [OF assms(3)] by (auto simp: after_pick_def)
  have "w_status (r ! i) = Ejected" using assms(4) by (auto simp: due_for_probe_def split: if_splits)
  then have "begin_probe (ws ! i) = (r ! i)\<lparr>w_bucket := b, w_probing := True\<rparr>"
    by (simp add: b begin_probe_def)
  then show ?thesis using True assms(1,3) by (auto simp: after_pick_def)
next
  case False
  then show ?thesis using assms(2) [OF assms(5)] by (auto simp: after_pick_def)
qed

lemma pick_result:
  assumes perm: "set perm = {..<length r}" and run: "pick now perm mode ex prefer r = (res, r')"
  shows "length r' = length r
    \<and> (case res of
        None \<Rightarrow> \<forall>w \<in> set r. \<not> candidate now mode ex w
      | Some i \<Rightarrow> i < length r \<and> candidate now mode ex (r ! i)
          \<and> (due_for_probe (r ! i) now
             \<or> (\<forall>w \<in> set r. candidate now mode ex w \<longrightarrow>
                  \<not> due_for_probe w now \<and> pick_score prefer (r ! i) \<le> pick_score prefer w)))
    \<and> (\<forall>j < length r. after_pick res (\<exists>i. res = Some i \<and> due_for_probe (r ! i) now) j (r ! j) (r' ! j))"
proof -
  let ?s = "foldl (pick_visit now mode ex prefer) \<lparr>sc_workers = r, sc_best = None, sc_probe = None\<rparr> perm"
  have inv: "scan_inv now mode ex prefer r perm ?s" using perm by (intro scan_run) simp
  have all: "(\<forall>j\<in>set perm. P (r ! j)) \<longleftrightarrow> (\<forall>w\<in>set r. P w)" for P
    by (auto simp: perm all_set_conv_all_nth)
  have like: "like now r (sc_workers ?s)" using inv by (simp add: scan_inv_def)
  show ?thesis
  proof (cases "sc_probe ?s")
    case (Some i)
    then have i: "i < length r" "candidate now mode ex (r ! i)" "due_for_probe (r ! i) now"
      using inv perm by (auto simp: scan_inv_def)
    obtain ws where ws: "charge now i (sc_workers ?s) = (True, ws)" "length ws = length r"
      "\<And>j. j < length r \<Longrightarrow> after_pick None False j (r ! j) (ws ! j)"
      using charge_candidate [OF like i(1,2)] by blast
    from run have "res = Some i" "r' = ws[i := begin_probe (ws ! i)]"
      by (simp_all add: pick_def Some ws(1))
    with after_pick_begin_probe [OF ws(2,3) i(1,3)] i ws(2) show ?thesis by simp
  next
    case None
    then have nodue: "\<forall>w\<in>set r. \<not> (candidate now mode ex w \<and> due_for_probe w now)"
      using inv all [of "\<lambda>w. \<not> (candidate now mode ex w \<and> due_for_probe w now)"]
      by (simp add: scan_inv_def)
    show ?thesis
    proof (cases "sc_best ?s")
      case best: None
      have "\<forall>w\<in>set r. \<not> (candidate now mode ex w \<and> \<not> due_for_probe w now)"
        using inv all [of "\<lambda>w. \<not> (candidate now mode ex w \<and> \<not> due_for_probe w now)"] best
        by (simp add: scan_inv_def)
      moreover have "res = None" "r' = sc_workers ?s" using run by (simp_all add: pick_def None best)
      ultimately show ?thesis
        using nodue like_length [OF like] after_pick_like [OF like] by auto
    next
      case (Some iv)
      obtain i v where iv: "iv = (i, v)" by (cases iv)
      have i: "i < length r" "candidate now mode ex (r ! i)" "\<not> due_for_probe (r ! i) now"
        "v = pick_score prefer (r ! i)"
        using inv perm Some iv by (auto simp: scan_inv_def)
      have opt: "\<forall>w\<in>set r. candidate now mode ex w \<and> \<not> due_for_probe w now \<longrightarrow>
          pick_score prefer (r ! i) \<le> pick_score prefer w"
        using inv Some iv i(4)
          all [of "\<lambda>w. candidate now mode ex w \<and> \<not> due_for_probe w now \<longrightarrow> v \<le> pick_score prefer w"]
        by (simp add: scan_inv_def)
      obtain ws where ws: "charge now i (sc_workers ?s) = (True, ws)" "length ws = length r"
        "\<And>j. j < length r \<Longrightarrow> after_pick None False j (r ! j) (ws ! j)"
        using charge_candidate [OF like i(1,2)] by blast
      have "res = Some i" "r' = ws" using run by (simp_all add: pick_def None Some iv ws(1))
      with i ws(2,3) opt nodue show ?thesis by (auto simp: after_pick_def)
    qed
  qed
qed

section \<open>Runs of the router\<close>

datatype router_op =
    RPick time "nat list" string "string list" cache_compatibility_key
  | RReport time string bool duration
  | RMarkUnhealthy time string
  | ROn429 time string duration
  | RBind string
  | RUnbind string
  | RSetDraining string bool
  | RAdd worker

fun router_do :: "router \<Rightarrow> router_op \<Rightarrow> nat option \<times> router" where
  "router_do r (RPick now perm mode ex key) = pick now perm mode (\<lambda>i. i \<in> set ex) key r"
| "router_do r (RReport now i ok l) = (None, router_report now i ok l r)"
| "router_do r (RMarkUnhealthy now i) = (None, mark_unhealthy now i r)"
| "router_do r (ROn429 now i d) = (None, snd (router_on429 now i d r))"
| "router_do r (RBind i) = (None, update_worker i bind_session r)"
| "router_do r (RUnbind i) = (None, update_worker i unbind_session r)"
| "router_do r (RSetDraining i on) = (None, update_worker i (set_draining on) r)"
| "router_do r (RAdd w) = (None, case router_add r (Some w) of Inl _ \<Rightarrow> r | Inr r' \<Rightarrow> r')"

text \<open>The permutation \<open>rand.Perm(len(workers))\<close> of a pick; a worker added is a new one.\<close>

fun op_ok :: "router \<Rightarrow> router_op \<Rightarrow> bool" where
  "op_ok r (RPick now perm mode ex key) = (set perm = {..<length r})"
| "op_ok r (RAdd w) = worker_inv w"
| "op_ok r _ = True"

fun router_run :: "router \<Rightarrow> router_op list \<Rightarrow> nat option list \<times> router" where
  "router_run r [] = ([], r)"
| "router_run r (op # ops) =
     (let (p, r1) = router_do r op; (ps, r2) = router_run r1 ops in (p # ps, r2))"

fun ops_ok :: "router \<Rightarrow> router_op list \<Rightarrow> bool" where
  "ops_ok r [] = True"
| "ops_ok r (op # ops) = (op_ok r op \<and> ops_ok (snd (router_do r op)) ops)"

definition router_inv :: "router \<Rightarrow> bool" where
  "router_inv r \<longleftrightarrow> distinct (map w_id r) \<and> list_all worker_inv r"

lemma length_update_worker [simp]: "length (update_worker i f r) = length r"
  by (induction r) auto

lemma update_worker_nth:
  "distinct (map w_id r) \<Longrightarrow> j < length r \<Longrightarrow>
     update_worker i f r ! j = (if w_id (r ! j) = i then f (r ! j) else r ! j)"
proof (induction r arbitrary: j)
  case Nil
  then show ?case by simp
next
  case (Cons w ws)
  then have "w_id (ws ! k) \<noteq> w_id w" if "k < length ws" for k
    using that Cons.prems(1) nth_mem [of k ws] by (metis distinct.simps(2) image_eqI list.set_map list.simps(9))
  with Cons show ?case by (cases j) auto
qed

lemma update_worker_ids: "(\<And>w. w_id (f w) = w_id w) \<Longrightarrow> map w_id (update_worker i f r) = map w_id r"
  by (induction r) auto

lemma update_worker_inv:
  "list_all worker_inv r \<Longrightarrow> (\<And>w. worker_inv w \<Longrightarrow> worker_inv (f w)) \<Longrightarrow> list_all worker_inv (update_worker i f r)"
  by (induction r) auto

lemma report_frame [simp]:
  "w_id (report_worker w ok l b t) = w_id w" "w_draining (report_worker w ok l b t) = w_draining w"
  "w_compatibility_key (report_worker w ok l b t) = w_compatibility_key w"
  by (simp_all add: report_worker_def eject_def Let_def)

lemma eject_frame [simp]: "w_id (eject w t) = w_id w" "w_draining (eject w t) = w_draining w"
  by (simp_all add: eject_def)

lemma load_frame [simp]:
  "w_id (bind_session w) = w_id w" "w_id (unbind_session w) = w_id w" "w_id (set_draining on w) = w_id w"
  "w_draining (bind_session w) = w_draining w" "w_draining (unbind_session w) = w_draining w"
  "w_probing (bind_session w) = w_probing w" "w_probing (unbind_session w) = w_probing w"
  "w_probing (set_draining on w) = w_probing w" "w_draining (set_draining on w) = on"
  by (simp_all add: bind_session_def unbind_session_def set_draining_def)

lemma router_inv_update [inv_intros]:
  assumes "router_inv r" "\<And>w. w_id (f w) = w_id w" "\<And>w. worker_inv w \<Longrightarrow> worker_inv (f w)"
  shows "router_inv (update_worker i f r)"
  using assms by (simp add: router_inv_def update_worker_ids update_worker_inv)

lemma after_pick_frame:
  assumes "after_pick res probed j w w'"
  shows "w_id w' = w_id w" "w_draining w' = w_draining w"
    "w_probing w' = (w_probing w \<or> probed \<and> res = Some j)"
    "w_status w' = w_status w" "w_compatibility_key w' = w_compatibility_key w"
    "w_outstanding w' = w_outstanding w"
proof -
  obtain b where "w' = (if probed \<and> res = Some j then w\<lparr>w_bucket := b, w_probing := True\<rparr>
      else w\<lparr>w_bucket := b\<rparr>)" using assms unfolding after_pick_def by blast
  then show "w_id w' = w_id w" "w_draining w' = w_draining w"
    "w_probing w' = (w_probing w \<or> probed \<and> res = Some j)"
    "w_status w' = w_status w" "w_compatibility_key w' = w_compatibility_key w"
    "w_outstanding w' = w_outstanding w" by (simp_all, blast)
qed

lemma after_pick_inv:
  assumes "after_pick res probed j w w'" "worker_inv w" "probed \<Longrightarrow> res = Some j \<Longrightarrow> w_status w = Ejected"
  shows "worker_inv w'"
proof -
  obtain b where "w' = (if probed \<and> res = Some j then w\<lparr>w_bucket := b, w_probing := True\<rparr>
      else w\<lparr>w_bucket := b\<rparr>)" using assms(1) unfolding after_pick_def by blast
  then show ?thesis using assms(2,3) by (simp add: worker_inv_def)
qed

lemma router_inv_pick [inv_intros]:
  assumes inv: "router_inv r" and perm: "set perm = {..<length r}"
    and run: "pick now perm mode ex key r = (res, r')"
  shows "router_inv r'"
proof -
  note res = pick_result [OF perm run]
  then have len: "length r' = length r" by simp
  have each: "after_pick res (\<exists>i. res = Some i \<and> due_for_probe (r ! i) now) j (r ! j) (r' ! j)"
    if "j < length r" for j using res that by blast
  have "map w_id r' = map w_id r"
    by (rule nth_equalityI) (use len after_pick_frame(1) [OF each] in simp_all)
  moreover have "worker_inv (r' ! j)" if "j < length r" for j
  proof (rule after_pick_inv [OF each [OF that]])
    show "worker_inv (r ! j)" using inv that by (simp add: router_inv_def list_all_length)
    show "w_status (r ! j) = Ejected"
      if "\<exists>i. res = Some i \<and> due_for_probe (r ! i) now" "res = Some j"
      using that by (auto simp: due_for_probe_def split: if_splits)
  qed
  ultimately show ?thesis using inv len by (simp add: router_inv_def list_all_length)
qed

lemma router_do_inv:
  assumes "router_inv r" "op_ok r op"
  shows "router_inv (snd (router_do r op))"
proof (cases op)
  case (RPick now perm mode ex key)
  then show ?thesis using assms router_inv_pick [of r perm now mode _ key]
    by (metis op_ok.simps(1) router_do.simps(1) prod.collapse)
next
  case (RAdd w)
  then show ?thesis using assms by (auto simp: router_add_def router_inv_def)
next
  case (ROn429 now i d)
  then show ?thesis using assms
    by (simp add: router_on429_def router_inv_update bucket_update_inv split: option.splits)
next
  case (RReport now i ok l)
  then show ?thesis using assms(1) by (simp add: router_report_def router_inv_update report_inv)
next
  case (RMarkUnhealthy now i)
  then show ?thesis using assms(1) by (simp add: mark_unhealthy_def router_inv_update eject_inv)
qed (use assms in \<open>simp_all add: router_inv_update load_inv\<close>)

lemma router_run_inv:
  "router_inv r \<Longrightarrow> ops_ok r ops \<Longrightarrow> router_inv (snd (router_run r ops))"
proof (induction ops arbitrary: r)
  case Nil
  then show ?case by simp
next
  case (Cons op ops)
  then have "router_inv (snd (router_run (snd (router_do r op)) ops))"
    by (simp add: router_do_inv)
  then show ?case by (auto split: prod.splits)
qed

section \<open>Exclusive probes and drains\<close>

text \<open>
  What an operation does to the worker at an index, other than a pick: nothing, or
  the method it names on that worker.
\<close>

lemma router_do_worker:
  assumes "router_inv r" "j < length r" "router_do r op = (p, r')"
    and "\<And>now perm mode ex key. op \<noteq> RPick now perm mode ex key"
  shows "p = None \<and> j < length r' \<and> (r' ! j = r ! j \<or>
     (\<exists>now ok l b. op = RReport now (w_id (r ! j)) ok l \<and> r' ! j = report_worker (r ! j) ok l b now) \<or>
     (\<exists>now. w_status (r ! j) \<noteq> Ejected \<and> r' ! j = eject (r ! j) now) \<or>
     (\<exists>b. r' ! j = (r ! j)\<lparr>w_bucket := b\<rparr>) \<or>
     r' ! j = bind_session (r ! j) \<or> r' ! j = unbind_session (r ! j) \<or>
     (\<exists>on. op = RSetDraining (w_id (r ! j)) on \<and> r' ! j = set_draining on (r ! j)))"
proof -
  have nth: "update_worker i f r ! j = (if w_id (r ! j) = i then f (r ! j) else r ! j)" for i f
    using assms(1,2) by (intro update_worker_nth) (simp_all add: router_inv_def)
  show ?thesis
  proof (cases op)
    case (RReport now i ok l)
    show ?thesis
    proof (cases "w_id (r ! j) = i")
      case True
      then have "op = RReport now (w_id (r ! j)) ok l"
        "r' ! j = report_worker (r ! j) ok l (peer_p95 r (r ! j)) now" "p = None" "length r' = length r"
        using RReport assms(3) by (auto simp: router_report_def nth)
      with assms(2) show ?thesis by auto
    next
      case False
      then show ?thesis using RReport assms(2,3) by (auto simp: router_report_def nth)
    qed
  next
    case (RMarkUnhealthy now i)
    then show ?thesis using assms(2,3) by (auto simp: mark_unhealthy_def nth)
  next
    case (ROn429 now i d)
    have "p = None" "length r' = length r"
      and "r' ! j = r ! j \<or> r' ! j = (r ! j)\<lparr>w_bucket := bucket_on429 (w_bucket (r ! j)) now d\<rparr>"
      using ROn429 assms(3) by (auto simp: router_on429_def nth split: option.splits)
    with assms(2) show ?thesis by auto
  next
    case (RAdd w)
    then show ?thesis using assms(2,3)
      by (auto simp: router_add_def nth_append split: if_splits)
  next
    case (RBind i)
    then show ?thesis using assms(2,3) by (cases "w_id (r ! j) = i") (auto simp: nth)
  next
    case (RUnbind i)
    then show ?thesis using assms(2,3) by (cases "w_id (r ! j) = i") (auto simp: nth)
  qed (use assms(2-4) in \<open>auto simp: nth\<close>)
qed

definition not_reported :: "string \<Rightarrow> router_op list \<Rightarrow> bool" where
  "not_reported i ops \<longleftrightarrow> list_all (\<lambda>op. case op of RReport _ k _ _ \<Rightarrow> k \<noteq> i | _ \<Rightarrow> True) ops"

definition not_undrained :: "string \<Rightarrow> router_op list \<Rightarrow> bool" where
  "not_undrained i ops \<longleftrightarrow> list_all (\<lambda>op. case op of RSetDraining k on \<Rightarrow> k = i \<longrightarrow> on | _ \<Rightarrow> True) ops"

text \<open>A property of one worker that bars it from selection, and survives the operations.\<close>

definition barred :: "bool \<Rightarrow> worker \<Rightarrow> bool" where
  "barred probe w = (if probe then w_probing w else w_draining w)"

lemma barred_not_candidate:
  "worker_inv w \<Longrightarrow> barred probe w \<Longrightarrow> \<not> candidate now mode ex w"
  by (auto simp: barred_def candidate_def eligible_def worker_inv_def split: if_splits status.splits)

lemma barred_step:
  assumes inv: "router_inv r" and ok: "op_ok r op" and j: "j < length r" and bar: "barred probe (r ! j)"
    and run: "router_do r op = (p, r')"
    and quiet: "if probe then not_reported (w_id (r ! j)) [op] else not_undrained (w_id (r ! j)) [op]"
  shows "p \<noteq> Some j \<and> j < length r' \<and> barred probe (r' ! j) \<and> w_id (r' ! j) = w_id (r ! j)"
proof (cases "\<exists>now perm mode ex key. op = RPick now perm mode ex key")
  case True
  then obtain now perm mode ex key where op: "op = RPick now perm mode ex key" by blast
  have wi: "worker_inv (r ! j)" using inv j by (simp add: router_inv_def list_all_length)
  note res = pick_result [of perm r now mode "\<lambda>i. i \<in> set ex" key p r']
  have perm: "set perm = {..<length r}" using ok by (simp add: op)
  have pk: "pick now perm mode (\<lambda>i. i \<in> set ex) key r = (p, r')" using run by (simp add: op)
  have "p \<noteq> Some j" using res [OF perm pk] barred_not_candidate [OF wi bar] by auto
  moreover have "after_pick p (\<exists>i. p = Some i \<and> due_for_probe (r ! i) now) j (r ! j) (r' ! j)"
    and "length r' = length r" using res [OF perm pk] j by auto
  ultimately show ?thesis using bar j after_pick_frame by (auto simp: barred_def split: if_splits)
next
  case False
  then have "\<And>now perm mode ex key. op \<noteq> RPick now perm mode ex key" by blast
  note eff = router_do_worker [OF inv j run this]
  have wi: "worker_inv (r ! j)" using inv j by (simp add: router_inv_def list_all_length)
  show ?thesis
  proof (cases probe)
    case True
    then have "w_probing (r ! j)" "w_status (r ! j) = Ejected"
      using bar wi by (auto simp: barred_def worker_inv_def)
    with eff quiet True show ?thesis by (auto simp: barred_def not_reported_def)
  next
    case False
    with eff quiet bar show ?thesis by (auto simp: barred_def not_undrained_def)
  qed
qed

lemma barred_run:
  assumes "router_inv r" "ops_ok r ops" "j < length r" "barred probe (r ! j)"
    and "router_run r ops = (ps, r')"
    and "if probe then not_reported (w_id (r ! j)) ops else not_undrained (w_id (r ! j)) ops"
  shows "Some j \<notin> set ps \<and> j < length r' \<and> barred probe (r' ! j)"
  using assms
proof (induction ops arbitrary: r ps)
  case Nil
  then show ?case by simp
next
  case (Cons op ops)
  obtain p r1 where one: "router_do r op = (p, r1)" by fastforce
  obtain ps1 where rest: "router_run r1 ops = (ps1, r')" and ps: "ps = p # ps1"
    using Cons.prems(5) by (auto simp: one split: prod.splits)
  have ok: "op_ok r op" "ops_ok r1 ops" using Cons.prems(2) by (simp_all add: one)
  have q1: "if probe then not_reported (w_id (r ! j)) [op] else not_undrained (w_id (r ! j)) [op]"
    and q2: "if probe then not_reported (w_id (r ! j)) ops else not_undrained (w_id (r ! j)) ops"
    using Cons.prems(6) by (auto simp: not_reported_def not_undrained_def split: if_splits)
  note step = barred_step [OF Cons.prems(1) ok(1) Cons.prems(3,4) one q1]
  have "router_inv r1" using router_do_inv [OF Cons.prems(1) ok(1)] by (simp add: one)
  from Cons.IH [OF this ok(2) _ _ rest] step q2 show ?case by (auto simp: ps)
qed

section \<open>Properties\<close>

definition demo_caps :: capabilities where
  "demo_caps = \<lparr> ca_streaming = True, ca_serializable = False, ca_endpointing = False,
     ca_modes = [''online''], ca_min_chunk_ms = 0, ca_max_chunk_ms = 0 \<rparr>"

definition demo_fleet :: router where
  "demo_fleet = [new_worker 1 ''a'' ''k1'' demo_caps,
     (new_worker 1 ''b'' ''k2'' demo_caps)\<lparr>w_status := Ejected, w_probing := True\<rparr>,
     (new_worker 1 ''c'' ''k1'' demo_caps)\<lparr>w_draining := True\<rparr>]"

lemma demo_fleet_inv: "router_inv demo_fleet"
  by (simp add: router_inv_def demo_fleet_def new_worker_def worker_inv_def router_consts)

text \<open>
  C1: \<open>Pick\<close> is sound, complete and optimal. Whatever permutation it visits the fleet
  in, it refuses only when no worker passes the filter; a worker it returns passes
  it, and is either owed a half-open probe or the best-scored candidate of a fleet
  in which none is. Apart from bucket refills and the token spent, the only thing it
  changes is the probe mark of the worker it chose as a probe.
\<close>

theorem pick_is_sound_complete_optimal:
  assumes "set perm = {..<length r}" "pick now perm mode ex key r = (res, r')"
  shows "length r' = length r
    \<and> (case res of
        None \<Rightarrow> \<forall>w \<in> set r. \<not> candidate now mode ex w
      | Some i \<Rightarrow> i < length r \<and> candidate now mode ex (r ! i)
          \<and> (due_for_probe (r ! i) now
             \<or> (\<forall>w \<in> set r. candidate now mode ex w \<longrightarrow>
                  \<not> due_for_probe w now \<and> pick_score key (r ! i) \<le> pick_score key w)))
    \<and> (\<forall>j < length r. after_pick res (\<exists>i. res = Some i \<and> due_for_probe (r ! i) now) j (r ! j) (r' ! j))"
  using assms by (rule pick_result)

theorem pick_is_sound_complete_optimal_witness:
  "candidate 5 ''online'' (\<lambda>_. False) (demo_fleet ! 0)
   \<and> pick_score '''' (demo_fleet ! 0) \<le> pick_score '''' (demo_fleet ! 0)"
proof -
  let ?run = "pick 5 [2, 0, 1] ''online'' (\<lambda>_. False) '''' demo_fleet"
  have res: "fst ?run = Some 0" by code_simp
  have perm: "set [2, 0, 1] = {..<length demo_fleet}" by (auto simp: demo_fleet_def)
  have run: "?run = (Some 0, snd ?run)" using res by (metis prod.collapse)
  from pick_is_sound_complete_optimal [OF perm run] show ?thesis by simp
qed



text \<open>
  A drain holds. A draining worker is never selected, and no pick, report, ejection
  or rate-limit event takes it out of the drain; only the operator does.
\<close>

theorem drained_worker_gets_no_new_session:
  assumes "router_inv r" "ops_ok r ops" "j < length r" "w_draining (r ! j)"
    and "router_run r ops = (ps, r')" "not_undrained (w_id (r ! j)) ops"
  shows "Some j \<notin> set ps \<and> w_draining (r' ! j)"
  using barred_run [of r ops j False ps r'] assms by (simp add: barred_def)

theorem drained_worker_gets_no_new_session_witness:
  "let (ps, r') = router_run demo_fleet [RReport 100 ''c'' True 5, RPick 99 [2, 0, 1] ''online'' [] '''']
   in Some 2 \<notin> set ps \<and> w_draining (r' ! 2) \<and> ps = [None, Some 0]"
proof -
  let ?ops = "[RReport 100 ''c'' True 5, RPick 99 [2, 0, 1] ''online'' [] '''']"
  have ps: "fst (router_run demo_fleet ?ops) = [None, Some 0]" by code_simp
  obtain r' where run: "router_run demo_fleet ?ops = ([None, Some 0], r')"
    using ps by (metis prod.collapse)
  have len: "length (snd (router_do demo_fleet (RReport 100 ''c'' True 5))) = 3" by code_simp
  have ok: "ops_ok demo_fleet ?ops" using len by auto
  have "2 < length demo_fleet" "w_draining (demo_fleet ! 2)" "not_undrained (w_id (demo_fleet ! 2)) ?ops"
    by (simp_all add: demo_fleet_def not_undrained_def new_worker_def)
  from drained_worker_gets_no_new_session [OF demo_fleet_inv ok this(1,2) run this(3)] run
  show ?thesis by simp
qed

text \<open>
  The fleet stays well-formed. Ids remain distinct, the health windows never hold
  more than 50 entries, every recorded latency is positive, the backoff stays
  between 10 seconds and 2 minutes, and only an ejected worker is being probed.
\<close>

theorem router_stays_well_formed:
  assumes "router_inv r" "ops_ok r ops" "router_run r ops = (ps, r')" "w \<in> set r'"
  shows "distinct (map w_id r') \<and> length (w_outcomes w) \<le> 50 \<and> length (w_latencies w) \<le> 50
    \<and> (\<forall>d \<in> set (w_latencies w). 0 < d) \<and> 10 * second \<le> w_backoff w \<and> w_backoff w \<le> 120 * second
    \<and> (w_probing w \<longrightarrow> w_status w = Ejected)"
  using router_run_inv [OF assms(1,2)] assms(3,4)
  by (auto simp: router_inv_def list_all_iff worker_inv_def router_consts)

theorem router_stays_well_formed_witness:
  "10 * second \<le> w_backoff (demo_fleet ! 1) \<and> w_status (demo_fleet ! 1) = Ejected"
  using router_stays_well_formed [of demo_fleet "[]" "[]" demo_fleet "demo_fleet ! 1"] demo_fleet_inv
  by (simp add: demo_fleet_def new_worker_def)

text \<open>
  Gray failure is judged by same-model peers only. The baseline a worker is held to
  does not depend on its own samples nor on workers with another compatibility key;
  when no such peer has served 20 calls, an outcome can eject a live worker only
  through its error rate.
\<close>

theorem gray_failure_needs_same_model_peers:
  "peer_p95 r w = peer_p95 (filter (\<lambda>v. w_id v \<noteq> w_id w \<and> w_compatibility_key v = w_compatibility_key w) r) w
   \<and> (w_status w \<noteq> Ejected \<and>
       (\<forall>v \<in> set r. w_id v \<noteq> w_id w \<and> w_compatibility_key v = w_compatibility_key w
           \<longrightarrow> length (w_latencies v) < 20)
      \<longrightarrow> (w_status (report_worker w ok l (peer_p95 r w) now) = Ejected)
            = (error_rate (observed w ok l) > 1 / 2))"
proof -
  have same: "peer_p95 r w = peer_p95 (filter (\<lambda>v. w_id v \<noteq> w_id w
      \<and> w_compatibility_key v = w_compatibility_key w) r) w"
    by (simp add: peer_p95_def conj_ac)
  have none: "peer_p95 r w = 0"
    if "\<forall>v \<in> set r. w_id v \<noteq> w_id w \<and> w_compatibility_key v = w_compatibility_key w \<longrightarrow> length (w_latencies v) < 20"
  proof -
    have "filter (\<lambda>v. w_id v \<noteq> w_id w \<and> w_compatibility_key v = w_compatibility_key w
        \<and> minLatencySamples \<le> length (w_latencies v)) r = []"
      using that by (auto simp: filter_empty_conv minLatencySamples_def not_le)
    then show ?thesis by (simp add: peer_p95_def median_def)
  qed
  show ?thesis using same none
    by (auto simp: report_live gray_failure_def eject_def Let_def)
qed

theorem gray_failure_needs_same_model_peers_witness:
  "(w_status (report_worker (demo_fleet ! 0) True 5 (peer_p95 demo_fleet (demo_fleet ! 0)) 9) = Ejected)
     = (error_rate (observed (demo_fleet ! 0) True 5) > 1 / 2)"
  using gray_failure_needs_same_model_peers [of demo_fleet "demo_fleet ! 0" True 5 9]
  by (auto simp: demo_fleet_def new_worker_def)

text \<open>One worker probed again and again, each probe failing at its time.\<close>

fun failed_probes :: "duration \<Rightarrow> duration \<Rightarrow> worker \<Rightarrow> time list \<Rightarrow> worker" where
  "failed_probes l base w [] = w"
| "failed_probes l base w (t # ts) = failed_probes l base (report_worker (begin_probe w) False l base t) ts"

lemma failed_probe:
  "w_status w = Ejected \<Longrightarrow> report_worker (begin_probe w) False l base t =
     w\<lparr> w_probing := False, w_backoff := min (2 * w_backoff w) maxEjectBackoff,
        w_eject_at := t + min (2 * w_backoff w) maxEjectBackoff \<rparr>"
  by (simp add: begin_probe_def report_probe)

lemma failed_probes_backoff:
  assumes "w_status w = Ejected" "ejectDuration \<le> w_backoff w" "w_backoff w \<le> maxEjectBackoff"
  shows "w_backoff (failed_probes l base w ts) = min (w_backoff w * 2 ^ length ts) maxEjectBackoff
    \<and> w_status (failed_probes l base w ts) = Ejected
    \<and> (ts \<noteq> [] \<longrightarrow> w_eject_at (failed_probes l base w ts)
          = last ts + min (w_backoff w * 2 ^ length ts) maxEjectBackoff)"
  using assms
proof (induction ts arbitrary: w)
  case Nil
  then show ?case by (simp add: min_absorb1)
next
  case (Cons t ts)
  let ?w = "report_worker (begin_probe w) False l base t"
  note w = failed_probe [OF Cons.prems(1), of l base t]
  have b: "w_backoff ?w = min (2 * w_backoff w) maxEjectBackoff" by (simp add: w)
  have pos: "0 \<le> w_backoff w" using Cons.prems(2) by (simp add: ejectDuration_def)
  have IH: "w_backoff (failed_probes l base ?w ts) = min (w_backoff ?w * 2 ^ length ts) maxEjectBackoff
    \<and> w_status (failed_probes l base ?w ts) = Ejected
    \<and> (ts \<noteq> [] \<longrightarrow> w_eject_at (failed_probes l base ?w ts)
          = last ts + min (w_backoff ?w * 2 ^ length ts) maxEjectBackoff)"
    by (rule Cons.IH) (use Cons.prems b pos in \<open>auto simp: w router_consts\<close>)
  have collapse: "min (w_backoff ?w * 2 ^ length ts) maxEjectBackoff
      = min (w_backoff w * 2 ^ length (t # ts)) maxEjectBackoff"
  proof (cases "2 * w_backoff w \<le> maxEjectBackoff")
    case True
    then show ?thesis by (simp add: b min_absorb1 mult.commute mult.left_commute)
  next
    case False
    have one: "(1 :: int) \<le> 2 ^ length ts" by simp
    have "maxEjectBackoff * 1 \<le> maxEjectBackoff * 2 ^ length ts"
      by (rule mult_left_mono [OF one]) (simp add: maxEjectBackoff_def)
    moreover have "2 * w_backoff w * 1 \<le> 2 * w_backoff w * 2 ^ length ts"
      by (rule mult_left_mono [OF one]) (use pos in simp)
    ultimately show ?thesis using False by (simp add: b min_def)
  qed
  show ?case using IH collapse by (cases ts) (simp_all add: w)
qed

text \<open>
  Probing backs off. A worker ejected for the first time whose next \<open>n\<close> probes all
  fail stays ejected, and its next probe is due the initial 10 seconds doubled once
  per failure, capped at 2 minutes, after the last failure.
\<close>

theorem failed_probes_back_off:
  assumes "w_status w = Ejected" "w_backoff w = 10 * second" "ts \<noteq> []"
  shows "w_status (failed_probes l base w ts) = Ejected
    \<and> w_eject_at (failed_probes l base w ts) = last ts + min (10 * second * 2 ^ length ts) (120 * second)"
  using failed_probes_backoff [of w l base ts] assms by (simp add: router_consts)

theorem failed_probes_back_off_witness:
  "w_eject_at (failed_probes 1 1 (demo_fleet ! 1) [100, 200, 300, 400]) = 400 + 120 * second"
proof -
  have w: "w_status (demo_fleet ! 1) = Ejected" "w_backoff (demo_fleet ! 1) = 10 * second"
    by (simp_all add: demo_fleet_def new_worker_def ejectDuration_def)
  have rhs: "last [100, 200, 300, 400] + min (10 * second * 2 ^ length [100, 200, 300, 400 :: int]) (120 * second)
      = 400 + 120 * second" by simp
  show ?thesis
    by (rule failed_probes_back_off [OF w, of "[100, 200, 300, 400]", unfolded rhs, THEN conjunct2]) simp
qed

text \<open>
  A pool is a compatibility cohort. For a registered worker, \<open>Pool\<close> lists that
  worker first and contains exactly the workers of the fleet with its compatibility
  key, each once; so a fallback chain built from it cannot leave the model family.
\<close>

theorem pool_is_homogeneous:
  assumes "router_inv r" "router_find r i = Some self"
  shows "hd (pool r i) = self \<and> distinct (map w_id (pool r i))
    \<and> set (pool r i) = {w \<in> set r. w_compatibility_key w = w_compatibility_key self}"
proof -
  have self: "self \<in> set r" "w_id self = i" using assms(2) by (auto simp: router_find_def find_Some_iff)
  have d: "distinct (map w_id r)" using assms(1) by (simp add: router_inv_def)
  have one: "w = self" if "w \<in> set r" "w_id w = i" for w
    using d self that by (auto simp: distinct_map dest: inj_onD)
  let ?rest = "filter (\<lambda>w. w_id w \<noteq> i \<and> w_compatibility_key w = w_compatibility_key self) r"
  have pool: "pool r i = self # ?rest" using assms(2) by (simp add: pool_def)
  have "distinct (map w_id ?rest)" using d by (rule distinct_map_filter)
  then have "distinct (map w_id (pool r i))" using self(2) by (auto simp: pool)
  moreover have "set (pool r i) = {w \<in> set r. w_compatibility_key w = w_compatibility_key self}"
  proof -
    have "w \<in> set (pool r i) \<longleftrightarrow> w \<in> set r \<and> w_compatibility_key w = w_compatibility_key self" for w
    proof (cases "w_id w = i")
      case True
      then show ?thesis using self one [of w] unfolding pool by fastforce
    next
      case False
      then show ?thesis using self(2) by (auto simp: pool)
    qed
    then show ?thesis by blast
  qed
  ultimately show ?thesis by (simp add: pool)
qed

theorem pool_is_homogeneous_witness:
  "map w_id (pool demo_fleet ''c'') = [''c'', ''a''] \<and>
   set (pool demo_fleet ''c'') = {w \<in> set demo_fleet. w_compatibility_key w = ''k1''}"
  using pool_is_homogeneous [of demo_fleet "''c''" "demo_fleet ! 2"] demo_fleet_inv
  by (simp add: demo_fleet_def new_worker_def router_find_def pool_def)

text \<open>
  With 20 samples the nearest-rank p95 is still the maximum; the first window in
  which it is not has 21. The gate on 20 samples therefore lets a worker be judged
  on its single slowest call, which its comment says it excludes.
\<close>

theorem p95_of_twenty_is_maximum:
  assumes "d \<noteq> []" "length d \<le> 20"
  shows "p95 d = Max (set d) \<and> p95 (map int [1..<22]) = 20"
proof -
  have len: "1 \<le> length d" using assms(1) by (cases d) simp_all
  have n: "length d * 95 div 100 = length d - 1"
  proof -
    obtain m where m: "length d = Suc m" "m \<le> 19" using len assms(2) by (cases "length d") auto
    then have "length d * 95 = (95 - 5 * m) + m * 100" by simp
    moreover have "((95 - 5 * m) + m * 100) div 100 = m + (95 - 5 * m) div 100"
      by (rule div_mult_self1) simp
    ultimately show ?thesis using m(1) by simp
  qed
  have ne: "sort d \<noteq> []" using assms(1) by (metis length_0_conv length_sort)
  have "p95 d = sort d ! (length (sort d) - 1)" using assms(1)
    unfolding p95_def Let_def length_sort n by simp
  also have "\<dots> = last (sort d)" by (rule last_conv_nth [OF ne, symmetric])
  also have "\<dots> = Max (set d)"
  proof (rule Max_eqI [symmetric])
    show "last (sort d) \<in> set d" using last_in_set [OF ne] by simp
    show "y \<le> last (sort d)" if "y \<in> set d" for y
    proof -
      have "y \<in> set (sort d)" using that by simp
      then obtain k where "k < length (sort d)" "y = sort d ! k"
        unfolding in_set_conv_nth by blast
      then show ?thesis using sorted_nth_mono [OF sorted_sort, of k "length (sort d) - 1" d]
          last_conv_nth [OF ne] by simp
    qed
  qed simp
  finally have "p95 d = Max (set d)" .
  moreover have "p95 (map int [1..<22]) = 20" by code_simp
  ultimately show ?thesis by simp
qed

theorem p95_of_twenty_is_maximum_witness:
  "p95 (replicate 19 10000 @ [99000]) = Max {10000, 99000}"
proof -
  have "set (replicate 19 10000 @ [99000]) = {10000, 99000 :: int}" by auto
  with p95_of_twenty_is_maximum [of "replicate 19 10000 @ [99000]"] show ?thesis by (simp only: length_append length_replicate list.size)
      simp
qed

end
