(* ===== verification/Tier.thy ===== *)
theory Tier
  imports Prelude
begin

text \<open>
  The shared KV tier, \<^verbatim>\<open>cmd/kvtier/main.go\<close>: a byte-bounded blob store with a TTL,
  least-recently-used eviction and create-only writes. The map and the recency list
  are kept as the code keeps them (the list holds keys, most recent first); the clock
  is an argument. The HTTP handler works on a parsed request. The contract a
  stateless client relies on is the locale \<open>version_store\<close>, of which the tier is an
  instance: a version once readable never changes its bytes.
\<close>

section \<open>State\<close>

record entry =
  en_key :: string
  en_blob :: "byte list"
  en_compat_key :: string
  en_stored :: time

record tier =
  tr_m :: "string \<rightharpoonup> entry"
  tr_lru :: "string list"
  tr_bytes :: int
  tr_max_bytes :: int
  tr_ttl :: duration
  tr_puts :: int
  tr_gets :: int
  tr_hits :: int
  tr_misses :: int
  tr_evictions :: int
  tr_expiries :: int
  tr_deletes :: int
  tr_conflicts :: int

definition new_tier :: "int \<Rightarrow> duration \<Rightarrow> tier" where
  "new_tier maxBytes ttl =
     \<lparr> tr_m = Map.empty, tr_lru = [], tr_bytes = 0, tr_max_bytes = maxBytes, tr_ttl = ttl,
       tr_puts = 0, tr_gets = 0, tr_hits = 0, tr_misses = 0, tr_evictions = 0, tr_expiries = 0,
       tr_deletes = 0, tr_conflicts = 0 \<rparr>"

definition blob_len :: "entry option \<Rightarrow> int" where
  "blob_len e = (case e of None \<Rightarrow> 0 | Some e \<Rightarrow> int (length (en_blob e)))"

text \<open>The three updates every removal makes: the recency list, the map, the byte count.\<close>

definition drop_entry :: "string \<Rightarrow> tier \<Rightarrow> tier" where
  "drop_entry k t = t\<lparr> tr_lru := removeAll k (tr_lru t), tr_m := (tr_m t)(k := None),
     tr_bytes := tr_bytes t - blob_len (tr_m t k) \<rparr>"

section \<open>Operations\<close>

text \<open>The eviction loop: the least recently used entry goes while the ceiling is exceeded.\<close>

function evict :: "tier \<Rightarrow> tier" where
  "evict t =
     (if tr_bytes t > tr_max_bytes t \<and> tr_lru t \<noteq> [] then
        let back = last (tr_lru t) in
        evict ((drop_entry back t)\<lparr>tr_evictions := tr_evictions t + 1\<rparr>)
      else t)"
  by pat_completeness auto
termination
  by (relation "measure (\<lambda>t. length (tr_lru t))")
    (auto simp: drop_entry_def intro!: length_removeAll_less)

declare evict.simps [simp del]

definition put_locked :: "time \<Rightarrow> string \<Rightarrow> byte list \<Rightarrow> string \<Rightarrow> tier \<Rightarrow> tier" where
  "put_locked now key blob compatKey t =
     (let t1 = t\<lparr>tr_puts := tr_puts t + 1\<rparr>;
          t2 = (case tr_m t1 key of None \<Rightarrow> t1 | Some _ \<Rightarrow> drop_entry key t1);
          e = \<lparr> en_key = key, en_blob = blob, en_compat_key = compatKey, en_stored = now \<rparr>;
          t3 = t2\<lparr> tr_lru := key # tr_lru t2, tr_m := (tr_m t2)(key \<mapsto> e),
                   tr_bytes := tr_bytes t2 + int (length blob) \<rparr>
      in evict t3)"

definition tier_put :: "time \<Rightarrow> string \<Rightarrow> byte list \<Rightarrow> string \<Rightarrow> tier \<Rightarrow> tier" where
  "tier_put now key blob compatKey t = put_locked now key blob compatKey t"

definition put_if_absent :: "time \<Rightarrow> string \<Rightarrow> byte list \<Rightarrow> string \<Rightarrow> tier \<Rightarrow> bool \<times> tier" where
  "put_if_absent now key blob compatKey t =
     (if tr_m t key \<noteq> None then (False, t\<lparr>tr_conflicts := tr_conflicts t + 1\<rparr>)
      else (True, put_locked now key blob compatKey t))"

definition expired :: "time \<Rightarrow> tier \<Rightarrow> entry \<Rightarrow> bool" where
  "expired now t e \<longleftrightarrow> tr_ttl t > 0 \<and> now - en_stored e > tr_ttl t"

definition tier_get :: "time \<Rightarrow> string \<Rightarrow> tier \<Rightarrow> entry option \<times> tier" where
  "tier_get now key t =
     (let t1 = t\<lparr>tr_gets := tr_gets t + 1\<rparr> in
      case tr_m t1 key of
        None \<Rightarrow> (None, t1\<lparr>tr_misses := tr_misses t1 + 1\<rparr>)
      | Some e \<Rightarrow>
          if expired now t1 e then
            (None, (drop_entry key t1)\<lparr> tr_expiries := tr_expiries t1 + 1, tr_misses := tr_misses t1 + 1 \<rparr>)
          else (Some e, t1\<lparr> tr_lru := key # removeAll key (tr_lru t1), tr_hits := tr_hits t1 + 1 \<rparr>))"

definition tier_delete :: "string \<Rightarrow> tier \<Rightarrow> bool \<times> tier" where
  "tier_delete key t =
     (case tr_m t key of
        None \<Rightarrow> (False, t)
      | Some _ \<Rightarrow> (True, (drop_entry key t)\<lparr>tr_deletes := tr_deletes t + 1\<rparr>))"

text \<open>
  Go ranges over the map in no particular order; the loops below visit the keys in
  the order of the recency list, which holds the same keys, and their effect does
  not depend on it.
\<close>

definition delete_prefix :: "string \<Rightarrow> tier \<Rightarrow> int \<times> tier" where
  "delete_prefix pre t =
     (let ks = filter (\<lambda>k. prefix pre k) (tr_lru t); t' = fold drop_entry ks t; n = int (length ks)
      in (n, t'\<lparr>tr_deletes := tr_deletes t + n\<rparr>))"

definition sweep :: "time \<Rightarrow> tier \<Rightarrow> tier" where
  "sweep now t =
     (if tr_ttl t \<le> 0 then t
      else fold (\<lambda>k t'. case tr_m t' k of
                   None \<Rightarrow> t'
                 | Some e \<Rightarrow> if expired now t' e
                            then (drop_entry k t')\<lparr>tr_expiries := tr_expiries t' + 1\<rparr> else t')
             (tr_lru t) t)"

record key_info =
  ki_key :: string
  ki_bytes :: int
  ki_age_ms :: int
  ki_compat_key :: string

text \<open>\<open>sort.Slice\<close> is not stable; \<open>order\<close> is the order in which the map was ranged over.\<close>

definition tier_keys :: "time \<Rightarrow> string list \<Rightarrow> string \<Rightarrow> int \<Rightarrow> tier \<Rightarrow> key_info list" where
  "tier_keys now order pre limit t =
     (let out = concat (map (\<lambda>k. case tr_m t k of
             None \<Rightarrow> []
           | Some e \<Rightarrow> if pre \<noteq> '''' \<and> \<not> prefix pre k then []
               else [\<lparr> ki_key = k, ki_bytes = int (length (en_blob e)),
                       ki_age_ms = (now - en_stored e) div 1000000, ki_compat_key = en_compat_key e \<rparr>]) order);
          sorted = sort_key ki_age_ms out
      in if limit > 0 \<and> int (length sorted) > limit then take (nat limit) sorted else sorted)"

record tier_stats =
  ts_keys :: int
  ts_bytes :: int
  ts_max_bytes :: int
  ts_puts :: int
  ts_gets :: int
  ts_hits :: int
  ts_misses :: int
  ts_evictions :: int
  ts_expiries :: int
  ts_deletes :: int
  ts_conflicts :: int

definition tier_stats :: "tier \<Rightarrow> tier_stats" where
  "tier_stats t = \<lparr> ts_keys = int (length (tr_lru t)), ts_bytes = tr_bytes t,
     ts_max_bytes = tr_max_bytes t, ts_puts = tr_puts t, ts_gets = tr_gets t, ts_hits = tr_hits t,
     ts_misses = tr_misses t, ts_evictions = tr_evictions t, ts_expiries = tr_expiries t,
     ts_deletes = tr_deletes t, ts_conflicts = tr_conflicts t \<rparr>"

section \<open>The HTTP handler\<close>

datatype kv_method = KPut | KPost | KGet | KDelete | KOther

record kv_request =
  kq_method :: kv_method
  kq_path :: string
  kq_compat :: string
  kq_prefix :: string
  kq_body :: "byte list option" \<comment> \<open>None: reading the body failed\<close>

datatype kv_response =
    KBadRequest
  | KConflict string
  | KStored string nat
  | KMiss
  | KBlob "byte list" string
  | KDeleted int
  | KNoContent
  | KMethodNotAllowed

definition trim_prefix :: "string \<Rightarrow> string \<Rightarrow> string" where
  "trim_prefix pre s = (if prefix pre s then drop (length pre) s else s)"

text \<open>\<open>io.LimitReader\<close>: bytes past the limit are not read, without an error.\<close>

definition body_limit :: int where "body_limit = 67108864"

definition limit_reader :: "byte list \<Rightarrow> byte list" where
  "limit_reader body = (if int (length body) \<le> body_limit then body else take (nat body_limit) body)"

definition handle_kv :: "time \<Rightarrow> kv_request \<Rightarrow> tier \<Rightarrow> kv_response \<times> tier" where
  "handle_kv now r t =
     (let key = trim_prefix ''/kv/'' (kq_path r) in
      if key = '''' \<and> kq_method r \<noteq> KDelete then (KBadRequest, t)
      else if kq_method r = KPut \<or> kq_method r = KPost then
        (case kq_body r of
           None \<Rightarrow> (KBadRequest, t)
         | Some body \<Rightarrow>
             let blob = limit_reader body; (stored, t') = put_if_absent now key blob (kq_compat r) t
             in if \<not> stored then (KConflict key, t') else (KStored key (length blob), t'))
      else if kq_method r = KGet then
        (case tier_get now key t of
           (None, t') \<Rightarrow> (KMiss, t')
         | (Some e, t') \<Rightarrow> (KBlob (en_blob e) (en_compat_key e), t'))
      else if kq_method r = KDelete then
        (if kq_prefix r \<noteq> '''' then let (n, t') = delete_prefix (kq_prefix r) t in (KDeleted n, t')
         else (KNoContent, snd (tier_delete key t)))
      else (KMethodNotAllowed, t))"

section \<open>The store's invariant\<close>

definition lru_bytes :: "tier \<Rightarrow> string list \<Rightarrow> int" where
  "lru_bytes t ks = (\<Sum>k\<leftarrow>ks. blob_len (tr_m t k))"

definition tier_core :: "tier \<Rightarrow> bool" where
  "tier_core t \<longleftrightarrow> distinct (tr_lru t) \<and> set (tr_lru t) = dom (tr_m t)
     \<and> tr_bytes t = lru_bytes t (tr_lru t)
     \<and> (\<forall>k e. tr_m t k = Some e \<longrightarrow> en_key e = k)"

definition tier_inv :: "tier \<Rightarrow> bool" where
  "tier_inv t \<longleftrightarrow> tier_core t \<and> tr_bytes t \<le> tr_max_bytes t \<and> 0 \<le> tr_max_bytes t"

lemma blob_len_nonneg [simp]: "0 \<le> blob_len e"
  by (simp add: blob_len_def split: option.splits)

lemma lru_bytes_nonneg [simp]: "0 \<le> lru_bytes t ks"
  by (induction ks) (simp_all add: lru_bytes_def)

lemma lru_bytes_Nil [simp]: "lru_bytes t [] = 0"
  by (simp add: lru_bytes_def)

lemma lru_bytes_append [simp]: "lru_bytes t (xs @ ys) = lru_bytes t xs + lru_bytes t ys"
  by (simp add: lru_bytes_def)

lemma lru_bytes_cong: "(\<And>k. k \<in> set ks \<Longrightarrow> tr_m t k = tr_m t' k) \<Longrightarrow> lru_bytes t ks = lru_bytes t' ks"
  unfolding lru_bytes_def by (metis (no_types, lifting) map_eq_conv)

lemma lru_bytes_removeAll:
  "distinct ks \<Longrightarrow> lru_bytes t (removeAll k ks) = lru_bytes t ks - (if k \<in> set ks then blob_len (tr_m t k) else 0)"
  by (induction ks) (auto simp: lru_bytes_def removeAll_id)

lemma drop_entry_simps [simp, frame_simps]:
  "tr_lru (drop_entry k t) = removeAll k (tr_lru t)"
  "tr_m (drop_entry k t) = (tr_m t)(k := None)"
  "tr_bytes (drop_entry k t) = tr_bytes t - blob_len (tr_m t k)"
  "tr_max_bytes (drop_entry k t) = tr_max_bytes t" "tr_ttl (drop_entry k t) = tr_ttl t"
  by (simp_all add: drop_entry_def)

lemma core_cong:
  assumes "tr_lru t' = tr_lru t" "tr_m t' = tr_m t" "tr_bytes t' = tr_bytes t"
  shows "tier_core t' = tier_core t"
  using assms by (simp add: tier_core_def lru_bytes_def)

lemma drop_core [inv_intros]:
  assumes "tier_core t"
  shows "tier_core (drop_entry k t)"
proof -
  have d: "distinct (tr_lru t)" and s: "set (tr_lru t) = dom (tr_m t)"
    and b: "tr_bytes t = lru_bytes t (tr_lru t)" using assms by (simp_all add: tier_core_def)
  have "lru_bytes (drop_entry k t) (removeAll k (tr_lru t)) = lru_bytes t (removeAll k (tr_lru t))"
    by (rule lru_bytes_cong) simp
  also have "\<dots> = tr_bytes t - blob_len (tr_m t k)"
    using s by (auto simp: lru_bytes_removeAll [OF d] b blob_len_def dom_def)
  finally show ?thesis using assms d s
    by (auto simp: tier_core_def distinct_removeAll split: if_splits)
qed

lemma core_insert:
  assumes "tier_core t" "tr_m t k = None" "en_key e = k"
  shows "tier_core (t\<lparr> tr_lru := k # tr_lru t, tr_m := (tr_m t)(k \<mapsto> e),
      tr_bytes := tr_bytes t + int (length (en_blob e)) \<rparr>)"
proof -
  let ?t = "t\<lparr> tr_lru := k # tr_lru t, tr_m := (tr_m t)(k \<mapsto> e), tr_bytes := tr_bytes t + int (length (en_blob e)) \<rparr>"
  have k: "k \<notin> set (tr_lru t)" using assms by (auto simp: tier_core_def)
  have "lru_bytes ?t (tr_lru t) = lru_bytes t (tr_lru t)"
    by (rule lru_bytes_cong) (use k in auto)
  moreover have "lru_bytes ?t (k # tr_lru t) = int (length (en_blob e)) + lru_bytes ?t (tr_lru t)"
    by (simp add: lru_bytes_def blob_len_def)
  ultimately show ?thesis using assms k by (auto simp: tier_core_def)
qed

lemma core_last:
  assumes "tier_core t" "tr_lru t \<noteq> []"
  shows "removeAll (last (tr_lru t)) (tr_lru t) = butlast (tr_lru t)"
proof -
  have "tr_lru t = butlast (tr_lru t) @ [last (tr_lru t)]" using assms(2) by simp
  moreover have "last (tr_lru t) \<notin> set (butlast (tr_lru t))"
    using assms by (metis tier_core_def append_butlast_last_id distinct_append disjoint_insert(1) list.set(2) not_distinct_conv_prefix)
  ultimately show ?thesis by (metis append.right_neutral removeAll.simps removeAll_append removeAll_id)
qed

text \<open>
  Eviction keeps the longest prefix of the recency list that fits, with the entries
  it held; the rest is gone from the map.
\<close>

lemma evict_spec:
  assumes "tier_core t"
  shows "tier_core (evict t) \<and> tr_max_bytes (evict t) = tr_max_bytes t \<and> tr_ttl (evict t) = tr_ttl t
    \<and> (\<exists>n \<le> length (tr_lru t). tr_lru (evict t) = take n (tr_lru t)
        \<and> (n < length (tr_lru t) \<longrightarrow> lru_bytes t (take (Suc n) (tr_lru t)) > tr_max_bytes t))
    \<and> (\<forall>k. tr_m (evict t) k = (if k \<in> set (tr_lru (evict t)) then tr_m t k else None))
    \<and> (0 \<le> tr_max_bytes t \<longrightarrow> tr_bytes (evict t) \<le> tr_max_bytes t)"
  using assms
proof (induction t rule: evict.induct)
  case (1 t)
  show ?case
  proof (cases "tr_bytes t > tr_max_bytes t \<and> tr_lru t \<noteq> []")
    case False
    then have "evict t = t" by (subst evict.simps) auto
    moreover have "tr_lru t = [] \<Longrightarrow> tr_bytes t = 0" using 1(2) by (simp add: tier_core_def)
    moreover have "tr_m t k = (if k \<in> set (tr_lru t) then tr_m t k else None)" for k
      using 1(2) by (auto simp: tier_core_def)
    moreover have "\<exists>n \<le> length (tr_lru t). tr_lru t = take n (tr_lru t)
        \<and> (n < length (tr_lru t) \<longrightarrow> lru_bytes t (take (Suc n) (tr_lru t)) > tr_max_bytes t)"
      by (rule exI [of _ "length (tr_lru t)"]) simp
    moreover have "0 \<le> tr_max_bytes t \<Longrightarrow> tr_bytes t \<le> tr_max_bytes t"
      using False calculation(2) by linarith
    ultimately show ?thesis using 1(2) by metis
  next
    case True
    let ?b = "last (tr_lru t)"
    let ?t = "(drop_entry ?b t)\<lparr>tr_evictions := tr_evictions t + 1\<rparr>"
    have ev: "evict t = evict ?t" using True by (subst evict.simps) (simp add: Let_def)
    have core: "tier_core ?t" using drop_core [OF 1(2), of ?b] by (simp add: tier_core_def lru_bytes_def)
    have lru: "tr_lru ?t = butlast (tr_lru t)" using core_last [OF 1(2)] True by simp
    obtain xs where xs: "tr_lru t = xs @ [?b]" using True by (metis append_butlast_last_id)
    then have xs': "tr_lru ?t = xs" using lru by (metis butlast_snoc)
    have b: "?b \<notin> set xs" using 1(2) xs by (metis tier_core_def distinct_append disjoint_insert(1) list.set(2))
    have same: "lru_bytes ?t ys = lru_bytes t ys" if "set ys \<subseteq> set xs" for ys
      by (rule lru_bytes_cong) (use that b in auto)
    note IH = 1(1) [OF True refl core, folded ev]
    from IH obtain n where "n \<le> length (tr_lru ?t)" "tr_lru (evict t) = take n (tr_lru ?t)"
      "n < length (tr_lru ?t) \<longrightarrow> lru_bytes ?t (take (Suc n) (tr_lru ?t)) > tr_max_bytes ?t" by blast
    then have n: "n \<le> length xs" "tr_lru (evict t) = take n xs"
      "n < length xs \<longrightarrow> lru_bytes t (take (Suc n) xs) > tr_max_bytes t"
      unfolding xs' same [OF set_take_subset] by simp_all
    have m: "tr_m (evict t) k = (if k \<in> set (tr_lru (evict t)) then tr_m t k else None)" for k
      using IH b n(2) set_take_subset [of n xs] by auto
    have "\<exists>n \<le> length (tr_lru t). tr_lru (evict t) = take n (tr_lru t)
        \<and> (n < length (tr_lru t) \<longrightarrow> lru_bytes t (take (Suc n) (tr_lru t)) > tr_max_bytes t)"
    proof (cases "n < length xs")
      case True
      have tk: "take n (xs @ [?b]) = take n xs" "take (Suc n) (xs @ [?b]) = take (Suc n) xs"
        using True by simp_all
      show ?thesis
        by (rule exI [of _ n]) (use True n xs tk in \<open>metis length_append_singleton less_Suc_eq less_imp_le\<close>)
    next
      case False
      then have "n = length xs" using n(1) by simp
      moreover have "lru_bytes t (tr_lru t) > tr_max_bytes t"
        using True 1(2) by (simp add: tier_core_def)
      moreover have "take (length xs) (tr_lru t) = xs" "length (tr_lru t) = Suc (length xs)"
        by (subst xs; simp)+
      ultimately show ?thesis using n(2) by (intro exI [of _ "length xs"]) simp
    qed
    with IH m show ?thesis by simp
  qed
qed

section \<open>What each operation does\<close>

lemma tier_invD: "tier_inv t \<Longrightarrow> tier_core t" "tier_inv t \<Longrightarrow> 0 \<le> tr_max_bytes t"
  by (simp_all add: tier_inv_def)

definition with_entry :: "time \<Rightarrow> string \<Rightarrow> byte list \<Rightarrow> string \<Rightarrow> tier \<Rightarrow> tier" where
  "with_entry now key blob c t =
     t\<lparr> tr_puts := tr_puts t + 1, tr_lru := key # tr_lru t,
        tr_m := (tr_m t)(key \<mapsto> \<lparr>en_key = key, en_blob = blob, en_compat_key = c, en_stored = now\<rparr>),
        tr_bytes := tr_bytes t + int (length blob) \<rparr>"

lemma put_absent: "tr_m t key = None \<Longrightarrow> put_locked now key blob c t = evict (with_entry now key blob c t)"
  by (simp add: put_locked_def with_entry_def Let_def)

lemma with_entry_core: "tier_core t \<Longrightarrow> tr_m t key = None \<Longrightarrow> tier_core (with_entry now key blob c t)"
  using core_insert [of t key "\<lparr>en_key = key, en_blob = blob, en_compat_key = c, en_stored = now\<rparr>"]
  by (simp add: with_entry_def tier_core_def lru_bytes_def)

lemma evict_inv: "tier_core t \<Longrightarrow> 0 \<le> tr_max_bytes t \<Longrightarrow> tier_inv (evict t)"
  using evict_spec [of t] by (simp add: tier_inv_def)

lemma put_if_absent_inv [inv_intros]:
  assumes "tier_inv t"
  shows "tier_inv (snd (put_if_absent now key blob c t))"
proof (cases "tr_m t key")
  case None
  have "tier_inv (evict (with_entry now key blob c t))"
    by (rule evict_inv) (use with_entry_core [of t key] tier_invD [OF assms] None in \<open>simp_all add: with_entry_def\<close>)
  then show ?thesis using None by (simp add: put_if_absent_def put_absent)
next
  case (Some e)
  then show ?thesis using assms by (simp add: put_if_absent_def tier_inv_def tier_core_def lru_bytes_def)
qed

lemma tier_put_inv [inv_intros]:
  assumes "tier_inv t"
  shows "tier_inv (tier_put now key blob c t)"
proof -
  let ?t = "case tr_m t key of None \<Rightarrow> t | Some _ \<Rightarrow> drop_entry key t"
  have core: "tier_core ?t" using tier_invD [OF assms] by (auto simp: drop_core split: option.splits)
  have "tr_m ?t key = None" "tr_max_bytes ?t = tr_max_bytes t" by (auto split: option.splits)
  moreover have "put_locked now key blob c t = evict (with_entry now key blob c ?t)"
    by (simp add: put_locked_def with_entry_def drop_entry_def Let_def split: option.splits)
  ultimately show ?thesis unfolding tier_put_def
    using evict_inv [OF with_entry_core [OF core, of key now blob c]] tier_invD [OF assms]
    by (simp add: with_entry_def)
qed

lemma drop_inv [inv_intros]: "tier_inv t \<Longrightarrow> tier_inv (drop_entry k t)"
proof -
  assume "tier_inv t"
  moreover have "tr_bytes t - blob_len (tr_m t k) \<le> tr_bytes t" by simp
  ultimately show ?thesis using drop_core [of t k] unfolding tier_inv_def drop_entry_simps by linarith
qed

lemma tier_inv_counters [simp]:
  "tier_inv (t\<lparr>tr_puts := n\<rparr>) = tier_inv t" "tier_inv (t\<lparr>tr_gets := n\<rparr>) = tier_inv t"
  "tier_inv (t\<lparr>tr_hits := n\<rparr>) = tier_inv t" "tier_inv (t\<lparr>tr_misses := n\<rparr>) = tier_inv t"
  "tier_inv (t\<lparr>tr_expiries := n\<rparr>) = tier_inv t" "tier_inv (t\<lparr>tr_deletes := n\<rparr>) = tier_inv t"
  "tier_inv (t\<lparr>tr_conflicts := n\<rparr>) = tier_inv t"
  by (simp_all add: tier_inv_def tier_core_def lru_bytes_def)

lemma drop_entry_counters [simp]:
  "drop_entry k (t\<lparr>tr_gets := n\<rparr>) = (drop_entry k t)\<lparr>tr_gets := n\<rparr>"
  by (simp add: drop_entry_def)

lemma touch_core:
  assumes "tier_core t" "tr_m t k = Some e"
  shows "tier_core (t\<lparr>tr_lru := k # removeAll k (tr_lru t)\<rparr>)"
proof -
  have d: "distinct (tr_lru t)" and k: "k \<in> set (tr_lru t)" using assms by (auto simp: tier_core_def)
  have "lru_bytes t (k # removeAll k (tr_lru t)) = lru_bytes t (tr_lru t)"
    using lru_bytes_removeAll [OF d, of t k] k by (simp add: lru_bytes_def)
  then show ?thesis using assms d k
    by (auto simp: tier_core_def distinct_removeAll lru_bytes_def)
qed

lemma tier_get_inv [inv_intros]:
  assumes "tier_inv t"
  shows "tier_inv (snd (tier_get now key t))"
proof (cases "tr_m t key")
  case None
  then show ?thesis using assms by (simp add: tier_get_def tier_inv_def tier_core_def lru_bytes_def)
next
  case (Some e)
  have "tier_inv (t\<lparr>tr_lru := key # removeAll key (tr_lru t)\<rparr>)"
    using touch_core [of t key e] assms Some by (simp add: tier_inv_def)
  then have "tier_inv (t\<lparr>tr_gets := n, tr_lru := key # removeAll key (tr_lru t)\<rparr>)" for n
    by (simp add: tier_inv_def tier_core_def lru_bytes_def)
  then show ?thesis using Some drop_inv [OF assms, of key]
    by (simp add: tier_get_def expired_def Let_def)
qed

lemma tier_delete_inv [inv_intros]: "tier_inv t \<Longrightarrow> tier_inv (snd (tier_delete key t))"
  by (simp add: tier_delete_def drop_inv split: option.splits)

lemma drops_inv: "tier_inv t \<Longrightarrow> tier_inv (fold drop_entry ks t)"
  by (induction ks arbitrary: t) (simp_all add: drop_inv)

lemma drops_map: "tr_m (fold drop_entry ks t) = (\<lambda>k. if k \<in> set ks then None else tr_m t k)"
  by (induction ks arbitrary: t) (auto simp: fun_eq_iff)

lemma delete_prefix_inv [inv_intros]: "tier_inv t \<Longrightarrow> tier_inv (snd (delete_prefix p t))"
  using drops_inv [of t "filter (prefix p) (tr_lru t)"]
  by (simp add: delete_prefix_def Let_def)

definition sweep_one :: "time \<Rightarrow> string \<Rightarrow> tier \<Rightarrow> tier" where
  "sweep_one now k t' = (case tr_m t' k of None \<Rightarrow> t'
     | Some e \<Rightarrow> if expired now t' e then (drop_entry k t')\<lparr>tr_expiries := tr_expiries t' + 1\<rparr> else t')"

lemma sweep_eq: "sweep now t = (if tr_ttl t \<le> 0 then t else fold (sweep_one now) (tr_lru t) t)"
  by (simp add: sweep_def sweep_one_def [abs_def])

lemma sweep_one_inv: "tier_inv t \<Longrightarrow> tier_inv (sweep_one now k t)"
  by (simp add: sweep_one_def drop_inv split: option.splits)

lemma sweep_inv [inv_intros]:
  assumes "tier_inv t"
  shows "tier_inv (sweep now t)"
proof -
  have "tier_inv (fold (sweep_one now) ks t)" for ks
    using assms by (induction ks arbitrary: t) (simp_all add: sweep_one_inv)
  then show ?thesis using assms by (simp add: sweep_eq)
qed

text \<open>How the readable versions change: only a creation adds one, and only an absent one.\<close>

lemma put_if_absent_map:
  assumes "tier_inv t" "put_if_absent now key blob c t = (stored, t')"
  shows "if stored
     then tr_m t key = None \<and> tr_m t' \<subseteq>\<^sub>m
        (tr_m t)(key \<mapsto> \<lparr>en_key = key, en_blob = blob, en_compat_key = c, en_stored = now\<rparr>)
     else tr_m t key \<noteq> None \<and> tr_m t' = tr_m t"
proof (cases "tr_m t key")
  case None
  then have t': "stored" "t' = evict (with_entry now key blob c t)"
    using assms(2) by (auto simp: put_if_absent_def put_absent)
  have core: "tier_core (with_entry now key blob c t)" using with_entry_core tier_invD [OF assms(1)] None by blast
  have "tr_m t' \<subseteq>\<^sub>m tr_m (with_entry now key blob c t)"
    using evict_spec [OF core] unfolding t' map_le_def by (metis domIff)
  then show ?thesis using None t' by (simp add: with_entry_def)
qed (use assms(2) in \<open>auto simp: put_if_absent_def\<close>)

lemma tier_get_map: "tr_m (snd (tier_get now key t)) \<subseteq>\<^sub>m tr_m t"
  by (auto simp: tier_get_def map_le_def Let_def split: option.splits if_splits)

lemma tier_get_result: "fst (tier_get now key t) = Some e \<Longrightarrow> tr_m t key = Some e"
  by (auto simp: tier_get_def Let_def split: option.splits if_splits)

lemma tier_delete_map: "tr_m (snd (tier_delete key t)) = (tr_m t)(key := None)"
  by (auto simp: tier_delete_def fun_eq_iff split: option.splits)

lemma delete_prefix_map:
  "tier_core t \<Longrightarrow> tr_m (snd (delete_prefix p t)) = (\<lambda>k. if prefix p k then None else tr_m t k)"
  by (auto simp: delete_prefix_def drops_map Let_def fun_eq_iff tier_core_def)

lemma sweep_map: "tr_m (sweep now t) \<subseteq>\<^sub>m tr_m t"
proof -
  have one: "tr_m (sweep_one now k t) \<subseteq>\<^sub>m tr_m t" for k t
    by (auto simp: sweep_one_def map_le_def split: option.splits)
  have "tr_m (fold (sweep_one now) ks t) \<subseteq>\<^sub>m tr_m t" for ks t
    by (induction ks arbitrary: t) (auto intro: map_le_trans [OF _ one])
  then show ?thesis by (simp add: sweep_eq)
qed

section \<open>The contract of a version store\<close>

text \<open>
  What a client that names immutable versions relies on. Reading and creating may
  lose versions (expiry, eviction) but never change one: the readable map only
  shrinks, except that creating an absent version may add it. The clients' lemmas
  compare the store with a specification map \<open>spec\<close> that says what each version
  has to contain.
\<close>

locale version_store =
  fixes good :: "'s \<Rightarrow> bool" and readable :: "'s \<Rightarrow> string \<Rightarrow> byte list option"
    and create :: "time \<Rightarrow> string \<Rightarrow> byte list \<Rightarrow> 's \<Rightarrow> bool \<times> 's"
    and lookup :: "time \<Rightarrow> string \<Rightarrow> 's \<Rightarrow> byte list option \<times> 's"
  assumes create_good: "good s \<Longrightarrow> good (snd (create now k b s))"
    and lookup_good: "good s \<Longrightarrow> good (snd (lookup now k s))"
    and create_new: "good s \<Longrightarrow> create now k b s = (True, s') \<Longrightarrow>
        readable s k = None \<and> readable s' \<subseteq>\<^sub>m (readable s)(k \<mapsto> b)"
    and create_old: "good s \<Longrightarrow> create now k b s = (False, s') \<Longrightarrow>
        readable s k \<noteq> None \<and> readable s' \<subseteq>\<^sub>m readable s"
    and lookup_map: "good s \<Longrightarrow> readable (snd (lookup now k s)) \<subseteq>\<^sub>m readable s"
    and lookup_value: "good s \<Longrightarrow> fst (lookup now k s) = Some b \<Longrightarrow> readable s k = Some b"
begin

lemma create_agrees:
  assumes "good s" "readable s \<subseteq>\<^sub>m spec" "spec k = Some b"
  shows "readable (snd (create now k b s)) \<subseteq>\<^sub>m spec"
proof (cases "create now k b s")
  case (Pair stored s')
  show ?thesis
  proof (cases stored)
    case True
    then have "readable s' \<subseteq>\<^sub>m (readable s)(k \<mapsto> b)" using create_new [OF assms(1), of now k b s'] Pair by simp
    moreover have "(readable s)(k \<mapsto> b) \<subseteq>\<^sub>m spec" using assms(2,3) by (auto simp: map_le_def)
    ultimately show ?thesis using Pair by (auto intro: map_le_trans)
  next
    case False
    then have "readable s' \<subseteq>\<^sub>m readable s" using create_old [OF assms(1), of now k b s'] Pair by simp
    then show ?thesis using Pair assms(2) by (auto intro: map_le_trans)
  qed
qed

lemma lookup_agrees:
  assumes "good s" "readable s \<subseteq>\<^sub>m spec"
  shows "readable (snd (lookup now k s)) \<subseteq>\<^sub>m spec"
    and "fst (lookup now k s) = Some b \<Longrightarrow> spec k = Some b"
  using lookup_map [OF assms(1)] lookup_value [OF assms(1)] assms(2)
  by (auto intro: map_le_trans simp: map_le_def dom_def)

lemma never_rewritten:
  assumes "good s" "readable s k = Some b" "readable (snd (create now k' b' s)) k = Some b''"
  shows "b'' = b"
proof -
  obtain stored s' where run: "create now k' b' s = (stored, s')" by fastforce
  show ?thesis
  proof (cases stored)
    case True
    then have "readable s k' = None" "readable s' \<subseteq>\<^sub>m (readable s)(k' \<mapsto> b')"
      using create_new [OF assms(1), of now k' b' s'] run by simp_all
    then have "((readable s)(k' \<mapsto> b')) k = Some b''" "k \<noteq> k'"
      using assms(2,3) run by (auto simp: map_le_def dom_def)
    then show ?thesis using assms(2) by simp
  next
    case False
    then have "readable s' \<subseteq>\<^sub>m readable s" using create_old [OF assms(1), of now k' b' s'] run by simp
    then have "readable s k = Some b''" using assms(3) run by (auto simp: map_le_def dom_def)
    then show ?thesis using assms(2) by simp
  qed
qed

end

definition readable_blob :: "tier \<Rightarrow> string \<Rightarrow> byte list option" where
  "readable_blob t k = map_option en_blob (tr_m t k)"

definition get_blob :: "time \<Rightarrow> string \<Rightarrow> tier \<Rightarrow> byte list option \<times> tier" where
  "get_blob now k t = (let (e, t') = tier_get now k t in (map_option en_blob e, t'))"

lemma readable_blob_mono: "tr_m t' \<subseteq>\<^sub>m tr_m t \<Longrightarrow> readable_blob t' \<subseteq>\<^sub>m readable_blob t"
  by (force simp: readable_blob_def map_le_def dom_def)

lemma tier_version_store:
  "version_store tier_inv readable_blob (\<lambda>now k b t. put_if_absent now k b c t) get_blob"
proof
  fix s now k b s' assume "tier_inv s" and run: "put_if_absent now k b c s = (True, s')"
  note map = put_if_absent_map [OF this]
  then have "readable_blob s' \<subseteq>\<^sub>m readable_blob (s\<lparr>tr_m := (tr_m s)(k \<mapsto>
      \<lparr>en_key = k, en_blob = b, en_compat_key = c, en_stored = now\<rparr>)\<rparr>)"
    by (intro readable_blob_mono) simp
  also have "\<dots> = (readable_blob s)(k \<mapsto> b)" by (auto simp: readable_blob_def fun_eq_iff)
  finally have "readable_blob s' \<subseteq>\<^sub>m (readable_blob s)(k \<mapsto> b)" .
  moreover have "readable_blob s k = None" using map by (simp add: readable_blob_def)
  ultimately show "readable_blob s k = None \<and> readable_blob s' \<subseteq>\<^sub>m (readable_blob s)(k \<mapsto> b)" by simp
next
  fix s now k b s' assume "tier_inv s" and run: "put_if_absent now k b c s = (False, s')"
  from put_if_absent_map [OF this] show "readable_blob s k \<noteq> None \<and> readable_blob s' \<subseteq>\<^sub>m readable_blob s"
    by (auto simp: readable_blob_def map_le_def)
next
  fix s now k b assume "fst (get_blob now k s) = Some b"
  then show "readable_blob s k = Some b"
    using tier_get_result [of now k s] by (auto simp: get_blob_def readable_blob_def split: prod.splits)
qed (auto simp: get_blob_def put_if_absent_inv split: prod.splits
    dest: tier_get_inv [of _ _] intro!: readable_blob_mono,
    (metis snd_conv tier_get_inv tier_get_map)+)

interpretation kv: version_store tier_inv readable_blob "\<lambda>now k b t. put_if_absent now k b c t" get_blob for c
  by (rule tier_version_store)

section \<open>Runs of the service\<close>

datatype tier_event = TRequest time kv_request | TSweep time

fun tier_do :: "tier \<Rightarrow> tier_event \<Rightarrow> kv_response option \<times> tier" where
  "tier_do t (TRequest now r) = (let (resp, t') = handle_kv now r t in (Some resp, t'))"
| "tier_do t (TSweep now) = (None, sweep now t)"

fun tier_run :: "tier \<Rightarrow> tier_event list \<Rightarrow> kv_response option list \<times> tier" where
  "tier_run t [] = ([], t)"
| "tier_run t (ev # evs) = (let (r, t1) = tier_do t ev; (rs, t2) = tier_run t1 evs in (r # rs, t2))"

lemma handle_kv_inv: "tier_inv t \<Longrightarrow> tier_inv (snd (handle_kv now r t))"
  by (auto simp: handle_kv_def Let_def tier_delete_inv split: prod.splits option.splits
      dest: put_if_absent_inv tier_get_inv delete_prefix_inv) 
    (metis put_if_absent_inv tier_get_inv delete_prefix_inv snd_conv)+

lemma tier_do_inv: "tier_inv t \<Longrightarrow> tier_inv (snd (tier_do t ev))"
  by (cases ev) (auto simp: sweep_inv split: prod.splits dest: handle_kv_inv, metis handle_kv_inv snd_conv)

lemma tier_run_inv: "tier_inv t \<Longrightarrow> tier_inv (snd (tier_run t evs))"
proof (induction evs arbitrary: t)
  case Nil
  then show ?case by simp
next
  case (Cons ev evs)
  then have "tier_inv (snd (tier_run (snd (tier_do t ev)) evs))" by (simp add: tier_do_inv)
  then show ?case by (auto split: prod.splits)
qed

lemma handle_kv_map:
  assumes "tier_inv t" "handle_kv now r t = (resp, t')" "tr_m t k = Some e"
  shows "(tr_m t' k = None \<or> tr_m t' k = Some e) \<and> resp \<noteq> KStored k n"
proof -
  let ?key = "trim_prefix ''/kv/'' (kq_path r)"
  consider (none) "t' = t" "\<And>n. resp \<noteq> KStored k n"
    | (put) blob stored where "put_if_absent now ?key blob (kq_compat r) t = (stored, t')"
        "resp = (if stored then KStored ?key (length blob) else KConflict ?key)"
    | (get) "t' = snd (tier_get now ?key t)" "\<And>n. resp \<noteq> KStored k n"
    | (del) "t' = snd (tier_delete ?key t)" "\<And>n. resp \<noteq> KStored k n"
    | (delp) "t' = snd (delete_prefix (kq_prefix r) t)" "\<And>n. resp \<noteq> KStored k n"
    using assms(2)
    by (auto simp: handle_kv_def Let_def split: if_splits option.splits prod.splits)
  then show ?thesis
  proof cases
    case none
    then show ?thesis using assms(3) by simp
  next
    case put
    note map = put_if_absent_map [OF assms(1) put(1)]
    show ?thesis
    proof (cases stored)
      case True
      then have "k \<noteq> ?key" using map assms(3) by auto
      then show ?thesis using True map put(2) assms(3) by (auto simp: map_le_def dom_def)
    qed (use map put(2) assms(3) in auto)
  next
    case get
    then show ?thesis using tier_get_map [of now ?key t] assms(3) by (auto simp: map_le_def dom_def)
  next
    case del
    then show ?thesis using assms(3) by (auto simp: tier_delete_map)
  next
    case delp
    then show ?thesis using assms(1,3) by (auto simp: delete_prefix_map tier_inv_def)
  qed
qed

lemma handle_kv_absent:
  assumes "tier_inv t" "handle_kv now r t = (resp, t')" "tr_m t k = None" "\<And>n. resp \<noteq> KStored k n"
  shows "tr_m t' k = None"
proof -
  let ?key = "trim_prefix ''/kv/'' (kq_path r)"
  consider (none) "t' = t"
    | (put) blob stored where "put_if_absent now ?key blob (kq_compat r) t = (stored, t')"
        "resp = (if stored then KStored ?key (length blob) else KConflict ?key)"
    | (get) "t' = snd (tier_get now ?key t)"
    | (del) "t' = snd (tier_delete ?key t)"
    | (delp) "t' = snd (delete_prefix (kq_prefix r) t)"
    using assms(2)
    by (auto simp: handle_kv_def Let_def split: if_splits option.splits prod.splits)
  then show ?thesis
  proof cases
    case put
    note map = put_if_absent_map [OF assms(1) put(1)]
    show ?thesis
    proof (cases stored)
      case True
      then have "k \<noteq> ?key" using put(2) assms(4) by auto
      then show ?thesis using True map assms(3) by (auto simp: map_le_def dom_def)
    qed (use map assms(3) in auto)
  next
    case get
    then show ?thesis using tier_get_map [of now ?key t] assms(3) by (auto simp: map_le_def dom_def)
  qed (use assms in \<open>auto simp: tier_delete_map delete_prefix_map tier_inv_def\<close>)
qed

section \<open>Properties\<close>

text \<open>
  C23: the byte ceiling is a hard bound and the accounting is exact. From an empty tier
  with a non-negative ceiling, after any sequence of requests and sweeps the byte
  count is the sum of the blobs stored, at most the ceiling, and the recency list
  holds each stored key exactly once.
\<close>

theorem tier_bytes_are_bounded:
  assumes "0 \<le> maxBytes" "tier_run (new_tier maxBytes ttl) evs = (resps, t)"
  shows "tr_bytes t = (\<Sum>k\<leftarrow>tr_lru t. blob_len (tr_m t k)) \<and> tr_bytes t \<le> tr_max_bytes t
    \<and> distinct (tr_lru t) \<and> set (tr_lru t) = dom (tr_m t)"
proof -
  have "tier_inv (new_tier maxBytes ttl)"
    using assms(1) by (simp add: tier_inv_def tier_core_def new_tier_def)
  then have "tier_inv t" using tier_run_inv [of "new_tier maxBytes ttl" evs] assms(2) by simp
  then show ?thesis by (simp add: tier_inv_def tier_core_def lru_bytes_def)
qed

definition put_request :: "string \<Rightarrow> byte list \<Rightarrow> kv_request" where
  "put_request k b = \<lparr> kq_method = KPut, kq_path = ''/kv/'' @ k, kq_compat = ''ck'', kq_prefix = '''', kq_body = Some b \<rparr>"

definition get_request :: "string \<Rightarrow> kv_request" where
  "get_request k = \<lparr> kq_method = KGet, kq_path = ''/kv/'' @ k, kq_compat = '''', kq_prefix = '''', kq_body = None \<rparr>"

definition demo_events :: "tier_event list" where
  "demo_events = [TRequest 0 (put_request ''s:1'' [1, 2]), TRequest 1 (put_request ''s:2'' [3]),
     TRequest 2 (get_request ''s:1''), TRequest 3 (put_request ''s:3'' [4])]"

lemma demo_run:
  "fst (tier_run (new_tier 3 0) demo_events) = [Some (KStored ''s:1'' 2), Some (KStored ''s:2'' 1),
     Some (KBlob [1, 2] ''ck''), Some (KStored ''s:3'' 1)]"
  "tr_lru (snd (tier_run (new_tier 3 0) demo_events)) = [''s:3'', ''s:1'']"
  by code_simp+

theorem tier_bytes_are_bounded_witness:
  "tr_bytes (snd (tier_run (new_tier 3 0) demo_events)) \<le> tr_max_bytes (snd (tier_run (new_tier 3 0) demo_events))
   \<and> dom (tr_m (snd (tier_run (new_tier 3 0) demo_events))) = {''s:3'', ''s:1''}"
proof -
  define t where "t = snd (tier_run (new_tier 3 0) demo_events)"
  have run: "tier_run (new_tier 3 0) demo_events = (fst (tier_run (new_tier 3 0) demo_events), t)"
    unfolding t_def by (rule prod.collapse [symmetric])
  have lru: "tr_lru t = [''s:3'', ''s:1'']" unfolding t_def by (rule demo_run(2))
  have "0 \<le> (3 :: int)" by simp
  from tier_bytes_are_bounded [OF this run] have "tr_bytes t \<le> tr_max_bytes t" "set (tr_lru t) = dom (tr_m t)"
    by blast+
  then show ?thesis unfolding t_def [symmetric] lru by auto
qed





text \<open>
  Deletion is exact. \<open>Delete\<close> removes the named version and no other, even one
  whose name it is a prefix of; \<open>DeletePrefix\<close> removes precisely the versions under
  the prefix and reports how many there were.
\<close>

theorem deletion_is_exact:
  assumes "tier_inv t" "delete_prefix p t = (n, t')"
  shows "tr_m (snd (tier_delete k t)) = (tr_m t)(k := None)
    \<and> (\<forall>j. tr_m t' j = (if prefix p j then None else tr_m t j))
    \<and> n = int (card {j \<in> dom (tr_m t). prefix p j})"
proof -
  have core: "distinct (tr_lru t)" "set (tr_lru t) = dom (tr_m t)"
    using assms(1) by (simp_all add: tier_inv_def tier_core_def)
  have "length (filter (prefix p) (tr_lru t)) = card (set (filter (prefix p) (tr_lru t)))"
    by (rule distinct_card [symmetric]) (use core(1) in simp)
  also have "set (filter (prefix p) (tr_lru t)) = {j \<in> dom (tr_m t). prefix p j}" using core(2) by auto
  finally have "n = int (card {j \<in> dom (tr_m t). prefix p j})"
    using assms(2) by (simp add: delete_prefix_def Let_def)
  moreover have "t' = snd (delete_prefix p t)" using assms(2) by simp
  ultimately show ?thesis
    using delete_prefix_map [OF tier_invD(1) [OF assms(1)], of p] tier_delete_map [of k t] by simp
qed

theorem deletion_is_exact_witness:
  "fst (delete_prefix ''s:1'' (new_tier 3 0)) = 0 \<and>
   tr_m (snd (tier_delete ''s:1'' (new_tier 3 0))) = (tr_m (new_tier 3 0))(''s:1'' := None)"
proof -
  have "tier_inv (new_tier 3 0)" "dom (tr_m (new_tier 3 0)) = {}"
    by (simp_all add: tier_inv_def tier_core_def new_tier_def)
  with deletion_is_exact [of "new_tier 3 0" "''s:1''" "fst (delete_prefix ''s:1'' (new_tier 3 0))"
      "snd (delete_prefix ''s:1'' (new_tier 3 0))" "''s:1''"]
  show ?thesis by simp
qed


end
