(* ===== verification/Stateless.thy ===== *)
theory Stateless
  imports Backend Tier Wav
begin

text \<open>
  \<^verbatim>\<open>internal/backend/stateless.go\<close>: the client of the shared-tier streaming path. Each
  push names the version it reads and the version it writes; nothing is kept on a
  worker. A retirement runs in its own goroutine: \<open>Push\<close> leaves the reference in
  \<open>sc_retiring\<close>, and \<open>retire\<close> may run at any later point. Go ranges over the form
  fields in no particular order; here they come in the order they are written in. URLs
  are assumed to parse, as those of generated handles do. The last section serves
  the client's deletions by the tier of \<^verbatim>\<open>cmd/kvtier\<close>.
\<close>

section \<open>The client\<close>

record stateless_client =
  sc_bifrost_url :: string
  sc_tier_url :: string
  sc_primary :: string
  sc_fallbacks :: "string list"
  sc_advert :: worker_advert
  sc_last_applied :: u64
  sc_last_text :: string
  sc_retiring :: "string list"

definition new_stateless_client :: "string \<Rightarrow> string \<Rightarrow> string \<Rightarrow> string list \<Rightarrow> worker_advert \<Rightarrow> stateless_client" where
  "new_stateless_client bifrostURL tierURL primary fallbacks advert =
     \<lparr> sc_bifrost_url = bifrostURL, sc_tier_url = tierURL, sc_primary = primary,
       sc_fallbacks = fallbacks, sc_advert = advert, sc_last_applied = 0, sc_last_text = '''',
       sc_retiring = [] \<rparr>"

definition kvPromptPrefix :: string where "kvPromptPrefix = ''asr-stress-gym-kv:v1:''"

definition hex_digit :: "nat \<Rightarrow> char" where
  "hex_digit d = char_of (if d < 10 then 48 + d else 87 + d)"

text \<open>\<open>json.Marshal\<close> of a string: quotes, backslashes, control and HTML characters escaped.\<close>

definition json_char :: "char \<Rightarrow> string" where
  "json_char c = (let n = of_char c :: nat in
     if n = 34 \<or> n = 92 then [CHR 0x5C, c]
     else if n = 10 then [CHR 0x5C, CHR ''n''] else if n = 13 then [CHR 0x5C, CHR ''r'']
     else if n = 9 then [CHR 0x5C, CHR ''t''] else if n = 8 then [CHR 0x5C, CHR ''b'']
     else if n = 12 then [CHR 0x5C, CHR ''f'']
     else if n < 32 \<or> n = 60 \<or> n = 62 \<or> n = 38
       then [CHR 0x5C, CHR ''u'', CHR ''0'', CHR ''0'', hex_digit (n div 16), hex_digit (n mod 16)]
     else [c])"

definition json_quote :: "string \<Rightarrow> string" where
  "json_quote s = [CHR 0x22] @ concat (map json_char s) @ [CHR 0x22]"

definition json_pair :: "string \<Rightarrow> string \<Rightarrow> string" where
  "json_pair k v = json_quote k @ '':'' @ json_quote v"

definition envelope :: "string \<Rightarrow> string \<Rightarrow> string \<Rightarrow> string" where
  "envelope mode ref sink =
     ''{'' @ json_pair ''m'' mode
       @ (if ref = '''' then '''' else '','' @ json_pair ''r'' ref)
       @ (if sink = '''' then '''' else '','' @ json_pair ''s'' sink) @ ''}''"

definition kv_prompt :: "string \<Rightarrow> string \<Rightarrow> string \<Rightarrow> string" where
  "kv_prompt mode ref sink = kvPromptPrefix @ base64_raw_url (ascii (envelope mode ref sink))"

definition state_ref :: "string \<Rightarrow> u64 \<Rightarrow> string" where
  "state_ref handle seq = handle @ '':'' @ decimal (unat seq)"

definition empty_wav :: "byte list" where
  "empty_wav = ascii ''RIFF'' @ le_put 4 (36 :: u32) @ ascii ''WAVEfmt '' @ le_put 4 (16 :: u32)
     @ le_put 2 (1 :: u16) @ le_put 2 (1 :: u16) @ le_put 4 (16000 :: u32) @ le_put 4 (32000 :: u32)
     @ le_put 2 (2 :: u16) @ le_put 2 (16 :: u16) @ ascii ''data'' @ le_put 4 (0 :: u32)"

definition truncate_text :: "string \<Rightarrow> string" where
  "truncate_text b = (if length b > 200 then take 200 b else b)"

section \<open>One transcription call\<close>

definition text_field :: "json \<Rightarrow> string option" where
  "text_field v = Option.bind (struct_of v) (decode_field json_string ''text'' '''')"

text \<open>Bodies are read up to 1 MB; what is cut off there is malformed.\<close>

definition read_limited :: "int \<Rightarrow> http_response \<Rightarrow> json option" where
  "read_limited limit resp = (if int (length (hp_text resp)) \<le> limit then hp_json resp else None)"

definition stateless_call :: "'e transport \<Rightarrow> stateless_client \<Rightarrow> (string \<times> string) list \<Rightarrow> byte list \<Rightarrow>
    'e \<Rightarrow> (backend_error + string) \<times> 'e" where
  "stateless_call tr c form audio e =
     (case tr \<lparr> hq_method = ''POST'', hq_url = sc_bifrost_url c @ ''/v1/audio/transcriptions'',
                hq_headers = [(''Content-Type'', ''multipart/form-data'')],
                hq_body = FormBody (map (\<lambda>(k, v). FieldPart k v) form
                   @ map (FieldPart ''fallbacks'') (sc_fallbacks c)
                   @ [FilePart ''file'' ''chunk.wav'' audio]) \<rparr> e of
        (Inl err, e') \<Rightarrow> (Inl (ErrTransport ''stateless push'' err), e')
      | (Inr resp, e') \<Rightarrow>
          (if hp_status resp = 200 then
             (case Option.bind (read_limited 1048576 resp) text_field of
                None \<Rightarrow> Inl (ErrDecode ''stateless push'')
              | Some txt \<Rightarrow> Inr txt)
           else if hp_status resp = 429 then Inl (RateLimitError (parse_retry_after (hp_retry_after resp)))
           else if hp_status resp = 424 then Inl (ErrStateMissing (truncate_text (hp_text resp)))
           else Inl (ErrStatus ''stateless push'' (hp_status resp) (truncate_text (hp_text resp))), e'))"

section \<open>The operations\<close>

definition stateless_open :: "stateless_client \<Rightarrow> open_req \<Rightarrow> open_resp \<times> stateless_client" where
  "stateless_open c r =
     (\<lparr> os_handle = ''kv:'' @ or_session_id r,
        os_compatibility_key_hash = wa_compatibility_key_hash (sc_advert c),
        os_capabilities = wa_capabilities (sc_advert c), os_generation = 0 \<rparr>,
      c\<lparr> sc_last_applied := 0, sc_last_text := '''' \<rparr>)"

definition read_ref :: "stateless_client \<Rightarrow> string \<Rightarrow> string" where
  "read_ref c handle = (if sc_last_applied c > 0 then state_ref handle (sc_last_applied c) else '''')"

definition form_of :: "stateless_client \<Rightarrow> string \<Rightarrow> (string \<times> string) list" where
  "form_of c prompt = [(''model'', sc_primary c), (''response_format'', ''json''), (''prompt'', prompt)]"

definition stateless_push :: "'e transport \<Rightarrow> stateless_client \<Rightarrow> push_req \<Rightarrow> 'e \<Rightarrow>
    (backend_error + push_resp) \<times> stateless_client \<times> 'e" where
  "stateless_push tr c r e =
     (if pq_seq_end r \<le> sc_last_applied c
      then (Inr \<lparr> pp_text = sc_last_text c, pp_last_seq_applied = sc_last_applied c,
                  pp_generation = pq_expected_generation r \<rparr>, c, e)
      else case stateless_call tr c (form_of c (kv_prompt ''stream'' (read_ref c (pq_handle r))
                  (state_ref (pq_handle r) (pq_seq_end r)))) (pq_audio r) e of
             (Inl err, e') \<Rightarrow> (Inl err, c, e')
           | (Inr txt, e') \<Rightarrow>
               (Inr \<lparr> pp_text = txt, pp_last_seq_applied = pq_seq_end r,
                      pp_generation = pq_expected_generation r \<rparr>,
                c\<lparr> sc_last_applied := pq_seq_end r, sc_last_text := txt,
                   sc_retiring := (if sc_last_applied c > 0
                      then sc_retiring c @ [state_ref (pq_handle r) (sc_last_applied c)]
                      else sc_retiring c) \<rparr>, e'))"

text \<open>\<open>url.PathEscape\<close>.\<close>

definition path_safe :: "char \<Rightarrow> bool" where
  "path_safe c \<longleftrightarrow> (let n = of_char c :: nat in
     48 \<le> n \<and> n \<le> 57 \<or> 65 \<le> n \<and> n \<le> 90 \<or> 97 \<le> n \<and> n \<le> 122) \<or> c \<in> set ''-_.~$&+=:@''"

definition upper_hex :: "nat \<Rightarrow> char" where
  "upper_hex d = char_of (if d < 10 then 48 + d else 55 + d)"

definition path_escape :: "string \<Rightarrow> string" where
  "path_escape s = concat (map (\<lambda>c. if path_safe c then [c]
      else [CHR ''%'', upper_hex (of_char c div 16), upper_hex (of_char c mod 16)]) s)"

definition retire :: "'e transport \<Rightarrow> stateless_client \<Rightarrow> string \<Rightarrow> 'e \<Rightarrow> 'e" where
  "retire tr c ref e =
     (if sc_tier_url c = '''' then e
      else snd (tr \<lparr> hq_method = ''DELETE'', hq_url = sc_tier_url c @ ''/kv/'' @ path_escape ref,
                     hq_headers = [], hq_body = NoBody \<rparr> e))"

definition stateless_flush :: "'e transport \<Rightarrow> stateless_client \<Rightarrow> string \<Rightarrow> 'e \<Rightarrow>
    (backend_error + flush_resp) \<times> 'e" where
  "stateless_flush tr c handle e =
     then_check (stateless_call tr c (form_of c (kv_prompt ''final'' (read_ref c handle) '''')) empty_wav e)
       (\<lambda>txt. Inr \<lparr> fl_text = txt, fl_final = True \<rparr>)"

definition stateless_restore :: "restore_req \<Rightarrow> backend_error + restore_resp" where
  "stateless_restore r = Inl ErrNotSupported"

definition stateless_checkpoint :: "string \<Rightarrow> backend_error + checkpoint_resp" where
  "stateless_checkpoint handle = Inl ErrNotSupported"

definition stateless_close :: "'e transport \<Rightarrow> stateless_client \<Rightarrow> string \<Rightarrow> 'e \<Rightarrow> backend_error option \<times> 'e" where
  "stateless_close tr c handle e =
     (if sc_tier_url c = '''' then (None, e)
      else (None, snd (tr \<lparr> hq_method = ''DELETE'',
                            hq_url = sc_tier_url c @ ''/kv?prefix='' @ handle @ '':'',
                            hq_headers = [], hq_body = NoBody \<rparr> e)))"

definition stateless_health :: "stateless_client \<Rightarrow> backend_error + worker_advert" where
  "stateless_health c = Inr (sc_advert c)"

section \<open>A session's versions\<close>

text \<open>
  One push as it names its versions: the position read (0 for none), the position
  written, and whether it succeeded. Pushes answered locally name nothing.
\<close>

type_synonym version_use = "u64 \<times> u64 \<times> bool"

fun push_run :: "'e transport \<Rightarrow> stateless_client \<Rightarrow> push_req list \<Rightarrow> 'e \<Rightarrow>
    version_use list \<times> stateless_client \<times> 'e" where
  "push_run tr c [] e = ([], c, e)"
| "push_run tr c (r # rs) e =
     (let (res, c1, e1) = stateless_push tr c r e; (uses, c2, e2) = push_run tr c1 rs e1 in
      ((if pq_seq_end r \<le> sc_last_applied c then uses
        else (sc_last_applied c, pq_seq_end r, \<not> isl res) # uses), c2, e2))"

fun version_chain :: "u64 \<Rightarrow> version_use list \<Rightarrow> bool" where
  "version_chain n [] = True"
| "version_chain n ((rd, wr, ok) # us) = (rd = n \<and> n < wr \<and> version_chain (if ok then wr else n) us)"

fun superseded :: "version_use list \<Rightarrow> u64 list" where
  "superseded [] = []"
| "superseded ((rd, wr, ok) # us) = (if ok \<and> 0 < rd then rd # superseded us else superseded us)"

lemma state_ref_inj [simp]: "state_ref h a = state_ref h b \<longleftrightarrow> a = b"
  by (auto simp: state_ref_def word_unat_eq_iff)

lemma stateless_push_cases:
  assumes "stateless_push tr c r e = (res, c', e')"
  obtains (Replay) "pq_seq_end r \<le> sc_last_applied c" "c' = c" "e' = e"
      "res = Inr \<lparr> pp_text = sc_last_text c, pp_last_seq_applied = sc_last_applied c,
         pp_generation = pq_expected_generation r \<rparr>"
  | (Failed) err where "sc_last_applied c < pq_seq_end r" "c' = c" "res = Inl err"
  | (Pushed) answer where "sc_last_applied c < pq_seq_end r"
      "res = Inr \<lparr> pp_text = answer, pp_last_seq_applied = pq_seq_end r,
         pp_generation = pq_expected_generation r \<rparr>"
      "c' = c\<lparr> sc_last_applied := pq_seq_end r, sc_last_text := answer,
         sc_retiring := (if sc_last_applied c > 0
            then sc_retiring c @ [state_ref (pq_handle r) (sc_last_applied c)] else sc_retiring c) \<rparr>"
proof (cases "pq_seq_end r \<le> sc_last_applied c")
  case True
  with assms show ?thesis by (intro Replay) (auto simp: stateless_push_def)
next
  case False
  then have less: "sc_last_applied c < pq_seq_end r" by simp
  obtain out e1 where call: "stateless_call tr c (form_of c (kv_prompt ''stream'' (read_ref c (pq_handle r))
      (state_ref (pq_handle r) (pq_seq_end r)))) (pq_audio r) e = (out, e1)" by fastforce
  show ?thesis
  proof (cases out)
    case (Inl err)
    with assms False call less show ?thesis by (intro Failed [of err]) (simp_all add: stateless_push_def)
  next
    case (Inr answer)
    with assms False call less show ?thesis by (intro Pushed [of answer]) (simp_all add: stateless_push_def)
  qed
qed

lemma superseded_below: "version_chain n us \<Longrightarrow> set (superseded us) \<subseteq> {m. n \<le> m}"
  by (induction us arbitrary: n rule: superseded.induct) (fastforce split: if_splits)+

lemma push_run_chain:
  assumes "push_run tr c rs e = (us, c', e')" "\<forall>r \<in> set rs. pq_handle r = h"
  shows "version_chain (sc_last_applied c) us
    \<and> sc_retiring c' = sc_retiring c @ map (state_ref h) (superseded us)
    \<and> sc_last_applied c \<le> sc_last_applied c'
    \<and> (\<forall>v \<in> set (superseded us). v < sc_last_applied c')"
  using assms
proof (induction rs arbitrary: c e us)
  case Nil
  then show ?case by simp
next
  case (Cons r rs)
  obtain res c1 e1 where one: "stateless_push tr c r e = (res, c1, e1)" by (metis surj_pair)
  obtain us1 where rest: "push_run tr c1 rs e1 = (us1, c', e')"
    and us: "us = (if pq_seq_end r \<le> sc_last_applied c then us1
        else (sc_last_applied c, pq_seq_end r, \<not> isl res) # us1)"
    using Cons.prems(1) by (auto simp: one Let_def split: prod.splits)
  have h: "pq_handle r = h" "\<forall>r \<in> set rs. pq_handle r = h" using Cons.prems(2) by simp_all
  note IH = Cons.IH [OF rest h(2)]
  from one show ?case
  proof (cases rule: stateless_push_cases)
    case Replay
    with IH us show ?thesis by simp
  next
    case (Failed err)
    with IH us show ?thesis by simp
  next
    case (Pushed answer)
    with IH us h(1) show ?thesis by (auto intro: order.strict_implies_order order.strict_trans1 less_le_trans)
  qed
qed


definition demo_transport :: "nat transport" where
  "demo_transport q n =
     (if n = 1 then (Inl ''reset'', Suc n)
      else (Inr \<lparr> hp_status = 200, hp_retry_after = '''',
                  hp_json = Some (JObject [(''text'', JString ''ok'')]), hp_text = '''' \<rparr>, Suc n))"

definition demo_advert :: worker_advert where
  "demo_advert = \<lparr> wa_worker_id = ''w'', wa_status = '''', wa_model = '''', wa_compatibility_key_hash = ''k'',
     wa_capabilities = no_capabilities, wa_active_sessions = 0, wa_state_bytes = 0, wa_queue_depth = 0,
     wa_rtf_p50 = None, wa_last_heartbeat_ms = 0, wa_kv_tier = None, wa_inflight = 0, wa_running = 0,
     wa_inflight_high_water = 0, wa_uptime_s = 0, wa_rss_bytes = None, wa_cgroup_memory_bytes = None,
     wa_cgroup_memory_limit_bytes = None, wa_cpu_percent = None \<rparr>"

definition demo_client :: stateless_client where
  "demo_client = new_stateless_client ''http://b'' ''http://t'' ''w/a'' [] demo_advert"

definition demo_push :: "u64 \<Rightarrow> push_req" where
  "demo_push q = \<lparr> pq_handle = ''kv:s'', pq_seq_start = q, pq_seq_end = q, pq_expected_generation = 0,
     pq_audio = [] \<rparr>"

lemma demo_push_run:
  "fst (push_run demo_transport (snd (stateless_open demo_client
      \<lparr> or_session_id = ''s'', or_sample_rate_hz = 16000, or_mode = ''online'' \<rparr>))
      [demo_push 8, demo_push 16, demo_push 16, demo_push 24] 0)
    = [(0, 8, True), (8, 16, False), (8, 16, True), (16, 24, True)]"
  by code_simp


section \<open>Deletions served by the tier\<close>

text \<open>
  What \<open>net/http\<close> makes of the client's tier URLs below \<open>base\<close>, and the handler as a
  transport: the path and the \<open>prefix\<close> parameter reach \<open>handle_kv\<close>. Handles and
  references contain no character that is escaped.
\<close>

definition tier_request :: "string \<Rightarrow> http_request \<Rightarrow> kv_request option" where
  "tier_request base q =
     (if \<not> prefix base (hq_url q) then None
      else let rest = drop (length base) (hq_url q); path = takeWhile (\<lambda>c. c \<noteq> CHR ''?'') rest;
               query = drop (Suc (length path)) rest
           in Some \<lparr> kq_method = (if hq_method q = ''DELETE'' then KDelete else if hq_method q = ''GET'' then KGet
                       else if hq_method q = ''PUT'' then KPut else if hq_method q = ''POST'' then KPost else KOther),
                     kq_path = path, kq_compat = '''', kq_prefix = trim_prefix ''prefix='' query,
                     kq_body = (case hq_body q of RawBody b \<Rightarrow> Some b | _ \<Rightarrow> Some []) \<rparr>)"

definition kv_status :: "kv_response \<Rightarrow> int" where
  "kv_status r = (case r of KBadRequest \<Rightarrow> 400 | KConflict _ \<Rightarrow> 409 | KStored _ _ \<Rightarrow> 200 | KMiss \<Rightarrow> 404
     | KBlob _ _ \<Rightarrow> 200 | KDeleted _ \<Rightarrow> 200 | KNoContent \<Rightarrow> 204 | KMethodNotAllowed \<Rightarrow> 405)"

definition serve_tier :: "string \<Rightarrow> time \<Rightarrow> tier transport" where
  "serve_tier base now q t =
     (case tier_request base q of
        None \<Rightarrow> (Inl ''no route'', t)
      | Some kq \<Rightarrow> let (resp, t') = handle_kv now kq t in
          (Inr \<lparr> hp_status = kv_status resp, hp_retry_after = '''', hp_json = None, hp_text = '''' \<rparr>, t'))"

lemma takeWhile_upto: "x \<notin> set xs \<Longrightarrow> takeWhile (\<lambda>c. c \<noteq> x) (xs @ x # ys) = xs"
  by (induction xs) auto

lemma takeWhile_none: "x \<notin> set xs \<Longrightarrow> takeWhile (\<lambda>c. c \<noteq> x) xs = xs"
  by (induction xs) auto

lemma path_escape_id: "list_all path_safe s \<Longrightarrow> path_escape s = s"
  by (induction s) (simp_all add: path_escape_def)

lemma path_safe_digit: "is_digit c \<Longrightarrow> path_safe c"
  by (simp add: path_safe_def is_digit_def Let_def)

lemma state_ref_safe: "list_all path_safe h \<Longrightarrow> list_all path_safe (state_ref h n)"
  using digits_decimal [of "unat n"]
  by (auto simp: state_ref_def list_all_iff path_safe_digit) (simp add: path_safe_def)

lemma question_unsafe: "list_all path_safe s \<Longrightarrow> CHR ''?'' \<notin> set s"
  by (auto simp: list_all_iff path_safe_def)

lemma retire_served:
  assumes "sc_tier_url c = base" "base \<noteq> ''''" "list_all path_safe h"
  shows "retire (serve_tier base now) c (state_ref h n) t = snd (tier_delete (state_ref h n) t)"
proof -
  have ref: "list_all path_safe (state_ref h n)" by (rule state_ref_safe [OF assms(3)])
  show ?thesis using assms(1,2)
    by (simp add: takeWhile_none [OF question_unsafe [OF ref]] retire_def serve_tier_def tier_request_def path_escape_id [OF ref] handle_kv_def
        trim_prefix_def Let_def split_beta)
qed

lemma close_served:
  assumes "sc_tier_url c = base" "base \<noteq> ''''" "list_all path_safe h"
  shows "stateless_close (serve_tier base now) c h t = (None, snd (delete_prefix (h @ '':'') t))"
proof -
  have "takeWhile (\<lambda>ch. ch \<noteq> CHR ''?'') (''/kv'' @ CHR ''?'' # ''prefix='' @ h @ '':'') = ''/kv''"
    by (rule takeWhile_upto) simp
  then show ?thesis using assms(1,2)
    by (simp add: stateless_close_def serve_tier_def tier_request_def handle_kv_def trim_prefix_def
        Let_def split_beta)
qed

lemma colon_prefix:
  assumes "CHR '':'' \<notin> set s" "CHR '':'' \<notin> set s'"
  shows "prefix (s @ '':'') (s' @ '':'' @ d) \<longleftrightarrow> s = s'"
  using assms
proof (induction s arbitrary: s')
  case Nil
  then show ?case by (cases s') auto
next
  case (Cons x s)
  then show ?case by (cases s') auto
qed

text \<open>
  C27: the tier serves a client's deletions exactly. Retiring a superseded version
  removes that version and nothing else, also where its name is a prefix of another's;
  closing a session removes every version the session published and none of any
  other session, for session ids without a colon (all generated ids are hexadecimal).
\<close>

theorem tier_deletes_what_the_client_means:
  assumes "tier_inv t" "sc_tier_url c = base" "base \<noteq> ''''"
    and "list_all path_safe s" "CHR '':'' \<notin> set s" "CHR '':'' \<notin> set s'"
  shows "tr_m (retire (serve_tier base now) c (state_ref (''kv:'' @ s) n) t)
      = (tr_m t)(state_ref (''kv:'' @ s) n := None)
    \<and> tr_m (snd (stateless_close (serve_tier base now) c (''kv:'' @ s) t)) (state_ref (''kv:'' @ s') m)
      = (if s' = s then None else tr_m t (state_ref (''kv:'' @ s') m))"
proof -
  have safe: "list_all path_safe (''kv:'' @ s)" using assms(4) by (simp add: path_safe_def)
  have "prefix ((''kv:'' @ s) @ '':'') (state_ref (''kv:'' @ s') m) \<longleftrightarrow> s = s'"
    using colon_prefix [OF assms(5,6)] by (simp add: state_ref_def)
  then show ?thesis
    using retire_served [OF assms(2,3) safe] close_served [OF assms(2,3) safe]
      delete_prefix_map [OF tier_invD(1) [OF assms(1)]] tier_delete_map by auto
qed

theorem tier_deletes_what_the_client_means_witness:
  "tr_m (snd (stateless_close (serve_tier ''http://t'' 9) demo_client ''kv:s-1''
      (snd (tier_run (new_tier 9 0) demo_events)))) (state_ref ''kv:s-1'' 4) = None"
proof -
  have "tier_inv (new_tier 9 0)" by (simp add: tier_inv_def tier_core_def new_tier_def)
  then have inv: "tier_inv (snd (tier_run (new_tier 9 0) demo_events))" by (rule tier_run_inv)
  have "sc_tier_url demo_client = ''http://t''" by (simp add: demo_client_def new_stateless_client_def)
  from tier_deletes_what_the_client_means [OF inv this, of "''s-1''" "''s-1''" 9 0 4]
  show ?thesis by (simp add: path_safe_def)
qed

text \<open>
  The empty payload of a stateless final is a well-formed container without
  audio: the WAV the gateway wraps no records in, and the reader accepts it as such.
\<close>

theorem empty_wav_is_an_empty_clip:
  "empty_wav = WAVFromRecords [] 16000
   \<and> load_wav empty_wav = Inr \<lparr>cl_sample_rate_hz = 16000, cl_channels = 1, cl_bits_per_sample = 16, cl_pcm = []\<rparr>"
  by code_simp

end
