(* ===== verification/Effects.thy ===== *)
theory Effects
  imports Prelude "HOL-Library.State_Monad"
begin

text \<open>
  The state monad the session code is written in, and two ways of reasoning about it:
  a relation every step keeps (the library's \<open>state_io_rel\<close>, composed by transitivity)
  and pre- and postconditions (\<open>spec\<close>, composed by the usual rules). Loops over a
  list, and actions on the environment, are the only combinators added.
\<close>

named_theorems io_intros \<open>relations kept by the actions of the session code\<close>

lemma io_return [io_intros]: "reflp R \<Longrightarrow> state_io_rel R (State_Monad.return x)"
  by (simp add: state_io_rel_def reflpD)

lemma io_get [io_intros]: "reflp R \<Longrightarrow> state_io_rel R State_Monad.get"
  by (simp add: state_io_rel_def reflpD)

lemma run_update [simp]: "run_state (State_Monad.update f) s = ((), f s)"
  by (simp add: State_Monad.update_def)

lemma io_update: "(\<And>s. R s (f s)) \<Longrightarrow> state_io_rel R (State_Monad.update f)"
  by (simp add: state_io_rel_def)

lemma io_bind:
  assumes "transp R" "state_io_rel R m" "\<And>x. state_io_rel R (f x)"
  shows "state_io_rel R (State_Monad.bind m f)"
proof (rule state_io_relI)
  fix y s s'
  assume run: "run_state (State_Monad.bind m f) s = (y, s')"
  obtain x s1 where one: "run_state m s = (x, s1)" by fastforce
  then have "run_state (f x) s1 = (y, s')" using run by simp
  with one assms(2,3) have "R s s1" "R s1 s'" by blast+
  then show "R s s'" by (rule transpD [OF assms(1)])
qed

lemma io_if [io_intros]:
  "state_io_rel R m \<Longrightarrow> state_io_rel R n \<Longrightarrow> state_io_rel R (if b then m else n)"
  by simp

text \<open>Pre- and postconditions.\<close>

definition spec :: "('s \<Rightarrow> bool) \<Rightarrow> ('s, 'a) state \<Rightarrow> ('a \<Rightarrow> 's \<Rightarrow> bool) \<Rightarrow> bool" where
  "spec P m Q \<longleftrightarrow> (\<forall>s. P s \<longrightarrow> (case run_state m s of (x, s') \<Rightarrow> Q x s'))"

lemma specI: "(\<And>s x s'. P s \<Longrightarrow> run_state m s = (x, s') \<Longrightarrow> Q x s') \<Longrightarrow> spec P m Q"
  by (auto simp: spec_def split: prod.splits)

lemma specD: "spec P m Q \<Longrightarrow> P s \<Longrightarrow> run_state m s = (x, s') \<Longrightarrow> Q x s'"
  by (auto simp: spec_def)

lemma spec_bind:
  assumes "spec P m Q" "\<And>x. spec (Q x) (f x) R"
  shows "spec P (State_Monad.bind m f) R"
proof (rule specI)
  fix s y s'
  assume P: "P s" and run: "run_state (State_Monad.bind m f) s = (y, s')"
  obtain x s1 where one: "run_state m s = (x, s1)" by fastforce
  then have "run_state (f x) s1 = (y, s')" using run by simp
  with specD [OF assms(1) P one] show "R y s'" by (rule specD [OF assms(2)])
qed

lemma spec_return: "(\<And>s. P s \<Longrightarrow> Q x s) \<Longrightarrow> spec P (State_Monad.return x) Q"
  by (simp add: spec_def)

lemma spec_get: "spec P State_Monad.get (\<lambda>x s. x = s \<and> P s)"
  by (simp add: spec_def)

lemma spec_update: "(\<And>s. P s \<Longrightarrow> Q () (f s)) \<Longrightarrow> spec P (State_Monad.update f) Q"
  by (simp add: spec_def)

lemma spec_if: "(b \<Longrightarrow> spec P m Q) \<Longrightarrow> (\<not> b \<Longrightarrow> spec P n Q) \<Longrightarrow> spec P (if b then m else n) Q"
  by simp

lemma spec_weaken: "spec P m Q \<Longrightarrow> (\<And>s. P' s \<Longrightarrow> P s) \<Longrightarrow> (\<And>x s. Q x s \<Longrightarrow> Q' x s) \<Longrightarrow> spec P' m Q'"
  by (rule specI) (metis specD)

lemma spec_conj: "spec P m Q \<Longrightarrow> spec P' m Q' \<Longrightarrow> spec (\<lambda>s. P s \<and> P' s) m (\<lambda>x s. Q x s \<and> Q' x s)"
  by (auto simp: spec_def split: prod.splits)

lemma spec_keeps: "state_io_rel R m \<Longrightarrow> (\<And>s s'. P s \<Longrightarrow> R s s' \<Longrightarrow> P s') \<Longrightarrow> spec P m (\<lambda>_. P)"
  by (auto simp: spec_def state_io_rel_def split: prod.splits) (metis snd_conv)

end
