(* ===== verification/Metrics.thy ===== *)
theory Metrics
  imports Main
begin

text \<open>
  The process-lifetime counters of \<^verbatim>\<open>internal/metrics/metrics.go\<close> and the snapshot the
  debug endpoint serves. An atomic counter is its value.
\<close>

record counters =
  mt_duplicate_finals :: int
  mt_stale_generation_writes :: int
  mt_failover :: int
  mt_failover_same_model :: int
  mt_failover_cross_model :: int
  mt_failover_exhausted :: int
  mt_checkpoint_restores :: int
  mt_checkpoint_degraded :: int
  mt_admission_rejected :: int
  mt_backend_429 :: int
  mt_backend_pushes :: int

definition zero_counters :: counters where
  "zero_counters =
     \<lparr> mt_duplicate_finals = 0, mt_stale_generation_writes = 0, mt_failover = 0,
       mt_failover_same_model = 0, mt_failover_cross_model = 0, mt_failover_exhausted = 0,
       mt_checkpoint_restores = 0, mt_checkpoint_degraded = 0, mt_admission_rejected = 0,
       mt_backend_429 = 0, mt_backend_pushes = 0 \<rparr>"

text \<open>The JSON members of \<open>Snap\<close>, in order.\<close>

definition snapshot :: "counters \<Rightarrow> (string \<times> int) list" where
  "snapshot c =
     [(''duplicate_finals_total'', mt_duplicate_finals c),
      (''stale_generation_writes_total'', mt_stale_generation_writes c),
      (''failover_total'', mt_failover c),
      (''failover_same_model_total'', mt_failover_same_model c),
      (''failover_cross_model_total'', mt_failover_cross_model c),
      (''failover_exhausted_total'', mt_failover_exhausted c),
      (''checkpoint_restores_total'', mt_checkpoint_restores c),
      (''checkpoint_degraded_total'', mt_checkpoint_degraded c),
      (''admission_rejected_total'', mt_admission_rejected c),
      (''backend_429_total'', mt_backend_429 c),
      (''backend_pushes_total'', mt_backend_pushes c)]"

end
