(* ===== verification/Pipeline.thy ===== *)
theory Pipeline
  imports Audio
begin

text \<open>
  The \<open>Pipeline\<close> interface of \<^verbatim>\<open>internal/audio/pipeline.go\<close> and its two implementations
  as one value: the session loop holds one or the other and calls it through these
  operations. The state of the third-party detector is part of a VAD pipeline. No
  implementation of \<open>Recut\<close> returns an error.
\<close>

datatype 'd pipeline = Passthrough passthrough | VADPipe vad_pipeline 'd

fun pl_ingest :: "'d vad \<Rightarrow> 'd pipeline \<Rightarrow> frame \<Rightarrow> (audio_error + audio_ref) \<times> 'd pipeline" where
  "pl_ingest speech (Passthrough p) f = (let (ref, p') = pp_ingest p f in (Inr ref, Passthrough p'))"
| "pl_ingest speech (VADPipe p d) f =
     (let (res, p', d') = vad_ingest speech p d f in (res, VADPipe p' d'))"

fun pl_ready :: "'d pipeline \<Rightarrow> chunk list \<times> 'd pipeline" where
  "pl_ready (Passthrough p) = (let (cks, p') = pp_drain p in (cks, Passthrough p'))"
| "pl_ready (VADPipe p d) = (let (cks, p') = vad_drain p in (cks, VADPipe p' d))"

fun pl_boundary :: "'d pipeline \<Rightarrow> boundary_event option \<times> 'd pipeline" where
  "pl_boundary (Passthrough p) = (pp_boundary p, Passthrough p)"
| "pl_boundary (VADPipe p d) = (let (ev, p') = vad_boundary p in (ev, VADPipe p' d))"

fun pl_retention_start :: "'d pipeline \<Rightarrow> u64 option" where
  "pl_retention_start (Passthrough p) = pp_retention_start p"
| "pl_retention_start (VADPipe p d) = vad_retention_start p"

fun pl_flush :: "'d pipeline \<Rightarrow> chunk list \<times> 'd pipeline" where
  "pl_flush (Passthrough p) = (let (cks, p') = pp_flush p in (cks, Passthrough p'))"
| "pl_flush (VADPipe p d) = (let (cks, p') = vad_flush p in (cks, VADPipe p' d))"

fun pl_recut :: "'d pipeline \<Rightarrow> audio_record list \<Rightarrow> chunk list" where
  "pl_recut (Passthrough p) records = pp_recut p records"
| "pl_recut (VADPipe p d) records = vad_recut p records"

text \<open>The events still queued: the boundary loop of the session ends after draining them.\<close>

fun pl_queued :: "'d pipeline \<Rightarrow> boundary_event list" where
  "pl_queued (Passthrough p) = []"
| "pl_queued (VADPipe p d) = vp_boundaries p"

lemma pl_boundary_queued:
  "pl_boundary p = (ev, p') \<Longrightarrow>
     (case ev of None \<Rightarrow> p' = p \<and> pl_queued p = [] | Some b \<Rightarrow> pl_queued p = b # pl_queued p')"
  by (cases p) (auto simp: vad_boundary_def pp_boundary_def split: list.splits)

end
