(* ===== verification/Coord.thy ===== *)
theory Coord
  imports Router Journal Pipeline Metrics Effects
begin

text \<open>
  \<^verbatim>\<open>internal/coord\<close>: the gateway-side checkpoint store and the two recovery algorithms
  with the bounded failure loop around them. What a recovery reads and writes is the
  record \<open>sess\<close> (the fields of \<open>RecoveryDeps\<close>, the process-wide counters and the
  environment), threaded by the state monad; the connection code extends the record.
  The workers' clients, the clock, \<open>rand.Perm\<close> and SHA-256 are the parameters
  of \<open>host\<close>. A call to them may change the environment, not the session.
\<close>

section \<open>Checkpoints (checkpoint.go)\<close>

record cache_checkpoint =
  cc_session_id :: string
  cc_compatibility_key :: cache_compatibility_key
  cc_generation :: u64
  cc_seq :: u64
  cc_state_blob :: "byte list"
  cc_checksum :: string

type_synonym sha = "byte list \<Rightarrow> byte list"

definition hex_char :: "nat \<Rightarrow> char" where
  "hex_char d = char_of (if d < 10 then 48 + d else 87 + d)"

definition hex_encode :: "byte list \<Rightarrow> string" where
  "hex_encode bs = concat (map (\<lambda>b. [hex_char (unat b div 16), hex_char (unat b mod 16)]) bs)"

definition checksum :: "sha \<Rightarrow> byte list \<Rightarrow> string" where
  "checksum sha256 blob = hex_encode (sha256 blob)"

definition new_checkpoint :: "sha \<Rightarrow> string \<Rightarrow> cache_compatibility_key \<Rightarrow> checkpoint_resp \<Rightarrow> cache_checkpoint" where
  "new_checkpoint sha256 sessionID key resp =
     \<lparr> cc_session_id = sessionID, cc_compatibility_key = key, cc_generation = cp_generation resp,
       cc_seq = cp_last_seq_applied resp, cc_state_blob = cp_checkpoint_blob resp,
       cc_checksum = checksum sha256 (cp_checkpoint_blob resp) \<rparr>"

definition can_restore :: "sha \<Rightarrow> cache_checkpoint \<Rightarrow> cache_compatibility_key \<Rightarrow> bool" where
  "can_restore sha256 cp targetKey \<longleftrightarrow>
     cc_compatibility_key cp = targetKey \<and> cc_checksum cp = checksum sha256 (cc_state_blob cp)"

text \<open>A nil store (\<open>None\<close>) is a store without checkpoints that accepts no operation.\<close>

type_synonym checkpoint_store = "(string \<rightharpoonup> cache_checkpoint) option"

definition new_checkpoint_store :: checkpoint_store where
  "new_checkpoint_store = Some Map.empty"

definition cps_store :: "sha \<Rightarrow> string \<Rightarrow> cache_compatibility_key \<Rightarrow> checkpoint_resp \<Rightarrow>
    checkpoint_store \<Rightarrow> checkpoint_store" where
  "cps_store sha256 sessionID key resp s =
     map_option (\<lambda>m. m(sessionID \<mapsto> new_checkpoint sha256 sessionID key resp)) s"

definition cps_latest :: "string \<Rightarrow> checkpoint_store \<Rightarrow> cache_checkpoint option" where
  "cps_latest sessionID s = (case s of None \<Rightarrow> None | Some m \<Rightarrow> m sessionID)"

definition corruptMark :: string where "corruptMark = ''corrupted-by-chaos-scenario''"

definition cps_corrupt :: "string \<Rightarrow> checkpoint_store \<Rightarrow> bool \<times> checkpoint_store" where
  "cps_corrupt sessionID s =
     (case s of
        None \<Rightarrow> (False, None)
      | Some m \<Rightarrow>
          (case m sessionID of
             None \<Rightarrow> (False, s)
           | Some cp \<Rightarrow> (True, Some (m(sessionID \<mapsto> cp\<lparr>cc_checksum := corruptMark\<rparr>)))))"

definition cps_delete :: "string \<Rightarrow> checkpoint_store \<Rightarrow> checkpoint_store" where
  "cps_delete sessionID s = map_option (\<lambda>m. m(sessionID := None)) s"

section \<open>The session and its host\<close>

record ('e, 'd) sess =
  ss_state :: inference_state
  ss_final :: last_final
  ss_pipeline :: "'d pipeline"
  ss_journal :: journal
  ss_router :: router
  ss_checkpoints :: checkpoint_store
  ss_metrics :: counters
  ss_env :: 'e

record 'e host =
  ho_client :: "string \<Rightarrow> 'e client"
  ho_now :: "'e \<Rightarrow> time \<times> 'e"
  ho_perm :: "nat \<Rightarrow> 'e \<Rightarrow> nat list \<times> 'e"
  ho_sha256 :: sha

type_synonym ('e, 'd, 'z, 'a) session_act = "(('e, 'd, 'z) sess_scheme, 'a) state"

definition on_env :: "('e \<Rightarrow> 'a \<times> 'e) \<Rightarrow> ('e, 'd, 'z, 'a) session_act" where
  "on_env f = State (\<lambda>s. let (x, e) = f (ss_env s) in (x, s\<lparr>ss_env := e\<rparr>))"

definition set_session :: "(inference_state \<Rightarrow> inference_state) \<Rightarrow> ('e, 'd, 'z, unit) session_act" where
  "set_session f = State_Monad.update (\<lambda>s. s\<lparr>ss_state := f (ss_state s)\<rparr>)"

definition count :: "(counters \<Rightarrow> counters) \<Rightarrow> ('e, 'd, 'z, unit) session_act" where
  "count f = State_Monad.update (\<lambda>s. s\<lparr>ss_metrics := f (ss_metrics s)\<rparr>)"

definition set_router :: "(router \<Rightarrow> router) \<Rightarrow> ('e, 'd, 'z, unit) session_act" where
  "set_router f = State_Monad.update (\<lambda>s. s\<lparr>ss_router := f (ss_router s)\<rparr>)"

definition report_act :: "'e host \<Rightarrow> string \<Rightarrow> bool \<Rightarrow> duration \<Rightarrow> ('e, 'd, 'z, unit) session_act" where
  "report_act h ident ok latency = do {
     now \<leftarrow> on_env (ho_now h);
     set_router (router_report now ident ok latency) }"

text \<open>\<open>Pick\<close> returns a pointer; the identity and key read through it never change.\<close>

definition pick_act :: "'e host \<Rightarrow> string \<Rightarrow> string list \<Rightarrow> cache_compatibility_key \<Rightarrow>
    ('e, 'd, 'z, worker option) session_act" where
  "pick_act h mode excluded key = do {
     s \<leftarrow> State_Monad.get;
     perm \<leftarrow> on_env (ho_perm h (length (ss_router s)));
     now \<leftarrow> on_env (ho_now h);
     (case pick now perm mode (\<lambda>i. i \<in> set excluded) key (ss_router s) of
        (res, r) \<Rightarrow> do {
          set_router (\<lambda>_. r);
          State_Monad.return (case res of None \<Rightarrow> None | Some i \<Rightarrow> Some (r ! i)) }) }"

section \<open>Recovery (failover.go)\<close>

datatype coord_error =
    ReplayPush u64 u64 backend_error
  | OpenFresh string backend_error
  | NoReplacement
  | Backend backend_error
  | Exhausted nat coord_error

definition MaxFailoverAttempts :: nat where "MaxFailoverAttempts = 3"

definition push_of :: "inference_state \<Rightarrow> chunk \<Rightarrow> push_req" where
  "push_of st c = \<lparr> pq_handle = st_handle st, pq_seq_start = ck_seq_start c, pq_seq_end = ck_seq_end c,
     pq_expected_generation = st_generation st, pq_audio = ck_bytes c \<rparr>"

fun replay_chunks :: "'e client \<Rightarrow> chunk list \<Rightarrow> string option \<Rightarrow>
    ('e, 'd, 'z, coord_error + string option) session_act" where
  "replay_chunks client [] lastText = State_Monad.return (Inr lastText)"
| "replay_chunks client (c # cs) lastText = do {
     s \<leftarrow> State_Monad.get;
     res \<leftarrow> on_env (c_push client (push_of (ss_state s) c));
     (case res of
        Inl err \<Rightarrow> State_Monad.return (Inl (ReplayPush (ck_seq_start c) (ck_seq_end c) err))
      | Inr resp \<Rightarrow> do {
          set_session (\<lambda>st. st\<lparr> st_generation := pp_generation resp,
                                st_last_applied_seq := pp_last_seq_applied resp \<rparr>);
          replay_chunks client cs (Some (pp_text resp)) }) }"

text \<open>The three ways a recovery ends: a Go panic, an error, or the reset event and the partial.\<close>

datatype recovery = RPanic panic | RError coord_error | ROk event "string option"

definition partial_reset_act :: "('e, 'd, 'z, panic + event) session_act" where
  "partial_reset_act = do {
     s \<leftarrow> State_Monad.get;
     (case em_partial_reset (ss_state s) of
        Inl p \<Rightarrow> State_Monad.return (Inl p)
      | Inr (st, ev) \<Rightarrow> do { set_session (\<lambda>_. st); State_Monad.return (Inr ev) }) }"

text \<open>The tail both recoveries share: the reset event, the replay, the counters.\<close>

definition resume :: "'e host \<Rightarrow> worker \<Rightarrow> (('e, 'd, 'z) sess_scheme \<Rightarrow> chunk list) \<Rightarrow> (counters \<Rightarrow> counters) \<Rightarrow>
    ('e, 'd, 'z, recovery) session_act" where
  "resume h target chunks tally = do {
     reset \<leftarrow> partial_reset_act;
     (case reset of
        Inl p \<Rightarrow> State_Monad.return (RPanic p)
      | Inr resetEv \<Rightarrow> do {
          s \<leftarrow> State_Monad.get;
          outcome \<leftarrow> replay_chunks (ho_client h (w_id target)) (chunks s) None;
          (case outcome of
             Inl err \<Rightarrow> State_Monad.return (RError err)
           | Inr regenerated \<Rightarrow> do { count tally; State_Monad.return (ROk resetEv regenerated) }) }) }"

definition recover_cross_model :: "'e host \<Rightarrow> worker \<Rightarrow> ('e, 'd, 'z, recovery) session_act" where
  "recover_cross_model h target = do {
     s \<leftarrow> State_Monad.get;
     opened \<leftarrow> on_env (c_open (ho_client h (w_id target))
       \<lparr> or_session_id = st_session_id (ss_state s), or_sample_rate_hz = st_sample_rate_hz (ss_state s),
         or_mode = st_mode (ss_state s) \<rparr>);
     (case opened of
        Inl err \<Rightarrow> State_Monad.return (RError (OpenFresh (w_id target) err))
      | Inr resp \<Rightarrow> do {
          set_session (\<lambda>st. st\<lparr> st_worker_id := w_id target, st_handle := os_handle resp,
            st_compatibility_key := w_compatibility_key target, st_generation := os_generation resp,
            st_failover_epoch := st_failover_epoch st + 1 \<rparr>);
          resume h target (\<lambda>s. pl_recut (ss_pipeline s) (read_from_committed (ss_journal s)))
            (\<lambda>m. m\<lparr>mt_failover := mt_failover m + 1\<rparr>) }) }"

definition degrade :: "'e host \<Rightarrow> worker \<Rightarrow> ('e, 'd, 'z, recovery) session_act" where
  "degrade h target = do {
     count (\<lambda>m. m\<lparr>mt_checkpoint_degraded := mt_checkpoint_degraded m + 1\<rparr>);
     recover_cross_model h target }"

definition recover_same_model :: "'e host \<Rightarrow> worker \<Rightarrow> ('e, 'd, 'z, recovery) session_act" where
  "recover_same_model h target = do {
     s \<leftarrow> State_Monad.get;
     (case cps_latest (st_session_id (ss_state s)) (ss_checkpoints s) of
        None \<Rightarrow> degrade h target
      | Some cp \<Rightarrow>
          if \<not> can_restore (ho_sha256 h) cp (w_compatibility_key target) then degrade h target
          else do {
            restored \<leftarrow> on_env (c_restore (ho_client h (w_id target))
              \<lparr> rr_checkpoint_blob = cc_state_blob cp, rr_last_seq_applied = cc_seq cp \<rparr>);
            (case restored of
               Inl err \<Rightarrow> degrade h target
             | Inr resp \<Rightarrow> do {
                 set_session (\<lambda>st. st\<lparr> st_worker_id := w_id target, st_handle := rs_handle resp,
                   st_compatibility_key := w_compatibility_key target,
                   st_generation := rs_generation resp, st_last_applied_seq := rs_last_seq_applied resp,
                   st_failover_epoch := st_failover_epoch st + 1 \<rparr>);
                 resume h target (\<lambda>s. pl_recut (ss_pipeline s) (read_after (ss_journal s) (rs_last_seq_applied resp)))
                   (\<lambda>m. m\<lparr> mt_failover := mt_failover m + 1,
                             mt_checkpoint_restores := mt_checkpoint_restores m + 1 \<rparr>) }) }) }"

text \<open>The result of the failure loop: the worker whose client is used from now on.\<close>

datatype failover = FPanic panic | FError coord_error | FOk string event "string option"

definition count_exhausted :: "('e, 'd, 'z, unit) session_act" where
  "count_exhausted = count (\<lambda>m. m\<lparr>mt_failover_exhausted := mt_failover_exhausted m + 1\<rparr>)"

text \<open>One attempt that found a target: whether it recovered, by either mode.\<close>

definition recover :: "'e host \<Rightarrow> worker \<Rightarrow> ('e, 'd, 'z, bool \<times> recovery) session_act" where
  "recover h target = do {
     s \<leftarrow> State_Monad.get;
     let sameKey = w_compatibility_key target = st_compatibility_key (ss_state s);
     res \<leftarrow> (if sameKey then recover_same_model h target else recover_cross_model h target);
     State_Monad.return (sameKey, res) }"

fun failover_loop :: "'e host \<Rightarrow> string \<Rightarrow> nat \<Rightarrow> string list \<Rightarrow> coord_error \<Rightarrow>
    ('e, 'd, 'z, failover) session_act" where
  "failover_loop h owner 0 excluded lastErr = do {
     count_exhausted;
     State_Monad.return (FError (Exhausted MaxFailoverAttempts lastErr)) }"
| "failover_loop h owner (Suc n) excluded lastErr = do {
     s \<leftarrow> State_Monad.get;
     picked \<leftarrow> pick_act h (st_mode (ss_state s)) excluded (st_compatibility_key (ss_state s));
     (case picked of
        None \<Rightarrow> do { count_exhausted; State_Monad.return (FError NoReplacement) }
      | Some target \<Rightarrow> do {
          attempt \<leftarrow> recover h target;
          (case attempt of
             (sameKey, ROk resetEv regenerated) \<Rightarrow> do {
               count (\<lambda>m. if sameKey then m\<lparr>mt_failover_same_model := mt_failover_same_model m + 1\<rparr>
                          else m\<lparr>mt_failover_cross_model := mt_failover_cross_model m + 1\<rparr>);
               set_router (update_worker (w_id target) bind_session);
               set_router (update_worker owner unbind_session);
               report_act h (w_id target) True 0;
               State_Monad.return (FOk (w_id target) resetEv regenerated) }
           | (sameKey, RPanic p) \<Rightarrow> State_Monad.return (FPanic p)
           | (sameKey, RError err) \<Rightarrow> do {
               s' \<leftarrow> State_Monad.get;
               (if st_worker_id (ss_state s') \<noteq> st_worker_id (ss_state s)
                   \<or> st_handle (ss_state s') \<noteq> st_handle (ss_state s)
                then do {
                  _ \<leftarrow> on_env (c_close (ho_client h (w_id target)) (st_handle (ss_state s')));
                  State_Monad.return () }
                else State_Monad.return ());
               set_session (\<lambda>_. ss_state s);
               report_act h (w_id target) False 0;
               failover_loop h owner n (w_id target # excluded) err }) }) }"

definition handle_backend_failure :: "'e host \<Rightarrow> backend_error \<Rightarrow> ('e, 'd, 'z, failover) session_act" where
  "handle_backend_failure h cause = do {
     s \<leftarrow> State_Monad.get;
     let owner = st_worker_id (ss_state s);
     report_act h owner False 0;
     failover_loop h owner MaxFailoverAttempts [owner] (Backend cause) }"

section \<open>What the actions leave alone\<close>

lemma run_on_env [simp]:
  "run_state (on_env f) s = (fst (f (ss_env s)), s\<lparr>ss_env := snd (f (ss_env s))\<rparr>)"
  by (simp add: on_env_def split_beta)

lemma run_set_session [simp]: "run_state (set_session f) s = ((), s\<lparr>ss_state := f (ss_state s)\<rparr>)"
  by (simp add: set_session_def)

lemma run_count [simp]: "run_state (count f) s = ((), s\<lparr>ss_metrics := f (ss_metrics s)\<rparr>)"
  by (simp add: count_def)

lemma run_set_router [simp]: "run_state (set_router f) s = ((), s\<lparr>ss_router := f (ss_router s)\<rparr>)"
  by (simp add: set_router_def)

lemma run_report [simp]:
  "run_state (report_act h i ok l) s
    = ((), s\<lparr> ss_env := snd (ho_now h (ss_env s)),
             ss_router := router_report (fst (ho_now h (ss_env s))) i ok l (ss_router s) \<rparr>)"
  by (simp add: report_act_def split_beta)

text \<open>Replay changes the generation, the applied position and the environment.\<close>

lemma replay_run:
  assumes "run_state (replay_chunks client cs lt) s = (res, s')"
  shows "\<exists>gen applied e. s' = s\<lparr> ss_state := (ss_state s)\<lparr> st_generation := gen, st_last_applied_seq := applied \<rparr>,
      ss_env := e \<rparr>"
  using assms
proof (induction cs arbitrary: lt s)
  case Nil
  then have "s' = s\<lparr> ss_state := (ss_state s)\<lparr> st_generation := st_generation (ss_state s),
      st_last_applied_seq := st_last_applied_seq (ss_state s) \<rparr>, ss_env := ss_env s \<rparr>" by simp
  then show ?case by blast
next
  case (Cons c cs)
  obtain out e where push: "c_push client (push_of (ss_state s) c) (ss_env s) = (out, e)" by fastforce
  show ?case
  proof (cases out)
    case (Inl err)
    with Cons.prems push have "s' = s\<lparr> ss_state := (ss_state s)\<lparr> st_generation := st_generation (ss_state s),
      st_last_applied_seq := st_last_applied_seq (ss_state s) \<rparr>, ss_env := e \<rparr>" by simp
    then show ?thesis by blast
  next
    case (Inr resp)
    let ?s1 = "s\<lparr> ss_env := e, ss_state := (ss_state s)\<lparr> st_generation := pp_generation resp,
      st_last_applied_seq := pp_last_seq_applied resp \<rparr> \<rparr>"
    from Cons.prems push Inr have "run_state (replay_chunks client cs (Some (pp_text resp))) ?s1 = (res, s')"
      by simp
    from Cons.IH [OF this] show ?thesis by auto
  qed
qed

text \<open>A session moved onto a worker: what every successful recovery does to its state.\<close>

definition moved_to :: "worker \<Rightarrow> inference_state \<Rightarrow> inference_state \<Rightarrow> bool" where
  "moved_to t st st' \<longleftrightarrow> (\<exists>handle gen applied. st' = st\<lparr> st_worker_id := w_id t, st_handle := handle,
     st_compatibility_key := w_compatibility_key t, st_failover_epoch := st_failover_epoch st + 1,
     st_generation := gen, st_last_applied_seq := applied,
     st_partial_revision := st_partial_revision st + 1, st_last_partial := '''' \<rparr>)"

definition reset_of :: "inference_state \<Rightarrow> event" where
  "reset_of st = PartialResetEvent (st_session_id st) (utterance_label st)
     (st_partial_revision st + 1) (st_failover_epoch st + 1)"

definition recovery_ok :: "worker \<Rightarrow> inference_state \<Rightarrow> inference_state \<Rightarrow> recovery \<Rightarrow> bool" where
  "recovery_ok t st st' res \<longleftrightarrow> (case res of
      RPanic _ \<Rightarrow> st_finalized st
    | RError _ \<Rightarrow> True
    | ROk ev _ \<Rightarrow> moved_to t st st' \<and> ev = reset_of st \<and> \<not> st_finalized st)"

lemma run_partial_reset:
  "run_state partial_reset_act s =
     (if st_finalized (ss_state s)
      then (Inl (PanicAfterFinal ''partial.reset'' (utterance_label (ss_state s)) (st_session_id (ss_state s))), s)
      else (Inr (PartialResetEvent (st_session_id (ss_state s)) (utterance_label (ss_state s))
                  (st_partial_revision (ss_state s) + 1) (st_failover_epoch (ss_state s))),
            s\<lparr>ss_state := (ss_state s)\<lparr>st_partial_revision := st_partial_revision (ss_state s) + 1,
                st_last_partial := ''''\<rparr>\<rparr>))"
  by (simp add: partial_reset_act_def em_partial_reset_def must_not_be_finalized_def Let_def
      utterance_label_def)

text \<open>A recovery changes the session state, the environment and the counters, nothing else.\<close>

definition only_touches :: "('e, 'd, 'z) sess_scheme \<Rightarrow> ('e, 'd, 'z) sess_scheme \<Rightarrow> bool" where
  "only_touches s s' \<longleftrightarrow>
     s' = s\<lparr> ss_state := ss_state s', ss_env := ss_env s', ss_metrics := ss_metrics s' \<rparr>"

lemma only_touches_update [simp]:
  "only_touches s (s\<lparr> ss_state := st, ss_env := e, ss_metrics := m \<rparr>)"
  "only_touches s (s\<lparr> ss_state := st, ss_env := e \<rparr>)" "only_touches s (s\<lparr> ss_env := e \<rparr>)"
  "only_touches s s"
  by (simp_all add: only_touches_def)

lemma only_touches_after:
  "only_touches (s\<lparr> ss_env := e, ss_state := st \<rparr>) s' \<Longrightarrow> only_touches s s'"
  "only_touches (s\<lparr> ss_env := e \<rparr>) s' \<Longrightarrow> only_touches s s'"
  "only_touches (s\<lparr> ss_metrics := m \<rparr>) s' \<Longrightarrow> only_touches s s'"
  by (simp_all add: only_touches_def)

lemma only_touchesD:
  assumes "only_touches s s'"
  shows "ss_final s' = ss_final s" "ss_pipeline s' = ss_pipeline s" "ss_journal s' = ss_journal s"
    "ss_router s' = ss_router s" "ss_checkpoints s' = ss_checkpoints s" "sess.more s' = sess.more s"
  by (subst assms [unfolded only_touches_def], simp)+

lemma resume_run:
  assumes run: "run_state (resume h t chunks tally) s = (res, s')"
    and moved: "ss_state s = st\<lparr> st_worker_id := w_id t, st_handle := handle,
      st_compatibility_key := w_compatibility_key t, st_generation := gen, st_last_applied_seq := applied,
      st_failover_epoch := st_failover_epoch st + 1 \<rparr>"
  shows "only_touches s s' \<and> recovery_ok t st (ss_state s') res"
proof (cases "st_finalized st")
  case True
  then obtain p where "res = RPanic p" "s' = s"
    using run by (auto simp: resume_def run_partial_reset moved)
  then show ?thesis using True by (simp add: recovery_ok_def)
next
  case False
  let ?st1 = "(ss_state s)\<lparr>st_partial_revision := st_partial_revision (ss_state s) + 1, st_last_partial := ''''\<rparr>"
  let ?s1 = "s\<lparr>ss_state := ?st1\<rparr>"
  obtain out s2 where replay: "run_state (replay_chunks (ho_client h (w_id t)) (chunks ?s1) None) ?s1 = (out, s2)"
    by fastforce
  obtain g q e where s2: "s2 = ?s1\<lparr> ss_state := ?st1\<lparr> st_generation := g, st_last_applied_seq := q \<rparr>, ss_env := e \<rparr>"
    using replay_run [OF replay] by auto
  let ?st2 = "?st1\<lparr> st_generation := g, st_last_applied_seq := q \<rparr>"
  have st2: "moved_to t st ?st2" unfolding moved_to_def moved
    by (rule exI [of _ handle], rule exI [of _ g], rule exI [of _ q]) simp
  show ?thesis
  proof (cases out)
    case (Inl err)
    have "res = RError err" "s' = s2"
      using run False replay unfolding Inl by (simp_all add: resume_def run_partial_reset moved)
    then show ?thesis by (simp add: recovery_ok_def s2)
  next
    case (Inr regenerated)
    have "res = ROk (reset_of st) regenerated" "s' = s2\<lparr>ss_metrics := tally (ss_metrics s2)\<rparr>"
      using run False replay unfolding Inr
      by (simp_all add: resume_def run_partial_reset moved reset_of_def utterance_label_def)
    then show ?thesis using False st2 by (simp add: recovery_ok_def s2)
  qed
qed

lemma cross_run:
  assumes run: "run_state (recover_cross_model h t) s = (res, s')"
  shows "only_touches s s' \<and> recovery_ok t (ss_state s) (ss_state s') res"
proof -
  obtain out e where opened: "c_open (ho_client h (w_id t)) \<lparr> or_session_id = st_session_id (ss_state s),
      or_sample_rate_hz = st_sample_rate_hz (ss_state s), or_mode = st_mode (ss_state s) \<rparr> (ss_env s) = (out, e)"
    by fastforce
  show ?thesis
  proof (cases out)
    case (Inl err)
    then have "res = RError (OpenFresh (w_id t) err)" "s' = s\<lparr> ss_env := e \<rparr>"
      using run opened by (simp_all add: recover_cross_model_def)
    then show ?thesis by (simp add: recovery_ok_def)
  next
    case (Inr resp)
    let ?st = "(ss_state s)\<lparr> st_worker_id := w_id t, st_handle := os_handle resp,
      st_compatibility_key := w_compatibility_key t, st_generation := os_generation resp,
      st_failover_epoch := st_failover_epoch (ss_state s) + 1 \<rparr>"
    have "run_state (resume h t (\<lambda>s. pl_recut (ss_pipeline s) (read_from_committed (ss_journal s)))
        (\<lambda>m. m\<lparr>mt_failover := mt_failover m + 1\<rparr>)) (s\<lparr> ss_env := e, ss_state := ?st \<rparr>) = (res, s')"
      using run opened Inr by (simp add: recover_cross_model_def)
    from resume_run [OF this, where st = "ss_state s" and handle = "os_handle resp"
        and gen = "os_generation resp" and applied = "st_last_applied_seq (ss_state s)"]
    have "only_touches (s\<lparr> ss_env := e, ss_state := ?st \<rparr>) s' \<and> recovery_ok t (ss_state s) (ss_state s') res"
      by simp
    then show ?thesis by (blast intro: only_touches_after(1))
  qed
qed

lemma degrade_run:
  assumes "run_state (degrade h t) s = (res, s')"
  shows "only_touches s s' \<and> recovery_ok t (ss_state s) (ss_state s') res"
proof -
  let ?s = "s\<lparr>ss_metrics := (ss_metrics s)\<lparr>mt_checkpoint_degraded := mt_checkpoint_degraded (ss_metrics s) + 1\<rparr>\<rparr>"
  have "run_state (recover_cross_model h t) ?s = (res, s')" using assms by (simp add: degrade_def)
  from cross_run [OF this] show ?thesis using only_touches_after(3) by auto
qed

lemma same_run:
  assumes run: "run_state (recover_same_model h t) s = (res, s')"
  shows "only_touches s s' \<and> recovery_ok t (ss_state s) (ss_state s') res"
proof (cases "\<exists>cp. cps_latest (st_session_id (ss_state s)) (ss_checkpoints s) = Some cp
    \<and> can_restore (ho_sha256 h) cp (w_compatibility_key t)")
  case False
  then have "run_state (degrade h t) s = (res, s')"
    using run by (auto simp: recover_same_model_def split: option.splits if_splits)
  then show ?thesis by (rule degrade_run)
next
  case True
  then obtain cp where cp: "cps_latest (st_session_id (ss_state s)) (ss_checkpoints s) = Some cp"
    "can_restore (ho_sha256 h) cp (w_compatibility_key t)" by blast
  obtain out e where restored: "c_restore (ho_client h (w_id t))
      \<lparr> rr_checkpoint_blob = cc_state_blob cp, rr_last_seq_applied = cc_seq cp \<rparr> (ss_env s) = (out, e)"
    by fastforce
  show ?thesis
  proof (cases out)
    case (Inl err)
    then have "run_state (degrade h t) (s\<lparr>ss_env := e\<rparr>) = (res, s')"
      using run cp restored by (simp add: recover_same_model_def)
    from degrade_run [OF this] show ?thesis using only_touches_after(2) by auto
  next
    case (Inr resp)
    let ?st = "(ss_state s)\<lparr> st_worker_id := w_id t, st_handle := rs_handle resp,
      st_compatibility_key := w_compatibility_key t, st_generation := rs_generation resp,
      st_last_applied_seq := rs_last_seq_applied resp,
      st_failover_epoch := st_failover_epoch (ss_state s) + 1 \<rparr>"
    have "run_state (resume h t (\<lambda>s. pl_recut (ss_pipeline s) (read_after (ss_journal s) (rs_last_seq_applied resp)))
        (\<lambda>m. m\<lparr> mt_failover := mt_failover m + 1, mt_checkpoint_restores := mt_checkpoint_restores m + 1 \<rparr>))
        (s\<lparr> ss_env := e, ss_state := ?st \<rparr>) = (res, s')"
      using run cp restored Inr by (simp add: recover_same_model_def)
    from resume_run [OF this, where st = "ss_state s" and handle = "rs_handle resp"
        and gen = "rs_generation resp" and applied = "rs_last_seq_applied resp"]
    have "only_touches (s\<lparr> ss_env := e, ss_state := ?st \<rparr>) s' \<and> recovery_ok t (ss_state s) (ss_state s') res"
      by simp
    then show ?thesis by (blast intro: only_touches_after(1))
  qed
qed

lemma recover_run:
  assumes "run_state (recover h t) s = ((sameKey, res), s')"
  shows "only_touches s s'" "recovery_ok t (ss_state s) (ss_state s') res"
    and "sameKey \<longleftrightarrow> w_compatibility_key t = st_compatibility_key (ss_state s)"
proof -
  have "run_state (if w_compatibility_key t = st_compatibility_key (ss_state s) then recover_same_model h t
      else recover_cross_model h t) s = (res, s')"
    and key: "sameKey \<longleftrightarrow> w_compatibility_key t = st_compatibility_key (ss_state s)"
    using assms by (auto simp: recover_def Let_def split: prod.splits)
  then have "only_touches s s' \<and> recovery_ok t (ss_state s) (ss_state s') res"
    using same_run [of h t s res s'] cross_run [of h t s res s'] by (simp split: if_splits)
  then show "only_touches s s'" "recovery_ok t (ss_state s) (ss_state s') res" by blast+
  show "sameKey \<longleftrightarrow> w_compatibility_key t = st_compatibility_key (ss_state s)" by (rule key)
qed

section \<open>The binding ledger\<close>

definition outstanding :: "router \<Rightarrow> string \<Rightarrow> int" where
  "outstanding r i = (case router_find r i of None \<Rightarrow> 0 | Some w \<Rightarrow> w_outstanding w)"

definition same_fleet :: "router \<Rightarrow> router \<Rightarrow> bool" where
  "same_fleet r r' \<longleftrightarrow> map w_id r' = map w_id r \<and> map w_outstanding r' = map w_outstanding r
     \<and> map w_compatibility_key r' = map w_compatibility_key r"

lemma same_fleet_refl [simp]: "same_fleet r r"
  by (simp add: same_fleet_def)

lemma same_fleet_trans: "same_fleet r r1 \<Longrightarrow> same_fleet r1 r2 \<Longrightarrow> same_fleet r r2"
  by (simp add: same_fleet_def)

lemma same_fleet_outstanding: "same_fleet r r' \<Longrightarrow> outstanding r' i = outstanding r i"
proof (induction r arbitrary: r')
  case Nil
  then show ?case by (simp add: same_fleet_def)
next
  case (Cons w ws)
  then obtain w' ws' where "r' = w' # ws'" "w_id w' = w_id w" "w_outstanding w' = w_outstanding w"
    "same_fleet ws ws'" by (auto simp: same_fleet_def map_eq_Cons_conv)
  with Cons.IH [of ws'] show ?case by (simp add: outstanding_def router_find_def)
qed

lemma router_find_update:
  assumes "\<And>w. w_id (f w) = w_id w"
  shows "router_find (update_worker i f r) j
    = (if i = j then map_option f (router_find r j) else router_find r j)"
  by (induction r) (auto simp: router_find_def assms)

definition in_fleet :: "router \<Rightarrow> string \<Rightarrow> int" where
  "in_fleet r i = (if i \<in> w_id ` set r then 1 else 0)"

lemma router_find_none: "router_find r i = None \<longleftrightarrow> i \<notin> w_id ` set r"
  by (auto simp: router_find_def find_None_iff)

lemma in_fleet_find: "in_fleet r i = (case router_find r i of None \<Rightarrow> 0 | Some _ \<Rightarrow> 1)"
  using router_find_none [of r i] by (auto simp: in_fleet_def split: option.splits)

lemma outstanding_bind:
  "outstanding (update_worker i bind_session r) j = outstanding r j + (if i = j then in_fleet r i else 0)"
  "outstanding (update_worker i unbind_session r) j = outstanding r j - (if i = j then in_fleet r i else 0)"
  by (auto simp: outstanding_def router_find_update in_fleet_find bind_session_def unbind_session_def
      split: option.splits)

lemma update_ids [simp]:
  "map w_id (update_worker i bind_session r) = map w_id r"
  "map w_id (update_worker i unbind_session r) = map w_id r"
  by (simp_all add: update_worker_ids)

lemma in_fleet_ids: "map w_id r' = map w_id r \<Longrightarrow> in_fleet r' i = in_fleet r i"
  unfolding in_fleet_def by (metis list.set_map)

lemma report_keeps_fleet: "same_fleet r (router_report now i ok l r)"
proof -
  have "same_fleet ws (update_worker i (\<lambda>w. report_worker w ok l (peer_p95 r w) now) ws)" for ws
    by (induction ws) (simp_all add: same_fleet_def report_worker_def eject_def Let_def)
  then show ?thesis by (simp add: router_report_def)
qed

lemma report_keeps_inv: "router_inv r \<Longrightarrow> router_inv (router_report now i ok l r)"
  using router_do_inv [of r "RReport now i ok l"] by simp

lemma pick_keeps_fleet:
  assumes "set perm = {..<length r}" "pick now perm mode ex key r = (res, r')"
  shows "same_fleet r r'"
proof -
  have len: "length r' = length r" and each: "\<And>j. j < length r \<Longrightarrow>
      after_pick res (\<exists>i. res = Some i \<and> due_for_probe (r ! i) now) j (r ! j) (r' ! j)"
    using pick_result [OF assms] by blast+
  show ?thesis unfolding same_fleet_def
    using after_pick_frame(1,5,6) [OF each] len by (auto intro!: nth_equalityI)
qed

text \<open>\<open>rand.Perm(n)\<close> is a permutation of the numbers below \<open>n\<close>.\<close>

definition host_ok :: "'e host \<Rightarrow> bool" where
  "host_ok h \<longleftrightarrow> (\<forall>n e. set (fst (ho_perm h n e)) = {..<n})"

lemma pick_act_run:
  assumes host: "host_ok h" and inv: "router_inv (ss_router s)"
    and run: "run_state (pick_act h mode ex key) s = (res, s')"
  shows "\<exists>e r. s' = s\<lparr>ss_env := e, ss_router := r\<rparr>"
    and "same_fleet (ss_router s) (ss_router s')" "router_inv (ss_router s')"
    and "\<And>w. res = Some w \<Longrightarrow> w_id w \<notin> set ex \<and> w \<in> set (ss_router s')"
proof -
  obtain perm e1 where perm: "ho_perm h (length (ss_router s)) (ss_env s) = (perm, e1)" by fastforce
  obtain now e2 where now: "ho_now h e1 = (now, e2)" by fastforce
  obtain i r where p: "pick now perm mode (\<lambda>i. i \<in> set ex) key (ss_router s) = (i, r)" by fastforce
  have s': "s' = s\<lparr>ss_env := e2, ss_router := r\<rparr>" and res: "res = map_option (\<lambda>i. r ! i) i"
    using run by (auto simp: pick_act_def perm now p split: option.splits)
  have ok: "set perm = {..<length (ss_router s)}" using host perm by (metis host_ok_def fst_conv)
  show "\<exists>e r. s' = s\<lparr>ss_env := e, ss_router := r\<rparr>" using s' by blast
  show "same_fleet (ss_router s) (ss_router s')" using pick_keeps_fleet [OF ok p] s' by simp
  show "router_inv (ss_router s')" using router_inv_pick [OF inv ok p] s' by simp
  show "w_id w \<notin> set ex \<and> w \<in> set (ss_router s')" if some: "res = Some w" for w
  proof -
    obtain j where j: "i = Some j" "w = r ! j" using some res by auto
    then have "j < length r" "candidate now mode (\<lambda>i. i \<in> set ex) (ss_router s ! j)"
      "w_id w = w_id (ss_router s ! j)"
      using pick_result [OF ok p] pick_keeps_fleet [OF ok p]
      by (auto simp: same_fleet_def dest: arg_cong [where f = "\<lambda>xs. xs ! j"])
    then show ?thesis using s' j(2) by (auto simp: candidate_def)
  qed
qed

section \<open>The failure loop\<close>

text \<open>
  How a failure handling that began in \<open>s\<close> may end in \<open>s'\<close>: the fields recovery does
  not own are as they were, and either the session is where it was and no binding
  moved, or it moved as a whole, state and binding, to another worker of the fleet.
\<close>

definition settled :: "string \<Rightarrow> string list \<Rightarrow> ('e, 'd, 'z) sess_scheme \<Rightarrow> failover \<Rightarrow> ('e, 'd, 'z) sess_scheme \<Rightarrow> bool" where
  "settled owner excluded s res s' \<longleftrightarrow>
     ss_final s' = ss_final s \<and> ss_pipeline s' = ss_pipeline s \<and> ss_journal s' = ss_journal s
   \<and> ss_checkpoints s' = ss_checkpoints s \<and> sess.more s' = sess.more s
   \<and> router_inv (ss_router s') \<and> map w_id (ss_router s') = map w_id (ss_router s)
   \<and> (case res of
        FPanic _ \<Rightarrow> st_finalized (ss_state s)
      | FError _ \<Rightarrow> ss_state s' = ss_state s \<and> same_fleet (ss_router s) (ss_router s')
      | FOk wid ev _ \<Rightarrow> wid \<notin> set excluded \<and> wid \<in> w_id ` set (ss_router s) \<and> \<not> st_finalized (ss_state s)
          \<and> ev = reset_of (ss_state s)
          \<and> (\<exists>t. w_id t = wid \<and> moved_to t (ss_state s) (ss_state s'))
          \<and> (\<forall>j. outstanding (ss_router s') j = outstanding (ss_router s) j
               + (if j = wid then 1 else 0) - (if j = owner then in_fleet (ss_router s) owner else 0)))"

lemma settled_error:
  assumes "ss_final s' = ss_final s" "ss_pipeline s' = ss_pipeline s" "ss_journal s' = ss_journal s"
    "ss_checkpoints s' = ss_checkpoints s" "sess.more s' = sess.more s" "router_inv (ss_router s')"
    "same_fleet (ss_router s) (ss_router s')" "ss_state s' = ss_state s"
  shows "settled owner excluded s (FError err) s'"
  using assms by (simp add: settled_def same_fleet_def)

text \<open>A settled continuation after a fruitless attempt settles the whole.\<close>

lemma settled_after:
  assumes "settled owner tried s1 res s'" "set excluded \<subseteq> set tried"
    and "ss_final s1 = ss_final s" "ss_pipeline s1 = ss_pipeline s" "ss_journal s1 = ss_journal s"
    "ss_checkpoints s1 = ss_checkpoints s" "sess.more s1 = sess.more s" "ss_state s1 = ss_state s"
    "same_fleet (ss_router s) (ss_router s1)"
  shows "settled owner excluded s res s'"
proof -
  have ids: "map w_id (ss_router s1) = map w_id (ss_router s)" using assms(9) by (simp add: same_fleet_def)
  then have ids': "w_id ` set (ss_router s1) = w_id ` set (ss_router s)" by (metis list.set_map)
  show ?thesis
    using assms(1,2) same_fleet_outstanding [OF assms(9)] in_fleet_ids [OF ids] same_fleet_trans [OF assms(9)]
    by (cases res) (auto simp: settled_def assms(3-8) ids ids')
qed

lemma settled_ok:
  assumes state: "only_touches s1 s2" "recovery_ok t (ss_state s1) (ss_state s2) (ROk ev txt')"
    and s1: "s1 = s\<lparr>ss_env := e, ss_router := r1\<rparr>" "same_fleet (ss_router s) r1" "router_inv r1"
      "w_id t \<notin> set excluded" "t \<in> set r1"
    and run: "run_state (do { count c; set_router (update_worker (w_id t) bind_session);
        set_router (update_worker owner unbind_session); report_act h (w_id t) True 0;
        State_Monad.return (FOk (w_id t) ev txt') }) s2 = (res, s')"
  shows "settled owner excluded s res s'"
proof -
  note same = only_touchesD [OF state(1)]
  have ids: "map w_id r1 = map w_id (ss_router s)" using s1(2) by (simp add: same_fleet_def)
  have member: "w_id t \<in> w_id ` set (ss_router s)" using s1(5) ids by (metis imageI list.set_map)
  let ?r2 = "update_worker owner unbind_session (update_worker (w_id t) bind_session r1)"
  have res: "res = FOk (w_id t) ev txt'" and st: "ss_state s' = ss_state s2"
    and rest: "ss_final s' = ss_final s" "ss_pipeline s' = ss_pipeline s" "ss_journal s' = ss_journal s"
      "ss_checkpoints s' = ss_checkpoints s" "sess.more s' = sess.more s"
    using run same s1(1) by (auto simp: s1(1))
  obtain now where r': "ss_router s' = router_report now (w_id t) True 0 ?r2"
    using run same(4) s1(1) by (auto simp: s1(1))
  have inv: "router_inv ?r2" by (intro router_inv_update load_inv s1(3)) simp_all
  have ids2: "map w_id (ss_router s') = map w_id (ss_router s)"
    using report_keeps_fleet [of ?r2 now "w_id t" True 0] by (simp add: r' same_fleet_def ids)
  have ledger: "outstanding (ss_router s') j = outstanding (ss_router s) j
      + (if j = w_id t then 1 else 0) - (if j = owner then in_fleet (ss_router s) owner else 0)" for j
  proof -
    have "in_fleet r1 (w_id t) = 1" using member in_fleet_ids [OF ids] by (simp add: in_fleet_def)
    moreover have "in_fleet (update_worker (w_id t) bind_session r1) owner = in_fleet (ss_router s) owner"
      using in_fleet_ids [OF update_ids(1)] in_fleet_ids [OF ids] by simp
    ultimately show ?thesis
      unfolding r' same_fleet_outstanding [OF report_keeps_fleet] outstanding_bind
      using same_fleet_outstanding [OF s1(2)] by simp
  qed
  have "moved_to t (ss_state s) (ss_state s')" "ev = reset_of (ss_state s)" "\<not> st_finalized (ss_state s)"
    using state(2) st by (simp_all add: recovery_ok_def s1(1))
  then show ?thesis
    using rest ids2 ledger member s1(4) report_keeps_inv [OF inv] by (auto simp: settled_def res r')
qed

text \<open>The state an attempt that failed leaves to the next one.\<close>

definition abandoned :: "'e host \<Rightarrow> worker \<Rightarrow> ('e, 'd, 'z) sess_scheme \<Rightarrow> ('e, 'd, 'z) sess_scheme \<Rightarrow>
    ('e, 'd, 'z) sess_scheme" where
  "abandoned h t s s2 =
     (let e = (if st_worker_id (ss_state s2) \<noteq> st_worker_id (ss_state s)
                  \<or> st_handle (ss_state s2) \<noteq> st_handle (ss_state s)
               then snd (c_close (ho_client h (w_id t)) (st_handle (ss_state s2)) (ss_env s2)) else ss_env s2)
      in s2\<lparr> ss_state := ss_state s, ss_env := snd (ho_now h e),
             ss_router := router_report (fst (ho_now h e)) (w_id t) False 0 (ss_router s2) \<rparr>)"

lemma failover_loop_retry:
  assumes "run_state (pick_act h (st_mode (ss_state s)) excluded (st_compatibility_key (ss_state s))) s = (Some t, s1)"
    and "run_state (recover h t) s1 = ((sameKey, RError err'), s2)"
  shows "run_state (failover_loop h owner (Suc n) excluded err) s
    = run_state (failover_loop h owner n (w_id t # excluded) err') (abandoned h t s s2)"
  using assms
  by (cases "st_worker_id (ss_state s2) \<noteq> st_worker_id (ss_state s) \<or> st_handle (ss_state s2) \<noteq> st_handle (ss_state s)")
    (simp_all add: abandoned_def Let_def split_beta)

lemma failover_loop_settles:
  assumes host: "host_ok h"
  shows "router_inv (ss_router s) \<Longrightarrow> run_state (failover_loop h owner n excluded err) s = (res, s') \<Longrightarrow>
    settled owner excluded s res s'"
proof (induction n arbitrary: s excluded err)
  case 0
  then show ?case by (auto simp: count_exhausted_def intro!: settled_error)
next
  case (Suc n)
  obtain picked s1 where pick: "run_state (pick_act h (st_mode (ss_state s)) excluded
      (st_compatibility_key (ss_state s))) s = (picked, s1)" by fastforce
  note p = pick_act_run [OF host Suc.prems(1) pick]
  obtain e r1 where s1: "s1 = s\<lparr>ss_env := e, ss_router := r1\<rparr>" using p(1) by blast
  have fleet: "same_fleet (ss_router s) r1" "router_inv r1" using p(2,3) s1 by simp_all
  show ?case
  proof (cases picked)
    case None
    with Suc.prems(2) pick have "res = FError NoReplacement"
      "s' = s1\<lparr>ss_metrics := (ss_metrics s1)\<lparr>mt_failover_exhausted := mt_failover_exhausted (ss_metrics s1) + 1\<rparr>\<rparr>"
      by (simp_all add: count_exhausted_def)
    then show ?thesis using fleet by (auto simp: s1 intro!: settled_error)
  next
    case (Some t)
    have t: "w_id t \<notin> set excluded" "t \<in> set r1" using p(4) [OF Some] s1 by simp_all
    obtain sameKey out s2 where rec: "run_state (recover h t) s1 = ((sameKey, out), s2)"
      by (metis surj_pair)
    note touched = recover_run(1) [OF rec] and ok = recover_run(2) [OF rec]
    note same = only_touchesD [OF touched]
    show ?thesis
    proof (cases out)
      case (RPanic p)
      with Suc.prems(2) pick Some rec have "res = FPanic p" "s' = s2" by simp_all
      then show ?thesis using ok same fleet by (simp add: settled_def RPanic recovery_ok_def s1 same_fleet_def)
    next
      case (ROk ev regenerated)
      let ?c = "\<lambda>m. if sameKey then m\<lparr>mt_failover_same_model := mt_failover_same_model m + 1\<rparr>
          else m\<lparr>mt_failover_cross_model := mt_failover_cross_model m + 1\<rparr>"
      have "run_state (do { count ?c; set_router (update_worker (w_id t) bind_session);
          set_router (update_worker owner unbind_session); report_act h (w_id t) True 0;
          State_Monad.return (FOk (w_id t) ev regenerated) }) s2 = (res, s')"
        using Suc.prems(2) pick Some rec by (simp add: ROk)
      then show ?thesis by (rule settled_ok [OF touched ok [unfolded ROk] s1 fleet t])
    next
      case (RError err')
      have loop: "run_state (failover_loop h owner n (w_id t # excluded) err') (abandoned h t s s2) = (res, s')"
        using Suc.prems(2) failover_loop_retry [OF pick [unfolded Some] rec [unfolded RError]] by simp
      show ?thesis
      proof (rule settled_after [OF Suc.IH [OF _ loop]])
        show "set excluded \<subseteq> set (w_id t # excluded)" by auto
        show "same_fleet (ss_router s) (ss_router (abandoned h t s s2))"
          using same_fleet_trans [OF fleet(1) report_keeps_fleet] same(4) s1 by (simp add: abandoned_def Let_def)
      qed (use same s1 report_keeps_inv [OF fleet(2)] in \<open>simp_all add: abandoned_def Let_def\<close>)
    qed
  qed
qed

lemma failure_settles:
  assumes "host_ok h" "router_inv (ss_router s)" "run_state (handle_backend_failure h cause) s = (res, s')"
  shows "settled (st_worker_id (ss_state s)) [st_worker_id (ss_state s)] s res s'"
proof -
  let ?w = "st_worker_id (ss_state s)" and ?e = "ss_env s"
  have loop: "run_state (failover_loop h ?w MaxFailoverAttempts [?w] (Backend cause))
      (s\<lparr> ss_env := snd (ho_now h ?e), ss_router := router_report (fst (ho_now h ?e)) ?w False 0 (ss_router s) \<rparr>)
      = (res, s')"
    using assms(3) by (simp add: handle_backend_failure_def Let_def)
  have "settled ?w [?w] (s\<lparr> ss_env := snd (ho_now h ?e),
      ss_router := router_report (fst (ho_now h ?e)) ?w False 0 (ss_router s) \<rparr>) res s'"
    by (rule failover_loop_settles [OF assms(1) _ loop]) (simp add: report_keeps_inv assms(2))
  from settled_after [OF this, of "[?w]" s] show ?thesis by (simp add: report_keeps_fleet)
qed

section \<open>What a recovery pushes\<close>

text \<open>
  A client whose pushes are observed: \<open>hist\<close> reads the requests made so far off the
  environment.
\<close>

definition pushes_logged :: "('e \<Rightarrow> push_req list) \<Rightarrow> 'e client \<Rightarrow> bool" where
  "pushes_logged hist c \<longleftrightarrow> (\<forall>r e. hist (snd (c_push c r e)) = hist e @ [r])
     \<and> (\<forall>r e. hist (snd (c_open c r e)) = hist e) \<and> (\<forall>r e. hist (snd (c_restore c r e)) = hist e)"

definition carries :: "push_req \<Rightarrow> chunk \<Rightarrow> bool" where
  "carries r c \<longleftrightarrow> pq_seq_start r = ck_seq_start c \<and> pq_seq_end r = ck_seq_end c \<and> pq_audio r = ck_bytes c"

lemma replay_pushes:
  assumes "pushes_logged hist c" "run_state (replay_chunks c cs lt) s = (Inr txt', s')"
  shows "\<exists>reqs. hist (ss_env s') = hist (ss_env s) @ reqs \<and> list_all2 carries reqs cs
    \<and> (\<forall>r \<in> set reqs. pq_handle r = st_handle (ss_state s))
    \<and> (txt' = None \<longleftrightarrow> lt = None \<and> cs = [])"
  using assms(2)
proof (induction cs arbitrary: lt s)
  case Nil
  then show ?case by simp
next
  case (Cons ck cks)
  let ?r = "push_of (ss_state s) ck"
  obtain resp e where push: "c_push c ?r (ss_env s) = (Inr resp, e)"
    using Cons.prems by (cases "c_push c ?r (ss_env s)") (auto split: sum.splits)
  let ?s1 = "s\<lparr> ss_env := e, ss_state := (ss_state s)\<lparr> st_generation := pp_generation resp,
      st_last_applied_seq := pp_last_seq_applied resp \<rparr> \<rparr>"
  have "run_state (replay_chunks c cks (Some (pp_text resp))) ?s1 = (Inr txt', s')"
    using Cons.prems push by simp
  from Cons.IH [OF this] obtain reqs where reqs: "hist (ss_env s') = hist e @ reqs" "list_all2 carries reqs cks"
    "\<forall>r \<in> set reqs. pq_handle r = st_handle (ss_state s)" "txt' \<noteq> None"
    by (elim exE conjE, intro that) simp_all
  have "hist (snd (c_push c ?r (ss_env s))) = hist (ss_env s) @ [?r]"
    using assms(1) by (simp add: pushes_logged_def)
  then have "hist e = hist (ss_env s) @ [?r]" by (simp add: push)
  moreover have "carries ?r ck" "pq_handle ?r = st_handle (ss_state s)"
    by (simp_all add: carries_def push_of_def)
  ultimately show ?case using reqs by (intro exI [of _ "?r # reqs"]) simp
qed

lemma resume_pushes:
  assumes hist: "pushes_logged hist (ho_client h (w_id t))"
    and run: "run_state (resume h t chunks tally) s = (ROk ev txt', s')"
  shows "\<exists>reqs st. hist (ss_env s') = hist (ss_env s) @ reqs
    \<and> list_all2 carries reqs (chunks (s\<lparr>ss_state := st\<rparr>))
    \<and> (\<forall>r \<in> set reqs. pq_handle r = st_handle (ss_state s'))"
proof -
  let ?st = "(ss_state s)\<lparr>st_partial_revision := st_partial_revision (ss_state s) + 1, st_last_partial := ''''\<rparr>"
  let ?s = "s\<lparr>ss_state := ?st\<rparr>"
  obtain s2 where replay: "run_state (replay_chunks (ho_client h (w_id t)) (chunks ?s) None) ?s = (Inr txt', s2)"
    and s': "s' = s2\<lparr>ss_metrics := tally (ss_metrics s2)\<rparr>"
    using run by (auto simp: resume_def run_partial_reset split: if_splits prod.splits sum.splits)
  from replay_run [OF replay] have "st_handle (ss_state s') = st_handle (ss_state s)" using s' by auto
  with replay_pushes [OF hist replay] s' show ?thesis by auto
qed

text \<open>
  C10: a successful full replay pushes the audio since the last committed final, cut by
  the pipeline's \<open>Recut\<close>, exactly once and in order, every push on the handle the
  session holds afterwards, and nothing else.
\<close>

theorem full_replay_is_exact:
  assumes "pushes_logged hist (ho_client h (w_id t))"
    and "run_state (recover_cross_model h t) s = (ROk ev txt', s')"
  shows "\<exists>reqs. hist (ss_env s') = hist (ss_env s) @ reqs
    \<and> list_all2 carries reqs (pl_recut (ss_pipeline s) (read_from_committed (ss_journal s)))
    \<and> (\<forall>r \<in> set reqs. pq_handle r = st_handle (ss_state s'))
    \<and> st_worker_id (ss_state s') = w_id t"
proof -
  let ?rq = "\<lparr> or_session_id = st_session_id (ss_state s), or_sample_rate_hz = st_sample_rate_hz (ss_state s),
      or_mode = st_mode (ss_state s) \<rparr>"
  obtain resp e where opened: "c_open (ho_client h (w_id t)) ?rq (ss_env s) = (Inr resp, e)"
    using assms(2) by (cases "c_open (ho_client h (w_id t)) ?rq (ss_env s)")
      (auto simp: recover_cross_model_def split: sum.splits)
  have "hist (snd (c_open (ho_client h (w_id t)) ?rq (ss_env s))) = hist (ss_env s)"
    using assms(1) by (simp add: pushes_logged_def)
  then have le: "hist e = hist (ss_env s)" by (simp add: opened)
  let ?st = "(ss_state s)\<lparr> st_worker_id := w_id t, st_handle := os_handle resp,
      st_compatibility_key := w_compatibility_key t, st_generation := os_generation resp,
      st_failover_epoch := st_failover_epoch (ss_state s) + 1 \<rparr>"
  have run: "run_state (resume h t (\<lambda>s. pl_recut (ss_pipeline s) (read_from_committed (ss_journal s)))
      (\<lambda>m. m\<lparr>mt_failover := mt_failover m + 1\<rparr>)) (s\<lparr>ss_env := e, ss_state := ?st\<rparr>) = (ROk ev txt', s')"
    using assms(2) opened by (simp add: recover_cross_model_def)
  have "st_worker_id (ss_state s') = w_id t"
    using cross_run [OF assms(2)] by (auto simp: recovery_ok_def moved_to_def)
  with resume_pushes [OF assms(1) run] show ?thesis by (auto simp: le)
qed

section \<open>What a recovery counts\<close>

lemma replay_metrics: "run_state (replay_chunks c cs lt) s = (res, s') \<Longrightarrow> ss_metrics s' = ss_metrics s"
  by (drule replay_run) auto

lemma resume_metrics:
  assumes "run_state (resume h t chunks tally) s = (res, s')"
  shows "ss_metrics s' = (case res of ROk _ _ \<Rightarrow> tally (ss_metrics s) | _ \<Rightarrow> ss_metrics s)"
  using assms
  by (auto simp: resume_def run_partial_reset dest!: replay_metrics split: if_splits prod.splits sum.splits)

text \<open>The counters a recovery moves, and by how much.\<close>

definition counted :: "int \<Rightarrow> int \<Rightarrow> counters \<Rightarrow> counters \<Rightarrow> bool" where
  "counted failovers restores m m' \<longleftrightarrow>
     mt_failover m' = mt_failover m + failovers
   \<and> mt_checkpoint_restores m' = mt_checkpoint_restores m + restores
   \<and> mt_checkpoint_degraded m \<le> mt_checkpoint_degraded m'
   \<and> mt_failover_same_model m' = mt_failover_same_model m
   \<and> mt_failover_cross_model m' = mt_failover_cross_model m
   \<and> mt_failover_exhausted m' = mt_failover_exhausted m"

definition success :: "recovery \<Rightarrow> int" where
  "success res = (case res of ROk _ _ \<Rightarrow> 1 | _ \<Rightarrow> 0)"

lemma cross_counts:
  assumes "run_state (recover_cross_model h t) s = (res, s')"
  shows "counted (success res) 0 (ss_metrics s) (ss_metrics s')"
  using assms
  by (auto simp: recover_cross_model_def counted_def success_def dest!: resume_metrics
      split: prod.splits sum.splits recovery.splits)

lemma degrade_counts:
  assumes "run_state (degrade h t) s = (res, s')"
  shows "counted (success res) 0 (ss_metrics s) (ss_metrics s')"
proof -
  let ?s = "s\<lparr>ss_metrics := (ss_metrics s)\<lparr>mt_checkpoint_degraded := mt_checkpoint_degraded (ss_metrics s) + 1\<rparr>\<rparr>"
  have "run_state (recover_cross_model h t) ?s = (res, s')" using assms by (simp add: degrade_def)
  from cross_counts [OF this] show ?thesis by (simp add: counted_def)
qed

lemma same_counts:
  assumes run: "run_state (recover_same_model h t) s = (res, s')"
  shows "\<exists>n. counted (success res) n (ss_metrics s) (ss_metrics s') \<and> 0 \<le> n \<and> n \<le> success res"
proof (cases "\<exists>cp. cps_latest (st_session_id (ss_state s)) (ss_checkpoints s) = Some cp
    \<and> can_restore (ho_sha256 h) cp (w_compatibility_key t)")
  case False
  then have "run_state (degrade h t) s = (res, s')"
    using run by (auto simp: recover_same_model_def split: option.splits if_splits)
  from degrade_counts [OF this] show ?thesis by (intro exI [of _ 0]) (simp add: success_def split: recovery.splits)
next
  case True
  then obtain cp where cp: "cps_latest (st_session_id (ss_state s)) (ss_checkpoints s) = Some cp"
    "can_restore (ho_sha256 h) cp (w_compatibility_key t)" by blast
  obtain out e where restored: "c_restore (ho_client h (w_id t))
      \<lparr> rr_checkpoint_blob = cc_state_blob cp, rr_last_seq_applied = cc_seq cp \<rparr> (ss_env s) = (out, e)"
    by fastforce
  show ?thesis
  proof (cases out)
    case (Inl err)
    then have "run_state (degrade h t) (s\<lparr>ss_env := e\<rparr>) = (res, s')"
      using run cp restored by (simp add: recover_same_model_def)
    from degrade_counts [OF this] show ?thesis by (intro exI [of _ 0]) (simp add: success_def split: recovery.splits)
  next
    case (Inr resp)
    have "counted (success res) (success res) (ss_metrics s) (ss_metrics s')"
      using run cp restored Inr
      by (auto simp: recover_same_model_def counted_def success_def dest!: resume_metrics split: recovery.splits)
    then show ?thesis by (intro exI [of _ "success res"]) (simp add: success_def split: recovery.splits)
  qed
qed

lemma recover_counts:
  assumes "run_state (recover h t) s = ((sameKey, res), s')"
  shows "\<exists>n. counted (success res) n (ss_metrics s) (ss_metrics s') \<and> 0 \<le> n
    \<and> n \<le> (if sameKey then success res else 0)"
proof -
  have "run_state (if w_compatibility_key t = st_compatibility_key (ss_state s) then recover_same_model h t
      else recover_cross_model h t) s = (res, s')"
    "sameKey \<longleftrightarrow> w_compatibility_key t = st_compatibility_key (ss_state s)"
    using assms by (auto simp: recover_def Let_def split: prod.splits)
  then show ?thesis using same_counts [of h t s res s'] cross_counts [of h t s res s']
    by (cases sameKey) (auto intro: exI [of _ 0])
qed

text \<open>
  The books of a failure handling: what \<open>FailoverTotal\<close> gained the two per-key
  counters gained together, restores only ever come with same-key failovers, and
  exhaustion is counted exactly when an error is returned.
\<close>

definition books :: "counters \<Rightarrow> failover \<Rightarrow> counters \<Rightarrow> bool" where
  "books m res m' \<longleftrightarrow>
     mt_failover m' - mt_failover m = mt_failover_same_model m' - mt_failover_same_model m
        + (mt_failover_cross_model m' - mt_failover_cross_model m)
   \<and> mt_failover m' - mt_failover m = (case res of FOk _ _ _ \<Rightarrow> 1 | _ \<Rightarrow> 0)
   \<and> mt_checkpoint_restores m' - mt_checkpoint_restores m \<le> mt_failover_same_model m' - mt_failover_same_model m
   \<and> mt_failover_exhausted m' - mt_failover_exhausted m = (case res of FError _ \<Rightarrow> 1 | _ \<Rightarrow> 0)"

lemma failover_loop_books:
  "run_state (failover_loop h owner n excluded err) s = (res, s') \<Longrightarrow> books (ss_metrics s) res (ss_metrics s')"
proof (induction n arbitrary: s excluded err)
  case 0
  then show ?case by (auto simp: count_exhausted_def books_def)
next
  case (Suc n)
  obtain picked s1 where pick: "run_state (pick_act h (st_mode (ss_state s)) excluded
      (st_compatibility_key (ss_state s))) s = (picked, s1)" by fastforce
  have m1: "ss_metrics s1 = ss_metrics s"
    using pick by (auto simp: pick_act_def split: prod.splits)
  show ?case
  proof (cases picked)
    case None
    with Suc.prems pick m1 show ?thesis by (auto simp: count_exhausted_def books_def)
  next
    case (Some t)
    obtain sameKey out s2 where rec: "run_state (recover h t) s1 = ((sameKey, out), s2)"
      by (metis surj_pair)
    obtain k where k: "counted (success out) k (ss_metrics s1) (ss_metrics s2)" "0 \<le> k"
      "k \<le> (if sameKey then success out else 0)" using recover_counts [OF rec] by blast
    show ?thesis
    proof (cases out)
      case (RPanic p)
      with Suc.prems pick Some rec k m1 show ?thesis by (auto simp: books_def counted_def success_def split: if_splits)
    next
      case (ROk ev regenerated)
      with Suc.prems pick Some rec k m1 show ?thesis by (auto simp: books_def counted_def success_def split: if_splits)
    next
      case (RError err')
      have loop: "run_state (failover_loop h owner n (w_id t # excluded) err') (abandoned h t s s2) = (res, s')"
        using Suc.prems failover_loop_retry [OF pick [unfolded Some] rec [unfolded RError]] by simp
      have m3: "ss_metrics (abandoned h t s s2) = ss_metrics s2" by (simp add: abandoned_def Let_def)
      from Suc.IH [OF loop] k m1 show ?thesis
        unfolding m3 by (auto simp: books_def counted_def success_def RError split: if_splits)
    qed
  qed
qed

section \<open>Properties\<close>

text \<open>A two-worker fleet whose workers accept everything and remember the pushes.\<close>

definition demo_backend :: "string \<Rightarrow> push_req list client" where
  "demo_backend i =
     \<lparr> c_open = (\<lambda>r e. (Inr \<lparr> os_handle = ''h-'' @ i, os_compatibility_key_hash = ''k'',
         os_capabilities = no_capabilities, os_generation = 0 \<rparr>, e)),
       c_push = (\<lambda>r e. (Inr \<lparr> pp_text = ''ok'', pp_last_seq_applied = pq_seq_end r,
         pp_generation = pq_expected_generation r + 1 \<rparr>, e @ [r])),
       c_flush = (\<lambda>hd e. (Inr \<lparr> fl_text = '''', fl_final = True \<rparr>, e)),
       c_restore = (\<lambda>r e. (Inl ErrNotSupported, e)), c_checkpoint = (\<lambda>hd e. (Inl ErrNotSupported, e)),
       c_close = (\<lambda>hd e. (None, e)), c_health = (\<lambda>e. (Inl ErrNotSupported, e)) \<rparr>"

definition demo_host :: "push_req list host" where
  "demo_host = \<lparr> ho_client = demo_backend, ho_now = (\<lambda>e. (100, e)), ho_perm = (\<lambda>n e. ([0..<n], e)),
     ho_sha256 = (\<lambda>b. b) \<rparr>"

definition demo_sess :: "(push_req list, unit) sess" where
  "demo_sess =
     \<lparr> ss_state = (new_inference_state ''s'' ''online'')\<lparr> st_worker_id := ''a'', st_handle := ''h0'',
         st_compatibility_key := ''k'', st_sample_rate_hz := 16000 \<rparr>,
       ss_final = None, ss_pipeline = Passthrough (new_passthrough 100 20),
       ss_journal = journal_append (journal_append (the (new_journal 4)) (twenty 1 True)) (twenty 2 True),
       ss_router = [new_worker 1 ''a'' ''k'' demo_caps, new_worker 1 ''b'' ''k'' demo_caps],
       ss_checkpoints = new_checkpoint_store, ss_metrics = zero_counters, ss_env = [] \<rparr>"

lemma demo_ok: "host_ok demo_host" "router_inv (ss_router demo_sess)"
  by (auto simp: host_ok_def demo_host_def) (simp add: router_inv_def demo_sess_def new_worker_inv, simp add: new_worker_def)

definition demo_failover :: "failover \<times> (push_req list, unit) sess" where
  "demo_failover = run_state (handle_backend_failure demo_host ErrNotSupported) demo_sess"

lemma failover_loop_success:
  assumes "run_state (pick_act h (st_mode (ss_state s)) excluded (st_compatibility_key (ss_state s))) s = (Some t, s1)"
    and "run_state (recover h t) s1 = ((sameKey, ROk ev txt'), s2)"
  shows "fst (run_state (failover_loop h owner (Suc n) excluded err) s) = FOk (w_id t) ev txt'"
  using assms by simp

definition demo_reported :: "(push_req list, unit) sess" where
  "demo_reported = snd (run_state (report_act demo_host ''a'' False 0) demo_sess)"

definition demo_pick :: "worker option \<times> (push_req list, unit) sess" where
  "demo_pick = run_state (pick_act demo_host ''online'' [''a''] ''k'') demo_reported"

lemma demo_failover_result:
  "fst demo_failover = FOk ''b'' (PartialResetEvent ''s'' ''u1'' 1 1) (Some ''ok'')"
proof -
  have w: "map_option w_id (fst demo_pick) = Some ''b''" by code_simp
  then obtain t where t: "fst demo_pick = Some t" "w_id t = ''b''" by auto
  have st: "st_mode (ss_state demo_reported) = ''online''" "st_compatibility_key (ss_state demo_reported) = ''k''"
    by (simp_all add: demo_reported_def demo_sess_def new_inference_state_def)
  have pick: "run_state (pick_act demo_host (st_mode (ss_state demo_reported)) [''a'']
      (st_compatibility_key (ss_state demo_reported))) demo_reported = (Some t, snd demo_pick)"
    unfolding st using t(1) by (metis demo_pick_def prod.collapse)
  have "fst (run_state (recover demo_host (the (fst demo_pick))) (snd demo_pick))
      = (True, ROk (PartialResetEvent ''s'' ''u1'' 1 1) (Some ''ok''))" by code_simp
  then obtain s2 where rec: "run_state (recover demo_host t) (snd demo_pick)
      = ((True, ROk (PartialResetEvent ''s'' ''u1'' 1 1) (Some ''ok'')), s2)"
    using t(1) by (metis option.sel prod.collapse)
  have eq: "demo_failover = run_state (failover_loop demo_host ''a'' (Suc 2) [''a''] (Backend ErrNotSupported)) demo_reported"
    by (simp add: demo_failover_def handle_backend_failure_def demo_reported_def MaxFailoverAttempts_def
        numeral_3_eq_3 numeral_2_eq_2 demo_sess_def Let_def del: failover_loop.simps)
  show ?thesis unfolding eq failover_loop_success [OF pick rec] t(2) ..
qed

text \<open>
  C2: failover is all or nothing. Whatever the workers answer, handling a backend
  failure either reports an error and leaves the session's state, its final, its journal
  and every worker's session count as they were, or moves the session to another worker
  of the fleet: state, epoch and key are the new worker's, the reset event carries the
  next revision, the new worker's count goes up by one and the old owner's down by one.
  The Go panic of the emitter needs an utterance that already has its final.
\<close>

theorem failover_is_all_or_nothing:
  assumes "host_ok h" "router_inv (ss_router s)" "run_state (handle_backend_failure h cause) s = (res, s')"
  shows "ss_final s' = ss_final s \<and> ss_journal s' = ss_journal s \<and> ss_checkpoints s' = ss_checkpoints s
   \<and> (case res of
        FPanic _ \<Rightarrow> st_finalized (ss_state s)
      | FError _ \<Rightarrow> ss_state s' = ss_state s
          \<and> (\<forall>i. outstanding (ss_router s') i = outstanding (ss_router s) i)
      | FOk wid ev _ \<Rightarrow> wid \<noteq> st_worker_id (ss_state s) \<and> wid \<in> w_id ` set (ss_router s)
          \<and> st_worker_id (ss_state s') = wid
          \<and> st_failover_epoch (ss_state s') = st_failover_epoch (ss_state s) + 1
          \<and> st_utterance_id (ss_state s') = st_utterance_id (ss_state s)
          \<and> ev = PartialResetEvent (st_session_id (ss_state s)) (utterance_label (ss_state s))
              (st_partial_revision (ss_state s')) (st_failover_epoch (ss_state s'))
          \<and> (\<forall>i. outstanding (ss_router s') i = outstanding (ss_router s) i + (if i = wid then 1 else 0)
               - (if i = st_worker_id (ss_state s) then in_fleet (ss_router s) i else 0)))"
proof -
  have "settled (st_worker_id (ss_state s)) [st_worker_id (ss_state s)] s res s'"
    by (rule failure_settles [OF assms])
  then show ?thesis
    by (cases res) (auto simp: settled_def moved_to_def reset_of_def same_fleet_outstanding utterance_label_def)
qed

theorem failover_is_all_or_nothing_witness:
  "st_worker_id (ss_state (snd demo_failover)) = ''b''
   \<and> outstanding (ss_router (snd demo_failover)) ''b'' = outstanding (ss_router demo_sess) ''b'' + 1"
proof -
  obtain s' where run: "run_state (handle_backend_failure demo_host ErrNotSupported) demo_sess
      = (FOk ''b'' (PartialResetEvent ''s'' ''u1'' 1 1) (Some ''ok''), s')"
    using demo_failover_result unfolding demo_failover_def by (metis prod.collapse)
  have "st_worker_id (ss_state demo_sess) = ''a''" by (simp add: demo_sess_def)
  with failover_is_all_or_nothing [OF demo_ok run] run show ?thesis by (simp add: demo_failover_def)
qed

theorem full_replay_is_exact_witness:
  "\<exists>reqs. ss_env (snd (run_state (recover_cross_model demo_host (new_worker 1 ''b'' ''k'' demo_caps)) demo_sess)) = reqs
    \<and> list_all2 carries reqs (pl_recut (ss_pipeline demo_sess) (read_from_committed (ss_journal demo_sess)))
    \<and> length reqs = 2"
proof -
  let ?w = "new_worker 1 ''b'' ''k'' demo_caps"
  have "pushes_logged (\<lambda>e. e) (ho_client demo_host (w_id ?w))"
    by (simp add: pushes_logged_def demo_host_def demo_backend_def)
  moreover have "fst (run_state (recover_cross_model demo_host ?w) demo_sess)
      = ROk (PartialResetEvent ''s'' ''u1'' 1 1) (Some ''ok'')" by code_simp
  then obtain s' where run: "run_state (recover_cross_model demo_host ?w) demo_sess
      = (ROk (PartialResetEvent ''s'' ''u1'' 1 1) (Some ''ok''), s')" by (metis prod.collapse)
  have "length (ss_env (snd (run_state (recover_cross_model demo_host ?w) demo_sess))) = 2" by code_simp
  moreover have "ss_env demo_sess = []" by (simp add: demo_sess_def)
  ultimately show ?thesis using full_replay_is_exact [of "\<lambda>e. e", OF _ run] run by simp
qed

text \<open>
  The failover counters add up. Handling a failure adds as much to the total as to
  the same-model and cross-model counters together, one exactly when it succeeds;
  exhaustion counts exactly the errors, and restores never outnumber same-key failovers.
\<close>

theorem failover_counters_add_up:
  assumes "run_state (handle_backend_failure h cause) s = (res, s')"
  shows "books (ss_metrics s) res (ss_metrics s')"
proof -
  let ?w = "st_worker_id (ss_state s)" and ?e = "ss_env s"
  have "run_state (failover_loop h ?w MaxFailoverAttempts [?w] (Backend cause))
      (s\<lparr> ss_env := snd (ho_now h ?e), ss_router := router_report (fst (ho_now h ?e)) ?w False 0 (ss_router s) \<rparr>)
      = (res, s')"
    using assms by (simp add: handle_backend_failure_def Let_def)
  from failover_loop_books [OF this] show ?thesis by simp
qed

theorem failover_counters_add_up_witness:
  "mt_failover (ss_metrics (snd demo_failover)) = 1 \<and> mt_failover_exhausted (ss_metrics (snd demo_failover)) = 0"
proof -
  obtain s' where run: "run_state (handle_backend_failure demo_host ErrNotSupported) demo_sess
      = (FOk ''b'' (PartialResetEvent ''s'' ''u1'' 1 1) (Some ''ok''), s')"
    using demo_failover_result unfolding demo_failover_def by (metis prod.collapse)
  have "mt_failover (ss_metrics demo_sess) = 0" "mt_failover_exhausted (ss_metrics demo_sess) = 0"
    by (simp_all add: demo_sess_def zero_counters_def)
  with failover_counters_add_up [OF run] run show ?thesis by (simp add: demo_failover_def books_def)
qed

lemma length_hex_encode: "length (hex_encode bs) = 2 * length bs"
  by (induction bs) (simp_all add: hex_encode_def)

lemma corrupt_checksum: "corruptMark \<noteq> checksum sha256 blob"
proof
  assume "corruptMark = checksum sha256 blob"
  then have "length corruptMark = 2 * length (sha256 blob)"
    by (metis checksum_def length_hex_encode)
  then show False by (simp add: corruptMark_def) presburger
qed

text \<open>
  C26: a checkpoint is restored only if it is intact and of the target's key. Straight
  after \<open>Store\<close> the latest checkpoint validates for exactly the key it was stored under;
  after \<open>Corrupt\<close> it validates for none, whatever the hash function, so a same-model
  recovery is the full replay with one more degradation counted.
\<close>

theorem only_intact_checkpoints_are_restored:
  shows "(\<exists>cp. cps_latest sid (cps_store (ho_sha256 h) sid key resp (Some m)) = Some cp
      \<and> cc_state_blob cp = cp_checkpoint_blob resp \<and> cc_seq cp = cp_last_seq_applied resp
      \<and> (can_restore (ho_sha256 h) cp k \<longleftrightarrow> k = key))
    \<and> run_state (recover_same_model h t)
       (s\<lparr>ss_checkpoints := snd (cps_corrupt (st_session_id (ss_state s)) cs)\<rparr>)
     = run_state (degrade h t) (s\<lparr>ss_checkpoints := snd (cps_corrupt (st_session_id (ss_state s)) cs)\<rparr>)"
proof (rule conjI)
  show "\<exists>cp. cps_latest sid (cps_store (ho_sha256 h) sid key resp (Some m)) = Some cp
      \<and> cc_state_blob cp = cp_checkpoint_blob resp \<and> cc_seq cp = cp_last_seq_applied resp
      \<and> (can_restore (ho_sha256 h) cp k \<longleftrightarrow> k = key)"
    by (auto simp: cps_latest_def cps_store_def new_checkpoint_def can_restore_def)
  have "\<not> can_restore (ho_sha256 h) (cp\<lparr>cc_checksum := corruptMark\<rparr>) k" for cp k
    by (simp add: can_restore_def corrupt_checksum)
  then show "run_state (recover_same_model h t)
       (s\<lparr>ss_checkpoints := snd (cps_corrupt (st_session_id (ss_state s)) cs)\<rparr>)
     = run_state (degrade h t) (s\<lparr>ss_checkpoints := snd (cps_corrupt (st_session_id (ss_state s)) cs)\<rparr>)"
    by (auto simp: recover_same_model_def cps_latest_def cps_corrupt_def split: option.splits)
qed

end
