(* ===== verification/Hub.thy ===== *)
theory Hub
  imports Session Window Metrics Json
begin

text \<open>
  The dashboard's observation point, \<^verbatim>\<open>internal/dash/hub.go\<close>, and the event feed of
  \<^verbatim>\<open>internal/dash/sse.go\<close>: live and ended streams with their bounded logs, the ring of
  notable events, the subscribers' buffered channels and the latency rings. The clock
  is an argument. A nil hub is \<open>None\<close>, on which every hook does nothing. Recording and
  broadcasting are two steps, as in the code, which releases the lock in between.
\<close>

section \<open>Latency windows\<close>

record window =
  wn_buf :: "float64 list"
  wn_next :: nat
  wn_full :: bool

definition new_window :: "nat \<Rightarrow> window" where
  "new_window n = \<lparr> wn_buf = replicate n 0, wn_next = 0, wn_full = False \<rparr>"

definition window_add :: "window \<Rightarrow> float64 \<Rightarrow> window" where
  "window_add w v =
     (let w1 = w\<lparr> wn_buf := (wn_buf w)[wn_next w := v], wn_next := (wn_next w + 1) mod length (wn_buf w) \<rparr>
      in if wn_next w1 = 0 then w1\<lparr>wn_full := True\<rparr> else w1)"

definition samples :: "window \<Rightarrow> float64 list" where
  "samples w = take (if wn_full w then length (wn_buf w) else wn_next w) (wn_buf w)"

text \<open>\<open>int(q * float64(n))\<close>: for the sizes that occur (at most 4096) the product truncates to \<open>pct n div 100\<close>.\<close>

definition at_rank :: "nat \<Rightarrow> float64 list \<Rightarrow> float64" where
  "at_rank pct s = (let i = pct * length s div 100 in s ! (if i \<ge> length s then length s - 1 else i))"

definition percentiles :: "window \<Rightarrow> float64 \<times> float64 \<times> float64 \<times> nat" where
  "percentiles w =
     (let s = sort (samples w) in
      if s = [] then (0, 0, 0, 0) else (at_rank 50 s, at_rank 95 s, at_rank 99 s, length s))"

section \<open>Events and streams\<close>

definition streamLogCapacity :: nat where "streamLogCapacity = 256"
definition notableCapacity :: nat where "notableCapacity = 512"
definition endedCapacity :: nat where "endedCapacity = 64"
definition latencyCapacity :: nat where "latencyCapacity = 4096"
definition subBuffer :: nat where "subBuffer = 256"

datatype stream_state = SListening | SSpeech | SFailing | SFinal | SEnded | SRefused

record hub_event =
  he_id :: u64
  he_at_ms :: int
  he_session :: string
  he_kind :: string
  he_worker :: string
  he_utt :: string
  he_rev :: u64
  he_epoch :: u64
  he_seq_start :: u64
  he_seq_end :: u64
  he_text :: string
  he_detail :: string
  he_latency_ms :: int

definition no_event :: hub_event where
  "no_event = \<lparr> he_id = 0, he_at_ms = 0, he_session = '''', he_kind = '''', he_worker = '''', he_utt = '''',
     he_rev = 0, he_epoch = 0, he_seq_start = 0, he_seq_end = 0, he_text = '''', he_detail = '''',
     he_latency_ms = 0 \<rparr>"

record stream =
  sm_id :: string
  sm_mode :: string
  sm_worker :: string
  sm_family :: string
  sm_compat_key :: string
  sm_state :: stream_state
  sm_utterance :: string
  sm_revision :: u64
  sm_failover_epoch :: u64
  sm_partials :: int
  sm_finals :: int
  sm_failovers :: int
  sm_last_seq :: u64
  sm_last_text :: string
  sm_started_at_ms :: int
  sm_ended_at_ms :: int
  sm_frames_in :: int
  sm_frames_voiced :: int
  sm_frames_gated :: int
  sm_audio_ms_in :: int
  sm_chunks_out :: int
  sm_chunk_bytes_out :: int
  sm_replayed_chunk :: int
  sm_handle :: string
  sm_generation :: u64
  sm_journal_records :: int
  sm_journal_span_ms :: int
  sm_checkpoint_seq :: u64
  sm_checkpoint_bytes :: int
  sm_checkpoint_why :: string
  sm_serializable :: bool
  sm_log :: "hub_event list"

record hub =
  hb_streams :: "string \<rightharpoonup> stream"
  hb_ended :: "stream list"
  hb_notable :: "hub_event list"
  hb_next_id :: u64
  hb_subs :: "(u64 \<times> hub_event list) list"
  hb_next_sub :: u64
  hb_push_lat :: window
  hb_final_lat :: window
  hb_worker_pushes :: "string \<Rightarrow> int"
  hb_utt_start :: "string \<rightharpoonup> time"

definition new_hub :: hub where
  "new_hub = \<lparr> hb_streams = Map.empty, hb_ended = [], hb_notable = [], hb_next_id = 0, hb_subs = [],
     hb_next_sub = 0, hb_push_lat = new_window latencyCapacity, hb_final_lat = new_window latencyCapacity,
     hb_worker_pushes = (\<lambda>_. 0), hb_utt_start = Map.empty \<rparr>"

definition short_key :: "string \<Rightarrow> string" where
  "short_key k = (if length k \<le> 8 then k else take 8 k)"

definition now_ms :: "time \<Rightarrow> int" where "now_ms now = now div 1000000"

text \<open>\<open>h.streams[id]\<close> read, changed through the pointer if it is there.\<close>

definition on_stream :: "string \<Rightarrow> (stream \<Rightarrow> stream) \<Rightarrow> hub \<Rightarrow> hub" where
  "on_stream ident f h =
     (case hb_streams h ident of None \<Rightarrow> h | Some s \<Rightarrow> h\<lparr>hb_streams := (hb_streams h)(ident \<mapsto> f s)\<rparr>)"

definition append_log :: "hub_event \<Rightarrow> stream \<Rightarrow> stream" where
  "append_log ev s = s\<lparr>sm_log := push_window streamLogCapacity (sm_log s) ev\<rparr>"

text \<open>
  \<open>recordLocked\<close> for the stream with the given id (none: nil). The copy kept in the
  stream's log is made before the worker is filled in.
\<close>

definition record_locked :: "time \<Rightarrow> string option \<Rightarrow> hub_event \<Rightarrow> bool \<Rightarrow> hub \<Rightarrow> hub_event \<times> hub" where
  "record_locked now ident ev notable h =
     (let h1 = h\<lparr>hb_next_id := hb_next_id h + 1\<rparr>;
          ev1 = ev\<lparr> he_id := hb_next_id h1, he_at_ms := now_ms now \<rparr>;
          s = (case ident of None \<Rightarrow> None | Some i \<Rightarrow> hb_streams h1 i);
          h2 = (case ident of None \<Rightarrow> h1 | Some i \<Rightarrow> on_stream i (append_log ev1) h1);
          ev2 = (case s of None \<Rightarrow> ev1 | Some s \<Rightarrow> if he_worker ev1 = '''' then ev1\<lparr>he_worker := sm_worker s\<rparr> else ev1);
          h3 = (if notable then h2\<lparr>hb_notable := push_window notableCapacity (hb_notable h2) ev2\<rparr> else h2)
      in (ev2, h3))"

text \<open>A subscriber whose buffer is full is skipped.\<close>

definition offer :: "hub_event \<Rightarrow> u64 \<times> hub_event list \<Rightarrow> u64 \<times> hub_event list" where
  "offer ev sub = (case sub of (i, q) \<Rightarrow> if length q < subBuffer then (i, q @ [ev]) else (i, q))"

definition broadcast :: "hub_event \<Rightarrow> hub \<Rightarrow> hub" where
  "broadcast ev h = h\<lparr>hb_subs := map (offer ev) (hb_subs h)\<rparr>"

definition record_and_broadcast :: "time \<Rightarrow> string option \<Rightarrow> hub_event \<Rightarrow> hub \<Rightarrow> hub" where
  "record_and_broadcast now ident ev h =
     (let (out, h') = record_locked now ident ev True h in broadcast out h')"

section \<open>The hooks\<close>

definition new_stream :: "time \<Rightarrow> string \<Rightarrow> string \<Rightarrow> string \<Rightarrow> string \<Rightarrow> string \<Rightarrow> stream" where
  "new_stream now ident mode worker compatKey family =
     \<lparr> sm_id = ident, sm_mode = mode, sm_worker = worker, sm_family = family, sm_compat_key = compatKey,
       sm_state = SListening, sm_utterance = '''', sm_revision = 0, sm_failover_epoch = 0,
       sm_partials = 0, sm_finals = 0, sm_failovers = 0, sm_last_seq = 0, sm_last_text = '''',
       sm_started_at_ms = now_ms now, sm_ended_at_ms = 0, sm_frames_in = 0, sm_frames_voiced = 0,
       sm_frames_gated = 0, sm_audio_ms_in = 0, sm_chunks_out = 0, sm_chunk_bytes_out = 0,
       sm_replayed_chunk = 0, sm_handle = '''', sm_generation = 0, sm_journal_records = 0,
       sm_journal_span_ms = 0, sm_checkpoint_seq = 0, sm_checkpoint_bytes = 0, sm_checkpoint_why = '''',
       sm_serializable = False, sm_log = [] \<rparr>"

definition session_started :: "time \<Rightarrow> string \<Rightarrow> string \<Rightarrow> string \<Rightarrow> string \<Rightarrow> string \<Rightarrow> hub \<Rightarrow> hub" where
  "session_started now ident mode worker compatKey family h =
     record_and_broadcast now (Some ident)
       (no_event\<lparr> he_session := ident, he_kind := ''session.start'', he_worker := worker,
          he_detail := mode @ '' key='' @ short_key compatKey \<rparr>)
       (h\<lparr>hb_streams := (hb_streams h)(ident \<mapsto> new_stream now ident mode worker compatKey family)\<rparr>)"

definition starts_with :: "string \<Rightarrow> string \<Rightarrow> bool" where
  "starts_with ident k \<longleftrightarrow> length k > length ident \<and> take (length ident) k = ident"

definition session_ended :: "time \<Rightarrow> string \<Rightarrow> string \<Rightarrow> hub \<Rightarrow> hub" where
  "session_ended now ident reason h =
     (case hb_streams h ident of
        None \<Rightarrow> h
      | Some s \<Rightarrow>
          let h1 = on_stream ident (\<lambda>s. s\<lparr> sm_state := SEnded, sm_ended_at_ms := now_ms now \<rparr>) h;
              (ev, h2) = record_locked now (Some ident)
                (no_event\<lparr> he_session := ident, he_kind := ''session.end'', he_detail := reason \<rparr>) True h1;
              h3 = h2\<lparr> hb_streams := (hb_streams h2)(ident := None),
                       hb_ended := push_window endedCapacity (hb_ended h2) (the (hb_streams h2 ident)),
                       hb_utt_start := (\<lambda>k. if starts_with ident k then None else hb_utt_start h2 k) \<rparr>
          in broadcast ev h3)"

definition hub_failover :: "time \<Rightarrow> string \<Rightarrow> string \<Rightarrow> string \<Rightarrow> string \<Rightarrow> string \<Rightarrow> bool \<Rightarrow> hub \<Rightarrow> hub" where
  "hub_failover now ident fromW toW fromKey toKey sameKey h =
     (case hb_streams h ident of
        None \<Rightarrow> h
      | Some s \<Rightarrow>
          record_and_broadcast now (Some ident)
            (no_event\<lparr> he_session := ident,
               he_kind := (if sameKey then ''failover.same'' else ''failover.cross''), he_worker := toW,
               he_epoch := sm_failover_epoch s,
               he_detail := fromW @ ''='' @ short_key fromKey @ '' '' @ toW @ ''='' @ short_key toKey @ '' ''
                 @ (if sameKey then ''MATCH'' else ''MISMATCH'') \<rparr>)
            (on_stream ident (\<lambda>s. s\<lparr> sm_worker := toW, sm_compat_key := toKey,
               sm_failovers := sm_failovers s + 1, sm_state := SFailing \<rparr>) h))"

definition frame_ingested :: "string \<Rightarrow> float64 \<Rightarrow> bool \<Rightarrow> hub \<Rightarrow> hub" where
  "frame_ingested ident durationMs voiced h =
     on_stream ident (\<lambda>s.
       let s1 = s\<lparr> sm_frames_in := sm_frames_in s + 1, sm_audio_ms_in := sm_audio_ms_in s + trunc64 durationMs \<rparr>
       in if voiced then s1\<lparr>sm_frames_voiced := sm_frames_voiced s1 + 1\<rparr>
          else s1\<lparr>sm_frames_gated := sm_frames_gated s1 + 1\<rparr>) h"

definition chunk_dispatched :: "string \<Rightarrow> nat \<Rightarrow> bool \<Rightarrow> hub \<Rightarrow> hub" where
  "chunk_dispatched ident nbytes replay h =
     on_stream ident (\<lambda>s.
       let s1 = s\<lparr> sm_chunks_out := sm_chunks_out s + 1, sm_chunk_bytes_out := sm_chunk_bytes_out s + int nbytes \<rparr>
       in if replay then s1\<lparr>sm_replayed_chunk := sm_replayed_chunk s1 + 1\<rparr> else s1) h"

definition state_observed :: "string \<Rightarrow> string \<Rightarrow> u64 \<Rightarrow> int \<Rightarrow> int \<Rightarrow> u64 \<Rightarrow> int \<Rightarrow> string \<Rightarrow> bool \<Rightarrow> hub \<Rightarrow> hub" where
  "state_observed ident handle generation journalRecords journalSpanMs cpSeq cpBytes why serializable h =
     on_stream ident (\<lambda>s. s\<lparr> sm_handle := handle, sm_generation := generation,
       sm_journal_records := journalRecords, sm_journal_span_ms := journalSpanMs,
       sm_checkpoint_seq := cpSeq, sm_checkpoint_bytes := cpBytes, sm_checkpoint_why := why,
       sm_serializable := serializable \<rparr>) h"

text \<open>\<open>float64(d.Microseconds()) / 1000\<close>.\<close>

definition latency_ms :: "duration \<Rightarrow> float64" where
  "latency_ms d = of_int (if 0 \<le> d then d div 1000 else - ((- d) div 1000)) / 1000"

definition push_observed :: "string \<Rightarrow> string \<Rightarrow> duration \<Rightarrow> hub \<Rightarrow> hub" where
  "push_observed ident worker d h =
     on_stream ident (\<lambda>s.
       let s1 = s\<lparr>sm_worker := worker\<rparr> in if sm_state s1 = SFailing then s1\<lparr>sm_state := SSpeech\<rparr> else s1)
     (h\<lparr> hb_push_lat := window_add (hb_push_lat h) (latency_ms d),
         hb_worker_pushes := (hb_worker_pushes h)(worker := hb_worker_pushes h worker + 1) \<rparr>)"

definition refused :: "time \<Rightarrow> string \<Rightarrow> string \<Rightarrow> hub \<Rightarrow> hub" where
  "refused now ident reason h =
     record_and_broadcast now None
       (no_event\<lparr> he_session := ident, he_kind := ''overloaded'', he_detail := reason \<rparr>) h"

definition hub_chaos :: "time \<Rightarrow> string \<Rightarrow> string \<Rightarrow> string \<Rightarrow> hub \<Rightarrow> hub" where
  "hub_chaos now worker action detail h =
     record_and_broadcast now None
       (no_event\<lparr> he_kind := ''chaos'', he_worker := worker, he_detail := action @ '' '' @ detail \<rparr>) h"

section \<open>The event tap\<close>

definition utt_key :: "string \<Rightarrow> string \<Rightarrow> string" where
  "utt_key sess utt = sess @ ''/'' @ utt"

definition logged :: "time \<Rightarrow> string \<Rightarrow> hub_event \<Rightarrow> hub \<Rightarrow> hub" where
  "logged now ident rec h = snd (record_locked now (Some ident) rec False h)"

fun observe :: "time \<Rightarrow> event \<Rightarrow> hub \<Rightarrow> hub" where
  "observe now (AckEvent sess highest) h = on_stream sess (\<lambda>s. s\<lparr>sm_last_seq := highest\<rparr>) h"
| "observe now (PartialEvent sess utt r epoch txt') h =
     (let h1 = on_stream sess (\<lambda>s. s\<lparr> sm_revision := r, sm_failover_epoch := epoch, sm_utterance := utt,
            sm_last_text := txt', sm_partials := sm_partials s + 1,
            sm_state := (if sm_state s \<noteq> SFailing then SSpeech else sm_state s) \<rparr>) h
      in logged now sess (no_event\<lparr> he_session := sess, he_kind := ''partial'', he_utt := utt, he_rev := r,
           he_epoch := epoch, he_text := txt',
           he_worker := (case hb_streams h1 sess of None \<Rightarrow> '''' | Some s \<Rightarrow> sm_worker s) \<rparr>) h1)"
| "observe now (PartialResetEvent sess utt r epoch) h =
     record_and_broadcast now (Some sess)
       (no_event\<lparr> he_session := sess, he_kind := ''partial.reset'', he_utt := utt, he_rev := r, he_epoch := epoch \<rparr>)
       (on_stream sess (\<lambda>s. s\<lparr> sm_revision := r, sm_failover_epoch := epoch, sm_last_text := '''' \<rparr>) h)"
| "observe now (SpeechStartEvent sess utt q) h =
     (let h1 = on_stream sess (\<lambda>s. s\<lparr> sm_state := SSpeech, sm_utterance := utt \<rparr>) h
      in record_and_broadcast now (Some sess)
           (no_event\<lparr> he_session := sess, he_kind := ''speech.start'', he_utt := utt, he_seq_start := q \<rparr>)
           (h1\<lparr>hb_utt_start := (hb_utt_start h1)(utt_key sess utt \<mapsto> now)\<rparr>))"
| "observe now (FinalEvent fe) h =
     (let sess = fe_session_id fe; key = utt_key sess (fe_utterance_id fe);
          (lat, h1) = (case hb_utt_start h key of
             None \<Rightarrow> (0, h)
           | Some started \<Rightarrow> (now - started,
               h\<lparr> hb_final_lat := window_add (hb_final_lat h) (latency_ms (now - started)),
                  hb_utt_start := (hb_utt_start h)(key := None) \<rparr>));
          h2 = on_stream sess (\<lambda>s. s\<lparr> sm_finals := sm_finals s + 1, sm_state := SListening,
                 sm_last_text := fe_text fe \<rparr>) h1
      in record_and_broadcast now (Some sess)
           (no_event\<lparr> he_session := sess, he_kind := ''final'', he_utt := fe_utterance_id fe,
              he_seq_start := fe_seq_start fe, he_seq_end := fe_seq_end fe, he_text := fe_text fe,
              he_latency_ms := milliseconds lat \<rparr>) h2)"
| "observe now (DiscontinuityEvent sess a b) h =
     record_and_broadcast now (Some sess)
       (no_event\<lparr> he_session := sess, he_kind := ''discontinuity'', he_seq_start := a, he_seq_end := b \<rparr>) h"
| "observe now (ErrorEvent sess reason) h =
     record_and_broadcast now (Some sess)
       (no_event\<lparr> he_session := sess, he_kind := ''error'', he_detail := reason \<rparr>)
       (on_stream sess (\<lambda>s. s\<lparr>sm_state := SEnded\<rparr>) h)"
| "observe now (OverloadedEvent sess reason ms) h = h"

section \<open>Reads\<close>

text \<open>\<open>order\<close> is the order the map of live streams is ranged over.\<close>

definition hub_streams :: "string list \<Rightarrow> hub \<Rightarrow> stream list" where
  "hub_streams order h =
     (let bare = (\<lambda>s. s\<lparr>sm_log := []\<rparr>);
          live = map bare (concat (map (\<lambda>i. case hb_streams h i of None \<Rightarrow> [] | Some s \<Rightarrow> [s]) order))
      in sort_key (\<lambda>s. - sm_started_at_ms s) live @ map bare (rev (hb_ended h)))"

definition hub_log :: "string \<Rightarrow> hub \<Rightarrow> hub_event list option" where
  "hub_log ident h =
     (case hb_streams h ident of
        Some s \<Rightarrow> Some (sm_log s)
      | None \<Rightarrow> map_option sm_log (find (\<lambda>s. sm_id s = ident) (hb_ended h)))"

definition since :: "u64 \<Rightarrow> hub \<Rightarrow> hub_event list" where
  "since ident h = filter (\<lambda>e. he_id e > ident) (hb_notable h)"

definition subscribe :: "hub \<Rightarrow> u64 \<times> hub" where
  "subscribe h = (let n = hb_next_sub h + 1 in (n, h\<lparr> hb_next_sub := n, hb_subs := hb_subs h @ [(n, [])] \<rparr>))"

definition unsubscribe :: "u64 \<Rightarrow> hub \<Rightarrow> hub" where
  "unsubscribe i h = h\<lparr>hb_subs := filter (\<lambda>(j, _). j \<noteq> i) (hb_subs h)\<rparr>"

section \<open>The event feed (sse.go)\<close>

definition maxStreamsInSnapshot :: nat where "maxStreamsInSnapshot = 50"

record latency =
  lt_p50 :: float64
  lt_p95 :: float64
  lt_p99 :: float64
  lt_count :: nat

definition latency_of :: "window \<Rightarrow> latency" where
  "latency_of w = (let (p50, p95, p99, n) = percentiles w in
     \<lparr> lt_p50 = p50, lt_p95 = p95, lt_p99 = p99, lt_count = n \<rparr>)"

text \<open>The part of a snapshot that comes from the hub; the rest is copied from its sources.\<close>

record hub_snapshot =
  hs_at_ms :: int
  hs_metrics :: "(string \<times> int) list"
  hs_streams :: "stream list"
  hs_streams_total :: nat
  hs_push :: latency
  hs_final :: latency
  hs_worker_pushes :: "string \<Rightarrow> int"

definition snapshot_with :: "time \<Rightarrow> counters \<Rightarrow> string list \<Rightarrow> hub \<Rightarrow> hub_snapshot" where
  "snapshot_with now m order h =
     (let all = hub_streams order h in
      \<lparr> hs_at_ms = now_ms now, hs_metrics = snapshot m,
        hs_streams = (if length all > maxStreamsInSnapshot then take maxStreamsInSnapshot all else all),
        hs_streams_total = length all, hs_push = latency_of (hb_push_lat h),
        hs_final = latency_of (hb_final_lat h), hs_worker_pushes = hb_worker_pushes h \<rparr>)"

text \<open>
  A connection of the feed up to its loop: what is replayed, then the subscription.
  \<open>between\<close> is what other goroutines do to the hub in between.
\<close>

definition parse_uint :: "string \<Rightarrow> u64 option" where
  "parse_uint s = (if s = [] \<or> \<not> list_all is_digit s \<or> undecimal s \<ge> 2 ^ 64 then None
     else Some (of_nat (undecimal s)))"

definition feed_connect :: "string \<Rightarrow> (hub \<Rightarrow> hub) \<Rightarrow> hub \<Rightarrow> hub_event list \<times> u64 \<times> hub" where
  "feed_connect lastEventID between h =
     (let replay = (if lastEventID = '''' then [] else case parse_uint lastEventID of
            None \<Rightarrow> [] | Some i \<Rightarrow> since i h);
          (sub, h') = subscribe (between h)
      in (replay, sub, h'))"

text \<open>The loop takes a buffered event off the subscriber's channel.\<close>

definition feed_take :: "u64 \<Rightarrow> hub \<Rightarrow> hub_event option \<times> hub" where
  "feed_take sub h =
     (case map_of (hb_subs h) sub of
        Some (ev # q) \<Rightarrow> (Some ev, h\<lparr>hb_subs := map (\<lambda>(j, p). if j = sub then (j, q) else (j, p)) (hb_subs h)\<rparr>)
      | _ \<Rightarrow> (None, h))"

section \<open>The latency ring holds the last samples\<close>

text \<open>A ring that has been fed \<open>vs\<close>: slot \<open>k mod n\<close> holds sample \<open>k\<close>, for the last \<open>n\<close> of them.\<close>

definition ring_of :: "nat \<Rightarrow> float64 list \<Rightarrow> window \<Rightarrow> bool" where
  "ring_of n vs w \<longleftrightarrow> length (wn_buf w) = n \<and> wn_next w = length vs mod n \<and> (wn_full w \<longleftrightarrow> n \<le> length vs)
     \<and> (\<forall>k < length vs. length vs \<le> k + n \<longrightarrow> wn_buf w ! (k mod n) = vs ! k)"

lemma mod_differ: "k < m \<Longrightarrow> m < k + n \<Longrightarrow> k mod n \<noteq> m mod (n :: nat)"
proof
  assume "k < m" "m < k + n" "k mod n = m mod n"
  then have "n dvd m - k" by (metis less_or_eq_imp_le mod_eq_dvd_iff_nat)
  with \<open>k < m\<close> \<open>m < k + n\<close> show False by (auto dest: dvd_imp_le)
qed

lemma ring_of_add:
  assumes "0 < n" "ring_of n vs w"
  shows "ring_of n (vs @ [v]) (window_add w v)"
proof -
  let ?m = "length vs"
  have w: "length (wn_buf w) = n" "wn_next w = ?m mod n" "wn_full w \<longleftrightarrow> n \<le> ?m"
    "\<And>k. k < ?m \<Longrightarrow> ?m \<le> k + n \<Longrightarrow> wn_buf w ! (k mod n) = vs ! k"
    using assms(2) by (auto simp: ring_of_def)
  have buf: "wn_buf (window_add w v) = (wn_buf w)[?m mod n := v]"
    and nxt: "wn_next (window_add w v) = Suc ?m mod n"
    by (simp_all add: window_add_def Let_def w mod_Suc_eq)
  have "Suc ?m mod n = 0 \<Longrightarrow> n \<le> Suc ?m" by (meson Suc_neq_Zero dvd_imp_le mod_0_imp_dvd zero_less_Suc)
  moreover have "n \<le> Suc ?m \<Longrightarrow> n \<le> ?m \<or> Suc ?m mod n = 0" by (auto simp: le_Suc_eq)
  ultimately have full: "wn_full (window_add w v) \<longleftrightarrow> n \<le> Suc ?m"
    by (auto simp: window_add_def Let_def w mod_Suc_eq)
  have "wn_buf (window_add w v) ! (k mod n) = (vs @ [v]) ! k" if "k < Suc ?m" "Suc ?m \<le> k + n" for k
  proof (cases "k = ?m")
    case True
    then show ?thesis using assms(1) by (simp add: buf w(1))
  next
    case False
    then show ?thesis using that w(4) [of k] mod_differ [of k ?m n] by (simp add: buf nth_append)
  qed
  then show ?thesis by (simp add: ring_of_def buf w(1) nxt full)
qed

lemma ring_of_run: "0 < n \<Longrightarrow> ring_of n vs (foldl window_add (new_window n) vs)"
  by (induction vs rule: rev_induct) (simp_all add: ring_of_add, simp add: ring_of_def new_window_def)

lemma ring_samples:
  assumes "0 < n" "ring_of n vs w"
  shows "set (samples w) = set (keep_last n vs)" "length (samples w) = min n (length vs)"
proof -
  let ?m = "length vs"
  have w: "length (wn_buf w) = n" "wn_next w = ?m mod n" "wn_full w \<longleftrightarrow> n \<le> ?m"
    "\<And>k. k < ?m \<Longrightarrow> ?m \<le> k + n \<Longrightarrow> wn_buf w ! (k mod n) = vs ! k"
    using assms(2) by (auto simp: ring_of_def)
  show "length (samples w) = min n ?m" by (auto simp: samples_def w)
  show "set (samples w) = set (keep_last n vs)"
  proof (cases "n \<le> ?m")
    case False
    then have taken: "samples w = take ?m (wn_buf w)" by (simp add: samples_def w(2,3))
    have "samples w ! i = vs ! i" if "i < ?m" for i
      using w(4) [OF that] that False by (simp add: taken)
    then have "samples w = vs" using False by (intro nth_equalityI) (simp_all add: taken w(1))
    then show ?thesis using False by simp
  next
    case True
    have "inj_on (\<lambda>k. k mod n) {?m - n..<?m}"
    proof (rule linorder_inj_onI')
      fix i j assume "i \<in> {?m - n..<?m}" "j \<in> {?m - n..<?m}" "i < j"
      then show "i mod n \<noteq> j mod n" using True by (intro mod_differ) auto
    qed
    then have "card ((\<lambda>k. k mod n) ` {?m - n..<?m}) = card {..<n}" using True by (simp add: card_image)
    then have slots: "(\<lambda>k. k mod n) ` {?m - n..<?m} = {..<n}"
      using assms(1) by (intro card_subset_eq) auto
    have "set (wn_buf w) = (!) (wn_buf w) ` {..<n}" by (auto simp: set_conv_nth w(1))
    also have "\<dots> = (\<lambda>k. wn_buf w ! (k mod n)) ` {?m - n..<?m}" by (simp add: slots [symmetric] image_image)
    also have "\<dots> = (!) vs ` {?m - n..<?m}" using w(4) by (intro image_cong) auto
    also have "\<dots> = set (map ((!) vs) [?m - n..<?m])" by simp
    also have "map ((!) vs) [?m - n..<?m] = keep_last n vs" by (rule nth_equalityI) (auto simp: keep_last_def)
    finally show ?thesis using True by (simp add: samples_def w)
  qed
qed

lemma at_rank_index:
  "s \<noteq> [] \<Longrightarrow> \<exists>i < length s. at_rank pct s = s ! i \<and> i = min (pct * length s div 100) (length s - 1)"
  by (auto simp: at_rank_def Let_def)

lemma at_rank_mono:
  assumes "s \<noteq> []" "p \<le> q"
  shows "at_rank p (sort s) \<le> at_rank q (sort s)"
proof -
  have "p * length s div 100 \<le> q * length s div 100" using assms(2) by (intro div_le_mono mult_le_mono1)
  moreover have "sort s \<noteq> []" using assms(1) by (metis length_0_conv length_sort)
  ultimately show ?thesis using at_rank_index [of "sort s" p] at_rank_index [of "sort s" q]
    by (auto intro!: sorted_nth_mono min.mono)
qed

section \<open>Every run of the hub\<close>

datatype hub_op =
    HStarted time string string string string string
  | HEnded time string string
  | HFailover time string string string string string bool
  | HFrame string float64 bool
  | HChunk string nat bool
  | HState string string u64 int int u64 int string bool
  | HPush string string duration
  | HRefused time string string
  | HChaos time string string string
  | HObserve time event
  | HSubscribe
  | HUnsubscribe u64
  | HTake u64

fun hub_step :: "hub \<Rightarrow> hub_op \<Rightarrow> hub" where
  "hub_step h (HStarted now i mode w k fam) = session_started now i mode w k fam h"
| "hub_step h (HEnded now i reason) = session_ended now i reason h"
| "hub_step h (HFailover now i a b ka kb same) = hub_failover now i a b ka kb same h"
| "hub_step h (HFrame i ms voiced) = frame_ingested i ms voiced h"
| "hub_step h (HChunk i n replay) = chunk_dispatched i n replay h"
| "hub_step h (HState i hdl g jr js cs cb why ser) = state_observed i hdl g jr js cs cb why ser h"
| "hub_step h (HPush i w d) = push_observed i w d h"
| "hub_step h (HRefused now i reason) = refused now i reason h"
| "hub_step h (HChaos now w a d) = hub_chaos now w a d h"
| "hub_step h (HObserve now ev) = observe now ev h"
| "hub_step h HSubscribe = snd (subscribe h)"
| "hub_step h (HUnsubscribe i) = unsubscribe i h"
| "hub_step h (HTake i) = snd (feed_take i h)"

text \<open>A bounded history whose event ids increase and have been handed out.\<close>

definition history :: "nat \<Rightarrow> u64 \<Rightarrow> hub_event list \<Rightarrow> bool" where
  "history bound newest evs \<longleftrightarrow> length evs \<le> bound \<and> sorted_wrt (<) (map he_id evs) \<and> (\<forall>e \<in> set evs. he_id e \<le> newest)"

definition hub_inv :: "nat \<Rightarrow> hub \<Rightarrow> bool" where
  "hub_inv n h \<longleftrightarrow> unat (hb_next_id h) \<le> n
     \<and> history notableCapacity (hb_next_id h) (hb_notable h)
     \<and> (\<forall>i s. hb_streams h i = Some s \<longrightarrow> history streamLogCapacity (hb_next_id h) (sm_log s))
     \<and> length (hb_ended h) \<le> endedCapacity
     \<and> (\<forall>s \<in> set (hb_ended h). history streamLogCapacity (hb_next_id h) (sm_log s))
     \<and> (\<forall>sub \<in> set (hb_subs h). length (snd sub) \<le> subBuffer)"

lemmas hub_bounds = notableCapacity_def streamLogCapacity_def endedCapacity_def subBuffer_def

lemma history_mono: "history b t evs \<Longrightarrow> t \<le> t' \<Longrightarrow> history b t' evs"
  by (fastforce simp: history_def)

lemma history_push:
  assumes "history b t evs" "t < t'" "he_id e = t'" "0 < b"
  shows "history b t' (push_window b evs e)"
proof -
  have "sorted_wrt (\<lambda>x y. he_id x < he_id y) (evs @ [e])"
    using assms(1-3) by (force simp: history_def sorted_wrt_append sorted_wrt_map)
  then have "sorted_wrt (\<lambda>x y. he_id x < he_id y) (keep_last b (evs @ [e]))"
    by (rule sorted_keep_last)
  moreover have "set (keep_last b (evs @ [e])) \<subseteq> set (evs @ [e])" by (rule set_keep_last)
  moreover have "\<forall>x \<in> set (evs @ [e]). he_id x \<le> t'" using assms(1-3) by (force simp: history_def)
  ultimately show ?thesis by (auto simp: history_def push_window_def sorted_wrt_map)
qed

lemma on_stream_inv:
  assumes "hub_inv n h" "\<And>s. sm_log (f s) = sm_log s"
  shows "hub_inv n (on_stream i f h)"
  using assms by (auto simp: hub_inv_def on_stream_def split: option.split)

lemma record_inv:
  assumes "hub_inv n h" "n < 2 ^ 64 - 1"
  shows "hub_inv (Suc n) (snd (record_locked now ident ev notable h))
    \<and> hb_next_id (snd (record_locked now ident ev notable h)) = hb_next_id h + 1
    \<and> he_id (fst (record_locked now ident ev notable h)) = hb_next_id h + 1"
proof -
  let ?h = "snd (record_locked now ident ev notable h)" and ?t = "hb_next_id h + 1"
  have "hb_next_id h \<noteq> - 1" using assms by (intro not_max64) (simp add: hub_inv_def)
  then have up: "unat ?t = Suc (unat (hb_next_id h))" by (rule unat_plus_one)
  then have less: "hb_next_id h < ?t" by (simp add: word_less_nat_alt)
  have mono: "history b (hb_next_id h) evs \<Longrightarrow> history b ?t evs" for b evs
    using less by (auto elim: history_mono)
  let ?ev = "ev\<lparr> he_id := ?t, he_at_ms := now_ms now \<rparr>"
  have streams_of: "hb_next_id (on_stream i f g) = hb_next_id g" "hb_ended (on_stream i f g) = hb_ended g"
    "hb_subs (on_stream i f g) = hb_subs g" "hb_notable (on_stream i f g) = hb_notable g" for i f g
    by (simp_all add: on_stream_def split: option.split)
  have newest: "hb_next_id ?h = ?t" and ended: "hb_ended ?h = hb_ended h" and subs: "hb_subs ?h = hb_subs h"
    by (simp_all add: record_locked_def Let_def streams_of split: option.split)
  have notable: "hb_notable ?h = (if notable then push_window notableCapacity (hb_notable h)
      (fst (record_locked now ident ev notable h)) else hb_notable h)"
    by (simp add: record_locked_def Let_def streams_of split: option.split)
  have ident: "he_id (fst (record_locked now ident ev notable h)) = ?t"
    by (simp add: record_locked_def Let_def split: option.split)
  have streams: "hb_streams ?h = (case ident of None \<Rightarrow> hb_streams h
      | Some i \<Rightarrow> (case hb_streams h i of None \<Rightarrow> hb_streams h
          | Some s \<Rightarrow> (hb_streams h)(i \<mapsto> append_log ?ev s)))"
    by (simp add: record_locked_def Let_def on_stream_def split: option.split)
  have old: "history notableCapacity (hb_next_id h) (hb_notable h)"
    "\<And>i s. hb_streams h i = Some s \<Longrightarrow> history streamLogCapacity (hb_next_id h) (sm_log s)"
    using assms(1) by (simp_all add: hub_inv_def)
  have logs: "history streamLogCapacity ?t (sm_log s)" if "hb_streams ?h i = Some s" for i s
  proof -
    have "history streamLogCapacity ?t (sm_log (append_log ?ev s0))" if "hb_streams h j = Some s0" for j s0
      unfolding append_log_def
      using history_push [OF old(2) [OF that] less, of ?ev] by (simp add: hub_bounds)
    with that old(2) mono show ?thesis by (auto simp: streams split: option.splits if_splits)
  qed
  have "history notableCapacity ?t (hb_notable ?h)"
    unfolding notable using history_push [OF old(1) less ident] mono [OF old(1)]
    by (cases notable) (simp_all add: hub_bounds)
  with assms(1) logs mono up ident newest show ?thesis
    by (auto simp: hub_inv_def ended subs)
qed

lemma field_inv [simp]:
  "hub_inv n (h\<lparr>hb_utt_start := u\<rparr>) = hub_inv n h" "hub_inv n (h\<lparr>hb_push_lat := w\<rparr>) = hub_inv n h"
  "hub_inv n (h\<lparr>hb_final_lat := w\<rparr>) = hub_inv n h" "hub_inv n (h\<lparr>hb_worker_pushes := p\<rparr>) = hub_inv n h"
  by (simp_all add: hub_inv_def)

lemma broadcast_inv: "hub_inv n h \<Longrightarrow> hub_inv n (broadcast ev h)"
  by (auto simp: hub_inv_def broadcast_def offer_def split: prod.splits)

lemma record_broadcast_inv:
  "hub_inv n h \<Longrightarrow> n < 2 ^ 64 - 1 \<Longrightarrow> hub_inv (Suc n) (record_and_broadcast now ident ev h)"
  using record_inv [of n h now ident ev True] broadcast_inv
  by (auto simp: record_and_broadcast_def split: prod.splits)

lemma hub_inv_Suc: "hub_inv n h \<Longrightarrow> hub_inv (Suc n) h"
  by (auto simp: hub_inv_def)


lemma put_stream_inv:
  "hub_inv n h \<Longrightarrow> sm_log s = [] \<Longrightarrow> hub_inv n (h\<lparr>hb_streams := (hb_streams h)(i \<mapsto> s)\<rparr>)"
  by (auto simp: hub_inv_def history_def)

lemma end_stream_inv:
  assumes "hub_inv n h" "hb_streams h i = Some s"
  shows "hub_inv n (h\<lparr> hb_streams := (hb_streams h)(i := None),
    hb_ended := push_window endedCapacity (hb_ended h) s, hb_utt_start := u \<rparr>)"
proof -
  have "set (push_window endedCapacity (hb_ended h) s) \<subseteq> set (hb_ended h @ [s])"
    by (simp only: push_window_def set_keep_last)
  moreover have "length (push_window endedCapacity (hb_ended h) s) \<le> endedCapacity"
    by (simp add: push_window_def)
  ultimately show ?thesis using assms by (auto simp: hub_inv_def split: if_splits)
qed

lemma session_ended_inv:
  assumes "hub_inv n h" "n < 2 ^ 64 - 1"
  shows "hub_inv (Suc n) (session_ended now i reason h)"
proof (cases "hb_streams h i")
  case None
  then show ?thesis using assms by (simp add: session_ended_def hub_inv_Suc)
next
  case (Some s)
  let ?h1 = "on_stream i (\<lambda>s. s\<lparr> sm_state := SEnded, sm_ended_at_ms := now_ms now \<rparr>) h"
  obtain ev h2 where rec: "record_locked now (Some i)
      (no_event\<lparr> he_session := i, he_kind := ''session.end'', he_detail := reason \<rparr>) True ?h1 = (ev, h2)" by force
  have "hub_inv n ?h1" by (rule on_stream_inv) (simp_all add: assms)
  from record_inv [OF this assms(2)] rec have inv: "hub_inv (Suc n) h2" by (metis snd_conv)
  have "snd (record_locked now (Some i)
      (no_event\<lparr> he_session := i, he_kind := ''session.end'', he_detail := reason \<rparr>) True ?h1) = h2" by (simp add: rec)
  then have "\<exists>s'. hb_streams h2 i = Some s'" by (auto simp: record_locked_def Let_def on_stream_def Some)
  then obtain s' where "hb_streams h2 i = Some s'" by blast
  from end_stream_inv [OF inv this] broadcast_inv show ?thesis
    using \<open>hb_streams h2 i = Some s'\<close> by (simp add: session_ended_def Some Let_def rec)
qed

lemma feed_take_inv: "hub_inv n h \<Longrightarrow> hub_inv n (snd (feed_take i h))"
  by (fastforce simp: feed_take_def hub_inv_def split: option.split list.split dest!: map_of_SomeD)

lemma logged_inv: "hub_inv n h \<Longrightarrow> n < 2 ^ 64 - 1 \<Longrightarrow> hub_inv (Suc n) (logged now i ev h)"
  by (simp add: logged_def record_inv)

lemma hub_observe_inv:
  assumes "hub_inv n h" "n < 2 ^ 64 - 1"
  shows "hub_inv (Suc n) (observe now ev h)"
proof (cases ev)
  case (FinalEvent fe)
  then show ?thesis using assms
    by (auto simp: Let_def intro!: record_broadcast_inv on_stream_inv split: option.split)
qed (use assms in \<open>auto simp: Let_def intro!: record_broadcast_inv on_stream_inv logged_inv intro: hub_inv_Suc\<close>)

lemma hub_step_inv:
  assumes "hub_inv n h" "n < 2 ^ 64 - 1"
  shows "hub_inv (Suc n) (hub_step h hop)"
proof (cases hop)
  case (HFailover now i a b ka kb same)
  then show ?thesis using assms
    by (auto simp: hub_failover_def intro!: record_broadcast_inv on_stream_inv intro: hub_inv_Suc split: option.split)
next
  case (HPush i w d)
  then show ?thesis using assms
    by (auto simp: push_observed_def Let_def intro!: hub_inv_Suc on_stream_inv)
next
  case HSubscribe
  then show ?thesis using assms(1) by (auto simp: subscribe_def Let_def hub_inv_def)
next
  case (HUnsubscribe i)
  then show ?thesis using assms(1) by (auto simp: unsubscribe_def hub_inv_def)
qed (use assms in \<open>auto simp: session_ended_inv hub_observe_inv session_started_def frame_ingested_def chunk_dispatched_def
    state_observed_def refused_def hub_chaos_def Let_def new_stream_def
    intro!: record_broadcast_inv put_stream_inv on_stream_inv feed_take_inv intro: hub_inv_Suc\<close>)

lemma hub_run_inv: "length ops < 2 ^ 64 \<Longrightarrow> hub_inv (length ops) (foldl hub_step new_hub ops)"
proof (induction ops rule: rev_induct)
  case Nil
  show ?case by (simp add: hub_inv_def new_hub_def history_def)
next
  case (snoc x xs)
  then show ?case using hub_step_inv [of "length xs" "foldl hub_step new_hub xs" x] by simp
qed


section \<open>What the dashboard is promised\<close>

text \<open>
  Whatever hooks are called in whatever order, the hub's memory stays bounded and its
  histories stay in order: the notable ring, every live stream's log and every ended stream's log
  hold at most their capacity, with strictly increasing event ids none of which is above the
  last id handed out; at most \<open>endedCapacity\<close> ended streams are kept, and no subscriber's buffer
  exceeds \<open>subBuffer\<close>. (Short of \<open>2 ^ 64\<close> operations, where the id would wrap.)
\<close>

theorem hub_histories_are_bounded:
  assumes "length ops < 2 ^ 64"
  defines "h \<equiv> foldl hub_step new_hub ops"
  shows "length (hb_notable h) \<le> 512 \<and> sorted_wrt (<) (map he_id (hb_notable h))
    \<and> (\<forall>s. s \<in> ran (hb_streams h) \<union> set (hb_ended h) \<longrightarrow>
         length (sm_log s) \<le> 256 \<and> sorted_wrt (<) (map he_id (sm_log s)) \<and> (\<forall>e \<in> set (sm_log s). he_id e \<le> hb_next_id h))
    \<and> (\<forall>e \<in> set (hb_notable h). he_id e \<le> hb_next_id h)
    \<and> length (hb_ended h) \<le> 64 \<and> (\<forall>sub \<in> set (hb_subs h). length (snd sub) \<le> 256)
    \<and> unat (hb_next_id h) \<le> length ops"
  using hub_run_inv [OF assms(1)] unfolding h_def [symmetric]
  by (auto simp: hub_inv_def history_def hub_bounds ran_def)

theorem hub_histories_are_bounded_witness:
  "length (hb_notable (foldl hub_step new_hub [HRefused 0 ''s1'' ''full'', HChaos 5 ''w1'' ''kill'' ''now''])) \<le> 512"
  using hub_histories_are_bounded [of "[HRefused 0 ''s1'' ''full'', HChaos 5 ''w1'' ''kill'' ''now'']"] by simp

text \<open>
  The latency percentiles a snapshot reports are real observations: after any run of \<open>vs\<close>
  through a window of \<open>n\<close> slots, p50, p95 and p99 are each one of the last \<open>n\<close> values observed,
  they are ordered, and the count is the number of values still held. The ring's overwriting and
  its wrap flag are proved to keep exactly the last \<open>n\<close>.
\<close>

theorem latency_percentiles_are_samples:
  assumes "0 < n" "vs \<noteq> []"
    and "percentiles (foldl window_add (new_window n) vs) = (p50, p95, p99, count)"
  shows "{p50, p95, p99} \<subseteq> set (keep_last n vs) \<and> p50 \<le> p95 \<and> p95 \<le> p99 \<and> count = min n (length vs)"
proof -
  let ?w = "foldl window_add (new_window n) vs"
  let ?s = "sort (samples ?w)"
  note held = ring_samples [OF assms(1) ring_of_run [OF assms(1)], of vs]
  from assms(1,2) have "0 < min n (length vs)" by simp
  then have nonempty: "samples ?w \<noteq> []" using held(2) by (metis less_nat_zero_code list.size(3))
  then have "?s \<noteq> []" by (metis length_0_conv length_sort)
  with assms(3) have p: "p50 = at_rank 50 ?s" "p95 = at_rank 95 ?s" "p99 = at_rank 99 ?s" "count = length ?s"
    by (auto simp: percentiles_def Let_def)
  have "at_rank pct ?s \<in> set (keep_last n vs)" for pct
    using at_rank_index [OF \<open>?s \<noteq> []\<close>, of pct] nth_mem [of _ ?s] held(1) by auto
  then show ?thesis using held(2) nonempty by (simp add: p at_rank_mono)
qed

theorem latency_percentiles_are_samples_witness:
  "{8, 9, 9} \<subseteq> set (keep_last 3 [1, 7, 9, 8 :: float64])"
proof -
  have "percentiles (foldl window_add (new_window 3) [1, 7, 9, 8]) = (8, 9, 9, 3)" by code_simp
  from latency_percentiles_are_samples [OF _ _ this] show ?thesis by simp
qed

text \<open>
  A notable event that is recorded after the feed has read its replay and before it has
  subscribed reaches that client neither way: it is in the ring, under a new id, but not in the
  replay, and the subscription starts empty.
\<close>

theorem feed_loses_what_comes_between:
  assumes "hub_inv n h" "n < 2 ^ 64 - 1"
    and "feed_connect lastID (record_and_broadcast now ident ev) h = (replay, sub, h')"
  shows "\<exists>e. last (hb_notable h') = e \<and> he_id e = hb_next_id h + 1 \<and> e \<notin> set replay
    \<and> (sub, []) \<in> set (hb_subs h')"
proof -
  obtain e g where rec: "record_locked now ident ev True h = (e, g)" by force
  with record_inv [OF assms(1,2), of now ident ev True]
  have e: "he_id e = hb_next_id h + 1" by simp
  have "hb_next_id h \<noteq> - 1" using assms(1,2) by (intro not_max64) (simp add: hub_inv_def)
  then have "hb_next_id h < hb_next_id h + 1" by (simp add: word_less_nat_alt unat_plus_one)
  moreover have "\<forall>x \<in> set (hb_notable h). he_id x \<le> hb_next_id h" using assms(1) by (simp add: hub_inv_def history_def)
  ultimately have "e \<notin> set (hb_notable h)" using e by (metis leD)
  moreover have "set replay \<subseteq> set (hb_notable h)"
    using assms(3) by (auto simp: feed_connect_def since_def Let_def split: if_splits option.splits prod.splits)
  moreover have "last (hb_notable g) = e"
    using rec by (auto simp: record_locked_def Let_def push_window_def hub_bounds keep_last_last on_stream_def
        split: option.splits)
  ultimately show ?thesis using assms(3) e
    by (auto simp: feed_connect_def record_and_broadcast_def rec subscribe_def broadcast_def Let_def)
qed

theorem feed_loses_what_comes_between_witness:
  "\<exists>replay sub h' e. feed_connect '''' (record_and_broadcast 0 None no_event) new_hub = (replay, sub, h')
     \<and> last (hb_notable h') = e \<and> he_id e = 1 \<and> e \<notin> set replay \<and> (sub, []) \<in> set (hb_subs h')"
proof -
  obtain replay sub h' where run: "feed_connect '''' (record_and_broadcast 0 None no_event) new_hub = (replay, sub, h')"
    by (metis prod_cases3)
  have "hub_inv 0 new_hub" by (simp add: hub_inv_def new_hub_def history_def)
  from feed_loses_what_comes_between [OF this _ run] run show ?thesis by (auto simp: new_hub_def)
qed

end
