(* ===== verification/Bifrost.thy ===== *)
theory Bifrost
  imports Backend
begin

text \<open>
  \<^verbatim>\<open>internal/bifrost/client.go\<close>: the client that posts one complete utterance through
  Bifrost. A nil client is \<open>None\<close>. The provider that served the last successful call
  is kept in the client, which is returned updated; the transport is a parameter.
\<close>

record bifrost_client =
  bf_base_url :: string
  bf_model :: string
  bf_fallbacks :: "string list"
  bf_last_provider :: string

definition prefer_first :: "string \<Rightarrow> string \<Rightarrow> string" where
  "prefer_first a b = (if a \<noteq> '''' then a else b)"

definition new_bifrost :: "string \<Rightarrow> string \<Rightarrow> string list \<Rightarrow> bifrost_client option" where
  "new_bifrost baseURL model fallbacks =
     (if baseURL = '''' then None
      else Some \<lparr> bf_base_url = baseURL, bf_model = (if model = '''' then ''whisper-1'' else model),
                  bf_fallbacks = fallbacks, bf_last_provider = '''' \<rparr>)"

definition bifrost_enabled :: "bifrost_client option \<Rightarrow> bool" where
  "bifrost_enabled c \<longleftrightarrow> c \<noteq> None"

definition base_url :: "bifrost_client option \<Rightarrow> string" where
  "base_url c = (case c of None \<Rightarrow> '''' | Some b \<Rightarrow> bf_base_url b)"

definition last_provider :: "bifrost_client option \<Rightarrow> string" where
  "last_provider c = (case c of None \<Rightarrow> '''' | Some b \<Rightarrow> bf_last_provider b)"

text \<open>The anonymous answer struct: text, worker and the provider inside \<open>extra_fields\<close>.\<close>

definition decode_provider :: "string \<Rightarrow> json \<Rightarrow> string option" where
  "decode_provider old v = do { kvs \<leftarrow> struct_of v; decode_field json_string ''provider'' old kvs }"

definition decode_transcription :: "json \<Rightarrow> (string \<times> string \<times> string) option" where
  "decode_transcription v = do {
     kvs \<leftarrow> struct_of v;
     answer \<leftarrow> decode_field json_string ''text'' '''' kvs;
     worker \<leftarrow> decode_field json_string ''worker_id'' '''' kvs;
     provider \<leftarrow> decode_into decode_provider ''extra_fields'' '''' kvs;
     Some (answer, worker, provider) }"

definition transcribe_via :: "'e transport \<Rightarrow> bifrost_client option \<Rightarrow> byte list \<Rightarrow> string \<Rightarrow> string list \<Rightarrow>
    'e \<Rightarrow> (backend_error + string) \<times> bifrost_client option \<times> 'e" where
  "transcribe_via tr c wav model fallbacks e =
     (case c of
        None \<Rightarrow> (Inl ErrDisabled, None, e)
      | Some b \<Rightarrow>
          (case tr \<lparr> hq_method = ''POST'', hq_url = bf_base_url b @ ''/v1/audio/transcriptions'',
                     hq_headers = [(''Content-Type'', ''multipart/form-data'')],
                     hq_body = FormBody ([FilePart ''file'' ''utterance.wav'' wav,
                        FieldPart ''model'' (if model = '''' then bf_model b else model)]
                        @ map (FieldPart ''fallbacks'') fallbacks) \<rparr> e of
             (Inl err, e') \<Rightarrow> (Inl (ErrTransport ''bifrost'' err), c, e')
           | (Inr resp, e') \<Rightarrow>
               if hp_status resp \<noteq> 200
               then (Inl (ErrStatus ''bifrost'' (hp_status resp) (take 256 (hp_text resp))), c, e')
               else (case Option.bind (hp_json resp) decode_transcription of
                       None \<Rightarrow> (Inl (ErrDecode ''bifrost''), c, e')
                     | Some (answer, worker, provider) \<Rightarrow>
                         (Inr answer, Some (b\<lparr>bf_last_provider := prefer_first provider worker\<rparr>), e'))))"

text \<open>\<open>Transcribe\<close> reads \<open>c.model\<close> before the nil check: on a nil client it panics (\<open>None\<close>).\<close>

definition transcribe :: "'e transport \<Rightarrow> bifrost_client option \<Rightarrow> byte list \<Rightarrow>
    'e \<Rightarrow> ((backend_error + string) \<times> bifrost_client option \<times> 'e) option" where
  "transcribe tr c wav e =
     (case c of None \<Rightarrow> None
      | Some b \<Rightarrow> Some (transcribe_via tr c wav (bf_model b) (bf_fallbacks b) e))"

definition describe :: "bifrost_client option \<Rightarrow> string" where
  "describe c =
     (case c of
        None \<Rightarrow> ''disabled''
      | Some b \<Rightarrow>
          if bf_fallbacks b = [] then bf_model b @ '' (no fallbacks)''
          else bf_model b @ concat (map (\<lambda>f. '' -> '' @ f) (bf_fallbacks b)))"

text \<open>A call keeps everything of the client but the provider it saw last.\<close>

lemma transcribe_via_keeps:
  assumes "transcribe_via tr c wav model fallbacks e = (res, c', e')"
  shows "bifrost_enabled c' = bifrost_enabled c \<and> base_url c' = base_url c"
  using assms by (auto simp: transcribe_via_def bifrost_enabled_def base_url_def
      split: option.splits prod.splits sum.splits if_splits)

end
