(* ===== verification/Conn.thy ===== *)
theory Conn
  imports Coord Hub Stateless Bifrost Wire Admission Wav
begin

text \<open>
  \<^verbatim>\<open>cmd/gateway/conn.go\<close>: one connection of the gateway, from the bytes of a client's
  message to the events it is sent. The connection's state extends the record \<open>sess\<close>
  of the recovery code. A handler returns what the loop does next: go on, stop, or
  the Go panic the emitter raised. \<open>trySend\<close> asks the environment whether the
  writing side still takes the event. Work the code starts in its own goroutine
  (checkpoints, retired versions) waits in the state until an input runs it.
\<close>

section \<open>Configuration and state\<close>

datatype open_error =
    NoCapacity
  | OpenExhausted nat "backend_error option"
  | OnlineOnly
  | BifrostRequired
  | NoSharedKV string

text \<open>What an error event reports; the texts are a parameter.\<close>

datatype conn_error =
    WireError wire_error
  | AudioBeforeStart
  | StartTwice
  | PipelineSetup string
  | NoWorker open_error
  | EndBeforeStart
  | FlushFailed backend_error
  | IngestFailed audio_error
  | EndpointFlushFailed backend_error
  | EndpointCloseFailed backend_error
  | EndpointOpenFailed backend_error
  | UnexpectedStale backend_error
  | CohortUnavailable backend_error
  | FailoverExhausted coord_error

definition onlineChunkMs :: float64 where "onlineChunkMs = 160"
definition offlineChunkMs :: float64 where "offlineChunkMs = 2000"
definition degradedOnlineChunkMs :: float64 where "degradedOnlineChunkMs = 320"
definition degradedOfflineChunkMs :: float64 where "degradedOfflineChunkMs = 4000"
definition journalCapacity :: int where "journalCapacity = 1500"
definition admissionRetryAfter :: duration where "admissionRetryAfter = second"

definition chunk_ms_for :: "string \<Rightarrow> float64" where
  "chunk_ms_for mode = (if mode = ModeOffline then offlineChunkMs else onlineChunkMs)"

definition degraded_chunk_ms :: "string \<Rightarrow> float64" where
  "degraded_chunk_ms mode = (if mode = ModeOffline then degradedOfflineChunkMs else degradedOnlineChunkMs)"

record ('e, 'd) conn_config =
  cg_host :: "'e host"
  cg_transport :: "'e transport"
  cg_send :: "'e \<Rightarrow> bool \<times> 'e"
  cg_parse :: "byte list \<Rightarrow> json option"
  cg_vad :: "'d vad"
  cg_text :: "conn_error \<Rightarrow> string"
  cg_bifrost_finals :: bool
  cg_model_alias :: string
  cg_stateless_stream :: bool
  cg_new_pipeline :: "(u32 \<Rightarrow> float64 \<Rightarrow> string + 'd pipeline) option"

text \<open>The client of a session: that of a worker, or one over the shared tier.\<close>

datatype session_client = Pinned string | Shared stateless_client

record checkpoint_job =
  jb_client :: session_client
  jb_session_id :: string
  jb_key :: cache_compatibility_key
  jb_handle :: string

record ('e, 'd) conn = "('e, 'd) sess" +
  cn_seqv :: seq_validator
  cn_started :: bool
  cn_admitted :: bool
  cn_client :: "session_client option"
  cn_admission :: controller
  cn_bifrost :: "bifrost_client option"
  cn_hub :: "hub option"
  cn_jobs :: "checkpoint_job list"
  cn_events :: "event list"

type_synonym ('e, 'd, 'a) conn_act = "(('e, 'd) conn, 'a) state"

datatype next_step = Go | Stop | Crashed panic

text \<open>\<open>m\<close>, and \<open>n\<close> if the handler may go on.\<close>

definition and_then :: "('s, next_step) state \<Rightarrow> ('s, next_step) state \<Rightarrow> ('s, next_step) state" where
  "and_then m n = do { r \<leftarrow> m; (if r = Go then n else State_Monad.return r) }"

section \<open>Events, the hub and the client\<close>

definition send :: "('e, 'd) conn_config \<Rightarrow> event \<Rightarrow> ('e, 'd, bool) conn_act" where
  "send cfg ev = do {
     ok \<leftarrow> on_env (cg_send cfg);
     State_Monad.update (\<lambda>s. if ok then s\<lparr>cn_events := cn_events s @ [ev]\<rparr> else s);
     State_Monad.return ok }"

definition send_next :: "('e, 'd) conn_config \<Rightarrow> event \<Rightarrow> ('e, 'd, next_step) conn_act" where
  "send_next cfg ev = do { ok \<leftarrow> send cfg ev; State_Monad.return (if ok then Go else Stop) }"

definition send_stop :: "('e, 'd) conn_config \<Rightarrow> event \<Rightarrow> ('e, 'd, next_step) conn_act" where
  "send_stop cfg ev = do { _ \<leftarrow> send cfg ev; State_Monad.return Stop }"

definition fail_with :: "('e, 'd) conn_config \<Rightarrow> conn_error \<Rightarrow> ('e, 'd, next_step) conn_act" where
  "fail_with cfg err = do {
     s \<leftarrow> State_Monad.get;
     send_stop cfg (em_error (ss_state s) (cg_text cfg err)) }"

text \<open>An emitter operation that may panic, and its event.\<close>

definition emit :: "('e, 'd) conn_config \<Rightarrow> (inference_state \<Rightarrow> panic + (inference_state \<times> event)) \<Rightarrow>
    ('e, 'd, next_step) conn_act" where
  "emit cfg op = do {
     s \<leftarrow> State_Monad.get;
     (case op (ss_state s) of
        Inl p \<Rightarrow> State_Monad.return (Crashed p)
      | Inr (st, ev) \<Rightarrow> do { set_session (\<lambda>_. st); send_next cfg ev }) }"

definition hub_do :: "(hub \<Rightarrow> hub) \<Rightarrow> ('e, 'd, unit) conn_act" where
  "hub_do f = State_Monad.update (\<lambda>s. s\<lparr>cn_hub := map_option f (cn_hub s)\<rparr>)"

definition hub_at :: "('e, 'd) conn_config \<Rightarrow> (time \<Rightarrow> hub \<Rightarrow> hub) \<Rightarrow> ('e, 'd, unit) conn_act" where
  "hub_at cfg f = do { now \<leftarrow> on_env (ho_now (cg_host cfg)); hub_do (f now) }"

text \<open>Calls through the client the session holds; it holds one once it has started.\<close>

definition client_push :: "('e, 'd) conn_config \<Rightarrow> push_req \<Rightarrow> ('e, 'd, backend_error + push_resp) conn_act" where
  "client_push cfg r = State (\<lambda>s. case the (cn_client s) of
       Pinned w \<Rightarrow> (let (res, e) = c_push (ho_client (cg_host cfg) w) r (ss_env s) in (res, s\<lparr>ss_env := e\<rparr>))
     | Shared sc \<Rightarrow> (let (res, sc', e) = stateless_push (cg_transport cfg) sc r (ss_env s)
                    in (res, s\<lparr>ss_env := e, cn_client := Some (Shared sc')\<rparr>)))"

definition client_flush :: "('e, 'd) conn_config \<Rightarrow> string \<Rightarrow> ('e, 'd, backend_error + flush_resp) conn_act" where
  "client_flush cfg handle = do {
     s \<leftarrow> State_Monad.get;
     on_env (case the (cn_client s) of
         Pinned w \<Rightarrow> c_flush (ho_client (cg_host cfg) w) handle
       | Shared sc \<Rightarrow> stateless_flush (cg_transport cfg) sc handle) }"

definition client_close :: "('e, 'd) conn_config \<Rightarrow> string \<Rightarrow> ('e, 'd, backend_error option) conn_act" where
  "client_close cfg handle = do {
     s \<leftarrow> State_Monad.get;
     on_env (case the (cn_client s) of
         Pinned w \<Rightarrow> c_close (ho_client (cg_host cfg) w) handle
       | Shared sc \<Rightarrow> stateless_close (cg_transport cfg) sc handle) }"

definition client_open :: "('e, 'd) conn_config \<Rightarrow> open_req \<Rightarrow> ('e, 'd, backend_error + open_resp) conn_act" where
  "client_open cfg r = State (\<lambda>s. case the (cn_client s) of
       Pinned w \<Rightarrow> (let (res, e) = c_open (ho_client (cg_host cfg) w) r (ss_env s) in (res, s\<lparr>ss_env := e\<rparr>))
     | Shared sc \<Rightarrow> (let (resp, sc') = stateless_open sc r in (Inr resp, s\<lparr>cn_client := Some (Shared sc')\<rparr>)))"

definition is_shared :: "session_client option \<Rightarrow> bool" where
  "is_shared c = (case c of Some (Shared _) \<Rightarrow> True | _ \<Rightarrow> False)"

section \<open>Background checkpoints\<close>

text \<open>\<open>asyncCheckpoint\<close>, run when its goroutine gets to it.\<close>

definition async_checkpoint :: "('e, 'd) conn_config \<Rightarrow> checkpoint_job \<Rightarrow> ('e, 'd, unit) conn_act" where
  "async_checkpoint cfg j = do {
     res \<leftarrow> (case jb_client j of
        Pinned w \<Rightarrow> on_env (c_checkpoint (ho_client (cg_host cfg) w) (jb_handle j))
      | Shared sc \<Rightarrow> State_Monad.return (stateless_checkpoint (jb_handle j)));
     (case res of
        Inl err \<Rightarrow> State_Monad.return ()
      | Inr resp \<Rightarrow> State_Monad.update (\<lambda>s. s\<lparr>ss_checkpoints :=
          cps_store (ho_sha256 (cg_host cfg)) (jb_session_id j) (jb_key j) resp (ss_checkpoints s)\<rparr>)) }"

definition noCheckpointEver :: string where
  "noCheckpointEver = ''adapter cannot serialize '' @ [CHR 0xE2, CHR 0x80, CHR 0x94] @ '' recovery is audio replay''"

definition report_state :: "bool \<Rightarrow> ('e, 'd, unit) conn_act" where
  "report_state serializable = do {
     s \<leftarrow> State_Monad.get;
     let st = ss_state s;
     let (cpSeq, cpBytes, why) =
       (case cps_latest (st_session_id st) (ss_checkpoints s) of
          Some cp \<Rightarrow> (cc_seq cp, length (cc_state_blob cp), '''')
        | None \<Rightarrow> (0, 0, if \<not> serializable then noCheckpointEver else ''none taken yet''));
     hub_do (state_observed (st_session_id st) (st_handle st) (st_generation st)
       (int (journal_len (ss_journal s))) (span_ms (ss_journal s)) cpSeq (int cpBytes) why serializable) }"

section \<open>Dispatching a chunk\<close>

definition on429_act :: "('e, 'd) conn_config \<Rightarrow> string \<Rightarrow> duration \<Rightarrow> ('e, 'd, unit) conn_act" where
  "on429_act cfg ident retryAfter = do {
     now \<leftarrow> on_env (ho_now (cg_host cfg));
     s \<leftarrow> State_Monad.get;
     let (n, r) = router_on429 now ident retryAfter (ss_router s);
     set_router (\<lambda>_. r);
     count (\<lambda>m. m\<lparr>mt_backend_429 := mt_backend_429 m + n\<rparr>) }"

definition rate_limited :: "('e, 'd) conn_config \<Rightarrow> backend_error \<Rightarrow> ('e, 'd, unit) conn_act" where
  "rate_limited cfg err = do {
     s \<leftarrow> State_Monad.get;
     (case err of RateLimitError d \<Rightarrow> on429_act cfg (st_worker_id (ss_state s)) d
      | _ \<Rightarrow> State_Monad.return ()) }"

text \<open>The error half of \<open>dispatchChunk\<close>.\<close>

definition push_failed :: "('e, 'd) conn_config \<Rightarrow> backend_error \<Rightarrow> ('e, 'd, next_step) conn_act" where
  "push_failed cfg err =
     (if err = ErrStaleGeneration then do {
        count (\<lambda>m. m\<lparr>mt_stale_generation_writes := mt_stale_generation_writes m + 1\<rparr>);
        fail_with cfg (UnexpectedStale err) }
      else do {
        rate_limited cfg err;
        s \<leftarrow> State_Monad.get;
        let fromWorker = st_worker_id (ss_state s);
        let fromKey = st_compatibility_key (ss_state s);
        (if is_shared (cn_client s) then do {
           report_act (cg_host cfg) fromWorker False 0;
           fail_with cfg (CohortUnavailable err) }
         else do {
           res \<leftarrow> handle_backend_failure (cg_host cfg) err;
           (case res of
              FPanic p \<Rightarrow> State_Monad.return (Crashed p)
            | FError ferr \<Rightarrow> fail_with cfg (FailoverExhausted ferr)
            | FOk wid resetEv regenerated \<Rightarrow> do {
                State_Monad.update (\<lambda>s. s\<lparr>cn_client := Some (Pinned wid)\<rparr>);
                s' \<leftarrow> State_Monad.get;
                let toKey = st_compatibility_key (ss_state s');
                hub_at cfg (\<lambda>now. hub_failover now (st_session_id (ss_state s')) fromWorker
                  (st_worker_id (ss_state s')) fromKey toKey (fromKey = toKey));
                and_then (send_next cfg resetEv)
                  (case regenerated of
                     None \<Rightarrow> State_Monad.return Go
                   | Some answer \<Rightarrow> emit cfg (\<lambda>st. em_partial st answer)) }) }) })"

definition checkpoint_started :: "('e, 'd, bool) conn_act" where
  "checkpoint_started = do {
     s \<leftarrow> State_Monad.get;
     let st = ss_state s;
     let serializable = (case router_find (ss_router s) (st_worker_id st) of
        None \<Rightarrow> False | Some w \<Rightarrow> ca_serializable (w_capabilities w));
     State_Monad.update (\<lambda>s. if serializable
       then s\<lparr>cn_jobs := cn_jobs s @ [\<lparr> jb_client = the (cn_client s), jb_session_id = st_session_id st,
          jb_key = st_compatibility_key st, jb_handle = st_handle st \<rparr>]\<rparr> else s);
     State_Monad.return serializable }"

definition push_succeeded :: "('e, 'd) conn_config \<Rightarrow> time \<Rightarrow> chunk \<Rightarrow> push_resp \<Rightarrow> ('e, 'd, next_step) conn_act" where
  "push_succeeded cfg pushStarted c resp = do {
     count (\<lambda>m. m\<lparr>mt_backend_pushes := mt_backend_pushes m + 1\<rparr>);
     now \<leftarrow> on_env (ho_now (cg_host cfg));
     s \<leftarrow> State_Monad.get;
     let sid = st_session_id (ss_state s);
     let worker = st_worker_id (ss_state s);
     report_act (cg_host cfg) worker True (now - pushStarted);
     hub_do (push_observed sid worker (now - pushStarted));
     hub_do (chunk_dispatched sid (length (ck_bytes c)) False);
     set_session (\<lambda>st. st\<lparr> st_generation := pp_generation resp, st_last_applied_seq := pp_last_seq_applied resp \<rparr>);
     serializable \<leftarrow> checkpoint_started;
     report_state serializable;
     and_then (emit cfg (\<lambda>st. em_partial st (pp_text resp)))
       (do { s' \<leftarrow> State_Monad.get; send_next cfg (em_ack (ss_state s') (pp_last_seq_applied resp)) }) }"

definition dispatch_chunk :: "('e, 'd) conn_config \<Rightarrow> chunk \<Rightarrow> ('e, 'd, next_step) conn_act" where
  "dispatch_chunk cfg c = do {
     pushStarted \<leftarrow> on_env (ho_now (cg_host cfg));
     s \<leftarrow> State_Monad.get;
     res \<leftarrow> client_push cfg (push_of (ss_state s) c);
     (case res of
        Inl err \<Rightarrow> push_failed cfg err
      | Inr resp \<Rightarrow> push_succeeded cfg pushStarted c resp) }"

fun dispatch_all :: "('e, 'd) conn_config \<Rightarrow> chunk list \<Rightarrow> ('e, 'd, next_step) conn_act" where
  "dispatch_all cfg [] = State_Monad.return Go"
| "dispatch_all cfg (c # cs) = and_then (dispatch_chunk cfg c) (dispatch_all cfg cs)"

text \<open>\<open>deps.Pipeline.Flush()\<close> and \<open>deps.Pipeline.Ready()\<close>, whose chunks are dispatched.\<close>

definition take_chunks :: "('d pipeline \<Rightarrow> chunk list \<times> 'd pipeline) \<Rightarrow> ('e, 'd, chunk list) conn_act" where
  "take_chunks f = State (\<lambda>s. let (cks, p) = f (ss_pipeline s) in (cks, s\<lparr>ss_pipeline := p\<rparr>))"

section \<open>Finals\<close>

definition bifrost_pool :: "('e, 'd) conn_config \<Rightarrow> router \<Rightarrow> string \<Rightarrow> string \<times> string list" where
  "bifrost_pool cfg r workerID =
     (let name = (\<lambda>w. w_id w @ ''/'' @ cg_model_alias cfg) in
      case pool r workerID of
        [] \<Rightarrow> ('''', [])
      | w # ws \<Rightarrow> (name w, map name ws))"

definition direct_final :: "('e, 'd) conn_config \<Rightarrow> ('e, 'd, backend_error + string) conn_act" where
  "direct_final cfg = do {
     s \<leftarrow> State_Monad.get;
     res \<leftarrow> client_flush cfg (st_handle (ss_state s));
     State_Monad.return (map_sum (\<lambda>err. err) fl_text res) }"

definition bifrost_final :: "('e, 'd) conn_config \<Rightarrow> audio_record list \<Rightarrow> ('e, 'd, backend_error + string) conn_act" where
  "bifrost_final cfg records = State (\<lambda>s.
     let (primary, peers) = bifrost_pool cfg (ss_router s) (st_worker_id (ss_state s));
         wav = WAVFromRecords records (word_of_int (st_sample_rate_hz (ss_state s)));
         (res, b, e) = transcribe_via (cg_transport cfg) (cn_bifrost s) wav primary peers (ss_env s)
     in (res, s\<lparr>cn_bifrost := b, ss_env := e\<rparr>))"

definition final_text :: "('e, 'd) conn_config \<Rightarrow> u64 \<Rightarrow> ('e, 'd, backend_error + string) conn_act" where
  "final_text cfg startSeq = do {
     s \<leftarrow> State_Monad.get;
     let records = read_after (ss_journal s) startSeq;
     (if bifrost_enabled (cn_bifrost s) \<and> (st_mode (ss_state s) = ModeOffline \<or> cg_bifrost_finals cfg)
         \<and> records \<noteq> []
      then do {
        res \<leftarrow> bifrost_final cfg records;
        (case res of Inr answer \<Rightarrow> State_Monad.return (Inr answer) | Inl _ \<Rightarrow> direct_final cfg) }
      else direct_final cfg) }"

text \<open>\<open>Emitter.Final\<close> on the session, and what a duplicate counts.\<close>

definition commit_final :: "string \<Rightarrow> u64 \<Rightarrow> u64 \<Rightarrow> (final_event \<Rightarrow> journal \<Rightarrow> journal) \<Rightarrow>
    ('e, 'd, panic + final_event) conn_act" where
  "commit_final answer seqStart seqEnd trim = do {
     s \<leftarrow> State_Monad.get;
     (case em_final (ss_state s) (ss_final s) answer seqStart seqEnd of
        Inl p \<Rightarrow> State_Monad.return (Inl p)
      | Inr (st, lf, fe, isNew) \<Rightarrow> do {
          State_Monad.update (\<lambda>s. s\<lparr> ss_state := st, ss_final := lf \<rparr>);
          (if isNew then State_Monad.update (\<lambda>s. s\<lparr>ss_journal := trim fe (ss_journal s)\<rparr>)
           else count (\<lambda>m. m\<lparr>mt_duplicate_finals := mt_duplicate_finals m + 1\<rparr>));
          State_Monad.return (Inr fe) }) }"

definition endpoint_trim :: "u64 option \<Rightarrow> final_event \<Rightarrow> journal \<Rightarrow> journal" where
  "endpoint_trim retention fe j =
     (case retention of
        None \<Rightarrow> trim_before j (fe_seq_end fe)
      | Some start \<Rightarrow>
          if start = 0 then j
          else trim_before j (if start - 1 < fe_seq_end fe then start - 1 else fe_seq_end fe))"

text \<open>The next utterance gets a fresh handle of the same client.\<close>

definition next_utterance :: "('e, 'd) conn_config \<Rightarrow> final_event \<Rightarrow> ('e, 'd, next_step) conn_act" where
  "next_utterance cfg fe = do {
     s \<leftarrow> State_Monad.get;
     closed \<leftarrow> client_close cfg (st_handle (ss_state s));
     (case closed of
        Some err \<Rightarrow> fail_with cfg (EndpointCloseFailed err)
      | None \<Rightarrow> do {
          opened \<leftarrow> client_open cfg \<lparr> or_session_id = st_session_id (ss_state s),
            or_sample_rate_hz = st_sample_rate_hz (ss_state s), or_mode = st_mode (ss_state s) \<rparr>;
          (case opened of
             Inl err \<Rightarrow> fail_with cfg (EndpointOpenFailed err)
           | Inr resp \<Rightarrow> do {
               State_Monad.update (\<lambda>s. s\<lparr>ss_checkpoints := cps_delete (st_session_id (ss_state s)) (ss_checkpoints s)\<rparr>);
               set_session (\<lambda>st. new_utterance (st\<lparr> st_handle := os_handle resp,
                 st_generation := os_generation resp, st_last_applied_seq := fe_seq_end fe \<rparr>));
               State_Monad.return Go }) }) }"

definition finalize_endpoint :: "('e, 'd) conn_config \<Rightarrow> ('e, 'd, next_step) conn_act" where
  "finalize_endpoint cfg = do {
     cks \<leftarrow> take_chunks pl_flush;
     and_then (dispatch_all cfg cks)
       (do {
          s \<leftarrow> State_Monad.get;
          answer \<leftarrow> final_text cfg (st_utterance_start_seq (ss_state s));
          (case answer of
             Inl err \<Rightarrow> fail_with cfg (EndpointFlushFailed err)
           | Inr answer \<Rightarrow> do {
               s' \<leftarrow> State_Monad.get;
               fin \<leftarrow> commit_final answer (st_utterance_start_seq (ss_state s')) (st_last_applied_seq (ss_state s'))
                 (endpoint_trim (pl_retention_start (ss_pipeline s')));
               (case fin of
                  Inl p \<Rightarrow> State_Monad.return (Crashed p)
                | Inr fe \<Rightarrow> and_then (send_next cfg (FinalEvent fe)) (next_utterance cfg fe)) }) }) }"

section \<open>Opening a session\<close>

fun open_with_retry :: "('e, 'd) conn_config \<Rightarrow> session_start \<Rightarrow> nat \<Rightarrow> string list \<Rightarrow> backend_error option \<Rightarrow>
    ('e, 'd, open_error + worker \<times> open_resp) conn_act" where
  "open_with_retry cfg m 0 excluded lastErr =
     State_Monad.return (Inl (OpenExhausted MaxFailoverAttempts lastErr))"
| "open_with_retry cfg m (Suc n) excluded lastErr = do {
     s \<leftarrow> State_Monad.get;
     picked \<leftarrow> pick_act (cg_host cfg) (st_mode (ss_state s)) excluded '''';
     (case picked of
        None \<Rightarrow> State_Monad.return (Inl NoCapacity)
      | Some target \<Rightarrow> do {
          res \<leftarrow> on_env (c_open (ho_client (cg_host cfg) (w_id target))
            \<lparr> or_session_id = st_session_id (ss_state s), or_sample_rate_hz = ss_sample_rate_hz m,
              or_mode = ss_mode m \<rparr>);
          (case res of
             Inr resp \<Rightarrow> State_Monad.return (Inr (target, resp))
           | Inl err \<Rightarrow> do {
               report_act (cg_host cfg) (w_id target) False 0;
               open_with_retry cfg m n (w_id target # excluded) (Some err) }) }) }"

definition advert_of :: "worker \<Rightarrow> worker_advert" where
  "advert_of w =
     \<lparr> wa_worker_id = w_id w, wa_status = '''', wa_model = '''',
       wa_compatibility_key_hash = w_compatibility_key w, wa_capabilities = w_capabilities w,
       wa_active_sessions = 0, wa_state_bytes = 0, wa_queue_depth = 0, wa_rtf_p50 = None,
       wa_last_heartbeat_ms = 0, wa_kv_tier = None, wa_inflight = 0, wa_running = 0,
       wa_inflight_high_water = 0, wa_uptime_s = 0, wa_rss_bytes = None, wa_cgroup_memory_bytes = None,
       wa_cgroup_memory_limit_bytes = None, wa_cpu_percent = None \<rparr>"

text \<open>\<open>StatelessClient.Open\<close> returns no error, so building the client is all that can fail.\<close>

definition stateless_client_for :: "('e, 'd) conn_config \<Rightarrow> bifrost_client option \<Rightarrow> router \<Rightarrow> worker \<Rightarrow> string \<Rightarrow>
    (stateless_client \<times> string) option" where
  "stateless_client_for cfg b r target sid =
     (if \<not> cg_stateless_stream cfg \<or> \<not> bifrost_enabled b then None
      else if w_kv_tier_url target = '''' \<or> \<not> ca_serializable (w_capabilities target) then None
      else let (primary, fallbacks) = bifrost_pool cfg r (w_id target) in
        if primary = '''' then None
        else let (resp, sc) = stateless_open
                   (new_stateless_client (base_url b) (w_kv_tier_url target) primary fallbacks (advert_of target))
                   \<lparr> or_session_id = sid, or_sample_rate_hz = 0, or_mode = ModeOnline \<rparr>
             in Some (sc, os_handle resp))"

fun stateless_retry :: "('e, 'd) conn_config \<Rightarrow> nat \<Rightarrow> string list \<Rightarrow>
    ('e, 'd, open_error + worker \<times> stateless_client \<times> open_resp) conn_act" where
  "stateless_retry cfg 0 excluded = do {
     s \<leftarrow> State_Monad.get;
     State_Monad.return (Inl (NoSharedKV (st_mode (ss_state s)))) }"
| "stateless_retry cfg (Suc n) excluded = do {
     s \<leftarrow> State_Monad.get;
     picked \<leftarrow> pick_act (cg_host cfg) (st_mode (ss_state s)) excluded '''';
     (case picked of
        None \<Rightarrow> State_Monad.return (Inl NoCapacity)
      | Some target \<Rightarrow> do {
          s' \<leftarrow> State_Monad.get;
          (case stateless_client_for cfg (cn_bifrost s') (ss_router s') target (st_session_id (ss_state s')) of
             Some (sc, handle) \<Rightarrow> State_Monad.return (Inr (target, sc,
               \<lparr> os_handle = handle, os_compatibility_key_hash = w_compatibility_key target,
                 os_capabilities = w_capabilities target, os_generation = 0 \<rparr>))
           | None \<Rightarrow> stateless_retry cfg n (w_id target # excluded)) }) }"

definition open_stateless_with_retry :: "('e, 'd) conn_config \<Rightarrow>
    ('e, 'd, open_error + worker \<times> stateless_client \<times> open_resp) conn_act" where
  "open_stateless_with_retry cfg = do {
     s \<leftarrow> State_Monad.get;
     (if st_mode (ss_state s) \<noteq> ModeOnline then State_Monad.return (Inl OnlineOnly)
      else if \<not> bifrost_enabled (cn_bifrost s) then State_Monad.return (Inl BifrostRequired)
      else stateless_retry cfg MaxFailoverAttempts []) }"

definition open_session :: "('e, 'd) conn_config \<Rightarrow> session_start \<Rightarrow>
    ('e, 'd, open_error + worker \<times> session_client \<times> open_resp) conn_act" where
  "open_session cfg m =
     (if cg_stateless_stream cfg then do {
        res \<leftarrow> open_stateless_with_retry cfg;
        State_Monad.return (map_sum (\<lambda>err. err) (\<lambda>(w, sc, resp). (w, Shared sc, resp)) res) }
      else do {
        res \<leftarrow> open_with_retry cfg m MaxFailoverAttempts [] None;
        State_Monad.return (map_sum (\<lambda>err. err) (\<lambda>(w, resp). (w, Pinned (w_id w), resp)) res) })"

section \<open>Control messages\<close>

text \<open>\<open>Admit\<close>; the refusals it counts are the package counter.\<close>

definition admit_act :: "('e, 'd, decision) conn_act" where
  "admit_act = State (\<lambda>s.
     let (d, c) = admit ((cn_admission s)\<lparr>ct_rejected := mt_admission_rejected (ss_metrics s)\<rparr>)
     in (d, s\<lparr> cn_admission := c, ss_metrics := (ss_metrics s)\<lparr>mt_admission_rejected := ct_rejected c\<rparr> \<rparr>))"

definition overload :: "('e, 'd) conn_config \<Rightarrow> string \<Rightarrow> duration \<Rightarrow> ('e, 'd, next_step) conn_act" where
  "overload cfg reason retryAfter = do {
     s \<leftarrow> State_Monad.get;
     hub_at cfg (\<lambda>now. refused now (st_session_id (ss_state s)) reason);
     send_stop cfg (em_overloaded (ss_state s) reason retryAfter) }"

definition noCapableWorker :: string where "noCapableWorker = ''no capable worker available''"

definition make_pipeline :: "('e, 'd) conn_config \<Rightarrow> u32 \<Rightarrow> float64 \<Rightarrow> string + 'd pipeline" where
  "make_pipeline cfg rate chunkMs =
     (case cg_new_pipeline cfg of
        None \<Rightarrow> Inr (Passthrough (new_passthrough rate chunkMs))
      | Some mk \<Rightarrow> mk rate chunkMs)"

definition session_open_failed :: "('e, 'd) conn_config \<Rightarrow> open_error \<Rightarrow> ('e, 'd, next_step) conn_act" where
  "session_open_failed cfg err =
     (if err = NoCapacity then do {
        count (\<lambda>m. m\<lparr>mt_admission_rejected := mt_admission_rejected m + 1\<rparr>);
        overload cfg noCapableWorker admissionRetryAfter }
      else fail_with cfg (NoWorker err))"

definition session_opened :: "('e, 'd) conn_config \<Rightarrow> frame \<Rightarrow> worker \<Rightarrow> session_client \<Rightarrow> open_resp \<Rightarrow>
    ('e, 'd, next_step) conn_act" where
  "session_opened cfg f target client resp = do {
     State_Monad.update (\<lambda>s. s\<lparr>cn_client := Some client\<rparr>);
     set_router (update_worker (w_id target) bind_session);
     report_act (cg_host cfg) (w_id target) True 0;
     set_session (\<lambda>st. st\<lparr> st_worker_id := w_id target, st_handle := os_handle resp,
       st_compatibility_key := w_compatibility_key target, st_generation := os_generation resp \<rparr>);
     State_Monad.update (\<lambda>s. s\<lparr>cn_started := True\<rparr>);
     s \<leftarrow> State_Monad.get;
     hub_at cfg (\<lambda>now. session_started now (st_session_id (ss_state s)) (st_mode (ss_state s)) (w_id target)
       (w_compatibility_key target) (w_model target));
     send_next cfg (em_ack (ss_state s) (f_seq f)) }"

definition start_session :: "('e, 'd) conn_config \<Rightarrow> frame \<Rightarrow> session_start \<Rightarrow> ('e, 'd, next_step) conn_act" where
  "start_session cfg f m = do {
     s \<leftarrow> State_Monad.get;
     (if cn_started s then fail_with cfg StartTwice
      else case validate_session_start m of
        Some err \<Rightarrow> fail_with cfg (WireError err)
      | None \<Rightarrow> do {
          d \<leftarrow> admit_act;
          (if dc_refused d then overload cfg (dc_reason d) (dc_retry_after d)
           else do {
             State_Monad.update (\<lambda>s. s\<lparr>cn_admitted := True\<rparr>);
             set_session (\<lambda>st. st\<lparr> st_mode := ss_mode m, st_sample_rate_hz := ss_sample_rate_hz m \<rparr>);
             s' \<leftarrow> State_Monad.get;
             (case make_pipeline cfg (word_of_int (ss_sample_rate_hz m))
                 (chunk_policy (cn_admission s') (chunk_ms_for (ss_mode m)) (degraded_chunk_ms (ss_mode m))) of
                Inl err \<Rightarrow> fail_with cfg (PipelineSetup err)
              | Inr p \<Rightarrow> do {
                  State_Monad.update (\<lambda>s. s\<lparr>ss_pipeline := p\<rparr>);
                  opened \<leftarrow> open_session cfg m;
                  (case opened of
                     Inl err \<Rightarrow> session_open_failed cfg err
                   | Inr (target, client, resp) \<Rightarrow> session_opened cfg f target client resp) }) }) }) }"

definition end_session :: "('e, 'd) conn_config \<Rightarrow> ('e, 'd, next_step) conn_act" where
  "end_session cfg = do {
     s \<leftarrow> State_Monad.get;
     (if \<not> cn_started s then fail_with cfg EndBeforeStart
      else do {
        cks \<leftarrow> take_chunks pl_flush;
        and_then (dispatch_all cfg cks)
          (do {
             s' \<leftarrow> State_Monad.get;
             answer \<leftarrow> final_text cfg (st_utterance_start_seq (ss_state s'));
             (case answer of
                Inl err \<Rightarrow> fail_with cfg (FlushFailed err)
              | Inr answer \<Rightarrow> do {
                  s'' \<leftarrow> State_Monad.get;
                  fin \<leftarrow> commit_final answer 0 (st_last_applied_seq (ss_state s''))
                    (\<lambda>fe j. trim_before j (fe_seq_end fe));
                  (case fin of
                     Inl p \<Rightarrow> State_Monad.return (Crashed p)
                   | Inr fe \<Rightarrow> send_stop cfg (FinalEvent fe)) }) }) }) }"

definition handle_control :: "('e, 'd) conn_config \<Rightarrow> frame \<Rightarrow> ('e, 'd, next_step) conn_act" where
  "handle_control cfg f =
     (case decode_control (cg_parse cfg) (f_payload f) of
        Inl err \<Rightarrow> fail_with cfg (WireError err)
      | Inr (CtlStart m) \<Rightarrow> start_session cfg f m
      | Inr (CtlEnd _) \<Rightarrow> end_session cfg)"

section \<open>Audio frames\<close>

text \<open>
  The loop over \<open>Boundary\<close>: whether an endpoint was among the events. Each turn takes
  one queued event, so one more turn than there are events ends it.
\<close>

fun boundary_loop :: "('e, 'd) conn_config \<Rightarrow> nat \<Rightarrow> bool \<Rightarrow> ('e, 'd, bool \<times> next_step) conn_act" where
  "boundary_loop cfg 0 endpoint = State_Monad.return (endpoint, Stop)"
| "boundary_loop cfg (Suc n) endpoint = do {
     next \<leftarrow> State (\<lambda>s. let (ev, p) = pl_boundary (ss_pipeline s) in (ev, s\<lparr>ss_pipeline := p\<rparr>));
     (case next of
        None \<Rightarrow> State_Monad.return (endpoint, Go)
      | Some b \<Rightarrow>
          (case be_type b of
             EventSpeechStart \<Rightarrow> do {
               r \<leftarrow> emit cfg (\<lambda>st. em_speech_start st (be_seq b));
               (if r = Go then boundary_loop cfg n endpoint else State_Monad.return (endpoint, r)) }
           | EventEndpoint \<Rightarrow> boundary_loop cfg n True)) }"

definition boundaries :: "('e, 'd) conn_config \<Rightarrow> ('e, 'd, bool \<times> next_step) conn_act" where
  "boundaries cfg = do {
     s \<leftarrow> State_Monad.get;
     boundary_loop cfg (Suc (length (pl_queued (ss_pipeline s)))) False }"

definition handle_audio_frame :: "('e, 'd) conn_config \<Rightarrow> frame \<Rightarrow> ('e, 'd, next_step) conn_act" where
  "handle_audio_frame cfg f = do {
     ingested \<leftarrow> State (\<lambda>s. let (res, p) = pl_ingest (cg_vad cfg) (ss_pipeline s) f in (res, s\<lparr>ss_pipeline := p\<rparr>));
     (case ingested of
        Inl err \<Rightarrow> fail_with cfg (IngestFailed err)
      | Inr ref \<Rightarrow> do {
          State_Monad.update (\<lambda>s. s\<lparr>ss_journal := journal_append (ss_journal s)
            \<lparr> rc_seq = f_seq f, rc_duration_ms = ref_duration_ms ref, rc_voiced = ref_voiced ref,
              rc_payload = f_payload f \<rparr>\<rparr>);
          s \<leftarrow> State_Monad.get;
          hub_do (frame_ingested (st_session_id (ss_state s)) (ref_duration_ms ref) (ref_voiced ref));
          (endpoint, r) \<leftarrow> boundaries cfg;
          (if r \<noteq> Go then State_Monad.return r
           else do {
             cks \<leftarrow> take_chunks pl_ready;
             and_then (dispatch_all cfg cks)
               (if endpoint then finalize_endpoint cfg else State_Monad.return Go) }) }) }"

section \<open>The session loop\<close>

text \<open>What the loop takes off its channel, and the background work that gets its turn.\<close>

type_synonym inbound_msg = "wire_error + frame"

datatype input = Inbound inbound_msg | CheckpointDone nat | Retired

definition handle_frame :: "('e, 'd) conn_config \<Rightarrow> frame \<Rightarrow> ('e, 'd, next_step) conn_act" where
  "handle_frame cfg f = do {
     s \<leftarrow> State_Monad.get;
     (if f_type f = MsgControl then handle_control cfg f
      else if f_type f = MsgAudio then
        (if \<not> cn_started s then fail_with cfg AudioBeforeStart else handle_audio_frame cfg f)
      else State_Monad.return Go) }"

definition handle_inbound :: "('e, 'd) conn_config \<Rightarrow> inbound_msg \<Rightarrow> ('e, 'd, next_step) conn_act" where
  "handle_inbound cfg msg =
     (case msg of
        Inl err \<Rightarrow> fail_with cfg (WireError err)
      | Inr f \<Rightarrow> do {
          s \<leftarrow> State_Monad.get;
          let ((outcome, gap), v) = validate (cn_seqv s) (f_seq f);
          State_Monad.update (\<lambda>s. s\<lparr>cn_seqv := v\<rparr>);
          (case outcome of
             SeqDuplicate \<Rightarrow> State_Monad.return Go
           | SeqGap \<Rightarrow> and_then (send_next cfg (em_discontinuity (ss_state s) gap)) (handle_frame cfg f)
           | SeqExpected \<Rightarrow> handle_frame cfg f) })"

definition run_checkpoint :: "('e, 'd) conn_config \<Rightarrow> nat \<Rightarrow> ('e, 'd, unit) conn_act" where
  "run_checkpoint cfg i = do {
     s \<leftarrow> State_Monad.get;
     (if i < length (cn_jobs s) then do {
        State_Monad.update (\<lambda>s. s\<lparr>cn_jobs := take i (cn_jobs s) @ drop (Suc i) (cn_jobs s)\<rparr>);
        async_checkpoint cfg (cn_jobs s ! i) }
      else State_Monad.return ()) }"

definition run_retire :: "('e, 'd) conn_config \<Rightarrow> ('e, 'd, unit) conn_act" where
  "run_retire cfg = State_Monad.update (\<lambda>s.
     case cn_client s of
       Some (Shared sc) \<Rightarrow>
         (case sc_retiring sc of
            [] \<Rightarrow> s
          | ref # refs \<Rightarrow> s\<lparr> ss_env := retire (cg_transport cfg) sc ref (ss_env s),
                            cn_client := Some (Shared (sc\<lparr>sc_retiring := refs\<rparr>)) \<rparr>)
     | _ \<Rightarrow> s)"

definition handle_input :: "('e, 'd) conn_config \<Rightarrow> input \<Rightarrow> ('e, 'd, next_step) conn_act" where
  "handle_input cfg inp =
     (case inp of
        Inbound msg \<Rightarrow> handle_inbound cfg msg
      | CheckpointDone i \<Rightarrow> do { run_checkpoint cfg i; State_Monad.return Go }
      | Retired \<Rightarrow> do { run_retire cfg; State_Monad.return Go })"

fun input_loop :: "('e, 'd) conn_config \<Rightarrow> input list \<Rightarrow> ('e, 'd, next_step) conn_act" where
  "input_loop cfg [] = State_Monad.return Go"
| "input_loop cfg (i # is) = and_then (handle_input cfg i) (input_loop cfg is)"

text \<open>The deferred function: the slot first, then the row, the worker and the checkpoint.\<close>

definition teardown :: "('e, 'd) conn_config \<Rightarrow> ('e, 'd, unit) conn_act" where
  "teardown cfg = do {
     State_Monad.update (\<lambda>s. if cn_admitted s then s\<lparr>cn_admission := release (cn_admission s)\<rparr> else s);
     s \<leftarrow> State_Monad.get;
     (if cn_started s then do {
        hub_at cfg (\<lambda>now. session_ended now (st_session_id (ss_state s)) ''closed'');
        _ \<leftarrow> client_close cfg (st_handle (ss_state s));
        set_router (update_worker (st_worker_id (ss_state s)) unbind_session) }
      else State_Monad.return ());
     State_Monad.update (\<lambda>s'. s'\<lparr>ss_checkpoints := cps_delete (st_session_id (ss_state s)) (ss_checkpoints s')\<rparr>) }"

definition session_loop :: "('e, 'd) conn_config \<Rightarrow> input list \<Rightarrow> ('e, 'd, next_step) conn_act" where
  "session_loop cfg inputs = do {
     r \<leftarrow> input_loop cfg inputs;
     teardown cfg;
     State_Monad.return r }"

text \<open>
  The state a connection starts from: the shared parts as it finds them, a nil
  pipeline (\<open>pipe\<close>, read by no handler before \<open>session.start\<close> has set it).
\<close>

definition new_conn :: "string \<Rightarrow> 'd pipeline \<Rightarrow> router \<Rightarrow> checkpoint_store \<Rightarrow> counters \<Rightarrow> controller \<Rightarrow>
    bifrost_client option \<Rightarrow> hub option \<Rightarrow> 'e \<Rightarrow> ('e, 'd) conn" where
  "new_conn sid pipe r cps m ctl b hub e =
     \<lparr> ss_state = new_inference_state sid '''', ss_final = None, ss_pipeline = pipe,
       ss_journal = the (new_journal journalCapacity), ss_router = r, ss_checkpoints = cps,
       ss_metrics = m, ss_env = e, cn_seqv = new_seq_validator, cn_started = False,
       cn_admitted = False, cn_client = None, cn_admission = ctl, cn_bifrost = b, cn_hub = hub,
       cn_jobs = [], cn_events = [] \<rparr>"

section \<open>The reading and the writing side\<close>

text \<open>A WebSocket message: whether it is binary, and its bytes.\<close>

fun read_loop :: "(bool \<times> byte list) list \<Rightarrow> inbound_msg list" where
  "read_loop [] = []"
| "read_loop ((binary, buf) # rest) =
     (if \<not> binary then read_loop rest
      else case decode buf of
        Inl err \<Rightarrow> [Inl err]
      | Inr f \<Rightarrow>
          (case (if f_type f = MsgAudio then validate_audio_frame f else None) of
             Some err \<Rightarrow> [Inl err]
           | None \<Rightarrow> Inr f # read_loop rest))"

text \<open>
  Writing: each event goes to the hub and to the socket, until a write fails. The
  result is what was written; \<open>write\<close> is the socket.
\<close>

fun write_loop :: "(event \<Rightarrow> 'e \<Rightarrow> bool \<times> 'e) \<Rightarrow> ('e \<Rightarrow> time \<times> 'e) \<Rightarrow> event list \<Rightarrow> hub option \<Rightarrow> 'e \<Rightarrow>
    event list \<times> hub option \<times> 'e" where
  "write_loop write clock [] hub e = ([], hub, e)"
| "write_loop write clock (ev # evs) hub e =
     (let (now, e1) = clock e; hub1 = map_option (observe now ev) hub; (ok, e2) = write ev e1
      in if ok then (let (out, hub2, e3) = write_loop write clock evs hub1 e2 in (ev # out, hub2, e3))
         else ([], hub1, e2))"

end
