(* ===== verification/ConnProofs.thy ===== *)
theory ConnProofs
  imports Conn
begin

text \<open>
  What holds of every connection, whatever the client sends and the workers answer:
  no handler reaches a Go panic, and the events sent keep the transcript contract;
  the slot and the worker count a session took are given back. Two relations carry the
  proofs: \<open>quiet\<close> for the actions that leave the emitter alone, and \<open>books_kept\<close> for
  those that leave the ledgers alone.
\<close>

section \<open>Actions the emitter does not see\<close>

definition quiet :: "('e, 'd) conn \<Rightarrow> ('e, 'd) conn \<Rightarrow> bool" where
  "quiet s s' \<longleftrightarrow> st_utterance_id (ss_state s') = st_utterance_id (ss_state s)
     \<and> st_partial_revision (ss_state s') = st_partial_revision (ss_state s)
     \<and> st_finalized (ss_state s') = st_finalized (ss_state s)
     \<and> ss_final s' = ss_final s \<and> cn_events s' = cn_events s"

lemma quiet_order: "reflp quiet" "transp quiet"
  by (auto simp: quiet_def reflp_def transp_def)

abbreviation quiet_act :: "('e, 'd, 'a) conn_act \<Rightarrow> bool" where
  "quiet_act m \<equiv> state_io_rel quiet m"

named_theorems quiet_intros \<open>actions that leave the emitter alone\<close>

lemma quiet_cases [quiet_intros]:
  "(\<And>a. quiet_act (f a)) \<Longrightarrow> (\<And>b. quiet_act (g b)) \<Longrightarrow> quiet_act (case x of Inl a \<Rightarrow> f a | Inr b \<Rightarrow> g b)"
  "quiet_act n \<Longrightarrow> (\<And>b. quiet_act (g b)) \<Longrightarrow> quiet_act (case y of None \<Rightarrow> n | Some b \<Rightarrow> g b)"
  "(\<And>a b. quiet_act (h a b)) \<Longrightarrow> quiet_act (case z of (a, b) \<Rightarrow> h a b)"
  "(\<And>i. quiet_act (p i)) \<Longrightarrow> (\<And>sc. quiet_act (q sc)) \<Longrightarrow> quiet_act (case c of Pinned i \<Rightarrow> p i | Shared sc \<Rightarrow> q sc)"
  by (simp_all split: sum.splits option.splits prod.splits session_client.splits)

lemma quiet_bind [quiet_intros]:
  "quiet_act m \<Longrightarrow> (\<And>x. quiet_act (f x)) \<Longrightarrow> quiet_act (State_Monad.bind m f)"
  by (rule io_bind [OF quiet_order(2)])

lemma quiet_basic [quiet_intros]:
  "quiet_act (State_Monad.return x)" "quiet_act State_Monad.get"
  "quiet_act (on_env g)" "quiet_act (set_router r)" "quiet_act (count k)" "quiet_act (hub_do u)"
  "quiet_act m \<Longrightarrow> quiet_act n \<Longrightarrow> quiet_act (if b then m else n)"
  by (simp_all add: io_return io_get quiet_order on_env_def set_router_def count_def hub_do_def
      state_io_rel_def quiet_def split_beta)

lemma quiet_update: "(\<And>s. quiet s (f s)) \<Longrightarrow> quiet_act (State_Monad.update f)"
  by (rule io_update)

lemma quiet_State: "(\<And>s. quiet s (snd (f s))) \<Longrightarrow> quiet_act (State f)"
  by (simp add: state_io_rel_def)

lemma quiet_env_actions [quiet_intros]:
  "quiet_act (report_act h i ok l)" "quiet_act (pick_act h m ex k)" "quiet_act (hub_at cfg u')"
  "quiet_act (on429_act cfg i d)" "quiet_act (client_flush cfg hdl)" "quiet_act (client_close cfg hdl)"
  unfolding report_act_def pick_act_def hub_at_def on429_act_def client_flush_def client_close_def Let_def
  by (intro quiet_intros)+

lemma quiet_rate_limited [quiet_intros]: "quiet_act (rate_limited cfg err)"
  unfolding rate_limited_def by (cases err) (simp_all, (intro quiet_intros)+)

lemma quiet_state_actions [quiet_intros]:
  "quiet_act (client_push cfg r)" "quiet_act (client_open cfg q)" "quiet_act (bifrost_final cfg records)"
  "quiet_act (take_chunks tk)" "quiet_act admit_act"
  unfolding client_push_def client_open_def bifrost_final_def take_chunks_def admit_act_def
  by (rule quiet_State, auto simp: quiet_def Let_def split: session_client.split prod.split)+

lemma quiet_checkpoints [quiet_intros]:
  "quiet_act (async_checkpoint cfg j)" "quiet_act (run_checkpoint cfg i)" "quiet_act (report_state b)"
  "quiet_act checkpoint_started"
proof -
  show async: "quiet_act (async_checkpoint cfg j)" for j :: checkpoint_job
    unfolding async_checkpoint_def by (intro quiet_intros quiet_update) (simp add: quiet_def)
  show "quiet_act (run_checkpoint cfg i)"
    unfolding run_checkpoint_def by (intro quiet_intros quiet_update async) (simp add: quiet_def)
  show "quiet_act (report_state b)"
    unfolding report_state_def Let_def by (intro quiet_intros)
  show "quiet_act checkpoint_started"
    unfolding checkpoint_started_def Let_def by (intro quiet_intros quiet_update) (simp add: quiet_def)
qed

lemma quiet_final_text [quiet_intros]: "quiet_act (direct_final cfg)" "quiet_act (final_text cfg q)"
proof -
  show direct: "quiet_act (direct_final cfg)"
    unfolding direct_final_def by (intro quiet_intros)
  show "quiet_act (final_text cfg q)"
    unfolding final_text_def Let_def by (intro quiet_intros direct)
qed

lemma quiet_open_with_retry [quiet_intros]: "quiet_act (open_with_retry cfg m n ex err)"
  by (induction n arbitrary: ex err) (simp_all, (intro quiet_intros | assumption)+)

lemma quiet_stateless_retry [quiet_intros]: "quiet_act (stateless_retry cfg n ex)"
  by (induction n arbitrary: ex) (simp_all, (intro quiet_intros | assumption)+)

lemma quiet_open_session [quiet_intros]: "quiet_act (open_session cfg m)"
  unfolding open_session_def open_stateless_with_retry_def by (intro quiet_intros)

lemma quiet_retire [quiet_intros]: "quiet_act (run_retire cfg)"
  unfolding run_retire_def
  by (rule quiet_update) (simp add: quiet_def split: option.split session_client.split list.split)

lemma quiet_teardown [quiet_intros]: "quiet_act (teardown cfg)"
  unfolding teardown_def by (intro quiet_intros quiet_update) (simp_all add: quiet_def)

section \<open>The transcript of a connection\<close>

definition short :: "'a list \<Rightarrow> bool" where
  "short evs \<longleftrightarrow> length evs < 2 ^ 64 - 1"

text \<open>Between two emissions; \<open>fin\<close> tells whether the open utterance has its final.\<close>

definition settled_at :: "bool \<Rightarrow> ('e, 'd) conn \<Rightarrow> bool" where
  "settled_at fin s \<longleftrightarrow> st_finalized (ss_state s) = fin
     \<and> (short (cn_events s) \<longrightarrow> emitter_inv (ss_state s) (ss_final s) (cn_events s))"

text \<open>After the emitter has made an event and before it is sent.\<close>

definition owing :: "bool \<Rightarrow> event \<Rightarrow> ('e, 'd) conn \<Rightarrow> bool" where
  "owing fin ev s \<longleftrightarrow> st_finalized (ss_state s) = fin
     \<and> (short (cn_events s) \<longrightarrow> transcript_ok (cn_events s)
         \<and> emitter_inv (ss_state s) (ss_final s) (cn_events s @ [ev]))"

definition sound :: "('e, 'd) conn \<Rightarrow> bool" where
  "sound s \<longleftrightarrow> (short (cn_events s) \<longrightarrow> transcript_ok (cn_events s))"

text \<open>What a handler leaves behind.\<close>

definition left :: "next_step \<Rightarrow> ('e, 'd) conn \<Rightarrow> bool" where
  "left r s = (case r of Go \<Rightarrow> settled_at False s | Stop \<Rightarrow> sound s | Crashed p \<Rightarrow> False)"

abbreviation keeps :: "('e, 'd, next_step) conn_act \<Rightarrow> bool" where
  "keeps m \<equiv> spec (settled_at False) m left"

lemma emitter_transcript: "emitter_inv st lf evs \<Longrightarrow> transcript_ok evs"
  by (simp add: emitter_inv_def)

lemma short_snoc: "short (evs @ [ev]) \<Longrightarrow> short evs"
  by (simp add: short_def)

lemma settled_sound: "settled_at fin s \<Longrightarrow> sound s"
  by (simp add: settled_at_def sound_def emitter_inv_def)

lemma quiet_keeps:
  "settled_at fin s \<Longrightarrow> quiet s s' \<Longrightarrow> settled_at fin s'"
  "owing fin ev s \<Longrightarrow> quiet s s' \<Longrightarrow> owing fin ev s'"
  "sound s \<Longrightarrow> quiet s s' \<Longrightarrow> sound s'"
  by (auto simp: settled_at_def owing_def sound_def quiet_def
      emitter_inv_cong [of "ss_state s'" "ss_state s"])

lemma spec_quiet:
  "quiet_act m \<Longrightarrow> spec (settled_at fin) m (\<lambda>_. settled_at fin)"
  "quiet_act m \<Longrightarrow> spec (owing fin ev) m (\<lambda>_. owing fin ev)"
  "quiet_act m \<Longrightarrow> spec sound m (\<lambda>_. sound)"
  by (erule spec_keeps, erule (1) quiet_keeps)+

lemma quietly:
  "quiet_act m \<Longrightarrow> (\<And>x. spec (settled_at fin) (f x) Q) \<Longrightarrow> spec (settled_at fin) (State_Monad.bind m f) Q"
  by (rule spec_bind [OF spec_quiet(1)])

lemma get_then:
  "(\<And>s. spec (\<lambda>t. t = s \<and> P t) (f s) Q) \<Longrightarrow> spec P (State_Monad.bind State_Monad.get f) Q"
  by (rule spec_bind [OF spec_get]) (auto simp: spec_def)

lemma spec_send:
  "spec (owing fin ev) (send cfg ev) (\<lambda>ok s. if ok then settled_at fin s else sound s)"
  by (auto simp: spec_def send_def owing_def settled_at_def sound_def dest: short_snoc split: prod.splits)

lemma spec_send_next: "spec (owing False ev) (send_next cfg ev) left"
  unfolding send_next_def
  by (rule spec_bind [OF spec_send], rule spec_return) (simp add: left_def split: if_splits)

lemma spec_send_stop: "spec (owing fin ev) (send_stop cfg ev) left"
  unfolding send_stop_def
  by (rule spec_bind [OF spec_send], rule spec_return) (auto simp: left_def settled_sound split: if_splits)

lemma settled_owing: "settled_at fin s \<Longrightarrow> ev_utterance ev = None \<Longrightarrow> owing fin ev s"
  by (auto simp: settled_at_def owing_def emitter_inv_session_scoped intro: emitter_transcript)

lemmas session_scoped = em_ack_def em_discontinuity_def em_overloaded_def em_error_def

lemma spec_send_scoped:
  "ev_utterance ev = None \<Longrightarrow> spec (settled_at False) (send_next cfg ev) left"
  "ev_utterance ev = None \<Longrightarrow> spec (settled_at fin) (send_stop cfg ev) left"
  using settled_owing by (blast intro: spec_weaken [OF spec_send_next] spec_weaken [OF spec_send_stop])+

lemma spec_fail_with: "spec (settled_at fin) (fail_with cfg err) left"
  unfolding fail_with_def
  by (rule quietly [OF quiet_basic(2)], rule spec_send_scoped(2)) (simp add: session_scoped)

lemma left_Go: "left Go = settled_at False"
  by (simp add: left_def fun_eq_iff)

lemma keeps_and_then:
  assumes "spec P m left" "keeps n"
  shows "spec P (and_then m n) left"
  unfolding and_then_def
proof (rule spec_bind [OF assms(1)])
  fix r
  show "spec (left r) (if r = Go then n else State_Monad.return r) left"
  proof (cases "r = Go")
    case True
    then show ?thesis using assms(2) by (simp add: left_Go)
  qed (simp add: spec_return)
qed

lemma keeps_Go: "keeps (State_Monad.return Go)"
  by (rule spec_return) (simp add: left_def)

lemma keeps_cases:
  "(\<And>a. spec P (f a) Q) \<Longrightarrow> (\<And>b. spec P (g b) Q) \<Longrightarrow> spec P (case x of Inl a \<Rightarrow> f a | Inr b \<Rightarrow> g b) Q"
  "spec P n Q \<Longrightarrow> (\<And>b. spec P (h b) Q) \<Longrightarrow> spec P (case y of None \<Rightarrow> n | Some b \<Rightarrow> h b) Q"
  "spec P m Q \<Longrightarrow> spec P n Q \<Longrightarrow> spec P (if b then m else n) Q"
  by (simp_all split: sum.splits option.splits)

text \<open>An emitter operation that keeps the invariant and panics only after a final.\<close>

definition emitter_op :: "(inference_state \<Rightarrow> panic + (inference_state \<times> event)) \<Rightarrow> bool" where
  "emitter_op op \<longleftrightarrow> (\<forall>s. \<not> st_finalized s \<longrightarrow>
     (\<exists>s' ev. op s = Inr (s', ev) \<and> \<not> st_finalized s'
       \<and> (\<forall>lf evs. emitter_inv s lf evs \<longrightarrow> length evs < 2 ^ 64 - 1 \<longrightarrow> emitter_inv s' lf (evs @ [ev]))))"

lemma emitter_opI:
  assumes "\<And>s. \<not> st_finalized s \<Longrightarrow> \<exists>s' ev. op s = Inr (s', ev) \<and> \<not> st_finalized s'"
    and "\<And>s lf evs s' ev. emitter_inv s lf evs \<Longrightarrow> length evs < 2 ^ 64 - 1 \<Longrightarrow> op s = Inr (s', ev)
      \<Longrightarrow> emitter_inv s' lf (evs @ [ev])"
  shows "emitter_op op"
  unfolding emitter_op_def using assms by blast

lemma emitter_ops:
  "emitter_op (\<lambda>st. em_partial st t)" "emitter_op (\<lambda>st. em_speech_start st q)"
  by (rule emitter_opI, simp add: em_partial_def em_speech_start_def must_not_be_finalized_def Let_def,
      blast intro: em_partial_inv em_speech_start_inv)+

lemma keeps_emit:
  assumes "emitter_op op"
  shows "keeps (emit cfg op)"
proof (rule specI)
  fix s r s'
  assume live: "settled_at False s" and run: "run_state (emit cfg op) s = (r, s')"
  then obtain st ev where op: "op (ss_state s) = Inr (st, ev)" "\<not> st_finalized st"
    "\<forall>lf evs. emitter_inv (ss_state s) lf evs \<longrightarrow> length evs < 2 ^ 64 - 1 \<longrightarrow> emitter_inv st lf (evs @ [ev])"
    using assms by (fastforce simp: emitter_op_def settled_at_def)
  have "run_state (send_next cfg ev) (s\<lparr>ss_state := st\<rparr>) = (r, s')"
    using run op(1) by (simp add: emit_def)
  moreover have "owing False ev (s\<lparr>ss_state := st\<rparr>)"
    using live op(2,3) by (auto simp: settled_at_def owing_def short_def intro: emitter_transcript)
  ultimately show "left r s'" by (intro specD [OF spec_send_next])
qed

section \<open>Failover as the emitter sees it\<close>

lemma pick_act_touches:
  assumes "run_state (pick_act h mode ex key) s = (res, s')"
  shows "\<exists>e r. s' = s\<lparr>ss_env := e, ss_router := r\<rparr>"
  using assms by (auto simp: pick_act_def split: prod.splits)

definition failed_over :: "('e, 'd, 'z) sess_scheme \<Rightarrow> failover \<Rightarrow> ('e, 'd, 'z) sess_scheme \<Rightarrow> bool" where
  "failed_over s res s' \<longleftrightarrow> ss_final s' = ss_final s \<and> sess.more s' = sess.more s
     \<and> (case res of
          FPanic _ \<Rightarrow> st_finalized (ss_state s)
        | FError _ \<Rightarrow> ss_state s' = ss_state s
        | FOk _ ev _ \<Rightarrow> \<not> st_finalized (ss_state s) \<and> ev = reset_of (ss_state s)
            \<and> (\<exists>t. moved_to t (ss_state s) (ss_state s')))"

lemma failed_over_cong:
  "failed_over s1 res s' \<Longrightarrow> ss_final s1 = ss_final s \<Longrightarrow> sess.more s1 = sess.more s \<Longrightarrow> ss_state s1 = ss_state s
    \<Longrightarrow> failed_over s res s'"
  by (cases res) (simp_all add: failed_over_def)

lemma failover_loop_emits:
  "run_state (failover_loop h owner n excluded err) s = (res, s') \<Longrightarrow> failed_over s res s'"
proof (induction n arbitrary: s excluded err)
  case 0
  then show ?case by (auto simp: count_exhausted_def failed_over_def)
next
  case (Suc n)
  obtain picked s1 where pick: "run_state (pick_act h (st_mode (ss_state s)) excluded
      (st_compatibility_key (ss_state s))) s = (picked, s1)" by fastforce
  obtain e r1 where s1: "s1 = s\<lparr>ss_env := e, ss_router := r1\<rparr>" using pick_act_touches [OF pick] by blast
  show ?case
  proof (cases picked)
    case None
    with Suc.prems pick show ?thesis by (auto simp: count_exhausted_def failed_over_def s1)
  next
    case (Some t)
    obtain sameKey out s2 where rec: "run_state (recover h t) s1 = ((sameKey, out), s2)"
      by (metis surj_pair)
    note same = only_touchesD [OF recover_run(1) [OF rec]] and ok = recover_run(2) [OF rec]
    show ?thesis
    proof (cases out)
      case (RPanic p)
      with Suc.prems pick Some rec have "res = FPanic p" "s' = s2" by simp_all
      with ok same show ?thesis by (simp add: failed_over_def recovery_ok_def s1 RPanic)
    next
      case (ROk ev regenerated)
      with Suc.prems pick Some rec ok same show ?thesis
        by (auto simp: failed_over_def recovery_ok_def s1)
    next
      case (RError err')
      have loop: "run_state (failover_loop h owner n (w_id t # excluded) err') (abandoned h t s s2) = (res, s')"
        using Suc.prems failover_loop_retry [OF pick [unfolded Some] rec [unfolded RError]] by simp
      from Suc.IH [OF this] show ?thesis
        by (rule failed_over_cong) (simp_all add: same s1 abandoned_def Let_def)
    qed
  qed
qed

lemma failure_emits:
  assumes "run_state (handle_backend_failure h cause) s = (res, s')"
  shows "failed_over s res s'"
proof -
  let ?w = "st_worker_id (ss_state s)" and ?e = "ss_env s"
  have "run_state (failover_loop h ?w MaxFailoverAttempts [?w] (Backend cause))
      (s\<lparr> ss_env := snd (ho_now h ?e), ss_router := router_report (fst (ho_now h ?e)) ?w False 0 (ss_router s) \<rparr>)
      = (res, s')"
    using assms by (simp add: handle_backend_failure_def Let_def)
  from failover_loop_emits [OF this] show ?thesis by (rule failed_over_cong) simp_all
qed

lemma more_events: "sess.more s' = sess.more s \<Longrightarrow> cn_events s' = cn_events (s :: ('e, 'd) conn)"
  by (cases s rule: conn.cases, cases s' rule: conn.cases) simp

lemma moved_reset_inv:
  assumes "moved_to t st st'" "emitter_inv st lf evs" "length evs < 2 ^ 64 - 1" "\<not> st_finalized st"
  shows "emitter_inv st' lf (evs @ [reset_of st]) \<and> \<not> st_finalized st'"
proof -
  have "em_partial_reset (st\<lparr>st_failover_epoch := st_failover_epoch st + 1\<rparr>)
      = Inr (st\<lparr> st_failover_epoch := st_failover_epoch st + 1, st_partial_revision := st_partial_revision st + 1,
                 st_last_partial := '''' \<rparr>, reset_of st)" (is "_ = Inr (?st, _)")
    using assms(4) by (simp add: em_partial_reset_def must_not_be_finalized_def reset_of_def utterance_label_def)
  moreover have "emitter_inv (st\<lparr>st_failover_epoch := st_failover_epoch st + 1\<rparr>) lf evs"
    using assms(2) emitter_inv_cong [of "st\<lparr>st_failover_epoch := st_failover_epoch st + 1\<rparr>" st lf evs] by simp
  ultimately have reset: "emitter_inv ?st lf (evs @ [reset_of st])"
    by (intro em_partial_reset_inv [OF _ assms(3)])
  obtain handle gen applied where st': "st' = st\<lparr> st_worker_id := w_id t, st_handle := handle,
     st_compatibility_key := w_compatibility_key t, st_failover_epoch := st_failover_epoch st + 1,
     st_generation := gen, st_last_applied_seq := applied,
     st_partial_revision := st_partial_revision st + 1, st_last_partial := '''' \<rparr>"
    using assms(1) by (auto simp: moved_to_def)
  have "emitter_inv st' lf (evs @ [reset_of st]) = emitter_inv ?st lf (evs @ [reset_of st])"
    by (rule emitter_inv_cong) (simp_all add: st')
  with reset show ?thesis using assms(4) by (simp add: st')
qed

lemma spec_failure:
  "spec (settled_at False) (handle_backend_failure h cause)
     (\<lambda>res. case res of FPanic _ \<Rightarrow> (\<lambda>s. False) | FError _ \<Rightarrow> settled_at False | FOk _ ev _ \<Rightarrow> owing False ev)"
proof (rule specI)
  fix s :: "('a, 'b) conn" and res s'
  assume live: "settled_at False s" and run: "run_state (handle_backend_failure h cause) s = (res, s')"
  note f = failure_emits [OF run]
  have evs: "cn_events s' = cn_events s" "ss_final s' = ss_final s"
    using f more_events by (auto simp: failed_over_def)
  show "(case res of FPanic _ \<Rightarrow> (\<lambda>s. False) | FError _ \<Rightarrow> settled_at False | FOk _ ev _ \<Rightarrow> owing False ev) s'"
  proof (cases res)
    case (FOk wid ev regenerated)
    then obtain t where t: "moved_to t (ss_state s) (ss_state s')" "ev = reset_of (ss_state s)"
      "\<not> st_finalized (ss_state s)" using f by (auto simp: failed_over_def)
    then have "\<not> st_finalized (ss_state s')" by (auto simp: moved_to_def)
    with moved_reset_inv [OF t(1) _ _ t(3)] live t(2) evs show ?thesis
      by (auto simp: FOk owing_def settled_at_def short_def intro: emitter_transcript)
  qed (use f live evs in \<open>auto simp: failed_over_def settled_at_def\<close>)
qed

section \<open>Every handler keeps the contract\<close>

named_theorems keeps_intros \<open>handlers that keep the transcript contract\<close>

lemma spec_failover_case:
  assumes "\<And>ferr. spec (settled_at False) (f ferr) left" "\<And>wid ev t. spec (owing False ev) (g wid ev t) left"
  shows "spec (case res of FPanic _ \<Rightarrow> (\<lambda>s. False) | FError _ \<Rightarrow> settled_at False | FOk _ ev _ \<Rightarrow> owing False ev)
    (case res of FPanic p \<Rightarrow> State_Monad.return (Crashed p) | FError ferr \<Rightarrow> f ferr | FOk wid ev t \<Rightarrow> g wid ev t) left"
  using assms by (cases res) (simp_all add: spec_def)

lemma keeps_push_failed [keeps_intros]: "keeps (push_failed cfg err)"
proof -
  let ?next = "\<lambda>regenerated. case regenerated of None \<Rightarrow> State_Monad.return Go | Some t \<Rightarrow> emit cfg (\<lambda>st. em_partial st t)"
  have tail: "spec (owing False ev) (do {
      State_Monad.update (\<lambda>s. s\<lparr>cn_client := Some (Pinned wid)\<rparr>);
      s' \<leftarrow> State_Monad.get;
      hub_at cfg (\<lambda>now. hub_failover now (st_session_id (ss_state s')) w
        (st_worker_id (ss_state s')) k (st_compatibility_key (ss_state s'))
        (k = st_compatibility_key (ss_state s')));
      and_then (send_next cfg ev) (?next regenerated) }) left" for wid ev w k regenerated
    by (intro spec_bind [OF spec_quiet(2)] quiet_intros quiet_update keeps_and_then spec_send_next keeps_cases
        keeps_Go keeps_emit emitter_ops) (simp add: quiet_def)
  have core: "keeps (do {
      res \<leftarrow> handle_backend_failure (cg_host cfg) err;
      (case res of
         FPanic p \<Rightarrow> State_Monad.return (Crashed p)
       | FError ferr \<Rightarrow> fail_with cfg (FailoverExhausted ferr)
       | FOk wid resetEv regenerated \<Rightarrow> do {
           State_Monad.update (\<lambda>s. s\<lparr>cn_client := Some (Pinned wid)\<rparr>);
           s' \<leftarrow> State_Monad.get;
           hub_at cfg (\<lambda>now. hub_failover now (st_session_id (ss_state s')) w
             (st_worker_id (ss_state s')) k (st_compatibility_key (ss_state s'))
             (k = st_compatibility_key (ss_state s')));
           and_then (send_next cfg resetEv) (?next regenerated) }) })" for w k
    by (intro spec_bind [OF spec_failure] spec_failover_case spec_fail_with tail)
  show ?thesis
    unfolding push_failed_def Let_def
    by (intro keeps_cases core spec_fail_with quietly [OF quiet_basic(2)] quietly [OF quiet_basic(5)]
        quietly [OF quiet_rate_limited] quietly [OF quiet_env_actions(1)])
qed

lemma keeps_push_succeeded [keeps_intros]: "keeps (push_succeeded cfg t c resp)"
  unfolding push_succeeded_def Let_def set_session_def
  by (intro quietly quiet_intros quiet_update keeps_and_then keeps_emit emitter_ops spec_send_scoped)
    (simp_all add: quiet_def session_scoped)

lemma keeps_dispatch [keeps_intros]: "keeps (dispatch_chunk cfg c)" "keeps (dispatch_all cfg cs)"
proof -
  show chunk: "keeps (dispatch_chunk cfg c)" for c
    unfolding dispatch_chunk_def by (intro quietly quiet_intros keeps_cases keeps_intros)
  show "keeps (dispatch_all cfg cs)"
    by (induction cs) (simp_all add: keeps_Go keeps_and_then chunk)
qed

text \<open>A final: from an open utterance to one that has its final, which is still to be sent.\<close>

lemma spec_commit_final:
  "spec (settled_at False) (commit_final answer q1 q2 trim)
     (\<lambda>res. case res of Inl p \<Rightarrow> (\<lambda>s. False) | Inr fe \<Rightarrow> owing True (FinalEvent fe))"
proof (rule specI)
  fix s :: "('a, 'b) conn" and res s'
  assume live: "settled_at False s" and run: "run_state (commit_final answer q1 q2 trim) s = (res, s')"
  obtain st lf fe where fin: "em_final (ss_state s) (ss_final s) answer q1 q2 = Inr (st, lf, fe, True)" "st_finalized st"
    using live by (simp add: settled_at_def em_final_def Let_def)
  have inv: "short (cn_events s) \<Longrightarrow> emitter_inv st lf (cn_events s @ [FinalEvent fe])"
    using live em_final_inv [OF _ fin(1)] by (simp add: settled_at_def)
  have "res = Inr fe" "s' = s\<lparr> ss_state := st, ss_final := lf, ss_journal := trim fe (ss_journal s) \<rparr>"
    using run fin(1) by (simp_all add: commit_final_def)
  then show "(case res of Inl p \<Rightarrow> \<lambda>s. False | Inr fe \<Rightarrow> owing True (FinalEvent fe)) s'"
    using fin(2) inv settled_sound [OF live] by (simp add: owing_def sound_def)
qed

lemma spec_next_utterance: "spec (settled_at True) (next_utterance cfg fe) left"
proof -
  have fresh: "spec (settled_at True) (do {
      set_session (\<lambda>st. new_utterance (st\<lparr> st_handle := hdl, st_generation := g, st_last_applied_seq := q \<rparr>));
      State_Monad.return Go }) left" for hdl g q
  proof (rule specI)
    fix s r s'
    assume closing: "settled_at True s" and run: "run_state (do {
        set_session (\<lambda>st. new_utterance (st\<lparr> st_handle := hdl, st_generation := g, st_last_applied_seq := q \<rparr>));
        State_Monad.return Go }) s = (r, s')"
    let ?st = "(ss_state s)\<lparr> st_handle := hdl, st_generation := g, st_last_applied_seq := q \<rparr>"
    from run have s': "r = Go" "s' = s\<lparr>ss_state := new_utterance ?st\<rparr>" by auto
    have "emitter_inv (new_utterance ?st) (ss_final s) (cn_events s)" if "short (cn_events s)"
    proof (rule new_utterance_inv)
      show "emitter_inv ?st (ss_final s) (cn_events s)"
        using closing that emitter_inv_cong [of ?st "ss_state s"] by (simp add: settled_at_def)
    qed (use closing that in \<open>simp_all add: settled_at_def short_def\<close>)
    then show "left r s'" by (simp add: left_def s' settled_at_def new_utterance_def)
  qed
  show ?thesis
    unfolding next_utterance_def
    by (intro quietly quiet_intros keeps_cases spec_fail_with quiet_update fresh) (simp add: quiet_def)
qed

lemma spec_final_sent:
  "spec (owing True (FinalEvent fe)) (and_then (send_next cfg (FinalEvent fe)) (next_utterance cfg fe)) left"
proof -
  have "spec (owing True (FinalEvent fe)) (send_next cfg (FinalEvent fe)) (\<lambda>r. if r = Go then settled_at True else left r)"
    unfolding send_next_def
    by (rule spec_bind [OF spec_send], rule spec_return) (simp add: left_def split: if_splits)
  then show ?thesis
    unfolding and_then_def
    by (rule spec_bind) (simp add: spec_next_utterance spec_return split: if_splits)
qed

lemma spec_final_case:
  assumes "\<And>fe. spec (owing True (FinalEvent fe)) (f fe) left"
  shows "spec ((case res of Inl p \<Rightarrow> (\<lambda>s. False) | Inr fe \<Rightarrow> owing True (FinalEvent fe)))
    (case res of Inl p \<Rightarrow> State_Monad.return (Crashed p) | Inr fe \<Rightarrow> f fe) left"
  using assms by (cases res) (simp_all add: spec_def)

lemma keeps_finalize_endpoint [keeps_intros]: "keeps (finalize_endpoint cfg)"
  unfolding finalize_endpoint_def
  by (intro quietly quiet_intros keeps_and_then keeps_intros keeps_cases spec_fail_with
      spec_bind [OF spec_commit_final] spec_final_case spec_final_sent)

lemma keeps_end_session [keeps_intros]: "keeps (end_session cfg)"
  unfolding end_session_def
  by (intro quietly quiet_intros keeps_and_then keeps_intros keeps_cases spec_fail_with
      spec_bind [OF spec_commit_final] spec_final_case spec_send_stop)

lemma keeps_overload [keeps_intros]: "keeps (overload cfg reason d)"
  unfolding overload_def by (intro quietly quiet_intros spec_send_scoped) (simp add: session_scoped)

lemma keeps_start_session [keeps_intros]: "keeps (start_session cfg f m)"
proof -
  have failed: "keeps (session_open_failed cfg err)" for err
    unfolding session_open_failed_def by (intro quietly quiet_intros keeps_intros keeps_cases spec_fail_with)
  have opened: "keeps (session_opened cfg f w c resp)" for w c resp
    unfolding session_opened_def set_session_def
    by (intro quietly quiet_intros quiet_update spec_send_scoped) (simp_all add: quiet_def session_scoped)
  have pair: "(\<And>a b c. keeps (k a b c)) \<Longrightarrow> keeps (case p of (a, b, c) \<Rightarrow> k a b c)" for k p
    by (cases p) simp
  show ?thesis
    unfolding start_session_def set_session_def
    by (intro quietly quiet_intros quiet_update keeps_cases keeps_intros pair failed opened spec_fail_with)
      (simp_all add: quiet_def)
qed

lemma keeps_control [keeps_intros]: "keeps (handle_control cfg f)"
  unfolding handle_control_def by (simp add: keeps_intros spec_fail_with split: sum.split control.split)

lemma spec_boundary_loop:
  "spec (settled_at False) (boundary_loop cfg n endpoint) (\<lambda>(_, r). left r)"
proof (induction n arbitrary: endpoint)
  case 0
  show ?case by (simp add: spec_return left_def settled_sound)
next
  case (Suc n)
  have speech: "spec (settled_at False) (do {
      r \<leftarrow> emit cfg (\<lambda>st. em_speech_start st q);
      (if r = Go then boundary_loop cfg n endpoint else State_Monad.return (endpoint, r)) }) (\<lambda>(_, r). left r)" for q
    by (rule spec_bind [OF keeps_emit [OF emitter_ops(2)]]) (simp add: Suc left_Go spec_return)
  have kinds: "spec P m Q \<Longrightarrow> spec P n' Q \<Longrightarrow>
      spec P (case ty of EventSpeechStart \<Rightarrow> m | EventEndpoint \<Rightarrow> n') Q" for P m n' Q ty
    by (cases ty) simp_all
  show ?case
    unfolding boundary_loop.simps
    by (intro quietly [OF quiet_State] keeps_cases kinds speech Suc spec_return)
      (simp_all add: quiet_def left_Go split_beta)
qed

lemma keeps_audio_frame [keeps_intros]: "keeps (handle_audio_frame cfg f)"
proof -
  have loop: "spec (settled_at False) (boundaries cfg) (\<lambda>(_, r). left r)"
    unfolding boundaries_def by (intro quietly quiet_intros spec_boundary_loop)
  have rest: "keeps (do {
      cks \<leftarrow> take_chunks pl_ready;
      and_then (dispatch_all cfg cks) (if b then finalize_endpoint cfg else State_Monad.return Go) })" for b
    by (intro quietly quiet_intros keeps_and_then keeps_intros keeps_cases keeps_Go)
  have tail: "keeps (do {
      (endpoint, r) \<leftarrow> boundaries cfg;
      (if r \<noteq> Go then State_Monad.return r
       else do {
         cks \<leftarrow> take_chunks pl_ready;
         and_then (dispatch_all cfg cks) (if endpoint then finalize_endpoint cfg else State_Monad.return Go) }) })"
  proof (rule spec_bind [OF loop])
    fix x :: "bool \<times> next_step"
    obtain b r where x: "x = (b, r)" by fastforce
    show "spec (case x of (_, r) \<Rightarrow> left r) (case x of (endpoint, r) \<Rightarrow>
      (if r \<noteq> Go then State_Monad.return r
       else do {
         cks \<leftarrow> take_chunks pl_ready;
         and_then (dispatch_all cfg cks) (if endpoint then finalize_endpoint cfg else State_Monad.return Go) })) left"
      using rest [of b] by (cases "r = Go") (simp_all add: x left_Go spec_return)
  qed
  show ?thesis
    unfolding handle_audio_frame_def
    by (intro quietly quiet_intros quiet_State quiet_update keeps_cases spec_fail_with tail)
      (simp_all add: quiet_def split_beta)
qed

lemma keeps_input [keeps_intros]: "keeps (handle_input cfg i)"
proof -
  have frame: "keeps (handle_frame cfg f)" for f
    unfolding handle_frame_def by (intro quietly quiet_intros keeps_cases keeps_intros spec_fail_with keeps_Go)
  have gap: "keeps (and_then (send_next cfg (em_discontinuity (ss_state s) r)) (handle_frame cfg f))" for s r f
    by (intro keeps_and_then frame spec_send_scoped) (simp add: session_scoped)
  have "keeps (handle_inbound cfg msg)" for msg
    unfolding handle_inbound_def Let_def
    by (auto intro!: quietly quiet_intros quiet_update spec_fail_with keeps_Go gap frame
        simp: quiet_def split: sum.split prod.split seq_outcome.split)
  then show ?thesis
    unfolding handle_input_def
    by (auto intro!: quietly quiet_intros keeps_Go split: input.split)
qed

lemma keeps_input_loop: "keeps (input_loop cfg is)"
  by (induction "is") (simp_all add: keeps_Go keeps_and_then keeps_intros)

lemma new_conn_settled: "settled_at False (new_conn sid pipe r cps m ctl b hub e)"
  using new_session_inv by (simp add: settled_at_def new_conn_def) (simp add: new_inference_state_def)

section \<open>The ledger of a session\<close>

text \<open>
  Against the fleet \<open>r0\<close> and the \<open>n0\<close> sessions admitted before: the session has one slot
  while it is admitted (\<open>a0\<close>) and one binding, to its worker, while it is started (\<open>b0\<close>).
\<close>

definition ledger :: "bool \<Rightarrow> bool \<Rightarrow> router \<Rightarrow> int \<Rightarrow> string \<Rightarrow> ('e, 'd) conn \<Rightarrow> bool" where
  "ledger a0 b0 r0 n0 sid s \<longleftrightarrow> router_inv (ss_router s) \<and> map w_id (ss_router s) = map w_id r0
     \<and> st_session_id (ss_state s) = sid
     \<and> ct_admitted (cn_admission s) = n0 + (if a0 then 1 else 0)
     \<and> cn_admitted s = a0 \<and> cn_started s = b0
     \<and> (\<forall>i. outstanding (ss_router s) i = outstanding r0 i
          + (if b0 \<and> i = st_worker_id (ss_state s) then in_fleet r0 i else 0))"

abbreviation fair :: "bool \<Rightarrow> bool \<Rightarrow> router \<Rightarrow> int \<Rightarrow> string \<Rightarrow> ('e, 'd, 'a) conn_act \<Rightarrow> bool" where
  "fair a0 b0 r0 n0 sid m \<equiv> spec (ledger a0 b0 r0 n0 sid) m (\<lambda>_. ledger a0 b0 r0 n0 sid)"

text \<open>The parts of the state the ledger reads are unchanged, the fleet apart from its health.\<close>

definition steady :: "('e, 'd) conn \<Rightarrow> ('e, 'd) conn \<Rightarrow> bool" where
  "steady s s' \<longleftrightarrow> cn_started s' = cn_started s \<and> cn_admitted s' = cn_admitted s
     \<and> ct_admitted (cn_admission s') = ct_admitted (cn_admission s)
     \<and> st_worker_id (ss_state s') = st_worker_id (ss_state s)
     \<and> st_session_id (ss_state s') = st_session_id (ss_state s)
     \<and> (router_inv (ss_router s) \<longrightarrow> router_inv (ss_router s') \<and> same_fleet (ss_router s) (ss_router s'))"

lemma steady_ledger: "ledger a0 b0 r0 n0 sid s \<Longrightarrow> steady s s' \<Longrightarrow> ledger a0 b0 r0 n0 sid s'"
  by (auto simp: ledger_def steady_def same_fleet_outstanding) (auto simp: same_fleet_def)

lemma steady_fair: "state_io_rel steady m \<Longrightarrow> fair a0 b0 r0 n0 sid m"
  by (erule spec_keeps) (erule (1) steady_ledger)

named_theorems fair_intros \<open>actions that keep the ledger\<close>

lemma fair_bind [fair_intros]:
  "fair a0 b0 r0 n0 sid m \<Longrightarrow> (\<And>x. fair a0 b0 r0 n0 sid (f x)) \<Longrightarrow> fair a0 b0 r0 n0 sid (State_Monad.bind m f)"
  by (rule spec_bind)

lemma fair_cases [fair_intros]:
  "spec P m Q \<Longrightarrow> spec P n Q \<Longrightarrow> spec P (case ty of EventSpeechStart \<Rightarrow> m | EventEndpoint \<Rightarrow> n) Q"
  "(\<And>a b. spec P (h a b) Q) \<Longrightarrow> spec P (case z of (a, b) \<Rightarrow> h a b) Q"
  "(\<And>i. spec P (p i) Q) \<Longrightarrow> (\<And>sc. spec P (q sc) Q) \<Longrightarrow> spec P (case c of Pinned i \<Rightarrow> p i | Shared sc \<Rightarrow> q sc) Q"
  by (simp_all split: event_type.splits prod.splits session_client.splits)

lemmas [fair_intros] = keeps_cases

lemma fair_update: "(\<And>s. steady s (f s)) \<Longrightarrow> fair a0 b0 r0 n0 sid (State_Monad.update f)"
  by (rule steady_fair, rule io_update)

lemma fair_State: "(\<And>s. steady s (snd (f s))) \<Longrightarrow> fair a0 b0 r0 n0 sid (State f)"
  by (rule steady_fair) (simp add: state_io_rel_def)

lemma fair_set_session:
  "(\<And>st. st_worker_id (f st) = st_worker_id st \<and> st_session_id (f st) = st_session_id st) \<Longrightarrow>
     fair a0 b0 r0 n0 sid (set_session f)"
  unfolding set_session_def by (rule fair_update) (simp add: steady_def)

lemma fair_return [fair_intros]: "fair a0 b0 r0 n0 sid (State_Monad.return x)"
  by (simp add: spec_def)

lemma fair_get [fair_intros]: "fair a0 b0 r0 n0 sid State_Monad.get"
  by (simp add: spec_def)

lemma fair_env [fair_intros]: "fair a0 b0 r0 n0 sid (on_env g)"
  unfolding on_env_def by (rule fair_State) (simp add: steady_def split_beta)

lemma fair_basic [fair_intros]:
  "fair a0 b0 r0 n0 sid (count k)" "fair a0 b0 r0 n0 sid (hub_do u)"
  unfolding count_def hub_do_def by (rule fair_update, simp add: steady_def)+

lemma fair_hub_at [fair_intros]: "fair a0 b0 r0 n0 sid (hub_at cfg v)"
  unfolding hub_at_def by (intro fair_intros)

lemma fair_report [fair_intros]: "fair a0 b0 r0 n0 sid (report_act h i ok l)"
  by (rule steady_fair, rule state_io_relI) (auto simp: steady_def report_keeps_inv report_keeps_fleet)

lemma on429_keeps: "router_on429 now i d r = (n, r') \<Longrightarrow> router_inv r \<Longrightarrow> router_inv r' \<and> same_fleet r r'"
proof -
  assume on: "router_on429 now i d r = (n, r')" and inv: "router_inv r"
  have "same_fleet ws (update_worker i (\<lambda>w. w\<lparr>w_bucket := bucket_on429 (w_bucket w) now d\<rparr>) ws)" for ws
    by (induction ws) (simp_all add: same_fleet_def)
  then show ?thesis
    using on router_do_inv [of r "ROn429 now i d"] inv by (auto simp: router_on429_def split: option.splits)
qed

lemma fair_on429 [fair_intros]: "fair a0 b0 r0 n0 sid (on429_act cfg i d)"
  by (rule steady_fair, rule state_io_relI)
    (auto simp: on429_act_def steady_def Let_def dest: on429_keeps split: prod.splits)

lemma fair_rate_limited [fair_intros]: "fair a0 b0 r0 n0 sid (rate_limited cfg err)"
  unfolding rate_limited_def by (cases err) (simp_all, (intro fair_intros)+)

lemma fair_client [fair_intros]:
  "fair a0 b0 r0 n0 sid (client_push cfg r)" "fair a0 b0 r0 n0 sid (client_open cfg q)" "fair a0 b0 r0 n0 sid (bifrost_final cfg records)"
  "fair a0 b0 r0 n0 sid (take_chunks tk)"
  unfolding client_push_def client_open_def bifrost_final_def take_chunks_def
  by (rule fair_State, auto simp: steady_def Let_def split: session_client.split prod.split)+

lemma fair_client2 [fair_intros]: "fair a0 b0 r0 n0 sid (client_flush cfg hdl)" "fair a0 b0 r0 n0 sid (client_close cfg hdl)"
  unfolding client_flush_def client_close_def by (intro fair_intros)+

lemma fair_checkpoint_act [fair_intros]: "fair a0 b0 r0 n0 sid (async_checkpoint cfg j)"
  unfolding async_checkpoint_def by (intro fair_intros fair_update) (simp add: steady_def)

lemma fair_checkpoints [fair_intros]:
  "fair a0 b0 r0 n0 sid (run_checkpoint cfg i)" "fair a0 b0 r0 n0 sid (report_state b)" "fair a0 b0 r0 n0 sid checkpoint_started"
  unfolding run_checkpoint_def report_state_def checkpoint_started_def Let_def
  by (intro fair_intros fair_update; simp add: steady_def)+

lemma fair_retire [fair_intros]: "fair a0 b0 r0 n0 sid (run_retire cfg)"
  unfolding run_retire_def
  by (rule fair_update) (simp add: steady_def split: option.split session_client.split list.split)

lemma fair_send [fair_intros]: "fair a0 b0 r0 n0 sid (send cfg ev)"
  unfolding send_def by (intro fair_intros fair_update) (simp add: steady_def)

lemma fair_sends [fair_intros]: "fair a0 b0 r0 n0 sid (send_next cfg ev)" "fair a0 b0 r0 n0 sid (send_stop cfg ev)"
  "fair a0 b0 r0 n0 sid (fail_with cfg err)"
  unfolding send_next_def fail_with_def send_stop_def by (intro fair_intros)+

lemma fair_and_then [fair_intros]: "fair a0 b0 r0 n0 sid m \<Longrightarrow> fair a0 b0 r0 n0 sid n \<Longrightarrow> fair a0 b0 r0 n0 sid (and_then m n)"
  unfolding and_then_def by (intro fair_intros)

lemma fair_emit [fair_intros]:
  assumes "\<And>st st' ev. op st = Inr (st', ev) \<Longrightarrow> st_worker_id st' = st_worker_id st \<and> st_session_id st' = st_session_id st"
  shows "fair a0 b0 r0 n0 sid (emit cfg op)"
proof -
  have "spec (\<lambda>t. t = s \<and> ledger a0 b0 r0 n0 sid t) (case op (ss_state s) of
      Inl p \<Rightarrow> State_Monad.return (Crashed p)
    | Inr (st, ev) \<Rightarrow> do { set_session (\<lambda>_. st); send_next cfg ev }) (\<lambda>_. ledger a0 b0 r0 n0 sid)" for s
  proof (cases "op (ss_state s)")
    case (Inl p)
    then show ?thesis by (simp add: spec_def)
  next
    case (Inr res)
    obtain st ev where res: "res = (st, ev)" by fastforce
    have "spec (\<lambda>t. t = s \<and> ledger a0 b0 r0 n0 sid t) (set_session (\<lambda>_. st)) (\<lambda>_. ledger a0 b0 r0 n0 sid)"
      using assms [OF Inr [unfolded res]] by (auto simp: spec_def ledger_def)
    from spec_bind [OF this, OF fair_sends(1)] show ?thesis by (simp add: Inr res)
  qed
  then show ?thesis unfolding emit_def by (rule get_then)
qed

text \<open>A failure handling moves the binding with the session, if it does not panic.\<close>

abbreviation ready :: "router \<Rightarrow> int \<Rightarrow> string \<Rightarrow> ('e, 'd) conn \<Rightarrow> bool" where
  "ready r0 n0 sid s \<equiv> settled_at False s \<and> ledger True True r0 n0 sid s"

abbreviation good :: "router \<Rightarrow> int \<Rightarrow> string \<Rightarrow> ('e, 'd, 'a) conn_act \<Rightarrow> bool" where
  "good r0 n0 sid m \<equiv> spec (ready r0 n0 sid) m (\<lambda>_. ledger True True r0 n0 sid)"

lemma good_failure:
  assumes "host_ok h"
  shows "good r0 n0 sid (handle_backend_failure h cause)"
proof (rule specI)
  fix s res s'
  assume R: "ready r0 n0 sid s" and run: "run_state (handle_backend_failure h cause) s = (res, s')"
  let ?w = "st_worker_id (ss_state s)"
  have inv: "router_inv (ss_router s)" and ids: "map w_id (ss_router s) = map w_id r0"
    and opened: "\<not> st_finalized (ss_state s)" using R by (simp_all add: ledger_def settled_at_def)
  have fleet: "w_id ` set (ss_router s) = w_id ` set r0" using ids by (metis list.set_map)
  have set: "settled ?w [?w] s res s'" by (rule failure_settles [OF assms inv run])
  then have more: "sess.more s' = sess.more s" and inv': "router_inv (ss_router s')"
    and ids': "map w_id (ss_router s') = map w_id r0" by (simp_all add: settled_def ids)
  have conn: "cn_started s' = cn_started s" "cn_admitted s' = cn_admitted s" "cn_admission s' = cn_admission s"
    using more by (cases s rule: conn.cases, cases s' rule: conn.cases, simp)+
  have "st_session_id (ss_state s') = st_session_id (ss_state s)
      \<and> (\<forall>i. outstanding (ss_router s') i
         = outstanding (ss_router s) i - (if i = ?w then in_fleet r0 i else 0)
             + (if i = st_worker_id (ss_state s') then in_fleet r0 i else 0))"
  proof (cases res)
    case (FOk wid ev regenerated)
    have "wid \<in> w_id ` set r0" using set by (simp add: FOk settled_def fleet)
    then have "in_fleet r0 wid = 1" by (simp add: in_fleet_def)
    moreover have "in_fleet (ss_router s) ?w = in_fleet r0 ?w" by (rule in_fleet_ids [OF ids])
    ultimately show ?thesis using set by (auto simp: FOk settled_def moved_to_def)
  next
    case (FPanic p)
    then show ?thesis using set opened by (simp add: settled_def)
  next
    case (FError err)
    then show ?thesis using set same_fleet_outstanding by (fastforce simp: settled_def)
  qed
  then show "ledger True True r0 n0 sid s'"
    using R inv' ids' conn by (auto simp: ledger_def)
qed

lemma fair_good: "fair True True r0 n0 sid m \<Longrightarrow> good r0 n0 sid m"
  by (erule spec_weaken) simp_all

lemma good_quietly:
  assumes "quiet_act m" "fair True True r0 n0 sid m" "\<And>x. spec (ready r0 n0 sid) (f x) Q"
  shows "spec (ready r0 n0 sid) (State_Monad.bind m f) Q"
  by (rule spec_bind [OF spec_conj [OF spec_quiet(1) [OF assms(1)] assms(2)]]) (rule assms(3))

lemma good_cases:
  "(\<And>a. good r0 n0 sid (f a)) \<Longrightarrow> (\<And>b. good r0 n0 sid (g b)) \<Longrightarrow> good r0 n0 sid (case x of Inl a \<Rightarrow> f a | Inr b \<Rightarrow> g b)"
  by (simp split: sum.splits)

text \<open>A handler that keeps the contract and the ledger, then another.\<close>

lemma good_and_then:
  assumes "keeps m" "good r0 n0 sid m" "good r0 n0 sid n"
  shows "good r0 n0 sid (and_then m n)"
  unfolding and_then_def
proof (rule spec_bind)
  show "spec (ready r0 n0 sid) m (\<lambda>r s. left r s \<and> ledger True True r0 n0 sid s)"
    by (rule spec_weaken [OF spec_conj [OF assms(1,2)]]) auto
  show "spec (\<lambda>s. left r s \<and> ledger True True r0 n0 sid s) (if r = Go then n else State_Monad.return r)
      (\<lambda>_. ledger True True r0 n0 sid)" for r
    using assms(3) by (cases "r = Go") (simp_all add: left_Go, simp add: spec_def)
qed

lemma fair_partial [fair_intros]:
  "fair a0 b0 r0 n0 sid (emit cfg (\<lambda>st. em_partial st t))" "fair a0 b0 r0 n0 sid (emit cfg (\<lambda>st. em_speech_start st q))"
  by (rule fair_emit, auto simp: em_partial_def em_speech_start_def must_not_be_finalized_def Let_def
      split: if_splits option.splits)+

lemma good_push_failed:
  assumes "host_ok (cg_host cfg)"
  shows "good r0 n0 sid (push_failed cfg err)"
proof -
  have after: "fair True True r0 n0 sid (case res of
      FPanic p \<Rightarrow> State_Monad.return (Crashed p)
    | FError ferr \<Rightarrow> fail_with cfg (FailoverExhausted ferr)
    | FOk wid resetEv regenerated \<Rightarrow> do {
        State_Monad.update (\<lambda>s. s\<lparr>cn_client := Some (Pinned wid)\<rparr>);
        s' \<leftarrow> State_Monad.get;
        hub_at cfg (\<lambda>now. hub_failover now (st_session_id (ss_state s')) w
          (st_worker_id (ss_state s')) k (st_compatibility_key (ss_state s'))
          (k = st_compatibility_key (ss_state s')));
        and_then (send_next cfg resetEv) (case regenerated of None \<Rightarrow> State_Monad.return Go
          | Some t \<Rightarrow> emit cfg (\<lambda>st. em_partial st t)) })" for res w k
  proof (cases res)
    case (FOk wid ev regenerated)
    have "fair True True r0 n0 sid (State_Monad.update (\<lambda>s. s\<lparr>cn_client := Some (Pinned wid)\<rparr>))"
      by (rule fair_update) (simp add: steady_def)
    then show ?thesis by (simp add: FOk) (intro fair_intros)
  qed (simp_all add: fair_intros)
  have stale: "fair True True r0 n0 sid (do { count c; fail_with cfg e })" for c e
    by (intro fair_intros)
  have shared: "fair True True r0 n0 sid (do { report_act h i ok l; fail_with cfg e })" for h i ok l e
    by (intro fair_intros)
  show ?thesis
    unfolding push_failed_def Let_def
    by (intro keeps_cases fair_good [OF stale] fair_good [OF shared] good_quietly [OF quiet_rate_limited fair_rate_limited]
        good_quietly [OF quiet_basic(2) fair_get] spec_bind [OF good_failure [OF assms]] after)
qed

lemma fair_push_succeeded: "fair a0 b0 r0 n0 sid (push_succeeded cfg t c resp)"
  unfolding push_succeeded_def Let_def
  by (intro fair_intros fair_set_session) simp

lemma good_dispatch:
  assumes "host_ok (cg_host cfg)"
  shows "good r0 n0 sid (dispatch_chunk cfg c)" "good r0 n0 sid (dispatch_all cfg cs)"
proof -
  show chunk: "good r0 n0 sid (dispatch_chunk cfg c)" for c
    unfolding dispatch_chunk_def
    by (intro good_quietly quiet_intros fair_intros good_cases good_push_failed assms fair_good [OF fair_push_succeeded])
  show "good r0 n0 sid (dispatch_all cfg cs)"
    by (induction cs) (simp_all add: fair_good fair_return good_and_then keeps_dispatch chunk)
qed

lemma fair_commit_final: "fair a0 b0 r0 n0 sid (commit_final answer q1 q2 trim)"
proof (rule specI)
  fix s res s'
  assume L: "ledger a0 b0 r0 n0 sid s" and run: "run_state (commit_final answer q1 q2 trim) s = (res, s')"
  have "steady s s'"
    using run by (auto simp: commit_final_def em_final_def Let_def steady_def split: if_splits option.splits)
  with L show "ledger a0 b0 r0 n0 sid s'" by (rule steady_ledger)
qed

lemma fair_next_utterance: "fair a0 b0 r0 n0 sid (next_utterance cfg fe)"
  unfolding next_utterance_def
  by (intro fair_intros fair_update fair_set_session) (simp_all add: steady_def new_utterance_def)

lemma fair_finals [fair_intros]: "fair a0 b0 r0 n0 sid (direct_final cfg)" "fair a0 b0 r0 n0 sid (final_text cfg q)"
proof -
  show direct: "fair a0 b0 r0 n0 sid (direct_final cfg)"
    unfolding direct_final_def by (intro fair_intros)
  show "fair a0 b0 r0 n0 sid (final_text cfg q)"
    unfolding final_text_def Let_def by (intro fair_intros direct)
qed

lemma good_finalize:
  assumes "host_ok (cg_host cfg)"
  shows "good r0 n0 sid (finalize_endpoint cfg)" "good r0 n0 sid (end_session cfg)"
  unfolding finalize_endpoint_def end_session_def
  by (intro good_quietly quiet_intros fair_intros good_and_then keeps_intros good_dispatch assms
      keeps_cases fair_good fair_commit_final fair_next_utterance)+

section \<open>Opening a session binds a worker of the fleet\<close>

lemma spec_pick:
  assumes "host_ok h"
  shows "spec (ledger a0 b0 r0 n0 sid) (pick_act h mode ex k)
    (\<lambda>res s. ledger a0 b0 r0 n0 sid s \<and> (\<forall>w. res = Some w \<longrightarrow> in_fleet r0 (w_id w) = 1))"
proof (rule specI)
  fix s res s'
  assume L: "ledger a0 b0 r0 n0 sid s" and run: "run_state (pick_act h mode ex k) s = (res, s')"
  have inv: "router_inv (ss_router s)" using L by (simp add: ledger_def)
  note p = pick_act_run [OF assms inv run]
  have "steady s s'" using p(1-3) by (auto simp: steady_def)
  with L have L': "ledger a0 b0 r0 n0 sid s'" by (rule steady_ledger)
  then have ids: "map w_id (ss_router s') = map w_id r0" by (simp add: ledger_def)
  show "ledger a0 b0 r0 n0 sid s' \<and> (\<forall>w. res = Some w \<longrightarrow> in_fleet r0 (w_id w) = 1)"
  proof (intro conjI allI impI)
    fix w assume "res = Some w"
    then have "in_fleet (ss_router s') (w_id w) = 1" using p(4) by (simp add: in_fleet_def)
    then show "in_fleet r0 (w_id w) = 1" by (simp add: in_fleet_ids [OF ids])
  qed (rule L')
qed

definition opened_in :: "router \<Rightarrow> open_error + worker \<times> 'a \<Rightarrow> bool" where
  "opened_in r0 res \<longleftrightarrow> (\<forall>w x. res = Inr (w, x) \<longrightarrow> in_fleet r0 (w_id w) = 1)"

abbreviation opens :: "bool \<Rightarrow> bool \<Rightarrow> router \<Rightarrow> int \<Rightarrow> string \<Rightarrow> ('e, 'd, open_error + worker \<times> 'a) conn_act \<Rightarrow> bool" where
  "opens a0 b0 r0 n0 sid m \<equiv> spec (ledger a0 b0 r0 n0 sid) m (\<lambda>res s. ledger a0 b0 r0 n0 sid s \<and> opened_in r0 res)"

lemma opens_error: "opens a0 b0 r0 n0 sid (State_Monad.return (Inl err))"
  by (simp add: spec_def opened_in_def)

lemma opens_picked:
  assumes "host_ok h" "opens a0 b0 r0 n0 sid n" "\<And>w. in_fleet r0 (w_id w) = 1 \<Longrightarrow> opens a0 b0 r0 n0 sid (f w)"
  shows "opens a0 b0 r0 n0 sid (do {
    picked \<leftarrow> pick_act h mode ex k;
    (case picked of None \<Rightarrow> n | Some w \<Rightarrow> f w) })"
proof (rule spec_bind [OF spec_pick [OF assms(1)]])
  fix res :: "worker option"
  show "spec (\<lambda>s. ledger a0 b0 r0 n0 sid s \<and> (\<forall>w. res = Some w \<longrightarrow> in_fleet r0 (w_id w) = 1))
      (case res of None \<Rightarrow> n | Some w \<Rightarrow> f w) (\<lambda>res s. ledger a0 b0 r0 n0 sid s \<and> opened_in r0 res)"
  proof (cases res)
    case None
    then show ?thesis using assms(2) by simp
  next
    case (Some w)
    then show ?thesis using assms(3) [of w] by (auto simp: spec_def)
  qed
qed

lemma opens_after: "fair a0 b0 r0 n0 sid m \<Longrightarrow> (\<And>x. opens a0 b0 r0 n0 sid (f x)) \<Longrightarrow>
    opens a0 b0 r0 n0 sid (State_Monad.bind m f)"
  by (rule spec_bind)

lemma opens_with_retry:
  assumes "host_ok (cg_host cfg)"
  shows "opens a0 b0 r0 n0 sid (open_with_retry cfg m n ex err)"
proof (induction n arbitrary: ex err)
  case (Suc n)
  have found: "in_fleet r0 (w_id w) = 1 \<Longrightarrow> opens a0 b0 r0 n0 sid (State_Monad.return (Inr (w, x)))" for w x
    by (simp add: spec_def opened_in_def)
  show ?case unfolding open_with_retry.simps
    by (intro opens_after [OF fair_get] opens_picked assms opens_error opens_after [OF fair_env]
        opens_after [OF fair_report] keeps_cases Suc found)
qed (simp add: opens_error)

lemma opens_stateless:
  assumes "host_ok (cg_host cfg)"
  shows "opens a0 b0 r0 n0 sid (stateless_retry cfg n ex)"
proof (induction n arbitrary: ex)
  case 0
  show ?case unfolding stateless_retry.simps by (intro opens_after [OF fair_get] opens_error)
next
  case (Suc n)
  have found: "in_fleet r0 (w_id w) = 1 \<Longrightarrow> opens a0 b0 r0 n0 sid (case y of None \<Rightarrow> stateless_retry cfg n ex'
      | Some (sc, hdl) \<Rightarrow> State_Monad.return (Inr (w, sc, g hdl)))" for w y ex' g
    using Suc by (cases y) (auto simp: spec_return opened_in_def split: prod.split)
  show ?case unfolding stateless_retry.simps
    by (intro opens_after [OF fair_get] opens_picked assms opens_error found)
qed

lemma opened_map:
  assumes "opened_in r0 res" "\<And>w x. \<exists>y. g (w, x) = (w, y)"
  shows "opened_in r0 (map_sum f g res)"
proof (cases res)
  case (Inr p)
  obtain w x where "p = (w, x)" by fastforce
  with Inr assms(1) assms(2) [of w x] show ?thesis by (auto simp: opened_in_def)
qed (simp add: opened_in_def)

lemma opens_map:
  assumes "opens a0 b0 r0 n0 sid m" "\<And>w x. \<exists>y. g (w, x) = (w, y)"
  shows "opens a0 b0 r0 n0 sid (do { res \<leftarrow> m; State_Monad.return (map_sum (\<lambda>err. err) g res) })"
  by (rule spec_bind [OF assms(1)], rule spec_return) (simp add: opened_map assms(2))

lemma opens_session:
  assumes "host_ok (cg_host cfg)"
  shows "opens a0 b0 r0 n0 sid (open_session cfg m)"
proof -
  have "opens a0 b0 r0 n0 sid (open_stateless_with_retry cfg)"
    unfolding open_stateless_with_retry_def
    by (intro opens_after [OF fair_get] keeps_cases opens_error opens_stateless assms)
  then show ?thesis
    unfolding open_session_def
    by (intro keeps_cases opens_map opens_with_retry assms) auto
qed

lemma spec_session_opened:
  assumes "in_fleet r0 (w_id w) = 1"
  shows "spec (ledger True False r0 n0 sid) (session_opened cfg f w c resp) (\<lambda>_. ledger True True r0 n0 sid)"
proof -
  have bind: "spec (ledger True False r0 n0 sid) (do {
      set_router (update_worker (w_id w) bind_session);
      report_act (cg_host cfg) (w_id w) True 0;
      set_session (\<lambda>st. st\<lparr> st_worker_id := w_id w, st_handle := os_handle resp,
        st_compatibility_key := w_compatibility_key w, st_generation := os_generation resp \<rparr>);
      State_Monad.update (\<lambda>s. s\<lparr>cn_started := True\<rparr>);
      k }) (\<lambda>_. ledger True True r0 n0 sid)" if "fair True True r0 n0 sid k" for k
  proof (rule specI)
    fix s r s'
    assume L: "ledger True False r0 n0 sid s" and run: "run_state (do {
      set_router (update_worker (w_id w) bind_session);
      report_act (cg_host cfg) (w_id w) True 0;
      set_session (\<lambda>st. st\<lparr> st_worker_id := w_id w, st_handle := os_handle resp,
        st_compatibility_key := w_compatibility_key w, st_generation := os_generation resp \<rparr>);
      State_Monad.update (\<lambda>s. s\<lparr>cn_started := True\<rparr>);
      k }) s = (r, s')"
    let ?r = "update_worker (w_id w) bind_session (ss_router s)"
    have inv: "router_inv ?r" using L by (intro router_inv_update load_inv) (simp_all add: ledger_def)
    have ids: "map w_id (ss_router s) = map w_id r0" using L by (simp add: ledger_def)
    have out: "outstanding ?r i = outstanding r0 i + (if i = w_id w then in_fleet r0 i else 0)" for i
      using L in_fleet_ids [OF ids] assms by (auto simp: ledger_def outstanding_bind)
    let ?s1 = "s\<lparr> ss_env := snd (ho_now (cg_host cfg) (ss_env s)),
      ss_router := router_report (fst (ho_now (cg_host cfg) (ss_env s))) (w_id w) True 0 ?r,
      ss_state := (ss_state s)\<lparr> st_worker_id := w_id w, st_handle := os_handle resp,
        st_compatibility_key := w_compatibility_key w, st_generation := os_generation resp \<rparr>,
      cn_started := True \<rparr>"
    have rest: "run_state k ?s1 = (r, s')" using run by (simp add: set_router_def)
    have fleet: "map w_id (router_report now (w_id w) True 0 ?r) = map w_id r0" for now
      using report_keeps_fleet [of ?r now "w_id w" True 0] ids by (simp add: same_fleet_def)
    have "ledger True True r0 n0 sid ?s1"
      using L by (simp add: ledger_def report_keeps_inv [OF inv] fleet out
          same_fleet_outstanding [OF report_keeps_fleet])
    from specD [OF that this rest] show "ledger True True r0 n0 sid s'" .
  qed
  have client: "fair True False r0 n0 sid (State_Monad.update (\<lambda>s. s\<lparr>cn_client := Some c\<rparr>))"
    by (rule fair_update) (simp add: steady_def)
  show ?thesis
    unfolding session_opened_def
    by (rule spec_bind [OF client], rule bind, intro fair_intros)
qed

text \<open>Between inputs a session is either not begun or started; only a stop leaves it half begun.\<close>

definition rests :: "router \<Rightarrow> int \<Rightarrow> string \<Rightarrow> next_step \<Rightarrow> ('e, 'd) conn \<Rightarrow> bool" where
  "rests r0 n0 sid r s \<longleftrightarrow> ledger False False r0 n0 sid s \<or> ledger True True r0 n0 sid s
     \<or> r \<noteq> Go \<and> ledger True False r0 n0 sid s"

lemma fair_rests:
  "fair False False r0 n0 sid m \<Longrightarrow> spec (ledger False False r0 n0 sid) m (rests r0 n0 sid)"
  "spec P n (\<lambda>_. ledger True True r0 n0 sid) \<Longrightarrow> spec P n (rests r0 n0 sid)"
  by (erule spec_weaken; simp add: rests_def)+

lemma stops_rests:
  assumes "fair True False r0 n0 sid m" "spec (\<lambda>_. True) m (\<lambda>r _. r \<noteq> Go)"
  shows "spec (ledger True False r0 n0 sid) m (rests r0 n0 sid)"
  by (rule spec_weaken [OF spec_conj [OF assms]]) (simp_all add: rests_def)

lemma fails_stop: "spec (\<lambda>_. True) (fail_with cfg err) (\<lambda>r _. r \<noteq> Go)"
  "spec (\<lambda>_. True) (overload cfg reason d) (\<lambda>r _. r \<noteq> Go)"
  by (simp_all add: spec_def fail_with_def overload_def send_stop_def split_beta)

lemma fair_overload [fair_intros]: "fair a0 b0 r0 n0 sid (overload cfg reason d)"
  unfolding overload_def by (intro fair_intros)

lemma open_failed_rests: "spec (ledger True False r0 n0 sid) (session_open_failed cfg err) (rests r0 n0 sid)"
proof (rule stops_rests)
  show "fair True False r0 n0 sid (session_open_failed cfg err)"
    unfolding session_open_failed_def by (intro fair_intros)
  show "spec (\<lambda>_. True) (session_open_failed cfg err) (\<lambda>r _. r \<noteq> Go)"
    unfolding session_open_failed_def
    by (intro keeps_cases fails_stop) (simp add: spec_def overload_def send_stop_def split_beta)
qed

lemma admit_rests:
  assumes "spec (ledger True False r0 n0 sid) k (rests r0 n0 sid)"
  shows "spec (ledger False False r0 n0 sid) (do {
      d \<leftarrow> admit_act;
      (if dc_refused d then overload cfg (dc_reason d) (dc_retry_after d)
       else do { State_Monad.update (\<lambda>s. s\<lparr>cn_admitted := True\<rparr>); k }) }) (rests r0 n0 sid)"
proof -
  let ?won = "\<lambda>d s. if dc_refused d then ledger False False r0 n0 sid s
      else ledger True False r0 n0 sid (s\<lparr>cn_admitted := True\<rparr>)"
  have "spec (ledger False False r0 n0 sid) admit_act ?won"
    by (auto simp: spec_def admit_act_def admit_def ledger_def refusal_def admitted_decision_def
        note_high_water_def Let_def)
  then show ?thesis
  proof (rule spec_bind)
    fix d
    have "spec (\<lambda>s. ledger True False r0 n0 sid (s\<lparr>cn_admitted := True\<rparr>))
        (do { State_Monad.update (\<lambda>s. s\<lparr>cn_admitted := True\<rparr>); k }) (rests r0 n0 sid)"
      by (rule spec_bind [OF spec_update assms]) simp
    then show "spec (?won d) (if dc_refused d then overload cfg (dc_reason d) (dc_retry_after d)
       else do { State_Monad.update (\<lambda>s. s\<lparr>cn_admitted := True\<rparr>); k }) (rests r0 n0 sid)"
      by (simp add: fair_rests(1) fair_overload)
  qed
qed

lemma opened_case:
  assumes "\<And>err. spec P (f err) Q" "\<And>w c resp. in_fleet r0 (w_id w) = 1 \<Longrightarrow> spec P (g w c resp) Q"
  shows "spec (\<lambda>s. P s \<and> opened_in r0 res)
    (case res of Inl err \<Rightarrow> f err | Inr (w, c, resp) \<Rightarrow> g w c resp) Q"
proof (cases res)
  case (Inl err)
  then show ?thesis using assms(1) by (auto simp: spec_def)
next
  case (Inr p)
  obtain w c resp where p: "p = (w, c, resp)" by (metis surj_pair)
  then show ?thesis using assms(2) [of w c resp] by (auto simp: Inr spec_def opened_in_def)
qed

lemma start_rests:
  assumes "host_ok (cg_host cfg)"
  shows "spec (rests r0 n0 sid Go) (start_session cfg f m) (rests r0 n0 sid)"
proof -
  have failed: "spec (ledger True False r0 n0 sid) (fail_with cfg err) (rests r0 n0 sid)" for err
    by (rule stops_rests [OF fair_sends(3) fails_stop(1)])
  have opened: "in_fleet r0 (w_id w) = 1 \<Longrightarrow>
      spec (ledger True False r0 n0 sid) (session_opened cfg f w c resp) (rests r0 n0 sid)" for w c resp
    by (rule fair_rests(2) [OF spec_session_opened])
  have admitted: "spec (ledger True False r0 n0 sid) (do {
      set_session (\<lambda>st. st\<lparr> st_mode := ss_mode m, st_sample_rate_hz := ss_sample_rate_hz m \<rparr>);
      s' \<leftarrow> State_Monad.get;
      (case make_pipeline cfg (word_of_int (ss_sample_rate_hz m))
          (chunk_policy (cn_admission s') (chunk_ms_for (ss_mode m)) (degraded_chunk_ms (ss_mode m))) of
         Inl err \<Rightarrow> fail_with cfg (PipelineSetup err)
       | Inr p \<Rightarrow> do {
           State_Monad.update (\<lambda>s. s\<lparr>ss_pipeline := p\<rparr>);
           opened \<leftarrow> open_session cfg m;
           (case opened of
              Inl err \<Rightarrow> session_open_failed cfg err
            | Inr (target, client, resp) \<Rightarrow> session_opened cfg f target client resp) }) }) (rests r0 n0 sid)"
    by (intro spec_bind [OF fair_set_session] spec_bind [OF fair_get] keeps_cases failed
        spec_bind [OF fair_update] spec_bind [OF opens_session [OF assms]] opened_case open_failed_rests opened)
      (simp_all add: steady_def)
  have idle: "spec (ledger False False r0 n0 sid) (start_session cfg f m) (rests r0 n0 sid)"
  proof -
    have "spec (ledger False False r0 n0 sid)
      (if cn_started s then fail_with cfg StartTwice
       else case validate_session_start m of
         Some err \<Rightarrow> fail_with cfg (WireError err)
       | None \<Rightarrow> do {
           d \<leftarrow> admit_act;
           (if dc_refused d then overload cfg (dc_reason d) (dc_retry_after d)
            else do {
              State_Monad.update (\<lambda>s. s\<lparr>cn_admitted := True\<rparr>);
              k }) }) (rests r0 n0 sid)" if "spec (ledger True False r0 n0 sid) k (rests r0 n0 sid)" for s k
      by (intro keeps_cases admit_rests [OF that] fair_rests(1) fair_sends(3))
    from this [OF admitted] show ?thesis
      unfolding start_session_def by (rule spec_bind [OF fair_get])
  qed
  have "spec (ledger True True r0 n0 sid) (start_session cfg f m) (rests r0 n0 sid)"
  proof (rule specI)
    fix s r s'
    assume L: "ledger True True r0 n0 sid s" and "run_state (start_session cfg f m) s = (r, s')"
    then have run: "run_state (fail_with cfg StartTwice) s = (r, s')" by (simp add: start_session_def ledger_def)
    show "rests r0 n0 sid r s'" by (rule specD [OF fair_rests(2) [OF fair_sends(3)] L run])
  qed
  with idle show ?thesis by (auto simp: rests_def spec_def)
qed

text \<open>A handler of a started session, and one that needs none.\<close>

abbreviation resting :: "router \<Rightarrow> int \<Rightarrow> string \<Rightarrow> ('e, 'd) conn \<Rightarrow> bool" where
  "resting r0 n0 sid s \<equiv> settled_at False s \<and> rests r0 n0 sid Go s"

abbreviation rested :: "router \<Rightarrow> int \<Rightarrow> string \<Rightarrow> ('e, 'd, next_step) conn_act \<Rightarrow> bool" where
  "rested r0 n0 sid m \<equiv> spec (resting r0 n0 sid) m (rests r0 n0 sid)"

lemma rested_both:
  assumes "fair False False r0 n0 sid m" "good r0 n0 sid m"
  shows "rested r0 n0 sid m"
proof (rule specI)
  fix s r s'
  assume R: "resting r0 n0 sid s" and run: "run_state m s = (r, s')"
  then show "rests r0 n0 sid r s'"
    using specD [OF assms(1) _ run] specD [OF assms(2) _ run] by (auto simp: rests_def)
qed

lemma rested_fair: "(\<And>b. fair b b r0 n0 sid m) \<Longrightarrow> rested r0 n0 sid m"
  by (intro rested_both fair_good) blast+

lemma rested_guarded:
  assumes "good r0 n0 sid m" "\<And>s. \<not> cn_started s \<Longrightarrow> run_state m s = run_state (fail_with cfg err) s"
  shows "rested r0 n0 sid m"
proof (rule specI)
  fix s r s'
  assume R: "resting r0 n0 sid s" and run: "run_state m s = (r, s')"
  show "rests r0 n0 sid r s'"
  proof (cases "cn_started s")
    case True
    then have "ready r0 n0 sid s" using R by (auto simp: rests_def ledger_def)
    from specD [OF assms(1) this run] show ?thesis by (simp add: rests_def)
  next
    case False
    then have idle: "ledger False False r0 n0 sid s" and fail: "run_state (fail_with cfg err) s = (r, s')"
      using R run assms(2) by (auto simp: rests_def ledger_def)
    from specD [OF fair_sends(3) idle fail] show ?thesis by (simp add: rests_def)
  qed
qed

lemma good_boundaries: "fair a0 b0 r0 n0 sid (boundary_loop cfg n endpoint)"
proof (induction n arbitrary: endpoint)
  case (Suc n)
  show ?case
    unfolding boundary_loop.simps
    by (intro fair_intros fair_State Suc) (simp_all add: steady_def split_beta)
qed (simp add: fair_return)

lemma good_audio_frame:
  assumes "host_ok (cg_host cfg)"
  shows "good r0 n0 sid (handle_audio_frame cfg f)"
proof -
  have loop: "spec (ready r0 n0 sid) (boundaries cfg) (\<lambda>(_, r) s. left r s \<and> ledger True True r0 n0 sid s)"
  proof -
    have "spec (ready r0 n0 sid) (boundary_loop cfg n b) (\<lambda>x s. (case x of (_, r) \<Rightarrow> left r) s \<and> ledger True True r0 n0 sid s)" for n b
      by (rule spec_conj [OF spec_boundary_loop good_boundaries])
    then have "spec (ready r0 n0 sid) (boundary_loop cfg n b) (\<lambda>(_, r) s. left r s \<and> ledger True True r0 n0 sid s)" for n b
      by (rule spec_weaken) auto
    then show ?thesis unfolding boundaries_def by (intro good_quietly quiet_intros fair_intros)
  qed
  have dispatch: "good r0 n0 sid (do {
      cks \<leftarrow> take_chunks pl_ready;
      and_then (dispatch_all cfg cks) (if b then finalize_endpoint cfg else State_Monad.return Go) })" for b
    by (intro good_quietly quiet_intros fair_intros good_and_then keeps_intros good_dispatch assms
        keeps_cases good_finalize(1) fair_good fair_return)
  have tail: "good r0 n0 sid (do {
      (endpoint, r) \<leftarrow> boundaries cfg;
      (if r \<noteq> Go then State_Monad.return r
       else do {
         cks \<leftarrow> take_chunks pl_ready;
         and_then (dispatch_all cfg cks) (if endpoint then finalize_endpoint cfg else State_Monad.return Go) }) })"
  proof (rule spec_bind [OF loop])
    fix x :: "bool \<times> next_step"
    obtain b r where x: "x = (b, r)" by fastforce
    show "spec ((case x of (_, r) \<Rightarrow> \<lambda>s. left r s \<and> ledger True True r0 n0 sid s)) (case x of (endpoint, r) \<Rightarrow>
      (if r \<noteq> Go then State_Monad.return r
       else do {
         cks \<leftarrow> take_chunks pl_ready;
         and_then (dispatch_all cfg cks) (if endpoint then finalize_endpoint cfg else State_Monad.return Go) }))
      (\<lambda>_. ledger True True r0 n0 sid)"
      using dispatch [of b] by (cases "r = Go") (simp_all add: x left_Go, simp add: spec_def)
  qed
  show ?thesis
    unfolding handle_audio_frame_def
    by (intro good_quietly quiet_intros fair_intros quiet_State fair_State quiet_update fair_update
        good_cases fair_good [OF fair_sends(3)] tail)
      (simp_all add: quiet_def steady_def split_beta)
qed

lemma rested_frame:
  assumes "host_ok (cg_host cfg)"
  shows "rested r0 n0 sid (handle_frame cfg f)"
proof -
  have "rested r0 n0 sid (start_session cfg f m)" for m
    by (rule spec_weaken [OF start_rests [OF assms]]) simp_all
  moreover have "rested r0 n0 sid (end_session cfg)"
    by (rule rested_guarded [OF good_finalize(2) [OF assms]]) (simp add: end_session_def)
  moreover have "rested r0 n0 sid (fail_with cfg err)" for err
    by (rule rested_fair [OF fair_sends(3)])
  ultimately have control: "rested r0 n0 sid (handle_control cfg f)"
    by (simp add: handle_control_def split: sum.split control.split)
  have "good r0 n0 sid (do { s \<leftarrow> State_Monad.get;
      (if \<not> cn_started s then fail_with cfg AudioBeforeStart else handle_audio_frame cfg f) })"
    by (intro good_quietly quiet_intros fair_get keeps_cases fair_good [OF fair_sends(3)] good_audio_frame assms)
  then have audio: "rested r0 n0 sid (do { s \<leftarrow> State_Monad.get;
      (if \<not> cn_started s then fail_with cfg AudioBeforeStart else handle_audio_frame cfg f) })"
    by (rule rested_guarded) simp
  have ignore: "rested r0 n0 sid (State_Monad.return Go)"
    by (rule rested_fair [OF fair_return])
  show ?thesis
    using control audio ignore unfolding handle_frame_def
    by (cases "f_type f = MsgControl"; cases "f_type f = MsgAudio") (simp_all add: spec_def)
qed

lemma rested_and_then:
  assumes "keeps m" "rested r0 n0 sid m" "keeps n" "rested r0 n0 sid n"
  shows "rested r0 n0 sid (and_then m n)"
  unfolding and_then_def
proof (rule spec_bind)
  show "spec (resting r0 n0 sid) m (\<lambda>r s. left r s \<and> rests r0 n0 sid r s)"
    by (rule spec_weaken [OF spec_conj [OF assms(1,2)]]) auto
  show "spec (\<lambda>s. left r s \<and> rests r0 n0 sid r s) (if r = Go then n else State_Monad.return r) (rests r0 n0 sid)" for r
    using assms(4) by (cases "r = Go") (simp_all add: left_Go, simp add: spec_def)
qed

lemma rested_quietly:
  assumes "quiet_act m" "\<And>b. fair b b r0 n0 sid m" "\<And>x. rested r0 n0 sid (f x)"
  shows "rested r0 n0 sid (State_Monad.bind m f)"
proof (rule spec_bind)
  have "spec (rests r0 n0 sid Go) m (\<lambda>_. rests r0 n0 sid Go)"
    using assms(2) [of False] assms(2) [of True] by (auto simp: spec_def rests_def)
  then have "spec (resting r0 n0 sid) m (\<lambda>_. resting r0 n0 sid)"
    by (rule spec_conj [OF spec_quiet(1) [OF assms(1)]])
  then show "spec (resting r0 n0 sid) m (\<lambda>_ s. resting r0 n0 sid s)" .
qed (rule assms(3))

lemma rested_input:
  assumes "host_ok (cg_host cfg)"
  shows "rested r0 n0 sid (handle_input cfg i)" "rested r0 n0 sid (input_loop cfg is)"
proof -
  have frame: "keeps (handle_frame cfg f)" for f
    unfolding handle_frame_def by (intro quietly quiet_intros keeps_cases keeps_intros spec_fail_with keeps_Go)
  have gap: "rested r0 n0 sid (and_then (send_next cfg (em_discontinuity (ss_state s) r)) (handle_frame cfg f))" for s r f
    by (intro rested_and_then frame rested_frame assms rested_fair fair_sends spec_send_scoped)
      (simp add: session_scoped)
  have go_on: "rested r0 n0 sid (State_Monad.return Go)"
    by (rule rested_fair [OF fair_return])
  have failed: "rested r0 n0 sid (fail_with cfg err)" for err
    by (rule rested_fair [OF fair_sends(3)])
  have inbound: "rested r0 n0 sid (handle_inbound cfg msg)" for msg
    unfolding handle_inbound_def Let_def
    by (auto intro!: rested_quietly quiet_intros quiet_update fair_get fair_update failed go_on gap rested_frame assms
        simp: quiet_def steady_def split: sum.split prod.split seq_outcome.split)
  have jobs: "rested r0 n0 sid (do { run_checkpoint cfg n; State_Monad.return Go })"
      "rested r0 n0 sid (do { run_retire cfg; State_Monad.return Go })" for n
    by (intro rested_quietly quiet_intros fair_checkpoints fair_retire go_on)+
  show input: "rested r0 n0 sid (handle_input cfg i)" for i
    unfolding handle_input_def using inbound jobs by (auto split: input.split)
  show "rested r0 n0 sid (input_loop cfg is)"
    by (induction "is") (simp_all add: go_on rested_and_then keeps_intros keeps_input_loop input)
qed

text \<open>The hub and the worker's client are told, nothing else changes.\<close>

definition untouched :: "('e, 'd) conn \<Rightarrow> ('e, 'd) conn \<Rightarrow> bool" where
  "untouched s s' \<longleftrightarrow> ss_router s' = ss_router s \<and> ss_checkpoints s' = ss_checkpoints s
     \<and> ss_state s' = ss_state s \<and> cn_admission s' = cn_admission s"

lemma close_untouched:
  assumes "run_state (do { hub_at cfg v; client_close cfg hdl }) s = (x, s')"
  shows "untouched s s'"
proof -
  have order: "reflp untouched" "transp untouched" by (auto simp: untouched_def reflp_def transp_def)
  have env: "state_io_rel untouched (on_env g)" for g
    by (simp add: state_io_rel_def untouched_def)
  have hub: "state_io_rel untouched (hub_at cfg v)"
    unfolding hub_at_def hub_do_def by (intro io_bind order env io_update) (simp add: untouched_def)
  have "state_io_rel untouched (client_close cfg hdl)"
    unfolding client_close_def by (intro io_bind order env io_get)
  then have "state_io_rel untouched (do { hub_at cfg v; client_close cfg hdl })"
    by (intro io_bind order hub)
  with assms show ?thesis by (auto simp: state_io_rel_def) (metis snd_conv)
qed

lemma teardown_settles:
  assumes L: "ledger a0 b0 r0 n0 sid s" and pos: "0 \<le> n0" and run: "run_state (teardown cfg) s = (x, s')"
  shows "ct_admitted (cn_admission s') = n0 \<and> (\<forall>i. outstanding (ss_router s') i = outstanding r0 i)
    \<and> cps_latest sid (ss_checkpoints s') = None"
proof -
  let ?s1 = "if cn_admitted s then s\<lparr>cn_admission := release (cn_admission s)\<rparr> else s"
  have slot: "ct_admitted (cn_admission ?s1) = n0" "ss_router ?s1 = ss_router s" "ss_state ?s1 = ss_state s"
      "cn_started ?s1 = b0" "ss_checkpoints ?s1 = ss_checkpoints s"
    using L pos by (auto simp: ledger_def release_def Let_def)
  have ids: "in_fleet (ss_router s) i = in_fleet r0 i" for i
    using L by (intro in_fleet_ids) (simp add: ledger_def)
  have deleted: "cps_latest k (cps_delete k m) = None" for k m
    by (simp add: cps_latest_def cps_delete_def split: option.split)
  show ?thesis
  proof (cases b0)
    case True
    obtain y s2 where close: "run_state (do {
        hub_at cfg (\<lambda>now. session_ended now (st_session_id (ss_state s)) ''closed'');
        client_close cfg (st_handle (ss_state s)) }) ?s1 = (y, s2)" by fastforce
    have same: "untouched ?s1 s2" by (rule close_untouched [OF close])
    have "s' = s2\<lparr> ss_router := update_worker (st_worker_id (ss_state s)) unbind_session (ss_router s2),
        ss_checkpoints := cps_delete (st_session_id (ss_state s)) (ss_checkpoints s2) \<rparr>"
      using run close slot(3,4) True by (auto simp: teardown_def split: prod.splits)
    then show ?thesis using L True slot same ids deleted
      by (simp add: untouched_def ledger_def outstanding_bind)
  next
    case False
    then show ?thesis using L run slot ids deleted by (auto simp: teardown_def ledger_def split: if_splits)
  qed
qed

section \<open>The answer to a session.start\<close>

definition calm :: "event list \<Rightarrow> bool \<Rightarrow> router \<Rightarrow> int \<Rightarrow> string \<Rightarrow> ('e, 'd) conn \<Rightarrow> bool" where
  "calm evs a0 r0 n0 sid s \<longleftrightarrow> cn_events s = evs \<and> ledger a0 False r0 n0 sid s"

definition refusal_event :: "string \<Rightarrow> event \<Rightarrow> bool" where
  "refusal_event sid ev \<longleftrightarrow> (\<exists>t. ev = ErrorEvent sid t) \<or> (\<exists>t ms. ev = OverloadedEvent sid t ms)"

definition answered :: "event list \<Rightarrow> string \<Rightarrow> frame \<Rightarrow> next_step \<Rightarrow> ('e, 'd) conn \<Rightarrow> bool" where
  "answered evs sid f r s \<longleftrightarrow> (\<exists>ev. cn_events s = evs @ [ev]
     \<and> (if r = Go then cn_started s \<and> ev = AckEvent sid (f_seq f)
        else r = Stop \<and> \<not> cn_started s \<and> refusal_event sid ev))"

lemma calmly:
  assumes "quiet_act m" "fair a0 False r0 n0 sid m" "\<And>x. spec (calm evs a0 r0 n0 sid) (f x) Q"
  shows "spec (calm evs a0 r0 n0 sid) (State_Monad.bind m f) Q"
proof (rule spec_bind)
  have "spec (\<lambda>s. cn_events s = evs) m (\<lambda>_ s. cn_events s = evs)"
    by (rule spec_keeps [OF assms(1)]) (simp add: quiet_def)
  from spec_conj [OF this assms(2)] show "spec (calm evs a0 r0 n0 sid) m (\<lambda>_. calm evs a0 r0 n0 sid)"
    by (simp add: calm_def [abs_def])
qed (rule assms(3))

text \<open>A writing side that takes every event.\<close>

definition takes_all :: "('e, 'd) conn_config \<Rightarrow> bool" where
  "takes_all cfg \<longleftrightarrow> (\<forall>e. fst (cg_send cfg e))"

lemma calm_stop:
  assumes "takes_all cfg" "refusal_event sid ev"
  shows "spec (calm evs a0 r0 n0 sid) (send_stop cfg ev) (answered evs sid f)"
  using assms by (auto simp: spec_def send_stop_def send_def takes_all_def calm_def answered_def ledger_def split_beta)

lemma calm_fail:
  assumes "takes_all cfg"
  shows "spec (calm evs a0 r0 n0 sid) (fail_with cfg err) (answered evs sid f)"
  unfolding fail_with_def
proof (rule get_then)
  fix s
  show "spec (\<lambda>t. t = s \<and> calm evs a0 r0 n0 sid t) (send_stop cfg (em_error (ss_state s) (cg_text cfg err)))
      (answered evs sid f)"
  proof (cases "calm evs a0 r0 n0 sid s")
    case True
    then have "st_session_id (ss_state s) = sid" by (simp add: calm_def ledger_def)
    then have "refusal_event sid (em_error (ss_state s) (cg_text cfg err))" by (simp add: refusal_event_def em_error_def)
    then show ?thesis by (rule spec_weaken [OF calm_stop [OF assms]]) simp_all
  qed (simp add: spec_def)
qed

lemma calm_overload:
  assumes "takes_all cfg"
  shows "spec (calm evs a0 r0 n0 sid) (overload cfg reason d) (answered evs sid f)"
  unfolding overload_def
proof (rule get_then)
  fix s
  show "spec (\<lambda>t. t = s \<and> calm evs a0 r0 n0 sid t) (do {
      hub_at cfg (\<lambda>now. refused now (st_session_id (ss_state s)) reason);
      send_stop cfg (em_overloaded (ss_state s) reason d) }) (answered evs sid f)"
  proof (cases "calm evs a0 r0 n0 sid s")
    case True
    then have "st_session_id (ss_state s) = sid" by (simp add: calm_def ledger_def)
    then have "refusal_event sid (em_overloaded (ss_state s) reason d)" by (simp add: refusal_event_def em_overloaded_def)
    then have "spec (calm evs a0 r0 n0 sid) (do {
        hub_at cfg (\<lambda>now. refused now (st_session_id (ss_state s)) reason);
        send_stop cfg (em_overloaded (ss_state s) reason d) }) (answered evs sid f)"
      by (intro calmly quiet_intros fair_intros calm_stop assms)
    then show ?thesis by (rule spec_weaken) simp_all
  qed (simp add: spec_def)
qed

lemma calm_opened:
  assumes "takes_all cfg" "in_fleet r0 (w_id w) = 1"
  shows "spec (calm evs True r0 n0 sid) (session_opened cfg f w c resp) (answered evs sid f)"
proof (rule specI)
  fix s r s'
  assume C: "calm evs True r0 n0 sid s" and run: "run_state (session_opened cfg f w c resp) s = (r, s')"
  then have "ledger True True r0 n0 sid s'"
    by (intro specD [OF spec_session_opened [OF assms(2)]]) (simp_all add: calm_def)
  moreover have "r = Go \<and> cn_events s' = evs @ [AckEvent sid (f_seq f)]"
    using C run assms(1)
    by (auto simp: session_opened_def hub_at_def hub_do_def send_next_def send_def takes_all_def em_ack_def
        calm_def ledger_def split_beta)
  ultimately show "answered evs sid f r s'" by (simp add: answered_def ledger_def)
qed

lemma start_answered:
  assumes "host_ok (cg_host cfg)" "takes_all cfg"
  shows "spec (calm evs False r0 n0 sid) (start_session cfg f m) (answered evs sid f)"
proof -
  have failed: "spec (calm evs True r0 n0 sid) (session_open_failed cfg err) (answered evs sid f)" for err
    unfolding session_open_failed_def
    by (intro keeps_cases calmly quiet_intros fair_intros calm_fail calm_overload assms)
  have case_opened: "spec (calm evs True r0 n0 sid) (do {
      opened \<leftarrow> open_session cfg m;
      (case opened of
         Inl err \<Rightarrow> session_open_failed cfg err
       | Inr (target, client, resp) \<Rightarrow> session_opened cfg f target client resp) }) (answered evs sid f)"
  proof (rule spec_bind)
    have "spec (\<lambda>s. cn_events s = evs) (open_session cfg m) (\<lambda>_ s. cn_events s = evs)"
      by (rule spec_keeps [OF quiet_open_session]) (simp add: quiet_def)
    from spec_conj [OF this opens_session [OF assms(1)]]
    show "spec (calm evs True r0 n0 sid) (open_session cfg m) (\<lambda>res s. calm evs True r0 n0 sid s \<and> opened_in r0 res)"
      by (simp add: calm_def [abs_def] conj_assoc)
  qed (intro opened_case failed calm_opened assms)
  have admitted: "spec (calm evs True r0 n0 sid) (do {
      set_session (\<lambda>st. st\<lparr> st_mode := ss_mode m, st_sample_rate_hz := ss_sample_rate_hz m \<rparr>);
      s' \<leftarrow> State_Monad.get;
      (case make_pipeline cfg (word_of_int (ss_sample_rate_hz m))
          (chunk_policy (cn_admission s') (chunk_ms_for (ss_mode m)) (degraded_chunk_ms (ss_mode m))) of
         Inl err \<Rightarrow> fail_with cfg (PipelineSetup err)
       | Inr p \<Rightarrow> do {
           State_Monad.update (\<lambda>s. s\<lparr>ss_pipeline := p\<rparr>);
           opened \<leftarrow> open_session cfg m;
           (case opened of
              Inl err \<Rightarrow> session_open_failed cfg err
            | Inr (target, client, resp) \<Rightarrow> session_opened cfg f target client resp) }) }) (answered evs sid f)"
    unfolding set_session_def
    by (intro calmly quiet_intros quiet_update fair_get fair_update keeps_cases calm_fail case_opened assms)
      (simp_all add: quiet_def steady_def)
  have admission: "spec (calm evs False r0 n0 sid) (do {
      d \<leftarrow> admit_act;
      (if dc_refused d then overload cfg (dc_reason d) (dc_retry_after d)
       else do { State_Monad.update (\<lambda>s. s\<lparr>cn_admitted := True\<rparr>); k }) }) (answered evs sid f)"
    if "spec (calm evs True r0 n0 sid) k (answered evs sid f)" for k
  proof (rule spec_bind)
    let ?won = "\<lambda>d s. if dc_refused d then calm evs False r0 n0 sid s
        else calm evs True r0 n0 sid (s\<lparr>cn_admitted := True\<rparr>)"
    show "spec (calm evs False r0 n0 sid) admit_act ?won"
      by (auto simp: spec_def admit_act_def admit_def calm_def ledger_def refusal_def admitted_decision_def
          note_high_water_def Let_def)
    fix d
    have "spec (\<lambda>s. calm evs True r0 n0 sid (s\<lparr>cn_admitted := True\<rparr>))
        (do { State_Monad.update (\<lambda>s. s\<lparr>cn_admitted := True\<rparr>); k }) (answered evs sid f)"
      by (rule spec_bind [OF spec_update that]) simp
    then show "spec (?won d) (if dc_refused d then overload cfg (dc_reason d) (dc_retry_after d)
       else do { State_Monad.update (\<lambda>s. s\<lparr>cn_admitted := True\<rparr>); k }) (answered evs sid f)"
      using calm_overload [OF assms(2)] by simp
  qed
  show ?thesis
    unfolding start_session_def
    by (intro calmly quiet_intros fair_get keeps_cases calm_fail admission admitted assms)
qed

end
