(* ===== verification/ConnProps.thy ===== *)
theory ConnProps
  imports ConnProofs
begin

text \<open>
  The properties of a connection, each a short consequence of the preserved relations
  of \<^verbatim>\<open>ConnProofs\<close>, and a demonstration connection their witnesses run.
\<close>

section \<open>The loops end\<close>

lemma emit_pipeline: "ss_pipeline (snd (run_state (emit cfg op) s)) = ss_pipeline s"
  by (auto simp: emit_def send_next_def send_def split_beta split: sum.split)

lemma boundary_step:
  assumes "pl_boundary (ss_pipeline s) = (Some e, p)"
  shows "be_type e = EventEndpoint \<Longrightarrow>
      run_state (boundary_loop cfg (Suc n) b) s = run_state (boundary_loop cfg n True) (s\<lparr>ss_pipeline := p\<rparr>)"
    and "be_type e = EventSpeechStart \<Longrightarrow>
      run_state (emit cfg (\<lambda>st. em_speech_start st (be_seq e))) (s\<lparr>ss_pipeline := p\<rparr>) = (r, s2) \<Longrightarrow>
      run_state (boundary_loop cfg (Suc n) b) s = (if r = Go then run_state (boundary_loop cfg n b) s2 else ((b, r), s2))"
  using assms by simp_all

lemma boundary_loop_fuel:
  assumes "length (pl_queued (ss_pipeline s)) < n"
  shows "run_state (boundary_loop cfg n b) s = run_state (boundary_loop cfg (Suc (length (pl_queued (ss_pipeline s)))) b) s
    \<and> (snd (fst (run_state (boundary_loop cfg n b) s)) = Go \<longrightarrow>
         pl_queued (ss_pipeline (snd (run_state (boundary_loop cfg n b) s))) = [])"
  using assms
proof (induction n arbitrary: s b)
  case 0
  then show ?case by simp
next
  case (Suc n)
  obtain ev p where take1: "pl_boundary (ss_pipeline s) = (ev, p)" by fastforce
  note q = pl_boundary_queued [OF take1]
  show ?case
  proof (cases ev)
    case None
    with q take1 show ?thesis by simp
  next
    case (Some e)
    then have queue: "pl_queued (ss_pipeline s) = e # pl_queued p" using q by simp
    with Suc.prems have less: "length (pl_queued p) < n" by simp
    let ?s1 = "s\<lparr>ss_pipeline := p\<rparr>"
    show ?thesis
    proof (cases "be_type e")
      case EventEndpoint
      from Suc.IH [of ?s1 True] less show ?thesis
        unfolding boundary_step(1) [OF take1 [unfolded Some] EventEndpoint] queue by (auto simp del: boundary_loop.simps)
    next
      case EventSpeechStart
      obtain r s2 where out: "run_state (emit cfg (\<lambda>st. em_speech_start st (be_seq e))) ?s1 = (r, s2)" by fastforce
      then have "ss_pipeline s2 = p" using emit_pipeline [of cfg "\<lambda>st. em_speech_start st (be_seq e)" ?s1] by simp
      with Suc.IH [of s2 b] less show ?thesis
        unfolding boundary_step(2) [OF take1 [unfolded Some] EventSpeechStart out] queue by (auto simp del: boundary_loop.simps)
    qed
  qed
qed

section \<open>What is written\<close>

lemma write_loop_prefix: "prefix (fst (write_loop write clock evs hub e)) evs"
  by (induction evs arbitrary: hub e) (auto simp: Let_def split_beta)

lemma transcript_prefix: "prefix evs' evs \<Longrightarrow> transcript_ok evs \<Longrightarrow> transcript_ok evs'"
  by (auto simp: prefix_def transcript_ok_def sorted_wrt_append)

section \<open>A demonstration\<close>

definition demo_start_json :: json where
  "demo_start_json = JObject [(''type'', JString ''session.start''), (''mode'', JString ''online''),
     (''sample_rate_hz'', JInt 16000), (''encoding'', JString ''pcm_s16le''), (''channels'', JInt 1),
     (''nominal_frame_ms'', JInt 20)]"

definition demo_cfg :: "(push_req list, unit) conn_config" where
  "demo_cfg = \<lparr> cg_host = demo_host, cg_transport = (\<lambda>r e. (Inl ''no route'', e)), cg_send = (\<lambda>e. (True, e)),
     cg_parse = (\<lambda>bs. if bs = [0] then Some demo_start_json else None),
     cg_vad = (\<lambda>d x. (Inr True, d)), cg_text = (\<lambda>_. ''error''), cg_bifrost_finals = False,
     cg_model_alias = ''m'', cg_stateless_stream = False, cg_new_pipeline = None \<rparr>"

definition demo_conn :: "(push_req list, unit) conn" where
  "demo_conn = new_conn ''s'' (Passthrough (new_passthrough 0 0)) [new_worker 1 ''a'' ''k'' demo_caps]
     new_checkpoint_store zero_counters (new_controller default_admission_config) None None []"

definition demo_start :: session_start where
  "demo_start = \<lparr> ss_type = ''session.start'', ss_mode = ''online'', ss_sample_rate_hz = 16000,
     ss_encoding = ''pcm_s16le'', ss_channels = 1, ss_nominal_frame_ms = 20 \<rparr>"

definition demo_frame :: frame where
  "demo_frame = \<lparr> f_type = MsgControl, f_seq = 0, f_capture_ms = 0, f_num_samples = 0, f_payload = [0] \<rparr>"

lemma demo_control: "decode_control (cg_parse demo_cfg) [0] = Inr (CtlStart demo_start)"
  by code_simp

text \<open>The journal is not looked at when a session starts, so it is a variable of the run.\<close>

definition demo_with :: "journal \<Rightarrow> (push_req list, unit) conn" where
  "demo_with j = \<lparr> ss_state = new_inference_state ''s'' '''', ss_final = None,
     ss_pipeline = Passthrough (new_passthrough 0 0), ss_journal = j,
     ss_router = [new_worker 1 ''a'' ''k'' demo_caps], ss_checkpoints = new_checkpoint_store,
     ss_metrics = zero_counters, ss_env = [], cn_seqv = \<lparr>sv_expected = 1\<rparr>, cn_started = False,
     cn_admitted = False, cn_client = None, cn_admission = new_controller default_admission_config,
     cn_bifrost = None, cn_hub = None, cn_jobs = [], cn_events = [] \<rparr>"

lemma demo_start_run:
  "(case run_state (start_session demo_cfg demo_frame demo_start) (demo_with j) of (r, s) \<Rightarrow>
     (r, cn_events s, cn_started s, outstanding (ss_router s) ''a'')) = (Go, [AckEvent ''s'' 0], True, 1)"
  by code_simp

definition demo_inputs :: "input list" where
  "demo_inputs = [Inbound (Inr demo_frame)]"

lemma demo_input_run:
  "run_state (handle_input demo_cfg (Inbound (Inr demo_frame))) demo_conn
     = run_state (start_session demo_cfg demo_frame demo_start) (demo_with (the (new_journal journalCapacity)))"
  using demo_control
  by (simp add: handle_input_def handle_inbound_def handle_frame_def handle_control_def demo_conn_def
      new_conn_def demo_with_def validate_def new_seq_validator_def demo_frame_def MsgControl_def)

lemma demo_session:
  obtains s1 s2 where "run_state (start_session demo_cfg demo_frame demo_start)
        (demo_with (the (new_journal journalCapacity))) = (Go, s1)"
    "run_state (session_loop demo_cfg demo_inputs) demo_conn = (Go, s2)"
    "cn_events s1 = [AckEvent ''s'' 0]" "cn_events s2 = [AckEvent ''s'' 0]" "cn_started s1"
    "outstanding (ss_router s1) ''a'' = 1"
proof -
  obtain s1 where s1: "run_state (start_session demo_cfg demo_frame demo_start)
        (demo_with (the (new_journal journalCapacity))) = (Go, s1)"
      "cn_events s1 = [AckEvent ''s'' 0]" "cn_started s1" "outstanding (ss_router s1) ''a'' = 1"
    using demo_start_run [of "the (new_journal journalCapacity)"] by (auto split: prod.splits)
  obtain x s2 where tear: "run_state (teardown demo_cfg) s1 = (x, s2)" by (cases "run_state (teardown demo_cfg) s1")
  have "cn_events s2 = cn_events s1"
    using quiet_teardown [of demo_cfg] tear by (metis quiet_def snd_conv state_io_rel_def)
  moreover have "run_state (session_loop demo_cfg demo_inputs) demo_conn = (Go, s2)"
    using s1(1) tear by (simp add: session_loop_def demo_inputs_def and_then_def demo_input_run)
  ultimately show ?thesis using s1 that by simp
qed

lemma demo_host_ok: "host_ok (cg_host demo_cfg)"
  using demo_ok(1) by (simp add: demo_cfg_def)

section \<open>Properties\<close>

text \<open>
  C3: no connection can make the gateway panic, and every client gets a lawful transcript.
  Whatever the client sends, the workers answer and the sockets refuse, the session loop
  never reaches the emitter's panics, and the events it sends, and those the writing side
  gets out before a write fails, keep the transcript contract: revisions increase within
  an utterance and nothing but the same final follows a final.
\<close>

theorem connection_keeps_transcript_contract:
  assumes "run_state (session_loop cfg inputs) (new_conn sid pipe r cps m ctl b hub e) = (res, s')"
    and "length (cn_events s') < 2 ^ 64 - 1"
  shows "(\<forall>p. res \<noteq> Crashed p) \<and> transcript_ok (cn_events s')
    \<and> transcript_ok (fst (write_loop write clock (cn_events s') hub' e'))"
proof -
  obtain s1 x where loop: "run_state (input_loop cfg inputs) (new_conn sid pipe r cps m ctl b hub e) = (res, s1)"
    and tear: "run_state (teardown cfg) s1 = (x, s')"
    using assms(1) by (auto simp: session_loop_def split: prod.splits)
  have left: "left res s1" by (rule specD [OF keeps_input_loop new_conn_settled loop])
  then have "sound s1" by (auto simp: left_def settled_sound split: next_step.splits)
  moreover have "quiet s1 s'" using quiet_teardown [of cfg] tear by (metis snd_conv state_io_rel_def)
  ultimately have "sound s'" by (rule quiet_keeps(3))
  then have "transcript_ok (cn_events s')" using assms(2) by (simp add: sound_def short_def)
  with left transcript_prefix [OF write_loop_prefix] show ?thesis by (auto simp: left_def)
qed

theorem connection_keeps_transcript_contract_witness:
  "\<exists>s'. run_state (session_loop demo_cfg demo_inputs) demo_conn = (Go, s') \<and> transcript_ok (cn_events s')
     \<and> cn_events s' = [AckEvent ''s'' 0]"
proof -
  obtain s1 s2 where run: "run_state (session_loop demo_cfg demo_inputs) demo_conn = (Go, s2)"
    and evs: "cn_events s2 = [AckEvent ''s'' 0]" by (rule demo_session) blast
  have len: "length (cn_events s2) < 2 ^ 64 - 1" by (simp add: evs)
  have "transcript_ok (cn_events s2)"
    by (rule connection_keeps_transcript_contract [OF run [unfolded demo_conn_def] len, THEN conjunct2, THEN conjunct1])
  with run evs show ?thesis by blast
qed

text \<open>
  C6: a session gives back what it took. However a connection ends, the admission
  counter and every worker's session count are what they were before it, and no
  checkpoint of the session is left in the store when the deferred function returns.
\<close>

theorem session_returns_what_it_took:
  assumes "host_ok (cg_host cfg)" "router_inv r" "0 \<le> ct_admitted ctl"
    and "run_state (session_loop cfg inputs) (new_conn sid pipe r cps m ctl b hub e) = (res, s')"
  shows "ct_admitted (cn_admission s') = ct_admitted ctl
    \<and> (\<forall>i. outstanding (ss_router s') i = outstanding r i)
    \<and> cps_latest sid (ss_checkpoints s') = None"
proof -
  let ?s = "new_conn sid pipe r cps m ctl b hub e"
  obtain s1 x where loop: "run_state (input_loop cfg inputs) ?s = (res, s1)"
    and tear: "run_state (teardown cfg) s1 = (x, s')"
    using assms(4) by (auto simp: session_loop_def split: prod.splits)
  have "ledger False False r (ct_admitted ctl) sid ?s"
    using assms(2) by (simp add: ledger_def new_conn_def) (simp add: new_inference_state_def)
  then have "resting r (ct_admitted ctl) sid ?s" using new_conn_settled by (simp add: rests_def)
  from specD [OF rested_input(2) [OF assms(1)] this loop]
  obtain a0 b0 where "ledger a0 b0 r (ct_admitted ctl) sid s1" by (auto simp: rests_def)
  from teardown_settles [OF this assms(3) tear] show ?thesis .
qed

theorem session_returns_what_it_took_witness:
  "\<exists>s1 s'. run_state (start_session demo_cfg demo_frame demo_start)
        (demo_with (the (new_journal journalCapacity))) = (Go, s1) \<and> outstanding (ss_router s1) ''a'' = 1
     \<and> run_state (session_loop demo_cfg demo_inputs) demo_conn = (Go, s')
     \<and> outstanding (ss_router s') ''a'' = 0"
proof -
  obtain s1 s2 where run: "run_state (session_loop demo_cfg demo_inputs) demo_conn = (Go, s2)"
    and s1: "run_state (start_session demo_cfg demo_frame demo_start)
        (demo_with (the (new_journal journalCapacity))) = (Go, s1)" "outstanding (ss_router s1) ''a'' = 1"
    by (rule demo_session) blast
  have "router_inv [new_worker 1 ''a'' ''k'' demo_caps]"
    by (simp add: router_inv_def new_worker_inv)
  moreover have "0 \<le> ct_admitted (new_controller default_admission_config)"
    by (simp add: new_controller_def Let_def)
  ultimately have "outstanding (ss_router s2) ''a'' = outstanding [new_worker 1 ''a'' ''k'' demo_caps] ''a''"
    using session_returns_what_it_took [OF demo_host_ok _ _ run [unfolded demo_conn_def]] by simp
  also have "\<dots> = 0" by (simp add: outstanding_def router_find_def new_worker_def)
  finally show ?thesis using s1 run by blast
qed

text \<open>
  C11: every session.start is answered, by exactly one event. While the writing side takes
  events, a start message of a session that has not begun produces either the ack of its
  own sequence number, and then the session has started, or an overload or an error
  event, and then it has not and the connection stops.
\<close>

theorem session_start_is_answered:
  assumes "host_ok (cg_host cfg)" "takes_all cfg" "router_inv (ss_router s)"
    and "\<not> cn_started s" "\<not> cn_admitted s" "decode_control (cg_parse cfg) (f_payload f) = Inr (CtlStart m)"
    and "run_state (handle_control cfg f) s = (r, s')"
  shows "\<exists>ev. cn_events s' = cn_events s @ [ev]
    \<and> (if r = Go then cn_started s' \<and> ev = AckEvent (st_session_id (ss_state s)) (f_seq f)
       else r = Stop \<and> \<not> cn_started s' \<and> refusal_event (st_session_id (ss_state s)) ev)"
proof -
  let ?sid = "st_session_id (ss_state s)"
  have "calm (cn_events s) False (ss_router s) (ct_admitted (cn_admission s)) ?sid s"
    using assms(3-5) by (simp add: calm_def ledger_def)
  moreover have "run_state (start_session cfg f m) s = (r, s')"
    using assms(6,7) by (simp add: handle_control_def)
  ultimately have "answered (cn_events s) ?sid f r s'"
    by (rule specD [OF start_answered [OF assms(1,2)]])
  then show ?thesis by (simp add: answered_def)
qed

theorem session_start_is_answered_witness:
  "\<exists>r s' ev. run_state (handle_control demo_cfg demo_frame) demo_conn = (r, s') \<and> cn_events s' = [ev]
     \<and> (r = Go \<longrightarrow> ev = AckEvent ''s'' 0)"
proof -
  obtain r s' where run: "run_state (handle_control demo_cfg demo_frame) demo_conn = (r, s')" by fastforce
  have demo: "\<not> cn_started demo_conn" "\<not> cn_admitted demo_conn" "cn_events demo_conn = []"
    "st_session_id (ss_state demo_conn) = ''s''" "f_seq demo_frame = 0" "f_payload demo_frame = [0]"
    by (simp_all add: demo_conn_def new_conn_def demo_frame_def) (simp add: new_inference_state_def)
  have "router_inv (ss_router demo_conn)"
    by (simp add: demo_conn_def new_conn_def router_inv_def new_worker_inv)
  moreover have "takes_all demo_cfg" by (simp add: takes_all_def demo_cfg_def)
  moreover have "decode_control (cg_parse demo_cfg) (f_payload demo_frame) = Inr (CtlStart demo_start)"
    using demo_control demo(6) by simp
  ultimately obtain ev where "cn_events s' = cn_events demo_conn @ [ev]"
    "if r = Go then cn_started s' \<and> ev = AckEvent (st_session_id (ss_state demo_conn)) (f_seq demo_frame)
     else r = Stop \<and> \<not> cn_started s' \<and> refusal_event (st_session_id (ss_state demo_conn)) ev"
    using session_start_is_answered [OF demo_host_ok _ _ demo(1,2) _ run] by blast
  with run demo show ?thesis by auto
qed

text \<open>
  The loop that drains the pipeline's boundary events ends. Any number of turns above
  the number of queued events gives the result of the model's bound, and a loop that lets
  the frame go on has emptied the queue.
\<close>

theorem boundary_loop_ends:
  assumes "length (pl_queued (ss_pipeline s)) < n"
  shows "run_state (boundary_loop cfg n False) s = run_state (boundaries cfg) s
    \<and> (snd (fst (run_state (boundaries cfg) s)) = Go \<longrightarrow>
         pl_queued (ss_pipeline (snd (run_state (boundaries cfg) s))) = [])"
proof -
  have "run_state (boundaries cfg) s
      = run_state (boundary_loop cfg (Suc (length (pl_queued (ss_pipeline s)))) False) s"
    by (simp add: boundaries_def del: boundary_loop.simps)
  with boundary_loop_fuel [OF assms, of cfg False] show ?thesis by metis
qed

theorem boundary_loop_ends_witness:
  "run_state (boundary_loop demo_cfg 5 False) demo_conn = run_state (boundaries demo_cfg) demo_conn"
  using boundary_loop_ends [of demo_conn 5 demo_cfg] by (simp add: demo_conn_def new_conn_def)


definition demo_saving :: "(push_req list, unit) conn_config" where
  "demo_saving = demo_cfg\<lparr>cg_host := demo_host\<lparr>ho_client := (\<lambda>i. (demo_backend i)\<lparr>c_checkpoint := (\<lambda>hdl e.
     (Inr \<lparr> cp_checkpoint_blob = [7], cp_generation = 1, cp_last_seq_applied = 9 \<rparr>, e))\<rparr>)\<rparr>\<rparr>"

definition demo_pending :: "(push_req list, unit) conn" where
  "demo_pending = demo_conn\<lparr>cn_jobs := [\<lparr> jb_client = Pinned ''a'', jb_session_id = ''s'', jb_key = ''k'', jb_handle = ''h'' \<rparr>]\<rparr>"



definition demo_offline :: "(push_req list, unit) conn" where
  "demo_offline = demo_conn\<lparr> ss_journal := journal_append (journal_append (the (new_journal 4)) (twenty 1 True)) (twenty 2 True),
     cn_bifrost := new_bifrost ''http://b'' '''' [],
     ss_state := (ss_state demo_conn)\<lparr>st_mode := ModeOffline, st_utterance_start_seq := 1\<rparr> \<rparr>"



definition well_formed :: "frame \<Rightarrow> bool" where
  "well_formed f = (if f_type f = MsgAudio then length (f_payload f) = unat (f_num_samples f) * 2
     else f_type f = MsgControl)"

text \<open>
  C18: the session loop only ever sees well-formed frames. What the reading side hands over
  is frames of one of the two types, audio frames carrying exactly two bytes per declared
  sample, whose encodings are the client's binary messages in order from the first; and at
  most one error, which comes last and only for a message that is not such a frame.
\<close>

theorem read_loop_is_well_formed:
  assumes "read_loop msgs = out"
  shows "\<exists>fs. (let binary = map snd (filter fst msgs) in
      list_all well_formed fs \<and> prefix (map encode fs) binary
      \<and> (out = map Inr fs \<and> length fs = length binary
         \<or> (\<exists>err. out = map Inr fs @ [Inl err] \<and> length fs < length binary
              \<and> (\<forall>f. well_formed f \<longrightarrow> encode f \<noteq> binary ! length fs))))"
  using assms
proof (induction msgs arbitrary: out)
  case Nil
  then show ?case by simp
next
  case (Cons m rest)
  obtain binary buf where m: "m = (binary, buf)" by fastforce
  show ?case
  proof (cases "binary \<and> (\<exists>f. decode buf = Inr f \<and> well_formed f)")
    case True
    then obtain f where f: "decode buf = Inr f" "well_formed f" by blast
    then have "out = Inr f # read_loop rest" using Cons.prems True m decode_type [OF f(1)]
      by (auto simp: well_formed_def validate_audio_frame_def BytesPerSample_def Let_def split: if_splits)
    with Cons.IH [OF refl] f True m encode_decode_aux [OF f(1)] show ?thesis
      by (auto simp: Let_def intro: exI [where x = "f # _"])
  next
    case False
    show ?thesis
    proof (cases binary)
      case False
      with Cons.IH [of out] Cons.prems m show ?thesis by simp
    next
      case True
      with False obtain err where "out = [Inl err]" using Cons.prems m
        by (auto simp: well_formed_def validate_audio_frame_def BytesPerSample_def Let_def
            dest: decode_type split: if_splits sum.splits)
      moreover have "\<forall>f. well_formed f \<longrightarrow> encode f \<noteq> buf"
        using False True decode_encode_aux by (auto simp: well_formed_def split: if_splits)
      ultimately show ?thesis using True m by (intro exI [of _ "[]"]) simp
    qed
  qed
qed

theorem read_loop_is_well_formed_witness:
  "\<exists>fs err. read_loop [(True, encode demo_frame), (False, []), (True, [7])] = map Inr fs @ [Inl err]
     \<and> prefix (map encode fs) [encode demo_frame, [7]] \<and> list_all well_formed fs"
proof -
  have out: "read_loop [(True, encode demo_frame), (False, []), (True, [7])] = [Inr demo_frame, Inl ErrFrameTooShort]"
  proof -
    have "f_type demo_frame = MsgControl" by (simp add: demo_frame_def)
    moreover from this have "decode (encode demo_frame) = Inr demo_frame" by (simp add: decode_encode_aux)
    moreover have "decode [7] = Inl ErrFrameTooShort" by (simp add: decode_def HeaderSize_def)
    moreover have "MsgControl \<noteq> MsgAudio" by (simp add: wire_consts)
    ultimately show ?thesis by simp
  qed
  let ?P = "\<lambda>fs. list_all well_formed fs \<and> prefix (map encode fs) [encode demo_frame, [7]]
    \<and> ([Inr demo_frame, Inl ErrFrameTooShort] = map Inr fs
      \<or> (\<exists>err. [Inr demo_frame, Inl ErrFrameTooShort] = map Inr fs @ [Inl err]))"
  have "\<exists>fs. ?P fs" using read_loop_is_well_formed [OF out] by (rule ex_forward) (auto simp: Let_def)
  then obtain fs where fs: "?P fs" by blast
  then obtain err where "[Inr demo_frame, Inl ErrFrameTooShort] = map Inr fs @ [Inl err]"
    by (auto simp: Cons_eq_map_conv)
  with fs out show ?thesis by metis
qed

end
