(* ===== verification/Gateway.thy ===== *)
theory Gateway
  imports ConnProps "HOL-Library.List_Lexorder" "HOL-Library.Char_ord"
begin

text \<open>
  \<^verbatim>\<open>cmd/gateway/main.go\<close>: the configuration read from environment variables (a function
  that is the empty string where a variable is unset), the fleet found at start-up by
  polling every configured worker's \<open>/health\<close>, dynamic admission of workers, and the
  views and controls the dashboard gets. HTTP is the transport of \<^verbatim>\<open>Backend\<close>; sleeping,
  the clock and the order a map is ranged over are parameters. Case folding is ASCII.
\<close>

section \<open>Strings\<close>

text \<open>\<open>strings.Split\<close> at a one-character separator, \<open>strings.Cut\<close>, \<open>strings.Replace\<close> with count 1.\<close>

fun split_on :: "char \<Rightarrow> string \<Rightarrow> string list" where
  "split_on c [] = [[]]"
| "split_on c (x # xs) =
     (if x = c then [] # split_on c xs
      else case split_on c xs of [] \<Rightarrow> [[x]] | y # ys \<Rightarrow> (x # y) # ys)"

definition cut_at :: "char \<Rightarrow> string \<Rightarrow> (string \<times> string) option" where
  "cut_at c s = (case dropWhile (\<lambda>x. x \<noteq> c) s of
      [] \<Rightarrow> None | _ # rest \<Rightarrow> Some (takeWhile (\<lambda>x. x \<noteq> c) s, rest))"

fun replace_first :: "string \<Rightarrow> string \<Rightarrow> string \<Rightarrow> string" where
  "replace_first old new [] = (if old = [] then new else [])"
| "replace_first old new (x # xs) =
     (if prefix old (x # xs) then new @ drop (length old) (x # xs) else x # replace_first old new xs)"

section \<open>The environment\<close>

type_synonym env = "string \<Rightarrow> string"

definition env_or :: "env \<Rightarrow> string \<Rightarrow> string \<Rightarrow> string" where
  "env_or env key fallback = (if env key \<noteq> '''' then env key else fallback)"

definition env_int :: "env \<Rightarrow> string \<Rightarrow> int \<Rightarrow> int" where
  "env_int env key fallback =
     (if env key = '''' then fallback
      else case atoi (trim_space (env key)) of None \<Rightarrow> fallback | Some n \<Rightarrow> if n \<le> 0 then fallback else n)"

definition env_enabled :: "env \<Rightarrow> string \<Rightarrow> bool \<Rightarrow> bool" where
  "env_enabled env key fallback =
     (let v = trim_space (map lower_char (env key)) in
      if v = '''' then fallback
      else if v \<in> {''0'', ''false'', ''off'', ''no''} then False
      else if v \<in> {''1'', ''true'', ''on'', ''yes''} then True
      else fallback)"

definition worker_url_entry :: "(string \<rightharpoonup> string) \<Rightarrow> string \<Rightarrow> string \<rightharpoonup> string" where
  "worker_url_entry out pair =
     (let p = trim_space pair in
      if p = '''' then out
      else case cut_at CHR ''='' p of None \<Rightarrow> out | Some (ident, url) \<Rightarrow> out(ident \<mapsto> url))"

definition parse_worker_urls :: "string \<Rightarrow> string \<rightharpoonup> string" where
  "parse_worker_urls urls = foldl worker_url_entry Map.empty (split_on CHR '','' urls)"

section \<open>The fleet at start-up\<close>

definition healthRetries :: nat where "healthRetries = 10"

text \<open>The health loop with \<open>n\<close> tries left after this one; it sleeps after every failure.\<close>

fun probe_health :: "'e transport \<Rightarrow> ('e \<Rightarrow> 'e) \<Rightarrow> nat \<Rightarrow> string \<Rightarrow> 'e \<Rightarrow> (backend_error + worker_advert) \<times> 'e" where
  "probe_health tr sleep 0 url e =
     (case http_health tr (new_http_client url) e of
        (Inr advert, e') \<Rightarrow> (Inr advert, e') | (Inl err, e') \<Rightarrow> (Inl err, sleep e'))"
| "probe_health tr sleep (Suc n) url e =
     (case http_health tr (new_http_client url) e of
        (Inr advert, e') \<Rightarrow> (Inr advert, e')
      | (Inl err, e') \<Rightarrow> probe_health tr sleep n url (sleep e'))"

definition tier_of :: "worker_advert \<Rightarrow> string" where
  "tier_of advert = (case wa_kv_tier advert of
      None \<Rightarrow> '''' | Some t \<Rightarrow> if ka_enabled t then ka_url t else '''')"

definition worker_of :: "time \<Rightarrow> string \<Rightarrow> worker_advert \<Rightarrow> worker" where
  "worker_of now ident advert =
     (new_worker now ident (wa_compatibility_key_hash advert) (wa_capabilities advert))
       \<lparr> w_model := wa_model advert, w_kv_tier_url := tier_of advert \<rparr>"

text \<open>\<open>order\<close> is the order \<open>range urls\<close> visits the ids in.\<close>

fun build_router :: "'e transport \<Rightarrow> ('e \<Rightarrow> 'e) \<Rightarrow> ('e \<Rightarrow> time \<times> 'e) \<Rightarrow> (string \<rightharpoonup> string) \<Rightarrow> string list \<Rightarrow>
    'e \<Rightarrow> router \<times> 'e" where
  "build_router tr sleep clock urls [] e = ([], e)"
| "build_router tr sleep clock urls (ident # order) e =
     (case probe_health tr sleep (healthRetries - 1) (the (urls ident)) e of
        (Inl err, e1) \<Rightarrow> build_router tr sleep clock urls order e1
      | (Inr advert, e1) \<Rightarrow>
          let (now, e2) = clock e1; (ws, e3) = build_router tr sleep clock urls order e2
          in (worker_of now ident advert # ws, e3))"

section \<open>Workers added while running\<close>

datatype register_error =
    WrongIdentity string
  | NoCohort string
  | NotHealthy string backend_error
  | KeyMismatch string string string
  | NoCohortTier string
  | NotAdded router_error

definition family_prefix :: "string \<Rightarrow> string" where
  "family_prefix family = ''worker-'' @ family @ ''-''"

definition register_fleet_worker :: "'e transport \<Rightarrow> ('e \<Rightarrow> time \<times> 'e) \<Rightarrow> router \<Rightarrow> string \<Rightarrow> string \<Rightarrow> string \<Rightarrow>
    'e \<Rightarrow> (register_error + router) \<times> 'e" where
  "register_fleet_worker tr clock r family ident url e =
     (if \<not> prefix (family_prefix family) ident then (Inl (WrongIdentity ident), e)
      else case find (\<lambda>w. prefix (family_prefix family) (w_id w)) r of
        None \<Rightarrow> (Inl (NoCohort family), e)
      | Some cohort \<Rightarrow>
          (case http_health tr (new_http_client url) e of
             (Inl err, e1) \<Rightarrow> (Inl (NotHealthy ident err), e1)
           | (Inr advert, e1) \<Rightarrow>
               if wa_compatibility_key_hash advert \<noteq> w_compatibility_key cohort
               then (Inl (KeyMismatch ident (wa_compatibility_key_hash advert) (w_compatibility_key cohort)), e1)
               else
                 (case wa_kv_tier advert of
                    None \<Rightarrow> (Inl (NoCohortTier ident), e1)
                  | Some t \<Rightarrow>
                      if \<not> ca_serializable (wa_capabilities advert) \<or> \<not> ka_enabled t
                         \<or> ka_url t \<noteq> w_kv_tier_url cohort
                      then (Inl (NoCohortTier ident), e1)
                      else
                        let (now, e2) = clock e1;
                            w = (new_worker now ident (wa_compatibility_key_hash advert) (wa_capabilities advert))
                              \<lparr> w_model := wa_model advert, w_kv_tier_url := ka_url t \<rparr>
                        in (case router_add r (Some w) of
                              Inl err \<Rightarrow> (Inl (NotAdded err), e2)
                            | Inr r' \<Rightarrow> (Inr r', e2)))))"

section \<open>Views and controls for the dashboard\<close>

record worker_view =
  wv_id :: string
  wv_status :: string
  wv_outstanding :: int
  wv_rate_limited :: bool
  wv_compat_key :: string
  wv_model :: string
  wv_modes :: "string list"
  wv_streaming :: bool
  wv_serializable :: bool
  wv_draining :: bool
  wv_error_rate :: float64
  wv_latency_p95_ms :: float64
  wv_latency_samples :: nat

record fleet_view =
  fv_workers :: "worker_view list"
  fv_admitted :: int
  fv_high_water :: int
  fv_cluster_p95_ms :: float64
  fv_eject_at_multiple :: float64

definition view_of :: "time \<Rightarrow> worker \<Rightarrow> worker_view" where
  "view_of now w =
     (let (errRate, p, samples) = worker_stats w in
      \<lparr> wv_id = w_id w, wv_status = status_string (w_status w), wv_outstanding = w_outstanding w,
        wv_rate_limited = bucket_blocked (w_bucket w) now, wv_compat_key = w_compatibility_key w,
        wv_model = w_model w, wv_modes = ca_modes (w_capabilities w),
        wv_streaming = ca_streaming (w_capabilities w), wv_serializable = ca_serializable (w_capabilities w),
        wv_draining = w_draining w, wv_error_rate = errRate, wv_latency_p95_ms = latency_ms p,
        wv_latency_samples = samples \<rparr>)"

definition fleet_view_of :: "time \<Rightarrow> router \<Rightarrow> controller \<Rightarrow> fleet_view" where
  "fleet_view_of now r adm =
     \<lparr> fv_workers = map (view_of now) r, fv_admitted = ct_admitted adm, fv_high_water = ct_high_water adm,
       fv_cluster_p95_ms = latency_ms (cluster_p95 r), fv_eject_at_multiple = GrayFailureMultiple \<rparr>"

record target =
  tg_worker_url :: string
  tg_admin_url :: string

definition admin_of :: "string \<Rightarrow> string" where
  "admin_of url = replace_first '':9000'' '':9001'' url"

definition chaos_targets :: "(string \<rightharpoonup> string) \<Rightarrow> string \<Rightarrow> string \<rightharpoonup> target" where
  "chaos_targets urls override =
     (let admin = parse_worker_urls override in
      (\<lambda>ident. case urls ident of
         None \<Rightarrow> None
       | Some u \<Rightarrow> Some \<lparr> tg_worker_url = u,
            tg_admin_url = (case admin ident of Some a \<Rightarrow> a | None \<Rightarrow> admin_of u) \<rparr>))"

definition corrupt_checkpoint :: "string \<Rightarrow> checkpoint_store \<Rightarrow> json \<times> checkpoint_store" where
  "corrupt_checkpoint sid cps =
     (let (ok, cps') = (if cps = None then (False, cps) else cps_corrupt sid cps)
      in (JObject [(''corrupted'', JBool ok), (''session_id'', JString sid)], cps'))"

text \<open>\<open>KVPools\<close>: one pool per key, its tier the first one a member has; sorted by first member.\<close>

record kv_pool =
  kp_compat_key :: string
  kp_workers :: "string list"
  kp_tier_url :: string

definition pool_of_key :: "router \<Rightarrow> string \<Rightarrow> kv_pool" where
  "pool_of_key r key =
     (let ws = filter (\<lambda>w. w_compatibility_key w = key) r in
      \<lparr> kp_compat_key = key, kp_workers = map w_id ws,
        kp_tier_url = (case find (\<lambda>w. w_kv_tier_url w \<noteq> '''') ws of None \<Rightarrow> '''' | Some w \<Rightarrow> w_kv_tier_url w) \<rparr>)"

definition kv_pools :: "router \<Rightarrow> kv_pool list" where
  "kv_pools r = sort_key (\<lambda>p. hd (kp_workers p)) (map (pool_of_key r) (remdups (map w_compatibility_key r)))"

text \<open>\<^verbatim>\<open>%q\<close> of a string of printable ASCII characters.\<close>

definition quoted :: "string \<Rightarrow> string" where
  "quoted s = CHR 0x22 # concat (map (\<lambda>c. if c = CHR 0x22 \<or> c = CHR 0x5C then [CHR 0x5C, c] else [c]) s) @ [CHR 0x22]"

definition drain_worker :: "string \<Rightarrow> bool \<Rightarrow> router \<Rightarrow> string + router" where
  "drain_worker ident on r =
     (case router_find r ident of
        None \<Rightarrow> Inl (''unknown worker '' @ quoted ident)
      | Some _ \<Rightarrow> Inr (update_worker ident (set_draining on) r))"

section \<open>What main wires together\<close>

definition admission_from :: "env \<Rightarrow> admission_config" where
  "admission_from env =
     \<lparr> cf_max_sessions = env_int env ''MAX_SESSIONS'' 200, cf_soft_sessions = env_int env ''SOFT_SESSIONS'' 150,
       cf_retry_after = admissionRetryAfter \<rparr>"

definition checkpoints_from :: "env \<Rightarrow> checkpoint_store" where
  "checkpoints_from env = (if env_enabled env ''CHECKPOINTS_ENABLED'' True then new_checkpoint_store else None)"

definition fallbacks_from :: "env \<Rightarrow> string list" where
  "fallbacks_from env =
     (let raw = env_or env ''BIFROST_FALLBACKS'' '''' in
      if raw = '''' then [] else filter (\<lambda>f. f \<noteq> '''') (map trim_space (split_on CHR '','' raw)))"

definition bifrost_from :: "env \<Rightarrow> bifrost_client option" where
  "bifrost_from env =
     new_bifrost (env_or env ''BIFROST_URL'' ''http://bifrost:8080'') (env_or env ''BIFROST_MODEL'' '''') (fallbacks_from env)"

definition worker_urls_from :: "env \<Rightarrow> string \<rightharpoonup> string" where
  "worker_urls_from env = parse_worker_urls (env_or env ''WORKER_URLS'' ''worker-a=http://worker-a:9000'')"

text \<open>
  The settings of \<open>connConfig\<close>. The third-party detector \<open>webrtcvad.New\<close> builds is the
  parameter \<open>detector\<close>, as is the text of an audio error.
\<close>

definition configured :: "env \<Rightarrow> (audio_error \<Rightarrow> string) \<Rightarrow> (string + 'd) \<Rightarrow> ('e, 'd) conn_config \<Rightarrow> ('e, 'd) conn_config" where
  "configured env err detector cfg = cfg
     \<lparr> cg_bifrost_finals := env_or env ''BIFROST_FINALS'' '''' \<noteq> '''',
       cg_model_alias := env_or env ''BIFROST_MODEL_ALIAS'' ''asr-1'',
       cg_stateless_stream := env_enabled env ''STATELESS_STREAM'' True,
       cg_new_pipeline := Some (\<lambda>rate ms. case NewVADPipeline rate ms DefaultVADConfig of
           Inl e \<Rightarrow> Inl (err e)
         | Inr p \<Rightarrow> (case detector of Inl e \<Rightarrow> Inl e | Inr d \<Rightarrow> Inr (VADPipe p d))) \<rparr>"

section \<open>The format of WORKER_URLS\<close>

fun join_with :: "char \<Rightarrow> string list \<Rightarrow> string" where
  "join_with c [] = []"
| "join_with c [x] = x"
| "join_with c (x # y # zs) = x @ c # join_with c (y # zs)"

lemma split_on_plain: "c \<notin> set x \<Longrightarrow> split_on c x = [x]"
  by (induction x) auto

lemma split_on_sep: "c \<notin> set x \<Longrightarrow> split_on c (x @ c # rest) = x # split_on c rest"
  by (induction x) auto

lemma split_join: "xs \<noteq> [] \<Longrightarrow> \<forall>x \<in> set xs. c \<notin> set x \<Longrightarrow> split_on c (join_with c xs) = xs"
  by (induction c xs rule: join_with.induct) (simp_all add: split_on_plain split_on_sep)

lemma cut_at_sep: "c \<notin> set x \<Longrightarrow> cut_at c (x @ c # rest) = Some (x, rest)"
  by (induction x) (auto simp: cut_at_def split: list.splits)

definition url_entry :: "string \<times> string \<Rightarrow> string" where
  "url_entry kv = fst kv @ CHR ''='' # snd kv"

definition plain_entry :: "string \<times> string \<Rightarrow> bool" where
  "plain_entry kv \<longleftrightarrow> CHR ''='' \<notin> set (fst kv)
     \<and> list_all (\<lambda>c. c \<noteq> CHR '','' \<and> \<not> is_space c) (fst kv @ snd kv)"

lemma entry_parsed:
  assumes "plain_entry kv"
  shows "worker_url_entry out (url_entry kv) = out(fst kv \<mapsto> snd kv)"
proof -
  have "\<not> is_space CHR ''=''" by (simp add: is_space_def)
  with assms have "trim_space (url_entry kv) = url_entry kv"
    by (intro trim_space_none) (auto simp: plain_entry_def url_entry_def list_all_iff)
  moreover have "cut_at CHR ''='' (url_entry kv) = Some (fst kv, snd kv)"
    using assms by (simp add: plain_entry_def url_entry_def cut_at_sep)
  moreover have "url_entry kv \<noteq> []" by (simp add: url_entry_def)
  ultimately show ?thesis by (simp add: worker_url_entry_def split_beta)
qed

lemma entries_parsed:
  "\<forall>kv \<in> set kvs. plain_entry kv \<Longrightarrow> foldl worker_url_entry out (map url_entry kvs) = out ++ map_of (rev kvs)"
proof (induction kvs arbitrary: out)
  case (Cons kv kvs)
  then show ?case by (cases kv) (auto simp: entry_parsed map_add_def fun_eq_iff split: option.split)
qed simp

section \<open>What the fleet at start-up is\<close>

lemma probe_health_source:
  "probe_health tr sleep n url e = (Inr advert, e') \<Longrightarrow> \<exists>e1 e2. http_health tr (new_http_client url) e1 = (Inr advert, e2)"
  by (induction n arbitrary: e) (auto split: prod.splits sum.splits)

text \<open>A worker that answers its health check whatever has happened before.\<close>

definition always_healthy :: "'e transport \<Rightarrow> string \<Rightarrow> bool" where
  "always_healthy tr url \<longleftrightarrow> (\<forall>e. \<exists>advert e'. http_health tr (new_http_client url) e = (Inr advert, e'))"

lemma probe_health_answers: "always_healthy tr url \<Longrightarrow> probe_health tr sleep n url e \<noteq> (Inl err, e')"
  by (cases n) (fastforce simp: always_healthy_def dest: spec [of _ e])+

lemma worker_of_simps [simp]:
  "w_id (worker_of now ident advert) = ident" "worker_inv (worker_of now ident advert)"
  "w_compatibility_key (worker_of now ident advert) = wa_compatibility_key_hash advert"
  "w_kv_tier_url (worker_of now ident advert) = tier_of advert"
  by (simp_all add: worker_of_def new_worker_def) (simp add: worker_inv_def router_consts)

lemma build_router_fleet:
  assumes "build_router tr sleep clock urls order e = (r, e')"
  shows "subseq (map w_id r) order
    \<and> (\<forall>w \<in> set r. \<exists>now advert e1 e2. w = worker_of now (w_id w) advert
         \<and> http_health tr (new_http_client (the (urls (w_id w)))) e1 = (Inr advert, e2))
    \<and> (\<forall>ident \<in> set order. always_healthy tr (the (urls ident)) \<longrightarrow> ident \<in> w_id ` set r)"
  using assms
proof (induction order arbitrary: e r e')
  case Nil
  then show ?case by simp
next
  case (Cons ident order)
  obtain res e1 where probe: "probe_health tr sleep (healthRetries - 1) (the (urls ident)) e = (res, e1)" by fastforce
  show ?case
  proof (cases res)
    case (Inl err)
    then have "build_router tr sleep clock urls order e1 = (r, e')" using Cons.prems probe by simp
    note ih = Cons.IH [OF this]
    have "\<not> always_healthy tr (the (urls ident))" using probe_health_answers probe Inl by fast
    with ih show ?thesis by auto
  next
    case (Inr advert)
    obtain now e2 where now: "clock e1 = (now, e2)" by fastforce
    obtain ws e3 where rest: "build_router tr sleep clock urls order e2 = (ws, e3)" by fastforce
    from Cons.prems probe Inr now rest have r: "r = worker_of now ident advert # ws" by simp
    obtain e4 e5 where "http_health tr (new_http_client (the (urls ident))) e4 = (Inr advert, e5)"
      using probe_health_source [OF probe [unfolded Inr]] by blast
    with Cons.IH [OF rest] show ?thesis unfolding r by auto
  qed
qed

section \<open>Cohorts\<close>

text \<open>Workers that share a compatibility key share a tier.\<close>

definition cohorts_agree :: "router \<Rightarrow> bool" where
  "cohorts_agree r \<longleftrightarrow> (\<forall>v \<in> set r. \<forall>w \<in> set r.
     w_compatibility_key v = w_compatibility_key w \<longrightarrow> w_kv_tier_url v = w_kv_tier_url w)"

lemma cohorts_agree_add:
  assumes "cohorts_agree r" "c \<in> set r" "w_compatibility_key w = w_compatibility_key c"
    "w_kv_tier_url w = w_kv_tier_url c"
  shows "cohorts_agree (r @ [w])"
proof -
  have old: "\<exists>u' \<in> set r. w_compatibility_key u' = w_compatibility_key u \<and> w_kv_tier_url u' = w_kv_tier_url u"
    if "u \<in> set (r @ [w])" for u using that assms(2-4) by auto
  show ?thesis using assms(1) unfolding cohorts_agree_def by (metis old)
qed

text \<open>What a successful registration has checked, and the worker it adds.\<close>

lemma registered:
  assumes "register_fleet_worker tr clock r family ident url e = (Inr r', e')"
  obtains cohort advert t now where "cohort \<in> set r" "prefix (family_prefix family) (w_id cohort)"
    "prefix (family_prefix family) ident" "wa_compatibility_key_hash advert = w_compatibility_key cohort"
    "wa_kv_tier advert = Some t" "ka_enabled t" "ka_url t = w_kv_tier_url cohort"
    "ca_serializable (wa_capabilities advert)" "ident \<notin> w_id ` set r" "r' = r @ [worker_of now ident advert]"
proof -
  obtain cohort where c: "find (\<lambda>w. prefix (family_prefix family) (w_id w)) r = Some cohort"
    and pre: "prefix (family_prefix family) ident"
    using assms by (auto simp: register_fleet_worker_def split: if_splits option.splits)
  obtain advert e1 where a: "http_health tr (new_http_client url) e = (Inr advert, e1)"
    using assms c pre by (auto simp: register_fleet_worker_def split: prod.splits sum.splits)
  have key: "wa_compatibility_key_hash advert = w_compatibility_key cohort"
    using assms c pre a by (auto simp: register_fleet_worker_def split: if_splits)
  obtain t where t: "wa_kv_tier advert = Some t"
    using assms c pre a key by (auto simp: register_fleet_worker_def split: option.splits)
  have ok: "ca_serializable (wa_capabilities advert)" "ka_enabled t" "ka_url t = w_kv_tier_url cohort"
    using assms c pre a key t by (auto simp: register_fleet_worker_def split: if_splits)
  obtain now e2 where now: "clock e1 = (now, e2)" by fastforce
  have w: "worker_of now ident advert = (new_worker now ident (wa_compatibility_key_hash advert) (wa_capabilities advert))
      \<lparr> w_model := wa_model advert, w_kv_tier_url := ka_url t \<rparr>"
    using t ok by (simp add: worker_of_def tier_of_def)
  have "router_add r (Some (worker_of now ident advert)) = Inr r'"
    using assms c pre a key t ok now by (auto simp: register_fleet_worker_def w split: sum.splits)
  then have "ident \<notin> w_id ` set r" "r' = r @ [worker_of now ident advert]"
    by (auto simp: router_add_def split: if_splits)
  moreover have "cohort \<in> set r" "prefix (family_prefix family) (w_id cohort)"
    using c by (auto simp: find_Some_iff)
  ultimately show ?thesis using that pre key t ok by blast
qed

lemma find_own: "router_inv r \<Longrightarrow> w \<in> set r \<Longrightarrow> router_find r (w_id w) = Some w"
  by (induction r) (auto simp: router_find_def router_inv_def)

section \<open>A small deployment\<close>

definition demo_ready :: json where
  "demo_ready = JObject [(''status'', JString ''READY''), (''model'', JString ''zip''), (''compatibility_key_hash'', JString ''k''),
     (''capabilities'', JObject [(''streaming'', JBool True), (''serializable'', JBool True),
        (''modes'', JArray [JString ''online''])]),
     (''kv_tier'', JObject [(''enabled'', JBool True), (''url'', JString ''http://t'')])]"

text \<open>Every worker but the one at \<open>http://down\<close> answers with that advertisement.\<close>

definition demo_http :: "nat transport" where
  "demo_http q e = (if prefix ''http://down'' (hq_url q) then Inl ''refused''
     else Inr \<lparr> hp_status = 200, hp_retry_after = '''', hp_json = Some demo_ready, hp_text = '''' \<rparr>, e + 1)"

definition demo_clock :: "nat \<Rightarrow> time \<times> nat" where
  "demo_clock e = (int e, e)"

definition demo_urls :: "string \<rightharpoonup> string" where
  "demo_urls = [''worker-zip-1'' \<mapsto> ''http://a'', ''worker-zip-2'' \<mapsto> ''http://down'']"

definition demo_ids :: "string list" where "demo_ids = [''worker-zip-2'', ''worker-zip-1'']"

definition demo_cohort :: router where
  "demo_cohort = [(new_worker 0 ''worker-zip-1'' ''k'' no_capabilities)\<lparr>w_kv_tier_url := ''http://t''\<rparr>]"

lemma demo_decoded:
  "case decode_worker_advert demo_ready of None \<Rightarrow> False
   | Some a \<Rightarrow> wa_compatibility_key_hash a = ''k'' \<and> ca_serializable (wa_capabilities a)
       \<and> (case wa_kv_tier a of None \<Rightarrow> False | Some t \<Rightarrow> ka_enabled t \<and> ka_url t = ''http://t'')"
  by (simp add: decode_worker_advert_def demo_ready_def struct_of_def decode_capabilities_def decode_kv_tier_def
      decode_into_def decode_field_def decode_pointer_def members_def fold_eq_def lower_char_def)

lemma demo_down: "prefix ''http://down'' url \<Longrightarrow>
    http_health demo_http (new_http_client url) e = (Inl (ErrTransport ''health'' ''refused''), e + 1)"
  by (auto simp: http_health_def demo_http_def new_http_client_def prefix_def)

lemma demo_health:
  obtains a t where "\<And>e. http_health demo_http (new_http_client ''http://a'') e = (Inr a, e + 1)"
    "wa_compatibility_key_hash a = ''k''" "ca_serializable (wa_capabilities a)" "wa_kv_tier a = Some t"
    "ka_enabled t" "ka_url t = ''http://t''"
proof -
  obtain a t where a: "decode_worker_advert demo_ready = Some a" "wa_kv_tier a = Some t"
      "wa_compatibility_key_hash a = ''k''" "ca_serializable (wa_capabilities a)" "ka_enabled t" "ka_url t = ''http://t''"
    using demo_decoded by (auto split: option.splits)
  have "http_health demo_http (new_http_client ''http://a'') e = (Inr a, e + 1)" for e
    using a by (simp add: http_health_def demo_http_def new_http_client_def)
  with that a show ?thesis by blast
qed

section \<open>Properties\<close>

text \<open>
  WORKER_URLS round trip. A list of workers printed as \<open>id=url,id=url\<close>, where no id holds
  an equals sign and neither ids nor urls hold a comma or white space, is parsed back to exactly
  the map it lists, the last entry winning where an id is repeated.
\<close>

theorem worker_urls_round_trip:
  assumes "list_all plain_entry kvs"
  shows "parse_worker_urls (join_with CHR '','' (map url_entry kvs)) = map_of (rev kvs)"
proof (cases "kvs = []")
  case True
  then show ?thesis by (simp add: parse_worker_urls_def worker_url_entry_def trim_space_def)
next
  case False
  have "\<forall>x \<in> set (map url_entry kvs). CHR '','' \<notin> set x"
    using assms by (auto simp: list_all_iff plain_entry_def url_entry_def)
  with False have "split_on CHR '','' (join_with CHR '','' (map url_entry kvs)) = map url_entry kvs"
    by (intro split_join) auto
  with assms show ?thesis by (simp add: parse_worker_urls_def entries_parsed list_all_iff)
qed

theorem worker_urls_round_trip_witness:
  "parse_worker_urls ''a=http://a:9000,b=http://b:9000'' = map_of [(''b'', ''http://b:9000''), (''a'', ''http://a:9000'')]"
  using worker_urls_round_trip [of "[(''a'', ''http://a:9000''), (''b'', ''http://b:9000'')]"]
  by (simp add: plain_entry_def url_entry_def is_space_def)

text \<open>
  The fleet a gateway starts with. It contains only configured workers, each once, with the
  key, capabilities, model and tier a health answer of that worker's own address gave; every
  configured worker that answers its health checks is in it; and it is well formed, so the
  connections' guarantees apply to it.
\<close>

theorem boot_fleet_is_who_answered:
  assumes "build_router tr sleep clock urls order e = (r, e')" "distinct order"
  shows "subseq (map w_id r) order \<and> router_inv r
    \<and> (\<forall>w \<in> set r. \<exists>now advert e1 e2. w = worker_of now (w_id w) advert
         \<and> http_health tr (new_http_client (the (urls (w_id w)))) e1 = (Inr advert, e2))
    \<and> (\<forall>ident \<in> set order. always_healthy tr (the (urls ident)) \<longrightarrow> ident \<in> w_id ` set r)"
proof -
  note fleet = build_router_fleet [OF assms(1)]
  have "distinct (map w_id r)" using fleet assms(2)
    by (auto simp: subseq_conv_nths intro: distinct_nthsI)
  moreover have "list_all worker_inv r" using fleet unfolding list_all_iff by (metis worker_of_simps(2))
  ultimately show ?thesis using fleet by (simp add: router_inv_def)
qed

theorem boot_fleet_is_who_answered_witness:
  "\<exists>r e'. build_router demo_http (\<lambda>e. e) demo_clock demo_urls demo_ids 0 = (r, e') \<and> router_inv r
     \<and> map w_id r = [''worker-zip-1'']"
proof -
  obtain r e' where run: "build_router demo_http (\<lambda>e. e) demo_clock demo_urls demo_ids 0 = (r, e')" by fastforce
  have "distinct demo_ids" by (simp add: demo_ids_def)
  note fleet = boot_fleet_is_who_answered [OF run this]
  note sub = fleet [THEN conjunct1] and inv = fleet [THEN conjunct2, THEN conjunct1]
    and src = fleet [THEN conjunct2, THEN conjunct2, THEN conjunct1]
    and up = fleet [THEN conjunct2, THEN conjunct2, THEN conjunct2]
  have "always_healthy demo_http ''http://a''" unfolding always_healthy_def by (metis demo_health)
  with up have up1: "''worker-zip-1'' \<in> w_id ` set r" by (simp add: demo_ids_def demo_urls_def)
  have "w_id w \<noteq> ''worker-zip-2''" if "w \<in> set r" for w
    using demo_down src that by (fastforce simp: demo_urls_def)
  then have "''worker-zip-2'' \<notin> set (map w_id r)" by force
  moreover have "''worker-zip-1'' \<in> set (map w_id r)" using up1 by force
  ultimately have "map w_id r = [''worker-zip-1'']"
    using sub by (cases r; cases "tl r") (auto simp: demo_ids_def split: if_splits elim!: list_emb.cases)
  with run inv show ?thesis by (intro exI conjI) assumption+
qed

text \<open>
  C30: dynamic admission cannot mix cohorts. A worker that is added while the gateway runs has a
  fresh id of the family asked for, can serialize, and joins a cohort whose key and tier it
  advertises; a fleet in which equal keys mean equal tiers stays one, and stays well formed.
\<close>

theorem dynamic_admission_keeps_cohorts:
  assumes "register_fleet_worker tr clock r family ident url e = (Inr r', e')" "cohorts_agree r" "router_inv r"
  shows "cohorts_agree r' \<and> router_inv r'
    \<and> (\<exists>w cohort. r' = r @ [w] \<and> w_id w = ident \<and> prefix (family_prefix family) ident \<and> ident \<notin> w_id ` set r
         \<and> ca_serializable (w_capabilities w) \<and> cohort \<in> set r \<and> prefix (family_prefix family) (w_id cohort)
         \<and> w_compatibility_key w = w_compatibility_key cohort \<and> w_kv_tier_url w = w_kv_tier_url cohort
         \<and> w \<in> set (pool r' (w_id cohort)))"
  using assms(1)
proof (rule registered)
  fix cohort advert t now
  let ?w = "worker_of now ident advert"
  assume c: "cohort \<in> set r" "prefix (family_prefix family) (w_id cohort)" "prefix (family_prefix family) ident"
    and key: "wa_compatibility_key_hash advert = w_compatibility_key cohort"
    and t: "wa_kv_tier advert = Some t" "ka_enabled t" "ka_url t = w_kv_tier_url cohort"
      "ca_serializable (wa_capabilities advert)"
    and fresh: "ident \<notin> w_id ` set r" and r': "r' = r @ [?w]"
  have inv: "router_inv r'" using assms(3) fresh by (auto simp: r' router_inv_def)
  have tier: "w_kv_tier_url ?w = w_kv_tier_url cohort" using t by (simp add: tier_of_def)
  have "cohorts_agree r'" unfolding r' by (rule cohorts_agree_add [OF assms(2) c(1)]) (simp_all add: key tier del: worker_of_simps(4))
  moreover have "w_capabilities ?w = wa_capabilities advert" by (simp add: worker_of_def new_worker_def)
  moreover have "router_find r' (w_id cohort) = Some cohort" using find_own [OF inv] c(1) by (simp add: r')
  then have "?w \<in> set (pool r' (w_id cohort))" using key c(1) fresh by (auto simp: pool_def r')
  ultimately show ?thesis using inv c key tier fresh t(4) r' by (intro conjI exI [of _ ?w] exI [of _ cohort]) simp_all
qed


theorem dynamic_admission_keeps_cohorts_witness:
  "\<exists>r' e'. register_fleet_worker demo_http demo_clock demo_cohort ''zip'' ''worker-zip-dyn-1'' ''http://a'' 0 = (Inr r', e')
     \<and> cohorts_agree r' \<and> map w_id r' = [''worker-zip-1'', ''worker-zip-dyn-1'']"
proof -
  obtain a t where health: "\<And>e. http_health demo_http (new_http_client ''http://a'') e = (Inr a, e + 1)"
    and a: "wa_compatibility_key_hash a = ''k''" "ca_serializable (wa_capabilities a)" "wa_kv_tier a = Some t"
      "ka_enabled t" "ka_url t = ''http://t''" by (rule demo_health) blast
  define r' where "r' = demo_cohort @ [worker_of 1 ''worker-zip-dyn-1'' a]"
  have run: "register_fleet_worker demo_http demo_clock demo_cohort ''zip'' ''worker-zip-dyn-1'' ''http://a'' 0 = (Inr r', 1)"
    using health a by (simp add: register_fleet_worker_def demo_cohort_def family_prefix_def router_add_def
        new_worker_def demo_clock_def r'_def worker_of_def tier_of_def)
  have "cohorts_agree demo_cohort" "router_inv demo_cohort"
    by (simp_all add: cohorts_agree_def demo_cohort_def router_inv_def new_worker_def worker_inv_def router_consts)
  from dynamic_admission_keeps_cohorts [OF run this] run show ?thesis
    by (auto simp: demo_cohort_def new_worker_def)
qed

text \<open>
  C31: a stateless session stays within one tier. In a fleet whose cohorts agree, every provider a
  stateless client may be sent to, the primary and each fallback, is a worker with the picked
  worker's key and with the very tier the client's versions are published to and deleted from.
\<close>

theorem stateless_providers_share_a_tier:
  assumes "cohorts_agree r" "router_inv r" "target \<in> set r"
    and "stateless_client_for cfg b r target sid = Some (sc, handle)" "p \<in> set (sc_primary sc # sc_fallbacks sc)"
  shows "\<exists>w \<in> set r. p = w_id w @ ''/'' @ cg_model_alias cfg
    \<and> w_compatibility_key w = w_compatibility_key target \<and> w_kv_tier_url w = sc_tier_url sc \<and> w_kv_tier_url w \<noteq> ''''"
proof -
  have self: "router_find r (w_id target) = Some target" by (rule find_own [OF assms(2,3)])
  obtain primary fallbacks where pools: "bifrost_pool cfg r (w_id target) = (primary, fallbacks)" by fastforce
  have sc: "sc_primary sc = primary" "sc_fallbacks sc = fallbacks" "sc_tier_url sc = w_kv_tier_url target"
    "w_kv_tier_url target \<noteq> ''''"
    using assms(4) by (auto simp: stateless_client_for_def pools stateless_open_def new_stateless_client_def Let_def
        split: if_splits prod.splits)
  have "p \<in> (\<lambda>w. w_id w @ ''/'' @ cg_model_alias cfg) ` set (pool r (w_id target))"
    using assms(5) pools unfolding sc(1,2) by (auto simp: bifrost_pool_def pool_def self)
  then obtain w where w: "w \<in> set (pool r (w_id target))" "p = w_id w @ ''/'' @ cg_model_alias cfg" by auto
  then have in_r: "w \<in> set r" "w_compatibility_key w = w_compatibility_key target"
    using self assms(3) by (auto simp: pool_def)
  with assms(1,3) have "w_kv_tier_url w = w_kv_tier_url target" unfolding cohorts_agree_def by blast
  with in_r w(2) sc show ?thesis by (intro bexI [of _ w]) simp_all
qed

theorem stateless_providers_share_a_tier_witness:
  "let r = [(new_worker 0 ''a'' ''k'' (demo_caps\<lparr>ca_serializable := True\<rparr>))\<lparr>w_kv_tier_url := ''http://t''\<rparr>];
       cfg = demo_cfg\<lparr>cg_stateless_stream := True, cg_model_alias := ''asr-1''\<rparr> in
   \<exists>sc h. stateless_client_for cfg (new_bifrost ''http://b'' '''' []) r (r ! 0) ''s'' = Some (sc, h)
     \<and> (\<exists>w \<in> set r. sc_primary sc = w_id w @ ''/'' @ ''asr-1'' \<and> w_kv_tier_url w = sc_tier_url sc)"
proof -
  let ?w = "(new_worker 0 ''a'' ''k'' (demo_caps\<lparr>ca_serializable := True\<rparr>))\<lparr>w_kv_tier_url := ''http://t''\<rparr>"
  let ?cfg = "demo_cfg\<lparr>cg_stateless_stream := True, cg_model_alias := ''asr-1''\<rparr>"
  have fleet: "cohorts_agree [?w]" "router_inv [?w]" "?w \<in> set [?w]"
    by (simp_all add: cohorts_agree_def router_inv_def new_worker_def worker_inv_def router_consts)
  have "stateless_client_for ?cfg (new_bifrost ''http://b'' '''' []) [?w] ?w ''s'' \<noteq> None"
    by (simp add: stateless_client_for_def bifrost_enabled_def new_bifrost_def bifrost_pool_def pool_def
        router_find_def new_worker_def Let_def split: prod.split)
  then obtain sc h where sc: "stateless_client_for ?cfg (new_bifrost ''http://b'' '''' []) [?w] ?w ''s'' = Some (sc, h)"
    by auto
  from stateless_providers_share_a_tier [OF fleet sc] sc show ?thesis by (auto simp: Let_def)
qed

text \<open>
  No environment makes the gateway useless, and none turns Bifrost off. Whatever the
  variables hold, the admission ceiling is at least one, so the first session is admitted, and
  an unparsable or non-positive override is the default; but the Bifrost client is never nil,
  whose address has a non-empty default, contrary to the comment that it is nil unless
  BIFROST_URL is set.
\<close>

theorem configuration_fails_safe:
  "0 < cf_max_sessions (admission_from env)
   \<and> \<not> dc_refused (fst (admit (new_controller (admission_from env))))
   \<and> (env ''MAX_SESSIONS'' = decimal n \<longrightarrow> cf_max_sessions (admission_from env)
        = (if 0 < n \<and> int n < 2 ^ 63 then int n else 200))
   \<and> bifrost_enabled (bifrost_from env)"
proof -
  have pos: "0 < env_int env key fallback" if "0 < fallback" for key fallback
    using that by (auto simp: env_int_def split: option.split)
  have "decimal n \<noteq> ''''" by (rule decimal_nonempty)
  moreover have "atoi (decimal n) = (if int n < 2 ^ 63 then Some (int n) else None)"
    using digit_not_sign [OF decimal_hd_digit [of n]] by (auto simp: atoi_def digits_decimal)
  ultimately have "env ''MAX_SESSIONS'' = decimal n \<Longrightarrow> cf_max_sessions (admission_from env)
        = (if 0 < n \<and> int n < 2 ^ 63 then int n else 200)"
    by (auto simp: admission_from_def env_int_def trim_space_decimal)
  moreover have "0 < cf_max_sessions (admission_from env)" using pos by (simp add: admission_from_def)
  moreover from this have "\<not> dc_refused (fst (admit (new_controller (admission_from env))))"
    by (simp add: admit_def new_controller_def Let_def admitted_decision_def)
  moreover have "bifrost_enabled (bifrost_from env)"
    by (simp add: bifrost_enabled_def bifrost_from_def new_bifrost_def env_or_def)
  ultimately show ?thesis by blast
qed


theorem configuration_fails_safe_witness:
  "cf_max_sessions (admission_from (\<lambda>key. if key = ''MAX_SESSIONS'' then decimal 7 else '''')) = 7"
  using configuration_fails_safe [of "\<lambda>key. if key = ''MAX_SESSIONS'' then decimal 7 else ''''" 7] by simp

end
