(* ===== verification/FleetManager.thy ===== *)
theory FleetManager
  imports Gateway
begin

text \<open>
  \<^verbatim>\<open>cmd/fleetmanager/main.go\<close>: the service that creates a worker container through
  Docker's HTTP API, waits for its health advertisement and registers it with Bifrost.
  Both HTTP clients are transports. The waiting loop reads a clock and pauses; a pause
  tells whether the request's context was cancelled meanwhile. JSON objects built from
  Go maps have their keys sorted, as \<open>encoding/json\<close> writes them.
\<close>

section \<open>Families and the manager\<close>

record family_spec =
  fs_model :: string
  fs_adapter :: string
  fs_tier_url :: string
  fs_timeout :: int

definition families :: "string \<rightharpoonup> family_spec" where
  "families =
     [''zip'' \<mapsto> \<lparr> fs_model = ''zipformer-en-20M'', fs_adapter = ''zipformer_kv'', fs_tier_url = ''http://kvtier-zip:9500'', fs_timeout = 5 \<rparr>,
      ''ctc'' \<mapsto> \<lparr> fs_model = ''fastconformer-ctc'', fs_adapter = ''conformer_ctc_kv'', fs_tier_url = ''http://kvtier-ctc:9500'', fs_timeout = 5 \<rparr>]"

record manager =
  mg_bifrost_url :: string
  mg_network :: string
  mg_image :: string
  mg_kv_dtype :: string
  mg_sequence :: u64

definition fm_env_or :: "env \<Rightarrow> string \<Rightarrow> string \<Rightarrow> string" where
  "fm_env_or env key fallback = (let v = trim_space (env key) in if v \<noteq> '''' then v else fallback)"

definition trim_right :: "char \<Rightarrow> string \<Rightarrow> string" where
  "trim_right c s = rev (dropWhile (\<lambda>x. x = c) (rev s))"

definition new_manager :: "env \<Rightarrow> manager" where
  "new_manager env =
     \<lparr> mg_bifrost_url = trim_right CHR ''/'' (fm_env_or env ''BIFROST_URL'' ''http://bifrost:8080''),
       mg_network = fm_env_or env ''FLEET_NETWORK'' ''asr-stress-gym_default'',
       mg_image = fm_env_or env ''FLEET_WORKER_IMAGE'' ''asr-stress-gym-worker:demo'',
       mg_kv_dtype = fm_env_or env ''KV_DTYPE'' ''fp32'', mg_sequence = 0 \<rparr>"

section \<open>Docker and Bifrost\<close>

datatype call_error = CallFailed string | CallStatus int string

datatype fleet_error =
    CreateFailed call_error
  | StartFailed call_error
  | HealthCancelled
  | HealthTimeout
  | ProviderFailed call_error
  | KeyFailed call_error

definition docker_json :: "'e transport \<Rightarrow> string \<Rightarrow> string \<Rightarrow> json option \<Rightarrow> int \<Rightarrow> 'e \<Rightarrow> call_error option \<times> 'e" where
  "docker_json dk m path body want e =
     (case dk \<lparr> hq_method = m, hq_url = ''http://docker'' @ path,
                hq_headers = (if body = None then [] else [(''Content-Type'', ''application/json'')]),
                hq_body = (case body of None \<Rightarrow> NoBody | Some j \<Rightarrow> JsonBody j) \<rparr> e of
        (Inl err, e') \<Rightarrow> (Some (CallFailed err), e')
      | (Inr resp, e') \<Rightarrow>
          (if hp_status resp \<noteq> want then Some (CallStatus (hp_status resp) (trim_space (take 8192 (hp_text resp)))) else None, e'))"

definition remove_container :: "'e transport \<Rightarrow> string \<Rightarrow> 'e \<Rightarrow> call_error option \<times> 'e" where
  "remove_container dk ident e = docker_json dk ''DELETE'' (''/v1.43/containers/'' @ ident @ ''?force=true'') None 204 e"

definition container_spec :: "manager \<Rightarrow> string \<Rightarrow> family_spec \<Rightarrow> json" where
  "container_spec m ident fam = JObject
     [(''Env'', JArray (map JString [''WORKER_ID='' @ ident, ''MODEL='' @ fs_model fam, ''ADAPTER='' @ fs_adapter fam,
         ''KVTIER_URL='' @ fs_tier_url fam, ''KV_DTYPE='' @ mg_kv_dtype m, ''KV_HOT_MAX=32''])),
      (''HostConfig'', JObject [(''Memory'', JInt (1536 * 1024 * 1024)), (''NanoCPUs'', JInt 1500000000),
         (''RestartPolicy'', JObject [(''Name'', JString ''no'')])]),
      (''Image'', JString (mg_image m)),
      (''Labels'', JObject [(''asr-stress-gym.family'', JString ident), (''asr-stress-gym.managed'', JString ''true'')]),
      (''NetworkingConfig'', JObject [(''EndpointsConfig'', JObject [(mg_network m,
         JObject [(''Aliases'', JArray [JString ident])])])])]"

definition create_and_start :: "manager \<Rightarrow> 'e transport \<Rightarrow> string \<Rightarrow> family_spec \<Rightarrow> 'e \<Rightarrow> fleet_error option \<times> 'e" where
  "create_and_start m dk ident fam e =
     (case docker_json dk ''POST'' (''/v1.43/containers/create?name='' @ ident) (Some (container_spec m ident fam)) 201 e of
        (Some err, e1) \<Rightarrow> (Some (CreateFailed err), e1)
      | (None, e1) \<Rightarrow>
          (case docker_json dk ''POST'' (''/v1.43/containers/'' @ ident @ ''/start'') None 204 e1 of
             (Some err, e2) \<Rightarrow> (Some (StartFailed err), snd (remove_container dk ident e2))
           | (None, e2) \<Rightarrow> (None, e2)))"

text \<open>One poll of \<open>/health\<close>: the key, where the worker advertises one.\<close>

definition decode_key :: "json \<Rightarrow> string option" where
  "decode_key v = do { kvs \<leftarrow> struct_of v; decode_field json_string ''compatibility_key_hash'' '''' kvs }"

definition poll_health :: "'e transport \<Rightarrow> string \<Rightarrow> 'e \<Rightarrow> string option \<times> 'e" where
  "poll_health ht ident e =
     (case ht \<lparr> hq_method = ''GET'', hq_url = ''http://'' @ ident @ '':9000/health'', hq_headers = [], hq_body = NoBody \<rparr> e of
        (Inl err, e') \<Rightarrow> (None, e')
      | (Inr resp, e') \<Rightarrow>
          (if hp_status resp \<noteq> 200 then None
           else case Option.bind (hp_json resp) decode_key of
                  None \<Rightarrow> None | Some key \<Rightarrow> if key = '''' then None else Some key, e'))"

definition healthWindow :: duration where "healthWindow = 75 * second"

text \<open>\<open>waitForHealth\<close> after the deadline is set; \<open>None\<close>: the turns allowed were not enough.\<close>

fun wait_loop :: "'e transport \<Rightarrow> ('e \<Rightarrow> time \<times> 'e) \<Rightarrow> ('e \<Rightarrow> bool \<times> 'e) \<Rightarrow> string \<Rightarrow> time \<Rightarrow> nat \<Rightarrow> 'e \<Rightarrow>
    ((fleet_error + string) \<times> 'e) option" where
  "wait_loop ht clock pause ident deadline 0 e = None"
| "wait_loop ht clock pause ident deadline (Suc n) e =
     (let (now, e1) = clock e in
      if \<not> now < deadline then Some (Inl HealthTimeout, e1)
      else case poll_health ht ident e1 of
        (Some key, e2) \<Rightarrow> Some (Inr key, e2)
      | (None, e2) \<Rightarrow>
          let (cancelled, e3) = pause e2
          in if cancelled then Some (Inl HealthCancelled, e3)
             else wait_loop ht clock pause ident deadline n e3)"

definition maxPolls :: nat where "maxPolls = 76"

definition wait_for_health :: "'e transport \<Rightarrow> ('e \<Rightarrow> time \<times> 'e) \<Rightarrow> ('e \<Rightarrow> bool \<times> 'e) \<Rightarrow> string \<Rightarrow> 'e \<Rightarrow>
    ((fleet_error + string) \<times> 'e) option" where
  "wait_for_health ht clock pause ident e =
     (let (now, e1) = clock e in wait_loop ht clock pause ident (now + healthWindow) maxPolls e1)"

definition bifrost_post :: "manager \<Rightarrow> 'e transport \<Rightarrow> string \<Rightarrow> json \<Rightarrow> 'e \<Rightarrow> call_error option \<times> 'e" where
  "bifrost_post m ht path body e =
     (case ht \<lparr> hq_method = ''POST'', hq_url = mg_bifrost_url m @ path,
                hq_headers = [(''Content-Type'', ''application/json'')], hq_body = JsonBody body \<rparr> e of
        (Inl err, e') \<Rightarrow> (Some (CallFailed err), e')
      | (Inr resp, e') \<Rightarrow>
          (if hp_status resp < 200 \<or> hp_status resp \<ge> 300
           then Some (CallStatus (hp_status resp) (trim_space (take 8192 (hp_text resp)))) else None, e'))"

definition provider_spec :: "string \<Rightarrow> family_spec \<Rightarrow> json" where
  "provider_spec ident fam = JObject
     [(''custom_provider_config'', JObject [(''base_provider_type'', JString ''openai'')]),
      (''network_config'', JObject [(''allow_private_network'', JBool True),
         (''base_url'', JString (''http://'' @ ident @ '':9000'')),
         (''default_request_timeout_in_seconds'', JInt (fs_timeout fam)), (''max_retries'', JInt 1),
         (''retry_backoff_initial_seconds'', JReal (1 / 10)), (''retry_backoff_max_seconds'', JInt 1)]),
      (''provider'', JString ident)]"

definition key_spec :: "string \<Rightarrow> json" where
  "key_spec ident = JObject [(''models'', JArray [JString ''*'']), (''name'', JString (ident @ ''-local'')),
     (''value'', JString ''dummy-local-no-auth''), (''weight'', JInt 1)]"

definition register_bifrost :: "manager \<Rightarrow> 'e transport \<Rightarrow> string \<Rightarrow> family_spec \<Rightarrow> 'e \<Rightarrow> fleet_error option \<times> 'e" where
  "register_bifrost m ht ident fam e =
     (case bifrost_post m ht ''/api/providers'' (provider_spec ident fam) e of
        (Some err, e1) \<Rightarrow> (Some (ProviderFailed err), e1)
      | (None, e1) \<Rightarrow>
          (case bifrost_post m ht (''/api/providers/'' @ ident @ ''/keys'') (key_spec ident) e1 of
             (Some err, e2) \<Rightarrow> (Some (KeyFailed err), e2)
           | (None, e2) \<Rightarrow> (None, e2)))"

section \<open>The handler\<close>

datatype fleet_answer =
    InvalidJson
  | UnknownFamily
  | WorkerFailed string fleet_error
  | Created string string string string \<comment> \<open>id, url, family, key\<close>

fun answer_status :: "fleet_answer \<Rightarrow> int" where
  "answer_status InvalidJson = 400"
| "answer_status UnknownFamily = 400"
| "answer_status (WorkerFailed _ _) = 502"
| "answer_status (Created _ _ _ _) = 201"

text \<open>The body of a 201.\<close>

definition worker_response :: "string \<Rightarrow> string \<Rightarrow> string \<Rightarrow> string \<Rightarrow> json" where
  "worker_response ident url family key = JObject
     [(''id'', JString ident), (''url'', JString url), (''family'', JString family),
      (''compatibility_key_hash'', JString key)]"

definition dynamic_id :: "string \<Rightarrow> u64 \<Rightarrow> string" where
  "dynamic_id family n = ''worker-'' @ family @ ''-dyn-'' @ decimal (unat n)"

definition decode_family :: "json \<Rightarrow> string option" where
  "decode_family v = do { kvs \<leftarrow> struct_of v; decode_field json_string ''family'' '''' kvs }"

text \<open>The worker with the given id, once created: health, then Bifrost, removed if either fails.\<close>

definition admit_container :: "manager \<Rightarrow> 'e transport \<Rightarrow> 'e transport \<Rightarrow> ('e \<Rightarrow> time \<times> 'e) \<Rightarrow> ('e \<Rightarrow> bool \<times> 'e) \<Rightarrow>
    string \<Rightarrow> string \<Rightarrow> family_spec \<Rightarrow> 'e \<Rightarrow> (fleet_answer \<times> 'e) option" where
  "admit_container m dk ht clock pause family ident fam e =
     (case wait_for_health ht clock pause ident e of
        None \<Rightarrow> None
      | Some (Inl err, e1) \<Rightarrow> Some (WorkerFailed ident err, snd (remove_container dk ident e1))
      | Some (Inr key, e1) \<Rightarrow>
          (case register_bifrost m ht ident fam e1 of
             (Some err, e2) \<Rightarrow> Some (WorkerFailed ident err, snd (remove_container dk ident e2))
           | (None, e2) \<Rightarrow> Some (Created ident (''http://'' @ ident @ '':9000'') family key, e2)))"

definition create_worker :: "'e transport \<Rightarrow> 'e transport \<Rightarrow> ('e \<Rightarrow> time \<times> 'e) \<Rightarrow> ('e \<Rightarrow> bool \<times> 'e) \<Rightarrow>
    json option \<Rightarrow> manager \<Rightarrow> 'e \<Rightarrow> (fleet_answer \<times> manager \<times> 'e) option" where
  "create_worker dk ht clock pause body m e =
     (case Option.bind body decode_family of
        None \<Rightarrow> Some (InvalidJson, m, e)
      | Some raw \<Rightarrow>
          let family = map lower_char (trim_space raw) in
          (case families family of
             None \<Rightarrow> Some (UnknownFamily, m, e)
           | Some fam \<Rightarrow>
               let m1 = m\<lparr>mg_sequence := mg_sequence m + 1\<rparr>;
                   ident = dynamic_id family (mg_sequence m1)
               in case create_and_start m1 dk ident fam e of
                    (Some err, e1) \<Rightarrow> Some (WorkerFailed ident err, m1, e1)
                  | (None, e1) \<Rightarrow>
                      map_option (\<lambda>(ans, e2). (ans, m1, e2)) (admit_container m1 dk ht clock pause family ident fam e1)))"

section \<open>The wait ends\<close>

text \<open>
  What the loop relies on of the world: the clock does not run backwards while it is read or a
  request is made, and a pause that was not cancelled has taken its second.
\<close>

definition ticks :: "('e \<Rightarrow> time) \<Rightarrow> 'e transport \<Rightarrow> ('e \<Rightarrow> time \<times> 'e) \<Rightarrow> ('e \<Rightarrow> bool \<times> 'e) \<Rightarrow> bool" where
  "ticks tm ht clock pause \<longleftrightarrow>
     (\<forall>e. fst (clock e) = tm e \<and> tm e \<le> tm (snd (clock e)))
     \<and> (\<forall>q e. tm e \<le> tm (snd (ht q e)))
     \<and> (\<forall>e. \<not> fst (pause e) \<longrightarrow> tm e + second \<le> tm (snd (pause e)))"

lemma ticks_clock: "ticks tm ht clock pause \<Longrightarrow> clock e = (now, e1) \<Longrightarrow> now = tm e \<and> tm e \<le> tm e1"
  unfolding ticks_def by (metis fst_conv snd_conv)

lemma ticks_poll:
  assumes "ticks tm ht clock pause" "poll_health ht ident e = (r, e1)"
  shows "tm e \<le> tm e1"
proof -
  let ?q = "\<lparr> hq_method = ''GET'', hq_url = ''http://'' @ ident @ '':9000/health'', hq_headers = [], hq_body = NoBody \<rparr>"
  have "e1 = snd (ht ?q e)" using assms(2) by (auto simp: poll_health_def split: prod.splits sum.splits)
  then show ?thesis using assms(1) by (simp add: ticks_def)
qed

lemma ticks_pause: "ticks tm ht clock pause \<Longrightarrow> pause e = (False, e1) \<Longrightarrow> tm e + second \<le> tm e1"
  unfolding ticks_def by (metis fst_conv snd_conv)

lemma wait_loop_ends:
  assumes "ticks tm ht clock pause" "deadline \<le> tm e + int n * second"
  shows "wait_loop ht clock pause ident deadline (Suc n) e \<noteq> None"
  using assms(2)
proof (induction n arbitrary: e)
  case 0
  then show ?case using ticks_clock [OF assms(1), of e] by (auto split: prod.split)
next
  case (Suc n)
  obtain now e1 where c: "clock e = (now, e1)" by fastforce
  obtain r e2 where p: "poll_health ht ident e1 = (r, e2)" by fastforce
  obtain b e3 where w: "pause e2 = (b, e3)" by fastforce
  have "deadline \<le> tm e3 + int n * second" if "\<not> b"
    using Suc.prems ticks_clock [OF assms(1) c] ticks_poll [OF assms(1) p] ticks_pause [OF assms(1), of e2 e3] w that
    by (simp add: algebra_simps)
  from Suc.IH [OF this] show ?case
    by (subst wait_loop.simps) (simp add: c p w Let_def del: wait_loop.simps split: option.split)
qed

lemma wait_loop_more:
  "wait_loop ht clock pause ident deadline n e = Some r \<Longrightarrow> wait_loop ht clock pause ident deadline (n + k) e = Some r"
proof (induction n arbitrary: e)
  case (Suc n)
  then show ?case by (auto simp: Let_def split: prod.splits if_splits option.splits)
qed simp


section \<open>What a creation asks of Docker and Bifrost\<close>

text \<open>The world with a log of the requests made so far, those to Docker marked.\<close>

type_synonym 'e recorded = "(bool \<times> http_request) list \<times> 'e"

definition logging :: "bool \<Rightarrow> 'e transport \<Rightarrow> 'e recorded transport" where
  "logging docker tr q = (\<lambda>(qs, e). let (r, e') = tr q e in (r, (qs @ [(docker, q)], e')))"

definition silent :: "('e \<Rightarrow> 'a \<times> 'e) \<Rightarrow> 'e recorded \<Rightarrow> 'a \<times> 'e recorded" where
  "silent f = (\<lambda>(qs, e). let (x, e') = f e in (x, (qs, e')))"

definition call_of :: "http_request \<Rightarrow> string \<times> string" where
  "call_of q = (hq_method q, hq_url q)"

definition docker_calls :: "(bool \<times> http_request) list \<Rightarrow> (string \<times> string) list" where
  "docker_calls qs = map (call_of \<circ> snd) (filter fst qs)"

definition posts :: "(bool \<times> http_request) list \<Rightarrow> (string \<times> string) list" where
  "posts qs = filter (\<lambda>c. fst c \<noteq> ''GET'') (map (call_of \<circ> snd) (filter (\<lambda>x. \<not> fst x) qs))"

lemma call_logs [simp]:
  "docker_calls [] = []" "posts [] = []" "docker_calls (xs @ ys) = docker_calls xs @ docker_calls ys"
  "posts (xs @ ys) = posts xs @ posts ys" "docker_calls [(True, q)] = [call_of q]" "posts [(True, q)] = []"
  "docker_calls [(False, q)] = []" "posts [(False, q)] = (if hq_method q = ''GET'' then [] else [call_of q])"
  by (simp_all add: docker_calls_def posts_def call_of_def)

definition create_call :: "string \<Rightarrow> string \<times> string" where
  "create_call ident = (''POST'', ''http://docker/v1.43/containers/create?name='' @ ident)"
definition start_call :: "string \<Rightarrow> string \<times> string" where
  "start_call ident = (''POST'', ''http://docker/v1.43/containers/'' @ ident @ ''/start'')"
definition remove_call :: "string \<Rightarrow> string \<times> string" where
  "remove_call ident = (''DELETE'', ''http://docker/v1.43/containers/'' @ ident @ ''?force=true'')"
definition provider_call :: "manager \<Rightarrow> string \<times> string" where
  "provider_call m = (''POST'', mg_bifrost_url m @ ''/api/providers'')"
definition key_call :: "manager \<Rightarrow> string \<Rightarrow> string \<times> string" where
  "key_call m ident = (''POST'', mg_bifrost_url m @ ''/api/providers/'' @ ident @ ''/keys'')"

lemmas fleet_calls = create_call_def start_call_def remove_call_def provider_call_def key_call_def call_of_def

text \<open>An action that makes exactly these calls.\<close>

definition makes :: "'e recorded \<Rightarrow> 'e recorded \<Rightarrow> (string \<times> string) list \<Rightarrow> (string \<times> string) list \<Rightarrow> bool" where
  "makes s s' ds ps \<longleftrightarrow> docker_calls (fst s') = docker_calls (fst s) @ ds \<and> posts (fst s') = posts (fst s) @ ps"

lemma makes_trans: "makes s s1 ds ps \<Longrightarrow> makes s1 s2 ds' ps' \<Longrightarrow> makes s s2 (ds @ ds') (ps @ ps')"
  by (simp add: makes_def)

lemma docker_makes: "docker_json (logging True dk) m path body want s = (r, s') \<Longrightarrow> makes s s' [(m, ''http://docker'' @ path)] []"
  by (cases s) (auto simp: docker_json_def logging_def makes_def call_of_def split: prod.splits sum.splits)

lemma remove_makes: "makes s (snd (remove_container (logging True dk) ident s)) [remove_call ident] []"
  using docker_makes [OF surjective_pairing] by (simp add: remove_container_def remove_call_def)

lemma post_makes:
  "bifrost_post m (logging False ht) path body s = (r, s') \<Longrightarrow> makes s s' [] [(''POST'', mg_bifrost_url m @ path)]"
  by (cases s) (auto simp: bifrost_post_def logging_def makes_def call_of_def split: prod.splits sum.splits)

lemma start_makes:
  assumes "create_and_start m (logging True dk) ident fam s = (r, s')"
  shows "case r of None \<Rightarrow> makes s s' [create_call ident, start_call ident] []
    | Some err \<Rightarrow> (\<exists>c. err = CreateFailed c) \<and> makes s s' [create_call ident] []
        \<or> (\<exists>c. err = StartFailed c) \<and> makes s s' [create_call ident, start_call ident, remove_call ident] []"
proof -
  obtain r1 s1 where c: "docker_json (logging True dk) ''POST'' (''/v1.43/containers/create?name='' @ ident)
      (Some (container_spec m ident fam)) 201 s = (r1, s1)" by (rule prod.exhaust)
  obtain r2 s2 where st: "docker_json (logging True dk) ''POST'' (''/v1.43/containers/'' @ ident @ ''/start'') None 204 s1
      = (r2, s2)" by (rule prod.exhaust)
  have m1: "makes s s1 [create_call ident] []" using docker_makes [OF c] by (simp add: create_call_def)
  have m2: "makes s1 s2 [start_call ident] []" using docker_makes [OF st] by (simp add: start_call_def)
  from assms c st show ?thesis
    using m1 makes_trans [OF m1 m2] makes_trans [OF makes_trans [OF m1 m2] remove_makes [of s2 dk ident]]
    by (auto simp: create_and_start_def split: option.splits)
qed

lemma register_makes:
  assumes "register_bifrost m (logging False ht) ident fam s = (r, s')"
  shows "(if \<exists>c. r = Some (ProviderFailed c) then makes s s' [] [provider_call m]
      else makes s s' [] [provider_call m, key_call m ident] \<and> (r = None \<or> (\<exists>c. r = Some (KeyFailed c))))"
proof -
  obtain r1 s1 where p: "bifrost_post m (logging False ht) ''/api/providers'' (provider_spec ident fam) s = (r1, s1)" by (rule prod.exhaust)
  obtain r2 s2 where k: "bifrost_post m (logging False ht) (''/api/providers/'' @ ident @ ''/keys'') (key_spec ident) s1 = (r2, s2)"
    by (rule prod.exhaust)
  have m1: "makes s s1 [] [provider_call m]" using post_makes [OF p] by (simp add: provider_call_def)
  have m2: "makes s1 s2 [] [key_call m ident]" using post_makes [OF k] by (simp add: key_call_def)
  from assms p k m1 makes_trans [OF m1 m2] show ?thesis
    by (auto simp: register_bifrost_def split: option.splits)
qed

lemma wait_makes:
  "wait_loop (logging False ht) (silent clock) (silent pause) ident deadline n s = Some (r, s') \<Longrightarrow> makes s s' [] []
     \<and> (\<forall>c. r \<noteq> Inl (ProviderFailed c) \<and> r \<noteq> Inl (KeyFailed c) \<and> r \<noteq> Inl (CreateFailed c))"
proof (induction n arbitrary: s)
  case (Suc n)
  obtain now s1 where c: "silent clock s = (now, s1)" by (rule prod.exhaust)
  obtain k s2 where p: "poll_health (logging False ht) ident s1 = (k, s2)" by (rule prod.exhaust)
  obtain b s3 where w: "silent pause s2 = (b, s3)" by (rule prod.exhaust)
  have m: "makes s s1 [] []" "makes s1 s2 [] []" "makes s2 s3 [] []"
    using c p w by (cases s, cases s1, cases s2, auto simp: silent_def poll_health_def logging_def makes_def
        split: prod.splits sum.splits)+
  then have m2: "makes s s2 [] []" "makes s s3 [] []" by (simp_all add: makes_def)
  show ?case using Suc.prems c p w m(1) m2 Suc.IH [of s3] makes_trans [OF m2(2), of s' "[]" "[]"]
    by (auto simp: Let_def split: if_splits option.splits)
qed simp


text \<open>What has been posted to Bifrost when a creation fails.\<close>

definition posts_before :: "manager \<Rightarrow> string \<Rightarrow> fleet_error \<Rightarrow> (string \<times> string) list" where
  "posts_before m ident err = (case err of ProviderFailed _ \<Rightarrow> [provider_call m]
     | KeyFailed _ \<Rightarrow> [provider_call m, key_call m ident] | _ \<Rightarrow> [])"

lemma posts_before_simps [simp]:
  "posts_before m ident (ProviderFailed c) = [provider_call m]"
  "posts_before m ident (KeyFailed c) = [provider_call m, key_call m ident]"
  "posts_before m ident (CreateFailed c) = []" "posts_before m ident (StartFailed c) = []"
  "posts_before (m\<lparr>mg_sequence := n\<rparr>) ident err = posts_before m ident err"
  by (simp_all add: posts_before_def provider_call_def key_call_def split: fleet_error.split)

lemma admit_makes:
  assumes "admit_container m (logging True dk) (logging False ht) (silent clock) (silent pause) family ident fam s = Some (ans, s')"
  shows "(\<exists>key. ans = Created ident (''http://'' @ ident @ '':9000'') family key)
      \<and> makes s s' [] [provider_call m, key_call m ident]
    \<or> (\<exists>err. ans = WorkerFailed ident err \<and> (\<forall>c. err \<noteq> CreateFailed c) \<and> makes s s' [remove_call ident] (posts_before m ident err))"
proof -
  obtain r s1 where w: "wait_for_health (logging False ht) (silent clock) (silent pause) ident s = Some (r, s1)"
    using assms by (auto simp: admit_container_def split: option.splits)
  obtain now s0 where c: "silent clock s = (now, s0)" by (rule prod.exhaust)
  have loop: "wait_loop (logging False ht) (silent clock) (silent pause) ident (now + healthWindow) maxPolls s0 = Some (r, s1)"
    using w c by (simp add: wait_for_health_def)
  have "makes s s0 [] []" using c by (cases s) (auto simp: silent_def makes_def split: prod.splits)
  with wait_makes [OF loop] have wm: "makes s s1 [] []"
    and kind: "\<forall>c. r \<noteq> Inl (ProviderFailed c) \<and> r \<noteq> Inl (KeyFailed c) \<and> r \<noteq> Inl (CreateFailed c)"
    by (auto simp: makes_def)
  show ?thesis
  proof (cases r)
    case (Inl err)
    with assms w have "ans = WorkerFailed ident err" "s' = snd (remove_container (logging True dk) ident s1)"
      by (simp_all add: admit_container_def)
    with makes_trans [OF wm remove_makes [of s1 dk ident]] kind Inl show ?thesis
      by (auto simp: posts_before_def split: fleet_error.split)
  next
    case (Inr key)
    obtain r2 s2 where reg: "register_bifrost m (logging False ht) ident fam s1 = (r2, s2)" by (rule prod.exhaust)
    note rm = register_makes [OF reg]
    show ?thesis
    proof (cases r2)
      case None
      with assms w Inr reg rm makes_trans [OF wm, of s2] show ?thesis by (auto simp: admit_container_def)
    next
      case (Some err)
      with assms w Inr reg have out: "ans = WorkerFailed ident err" "s' = snd (remove_container (logging True dk) ident s2)"
        by (simp_all add: admit_container_def)
      from rm Some consider c where "err = ProviderFailed c" "makes s1 s2 [] [provider_call m]"
        | c where "err = KeyFailed c" "makes s1 s2 [] [provider_call m, key_call m ident]" by (auto split: if_splits)
      then show ?thesis
      proof cases
        case 1
        with out makes_trans [OF makes_trans [OF wm 1(2)] remove_makes [of s2 dk ident]] show ?thesis by auto
      next
        case 2
        with out makes_trans [OF makes_trans [OF wm 2(2)] remove_makes [of s2 dk ident]] show ?thesis by auto
      qed
    qed
  qed
qed

definition demo_docker :: "unit transport" where
  "demo_docker q e = (Inr \<lparr> hp_status = (if hq_method q = ''DELETE'' then 204
       else case hq_body q of JsonBody _ \<Rightarrow> 201 | _ \<Rightarrow> 204), hp_retry_after = '''', hp_json = None, hp_text = '''' \<rparr>, e)"

text \<open>A worker that is healthy at once and a Bifrost that takes the provider but not its key.\<close>

definition demo_bifrost :: "unit transport" where
  "demo_bifrost q e = (Inr \<lparr> hp_status = (if hq_url q = ''http://b/api/providers'' \<or> hq_method q = ''GET'' then 200 else 500),
     hp_retry_after = '''', hp_json = Some (JObject [(''compatibility_key_hash'', JString ''k'')]), hp_text = '''' \<rparr>, e)"

definition demo_manager :: manager where
  "demo_manager = \<lparr> mg_bifrost_url = ''http://b'', mg_network = ''n'', mg_image = ''i'', mg_kv_dtype = ''fp32'', mg_sequence = 0 \<rparr>"

section \<open>Properties\<close>

text \<open>
  The wait for a new worker's health ends. While the clock keeps up with the pauses,
  polling stops within the 76 turns of the model, with the key, a cancellation or a timeout, and
  any larger bound gives the same result, so the bound is not a restriction.
\<close>

theorem health_wait_ends:
  assumes "ticks tm ht clock pause" "clock e = (now, e1)"
  shows "wait_for_health ht clock pause ident e \<noteq> None
    \<and> wait_loop ht clock pause ident (now + healthWindow) (maxPolls + k) e1 = wait_for_health ht clock pause ident e"
proof -
  have "now + healthWindow \<le> tm e1 + int 75 * second"
    using ticks_clock [OF assms] by (simp add: healthWindow_def)
  from wait_loop_ends [OF assms(1) this, of ident]
  obtain r where r: "wait_loop ht clock pause ident (now + healthWindow) maxPolls e1 = Some r"
    by (auto simp: maxPolls_def simp del: wait_loop.simps)
  with assms(2) wait_loop_more [OF r] show ?thesis by (simp add: wait_for_health_def)
qed

theorem health_wait_ends_witness:
  "wait_for_health (\<lambda>q e. (Inl ''refused'', e)) (\<lambda>e. (int e * second, e)) (\<lambda>e. (False, e + 1)) ''w'' (0 :: nat) \<noteq> None"
proof -
  have "ticks (\<lambda>e. int e * second) (\<lambda>q e. (Inl ''refused'', e)) (\<lambda>e. (int e * second, e)) (\<lambda>e. (False, e + 1))"
    by (simp add: ticks_def algebra_simps)
  from health_wait_ends [OF this refl] show ?thesis by simp
qed

text \<open>
  C32: a worker that could not be admitted leaves no container. Whatever Docker, the worker and
  Bifrost answer, the manager asks Docker to create and start exactly when it reports success;
  on every other outcome it either never got past the create call or its last call removes the
  container, whose id is the one it created. Bifrost is undone in no case: after a failed key
  registration the provider it has posted stays registered for the removed worker.
\<close>

theorem failed_creation_leaves_no_container:
  assumes "create_worker (logging True dk) (logging False ht) (silent clock) (silent pause) body m ([], e)
      = Some (ans, m', (qs, e'))"
  shows "case ans of
      Created ident url family key \<Rightarrow> docker_calls qs = [create_call ident, start_call ident]
        \<and> posts qs = [provider_call m, key_call m ident]
        \<and> ident = dynamic_id family (mg_sequence m') \<and> mg_sequence m' = mg_sequence m + 1 \<and> family \<in> dom families
    | WorkerFailed ident err \<Rightarrow>
        docker_calls qs = (if \<exists>c. err = CreateFailed c then [create_call ident]
          else [create_call ident, start_call ident, remove_call ident])
        \<and> posts qs = posts_before m ident err
    | _ \<Rightarrow> qs = [] \<and> m' = m"
proof (cases "Option.bind body decode_family")
  case None
  with assms show ?thesis by (auto simp: create_worker_def)
next
  case (Some raw)
  let ?family = "map lower_char (trim_space raw)"
  show ?thesis
  proof (cases "families ?family")
    case None
    with assms Some show ?thesis by (auto simp: create_worker_def Let_def)
  next
    case (Some fam)
    let ?m = "m\<lparr>mg_sequence := mg_sequence m + 1\<rparr>" and ?id = "dynamic_id ?family (mg_sequence m + 1)"
    have call: "provider_call ?m = provider_call m" "key_call ?m = key_call m"
      by (simp_all add: provider_call_def key_call_def fun_eq_iff)
    obtain r s1 where cs: "create_and_start ?m (logging True dk) ?id fam ([], e) = (r, s1)" by (rule prod.exhaust)
    note sm = start_makes [OF cs]
    show ?thesis
    proof (cases r)
      case (Some err)
      with assms \<open>Option.bind body decode_family = Some raw\<close> \<open>families ?family = Some fam\<close> cs
      have "ans = WorkerFailed ?id err" "s1 = (qs, e')" by (auto simp: create_worker_def Let_def)
      with sm Some show ?thesis by (auto simp: makes_def)
    next
      case None
      with assms \<open>Option.bind body decode_family = Some raw\<close> \<open>families ?family = Some fam\<close> cs
      have adm: "admit_container ?m (logging True dk) (logging False ht) (silent clock) (silent pause) ?family ?id fam s1
          = Some (ans, (qs, e'))" and m': "m' = ?m" by (auto simp: create_worker_def Let_def)
      have "makes ([], e) s1 [create_call ?id, start_call ?id] []" using sm None by simp
      with admit_makes [OF adm] m' \<open>families ?family = Some fam\<close> show ?thesis
        by (auto simp: makes_def call)
    qed
  qed
qed


theorem failed_creation_leaves_no_container_witness:
  "\<exists>err m' qs e'. create_worker (logging True demo_docker) (logging False demo_bifrost) (silent (\<lambda>e. (0, e)))
       (silent (\<lambda>e. (True, e))) (Some (JObject [(''family'', JString ''ZIP'')])) demo_manager ([], ())
     = Some (WorkerFailed ''worker-zip-dyn-1'' (KeyFailed err), m', (qs, e'))
   \<and> docker_calls qs = [create_call ''worker-zip-dyn-1'', start_call ''worker-zip-dyn-1'', remove_call ''worker-zip-dyn-1'']
   \<and> posts qs = [provider_call demo_manager, key_call demo_manager ''worker-zip-dyn-1'']"
proof -
  let ?run = "create_worker (logging True demo_docker) (logging False demo_bifrost) (silent (\<lambda>e. (0, e)))
       (silent (\<lambda>e. (True, e))) (Some (JObject [(''family'', JString ''ZIP'')])) demo_manager ([], ())"
  have "map_option fst ?run = Some (WorkerFailed ''worker-zip-dyn-1'' (KeyFailed (CallStatus 500 '''')))" by code_simp
  then obtain m' qs e' where run: "?run = Some (WorkerFailed ''worker-zip-dyn-1'' (KeyFailed (CallStatus 500 '''')), m', (qs, e'))"
    by auto
  from failed_creation_leaves_no_container [OF run] run show ?thesis by simp
qed

end
