(* ===== verification/Nodes.thy ===== *)
theory Nodes
  imports Gateway Hub "HOL-Library.Multiset"
begin

text \<open>
  \<^verbatim>\<open>internal/dash/nodes.go\<close>, the sampler of per-node resource series, and \<open>nodeProbe\<close> of
  \<^verbatim>\<open>cmd/gateway/main.go\<close>, which reads every worker's health once per tick. What the Go
  runtime and the cgroup files report is an argument. A nil sampler is \<open>None\<close>.
\<close>

section \<open>Samples\<close>

definition nodeSeriesCapacity :: nat where "nodeSeriesCapacity = 300"

record node_sample =
  ns_node :: string
  ns_at_ms :: int
  ns_ok :: bool
  ns_detail :: string
  ns_active_sessions :: int
  ns_queue_depth :: int
  ns_inflight :: int
  ns_running :: int
  ns_rtf_p50 :: "float64 option"
  ns_cpu_percent :: "float64 option"
  ns_rss_bytes :: "int option"
  ns_mem_bytes :: "int option"
  ns_mem_limit :: "int option"
  ns_uptime_s :: float64
  ns_goroutines :: int
  ns_heap_bytes :: "int option"
  ns_is_gateway :: bool
  ns_mem_pct_limit :: "float64 option"
  ns_kv_enabled :: bool
  ns_kv_tier :: string
  ns_kv_local_hits :: int
  ns_kv_tier_hits :: int
  ns_kv_misses :: int

definition no_sample :: node_sample where
  "no_sample = \<lparr> ns_node = '''', ns_at_ms = 0, ns_ok = False, ns_detail = '''', ns_active_sessions = 0,
     ns_queue_depth = 0, ns_inflight = 0, ns_running = 0, ns_rtf_p50 = None, ns_cpu_percent = None,
     ns_rss_bytes = None, ns_mem_bytes = None, ns_mem_limit = None, ns_uptime_s = 0, ns_goroutines = 0,
     ns_heap_bytes = None, ns_is_gateway = False, ns_mem_pct_limit = None, ns_kv_enabled = False,
     ns_kv_tier = '''', ns_kv_local_hits = 0, ns_kv_tier_hits = 0, ns_kv_misses = 0 \<rparr>"

record node_sampler =
  nd_series :: "string \<rightharpoonup> node_sample list"
  nd_order :: "string list"

definition new_node_sampler :: node_sampler where
  "new_node_sampler = \<lparr> nd_series = Map.empty, nd_order = [] \<rparr>"

definition with_percentage :: "node_sample \<Rightarrow> node_sample" where
  "with_percentage s =
     (case (ns_mem_bytes s, ns_mem_limit s) of
        (Some b, Some l) \<Rightarrow> if l > 0 then s\<lparr>ns_mem_pct_limit := Some (100 * of_int b / of_int l)\<rparr> else s
      | _ \<Rightarrow> s)"

definition store_sample :: "node_sampler \<Rightarrow> node_sample \<Rightarrow> node_sampler" where
  "store_sample n s0 =
     (let s = with_percentage s0; node = ns_node s;
          n1 = (if nd_series n node = None then n\<lparr>nd_order := nd_order n @ [node]\<rparr> else n);
          old = (case nd_series n1 node of None \<Rightarrow> [] | Some ring \<Rightarrow> ring)
      in n1\<lparr>nd_series := (nd_series n1)(node \<mapsto> push_window nodeSeriesCapacity old s)\<rparr>)"

definition take_samples :: "node_sampler \<Rightarrow> node_sample list \<Rightarrow> node_sampler" where
  "take_samples n ss = foldl store_sample n ss"

definition nodes_latest :: "node_sampler option \<Rightarrow> node_sample list" where
  "nodes_latest n = (case n of None \<Rightarrow> [] | Some n \<Rightarrow>
     concat (map (\<lambda>i. case nd_series n i of None \<Rightarrow> [] | Some ring \<Rightarrow> if ring = [] then [] else [last ring]) (nd_order n)))"

definition nodes_series :: "node_sampler option \<Rightarrow> string \<rightharpoonup> node_sample list" where
  "nodes_series n = (case n of None \<Rightarrow> Map.empty | Some n \<Rightarrow> nd_series n)"

definition nodes_order :: "node_sampler option \<Rightarrow> string list" where
  "nodes_order n = (case n of None \<Rightarrow> [] | Some n \<Rightarrow> nd_order n)"

section \<open>The gateway's own sample\<close>

text \<open>
  A file is its contents, none where it cannot be read. The first field of an empty file
  does not exist: reading it panics (\<open>None\<close>).
\<close>

definition read_int_file :: "(string \<rightharpoonup> string) \<Rightarrow> string \<Rightarrow> int option option" where
  "read_int_file files path =
     (case files path of
        None \<Rightarrow> Some None
      | Some b \<Rightarrow> (let field = takeWhile (\<lambda>c. \<not> is_space c) (trim_space b)
                   in if field = '''' then None else Some (atoi field)))"

definition cgroup_memory :: "(string \<rightharpoonup> string) \<Rightarrow> (int option \<times> int option) option" where
  "cgroup_memory files = do {
     current \<leftarrow> read_int_file files ''/sys/fs/cgroup/memory.current'';
     limit \<leftarrow> read_int_file files ''/sys/fs/cgroup/memory.max'';
     (current', limit') \<leftarrow> (if current = None then do {
         c \<leftarrow> read_int_file files ''/sys/fs/cgroup/memory/memory.usage_in_bytes'';
         l \<leftarrow> read_int_file files ''/sys/fs/cgroup/memory/memory.limit_in_bytes'';
         Some (c, l) } else Some (current, limit));
     Some (current', case limit' of Some l \<Rightarrow> if l \<ge> 2 ^ 40 then None else Some l | None \<Rightarrow> None) }"

definition gateway_sample :: "time \<Rightarrow> time \<Rightarrow> int \<Rightarrow> int \<Rightarrow> int \<Rightarrow> int option \<times> int option \<Rightarrow> node_sample" where
  "gateway_sample now started goroutines heap sys mem =
     (let s = no_sample\<lparr> ns_node := ''gateway'', ns_at_ms := now_ms now, ns_ok := True, ns_is_gateway := True,
            ns_goroutines := goroutines, ns_heap_bytes := Some heap, ns_rss_bytes := Some sys,
            ns_uptime_s := seconds (now - started) \<rparr>
      in case mem of
           (Some cur, most) \<Rightarrow> s\<lparr> ns_mem_bytes := Some cur, ns_mem_limit := most \<rparr>
         | (None, _) \<Rightarrow> s\<lparr>ns_mem_bytes := Some sys\<rparr>)"

section \<open>Probing the workers\<close>

definition sample_of :: "node_sample \<Rightarrow> worker_advert \<Rightarrow> node_sample" where
  "sample_of s adv =
     (let s1 = s\<lparr> ns_ok := True, ns_active_sessions := wa_active_sessions adv, ns_queue_depth := wa_queue_depth adv,
            ns_inflight := wa_inflight adv, ns_running := wa_running adv, ns_rtf_p50 := wa_rtf_p50 adv,
            ns_cpu_percent := wa_cpu_percent adv, ns_rss_bytes := wa_rss_bytes adv,
            ns_mem_bytes := wa_cgroup_memory_bytes adv, ns_mem_limit := wa_cgroup_memory_limit_bytes adv,
            ns_uptime_s := wa_uptime_s adv \<rparr>;
          s2 = (case wa_kv_tier adv of
             None \<Rightarrow> s1
           | Some t \<Rightarrow> if ka_enabled t
               then s1\<lparr> ns_kv_enabled := True, ns_kv_tier := ka_url t, ns_kv_local_hits := ka_local_hits t,
                       ns_kv_tier_hits := ka_tier_hits t, ns_kv_misses := ka_misses t \<rparr>
               else s1)
      in if ns_mem_bytes s2 = None then s2\<lparr>ns_mem_bytes := wa_rss_bytes adv\<rparr> else s2)"

text \<open>One worker's goroutine; the text of an error is a parameter.\<close>

definition probe_worker :: "'e host \<Rightarrow> (backend_error \<Rightarrow> string) \<Rightarrow> worker \<Rightarrow> router \<Rightarrow> 'e \<Rightarrow> node_sample \<times> router \<times> 'e" where
  "probe_worker h err w r e =
     (let (now, e1) = ho_now h e; s = no_sample\<lparr> ns_node := w_id w, ns_at_ms := now_ms now \<rparr> in
      case c_health (ho_client h (w_id w)) e1 of
        (Inl x, e2) \<Rightarrow> let (later, e3) = ho_now h e2
                       in (s\<lparr>ns_detail := err x\<rparr>, mark_unhealthy later (w_id w) r, e3)
      | (Inr adv, e2) \<Rightarrow> (sample_of s adv, r, e2))"

text \<open>
  All of them, in the order \<open>sched\<close> the goroutines get to run; each fills its own slot of
  the result.
\<close>

fun node_probe :: "'e host \<Rightarrow> (backend_error \<Rightarrow> string) \<Rightarrow> worker list \<Rightarrow> nat list \<Rightarrow> node_sample list \<Rightarrow> router \<Rightarrow> 'e \<Rightarrow>
    node_sample list \<times> router \<times> 'e" where
  "node_probe h err ws [] out r e = (out, r, e)"
| "node_probe h err ws (i # sched) out r e =
     (let (s, r', e') = probe_worker h err (ws ! i) r e
      in node_probe h err ws sched (out[i := s]) r' e')"

section \<open>The sampler as a function of the readings\<close>

definition first_seen :: "string list \<Rightarrow> string list" where
  "first_seen is = rev (remdups (rev is))"

lemma first_seen_simps [simp]:
  "first_seen [] = []"
  "first_seen (is @ [i]) = (if i \<in> set is then first_seen is else first_seen is @ [i])"
  "set (first_seen is) = set is" "distinct (first_seen is)"
  by (simp_all add: first_seen_def)

lemma with_percentage_node [simp]: "ns_node (with_percentage s) = ns_node s"
  by (simp add: with_percentage_def split: option.split)

lemma store_sample_simps:
  "nd_order (store_sample n s) = (if nd_series n (ns_node s) = None then nd_order n @ [ns_node s] else nd_order n)"
  "nd_series (store_sample n s) = (nd_series n)(ns_node s \<mapsto> push_window nodeSeriesCapacity
     (case nd_series n (ns_node s) of None \<Rightarrow> [] | Some ring \<Rightarrow> ring) (with_percentage s))"
  by (simp_all add: store_sample_def Let_def)

definition readings_of :: "node_sample list \<Rightarrow> string \<Rightarrow> node_sample list" where
  "readings_of ss i = keep_last nodeSeriesCapacity (filter (\<lambda>s. ns_node s = i) (map with_percentage ss))"

lemma take_samples_reference:
  "nd_order (take_samples new_node_sampler ss) = first_seen (map ns_node ss)
   \<and> nd_series (take_samples new_node_sampler ss)
     = (\<lambda>i. if i \<in> set (map ns_node ss) then Some (readings_of ss i) else None)"
proof (induction ss rule: rev_induct)
  case Nil
  then show ?case by (simp add: take_samples_def new_node_sampler_def fun_eq_iff)
next
  case (snoc s ss)
  let ?n = "take_samples new_node_sampler ss"
  have step: "take_samples new_node_sampler (ss @ [s]) = store_sample ?n s" by (simp add: take_samples_def)
  have empty: "readings_of ss i = []" if "i \<notin> set (map ns_node ss)" for i
  proof -
    have "filter (\<lambda>s. ns_node s = i) (map with_percentage ss) = []" using that by (auto simp: filter_empty_conv)
    then show ?thesis by (simp only: readings_of_def) simp
  qed
  have old: "(case nd_series ?n (ns_node s) of None \<Rightarrow> [] | Some ring \<Rightarrow> ring) = readings_of ss (ns_node s)"
    using snoc.IH empty [of "ns_node s"] by (simp split: if_splits)
  have grown: "push_window nodeSeriesCapacity (readings_of ss (ns_node s)) (with_percentage s)
      = readings_of (ss @ [s]) (ns_node s)"
    by (simp add: push_window_def readings_of_def keep_last_keep_last_snoc nodeSeriesCapacity_def)
  have other: "readings_of (ss @ [s]) i = readings_of ss i" if "i \<noteq> ns_node s" for i
    using that by (simp add: readings_of_def)
  have "push_window nodeSeriesCapacity [] (with_percentage s) = readings_of (ss @ [s]) (ns_node s)"
    if "ns_node s \<notin> ns_node ` set ss"
    using grown empty that by simp
  then show ?case using snoc.IH other by (auto simp: step store_sample_simps old grown fun_eq_iff)
qed

lemma keep_last_nonempty: "0 < n \<Longrightarrow> xs \<noteq> [] \<Longrightarrow> keep_last n xs \<noteq> []"
  by (cases xs) (auto simp: keep_last_def)

lemma concat_singletons: "(\<And>i. i \<in> set is \<Longrightarrow> f i = [g i]) \<Longrightarrow> concat (map f is) = map g is"
  by (induction "is") simp_all

lemma readings_nonempty: "i \<in> set (map ns_node ss) \<Longrightarrow> readings_of ss i \<noteq> []"
  unfolding readings_of_def nodeSeriesCapacity_def
  by (rule keep_last_nonempty) (auto simp: filter_empty_conv)

section \<open>A probe changes no more than health\<close>

lemma sample_of_simps [simp]: "ns_node (sample_of s adv) = ns_node s" "ns_ok (sample_of s adv)"
  by (simp_all add: sample_of_def Let_def split: option.split)

lemma probe_worker_router:
  assumes "probe_worker h err w r e = (s, r', e')"
  shows "(ns_ok s \<and> r' = r \<or> \<not> ns_ok s \<and> (\<exists>later. r' = mark_unhealthy later (w_id w) r)) \<and> ns_node s = w_id w"
  using assms by (auto simp: probe_worker_def no_sample_def Let_def split: prod.splits sum.splits)

lemma mark_unhealthy_ids [simp]: "map w_id (mark_unhealthy now i r) = map w_id r"
  by (simp add: mark_unhealthy_def update_worker_ids)

lemma mark_unhealthy_nth:
  "distinct (map w_id r) \<Longrightarrow> j < length r \<Longrightarrow>
     mark_unhealthy now i r ! j = (if w_id (r ! j) = i \<and> w_status (r ! j) \<noteq> Ejected then eject (r ! j) now else r ! j)"
  by (simp add: mark_unhealthy_def update_worker_nth)

lemma node_probe_router:
  assumes "node_probe h err ws sched out r e = (out', r', e')" "distinct sched" "set sched \<subseteq> {..<length ws}"
    "map w_id r = map w_id ws" "distinct (map w_id ws)" "length out = length ws"
  shows "map w_id r' = map w_id ws \<and> length out' = length ws
    \<and> (\<forall>j < length ws. if j \<in> set sched
         then ns_node (out' ! j) = w_id (ws ! j)
           \<and> (if ns_ok (out' ! j) then r' ! j = r ! j
              else w_status (r' ! j) = Ejected \<and> (w_status (r ! j) = Ejected \<longrightarrow> r' ! j = r ! j))
         else out' ! j = out ! j \<and> r' ! j = r ! j)"
  using assms(1,2,3,4,6)
proof (induction sched arbitrary: out r e)
  case (Cons i sched)
  obtain s r1 e1 where one: "probe_worker h err (ws ! i) r e = (s, r1, e1)" by (metis prod_cases3)
  note step = probe_worker_router [OF one]
  have len: "length r = length ws" using Cons.prems(4) by (metis length_map)
  have i: "i < length ws" "i \<notin> set sched" using Cons.prems(2,3) by auto
  have name: "w_id (r ! j) = w_id (ws ! j)" if "j < length ws" for j
    using Cons.prems(4) that len by (metis nth_map)
  have same: "w_id (r ! j) = w_id (ws ! i) \<longleftrightarrow> j = i" if "j < length ws" for j
    using name [OF that] that i assms(5) by (simp add: nth_eq_iff_index_eq [of "map w_id ws" j i, simplified])
  have dist: "distinct (map w_id r)" using Cons.prems(4) assms(5) by simp
  have ids: "map w_id r1 = map w_id ws" using step Cons.prems(4) by auto
  have keep: "r1 ! j = r ! j" if "j < length ws" "j \<noteq> i" for j
    using step same [OF that(1)] that mark_unhealthy_nth [OF dist] len by auto
  have at_i: "if ns_ok s then r1 ! i = r ! i else w_status (r1 ! i) = Ejected \<and> (w_status (r ! i) = Ejected \<longrightarrow> r1 ! i = r ! i)"
    using step mark_unhealthy_nth [OF dist] len same [OF i(1)] i(1) by (auto simp: eject_def)
  have rest: "node_probe h err ws sched (out[i := s]) r1 e1 = (out', r', e')" using Cons.prems(1) by (simp add: one)
  have sub: "distinct sched" "set sched \<subseteq> {..<length ws}" "length (out[i := s]) = length ws" using Cons.prems by auto
  note IH = Cons.IH [OF rest sub(1,2) ids sub(3)]
  show ?case
  proof (intro conjI allI impI)
    fix j assume j: "j < length ws"
    show "if j \<in> set (i # sched)
         then ns_node (out' ! j) = w_id (ws ! j)
           \<and> (if ns_ok (out' ! j) then r' ! j = r ! j
              else w_status (r' ! j) = Ejected \<and> (w_status (r ! j) = Ejected \<longrightarrow> r' ! j = r ! j))
         else out' ! j = out ! j \<and> r' ! j = r ! j"
      using IH j i keep [OF j] at_i step Cons.prems(5) by (cases "j = i") auto
  qed (use IH in auto)
qed simp

section \<open>Properties\<close>

text \<open>
  The dashboard's resource history is exact. Whatever readings arrive, in whatever order,
  the sampler holds for each node the last 300 of that node's readings in arrival order, each
  with its share of the memory limit; the nodes are listed once each, in the order they were
  first seen, and the latest view is the newest reading of each.
\<close>

theorem sampler_is_the_recent_history:
  "nodes_order (Some (take_samples new_node_sampler ss)) = first_seen (map ns_node ss)
   \<and> nodes_series (Some (take_samples new_node_sampler ss))
     = (\<lambda>i. if i \<in> set (map ns_node ss) then Some (readings_of ss i) else None)
   \<and> nodes_latest (Some (take_samples new_node_sampler ss))
     = map (\<lambda>i. with_percentage (last (filter (\<lambda>s. ns_node s = i) ss))) (first_seen (map ns_node ss))"
proof -
  note ref = take_samples_reference [of ss]
  have newest: "last (readings_of ss i) = with_percentage (last (filter (\<lambda>s. ns_node s = i) ss))"
    if "i \<in> set (map ns_node ss)" for i
  proof -
    have "filter (\<lambda>s. ns_node s = i) (map with_percentage ss) = map with_percentage (filter (\<lambda>s. ns_node s = i) ss)"
      by (simp add: filter_map o_def)
    moreover have "filter (\<lambda>s. ns_node s = i) ss \<noteq> []" using that by (auto simp: filter_empty_conv)
    ultimately show ?thesis by (simp add: readings_of_def keep_last_last last_map nodeSeriesCapacity_def)
  qed
  have "nodes_latest (Some (take_samples new_node_sampler ss))
      = map (\<lambda>i. with_percentage (last (filter (\<lambda>s. ns_node s = i) ss))) (first_seen (map ns_node ss))"
    unfolding nodes_latest_def using ref
    by (simp, intro concat_singletons) (auto simp: newest readings_nonempty)
  then show ?thesis using ref by (simp add: nodes_order_def nodes_series_def)
qed

text \<open>
  The node sampler feeds the router. Whatever order the probes run in, after a round every
  worker has its own sample; one whose health check failed is ejected from routing, even if it
  was serving without an error, while a successful check changes nothing (it never restores an
  ejected worker). The package comment calls the poller strictly an observer.
\<close>

theorem node_probe_ejects_the_silent:
  assumes "node_probe h err r sched (replicate (length r) no_sample) r e = (out, r', e')"
    "mset sched = mset [0..<length r]" "router_inv r"
  shows "map w_id r' = map w_id r \<and> map ns_node out = map w_id r
    \<and> (\<forall>j < length r. if ns_ok (out ! j) then r' ! j = r ! j
         else w_status (r' ! j) = Ejected \<and> (w_status (r ! j) = Ejected \<longrightarrow> r' ! j = r ! j))"
proof -
  have all: "distinct sched" "set sched = {..<length r}"
    using mset_eq_imp_distinct_iff [OF assms(2)] mset_eq_setD [OF assms(2)] by (auto simp: atLeast0LessThan)
  have "distinct (map w_id r)" using assms(3) by (simp add: router_inv_def)
  note round = node_probe_router [OF assms(1) all(1) _ refl this]
  then show ?thesis by (auto simp: all list_eq_iff_nth_eq)
qed

theorem node_probe_ejects_the_silent_witness:
  "\<exists>out r' e'. node_probe demo_host (\<lambda>_. ''down'') [new_worker 1 ''a'' ''k'' demo_caps] [0] [no_sample]
       [new_worker 1 ''a'' ''k'' demo_caps] [] = (out, r', e')
     \<and> map ns_ok out = [False] \<and> map w_status r' = [Ejected]"
proof -
  let ?r = "[new_worker 1 ''a'' ''k'' demo_caps]"
  obtain out r' e' where run: "node_probe demo_host (\<lambda>_. ''down'') ?r [0] [no_sample] ?r [] = (out, r', e')"
    by (metis prod_cases3)
  have down: "map ns_ok out = [False]"
    using run by (auto simp: probe_worker_def no_sample_def demo_host_def demo_backend_def Let_def new_worker_def)
  have "router_inv ?r" by (simp add: router_inv_def new_worker_def worker_inv_def router_consts)
  with node_probe_ejects_the_silent [of demo_host "\<lambda>_. ''down''" ?r "[0]"] run
  have "map w_id r' = map w_id ?r" "\<not> ns_ok (out ! 0) \<longrightarrow> w_status (r' ! 0) = Ejected" by auto
  with down have "map w_status r' = [Ejected]" by (cases r'; cases out) auto
  with run down show ?thesis by (intro exI conjI) assumption+
qed

end
