(* ===== verification/Dash.thy ===== *)
theory Dash
  imports Nodes FleetManager
begin

text \<open>
  \<^verbatim>\<open>internal/dash/api.go\<close> and \<^verbatim>\<open>internal/dash/kv.go\<close>: the dashboard's control plane. A handler
  takes what it shares with the rest of the gateway (hub, router, targets) and the outside
  world, and returns the answer with both. Maps are written with their keys sorted, as
  \<open>encoding/json\<close> does. Query escaping, float formats, URL parsing and the text of a refused
  registration are parameters; a path value or query parameter is a string, empty if absent.
\<close>

section \<open>State and surroundings\<close>

record control_plane =
  ct_hub :: hub
  ct_router :: router
  ct_targets :: "string \<rightharpoonup> target"

record 'e surroundings =
  dx_http :: "'e transport"
  dx_fleet :: "'e transport"
  dx_worker :: "'e transport"
  dx_clock :: "'e \<Rightarrow> time \<times> 'e"
  dx_loadgen_url :: string
  dx_fleet_url :: string
  dx_drain :: bool \<comment> \<open>\<open>Drain\<close> is wired\<close>
  dx_register :: bool \<comment> \<open>\<open>RegisterWorker\<close> is wired\<close>
  dx_pools :: bool \<comment> \<open>\<open>KVPools\<close> is wired\<close>
  dx_escape :: "string \<Rightarrow> string"
  dx_float :: "string \<Rightarrow> float64 option"
  dx_fixed2 :: "float64 \<Rightarrow> string"
  dx_hostname :: "string \<Rightarrow> string option"
  dx_refusal :: "register_error \<Rightarrow> string"
  dx_bad_json :: string
  dx_bad_url :: "string \<Rightarrow> string option" \<comment> \<open>why a URL does not parse\<close>

datatype answer =
    Reply int json
  | RawReply string
  | StreamList "stream list"
  | StreamLog string "hub_event list"
  | NodeData "string list" "string \<rightharpoonup> node_sample list" "node_sample list"

fun code_of :: "answer \<Rightarrow> int" where
  "code_of (Reply code _) = code"
| "code_of _ = 200"

definition error_reply :: "int \<Rightarrow> string \<Rightarrow> answer" where
  "error_reply code msg = Reply code (JObject [(''error'', JString msg)])"

type_synonym 'e handled = "answer \<times> control_plane \<times> 'e"

definition target_of :: "control_plane \<Rightarrow> string \<Rightarrow> target option" where
  "target_of c ident = ct_targets c ident"

definition add_target :: "string \<Rightarrow> target \<Rightarrow> control_plane \<Rightarrow> control_plane" where
  "add_target ident t c = c\<lparr>ct_targets := (ct_targets c)(ident \<mapsto> t)\<rparr>"

definition hub_chaos_at :: "'e surroundings \<Rightarrow> string \<Rightarrow> string \<Rightarrow> string \<Rightarrow> control_plane \<Rightarrow> 'e \<Rightarrow> control_plane \<times> 'e" where
  "hub_chaos_at x worker action detail c e =
     (let (now, e') = dx_clock x e in (c\<lparr>ct_hub := hub_chaos now worker action detail (ct_hub c)\<rparr>, e'))"

definition sorted_targets :: "string list \<Rightarrow> string list" where
  "sorted_targets order = sort order"

section \<open>Requests the dashboard makes\<close>

datatype post_error = PostFailed string | PostStatus string int

definition post_error_text :: "post_error \<Rightarrow> string" where
  "post_error_text err = (case err of PostFailed msg \<Rightarrow> msg | PostStatus url code \<Rightarrow> url @ '': status '' @ decimal (nat code))"

definition dash_post :: "'e surroundings \<Rightarrow> string \<Rightarrow> json option \<Rightarrow> 'e \<Rightarrow> (post_error + string) \<times> 'e" where
  "dash_post x url body e =
     (case dx_http x \<lparr> hq_method = ''POST'', hq_url = url, hq_headers = [(''Content-Type'', ''application/json'')],
                       hq_body = JsonBody (case body of None \<Rightarrow> JObject [] | Some j \<Rightarrow> j) \<rparr> e of
        (Inl err, e') \<Rightarrow> (Inl (PostFailed err), e')
      | (Inr resp, e') \<Rightarrow>
          (if hp_status resp \<noteq> 200 then Inl (PostStatus url (hp_status resp)) else Inr (take 512 (hp_text resp)), e'))"

definition get_json :: "'e surroundings \<Rightarrow> string \<Rightarrow> 'e \<Rightarrow> (string + json) \<times> 'e" where
  "get_json x url e =
     (case dx_http x \<lparr> hq_method = ''GET'', hq_url = url, hq_headers = [], hq_body = NoBody \<rparr> e of
        (Inl err, e') \<Rightarrow> (Inl err, e')
      | (Inr resp, e') \<Rightarrow>
          (if hp_status resp \<noteq> 200 then Inl (url @ '': HTTP '' @ decimal (nat (hp_status resp)))
           else case hp_json resp of None \<Rightarrow> Inl (dx_bad_json x) | Some v \<Rightarrow> Inr v, e'))"

section \<open>Load\<close>

definition forward_load :: "'e surroundings \<Rightarrow> string \<Rightarrow> string \<Rightarrow> control_plane \<Rightarrow> 'e \<Rightarrow> 'e handled" where
  "forward_load x path query c e =
     (let url = dx_loadgen_url x @ path @ (if query = '''' then '''' else CHR ''?'' # query) in
      case dash_post x url None e of
        (Inl err, e1) \<Rightarrow> (Reply 502 (JObject [(''error'', JString (post_error_text err)), (''target'', JString url)]), c, e1)
      | (Inr body, e1) \<Rightarrow> let (c', e2) = hub_chaos_at x ''loadgen'' (tl path) query c e1 in (RawReply body, c', e2))"

definition load_query :: "'e surroundings \<Rightarrow> int \<Rightarrow> (string \<Rightarrow> string) \<Rightarrow> string" where
  "load_query x n q = ''streams='' @ decimal (nat n)
     @ concat (map (\<lambda>k. if q k = '''' then '''' else CHR ''&'' # k @ CHR ''='' # dx_escape x (q k))
         [''duration'', ''mode'', ''speech-ratio'', ''ramp''])"

definition load_handler :: "'e surroundings \<Rightarrow> string \<Rightarrow> (string \<Rightarrow> string) \<Rightarrow> control_plane \<Rightarrow> 'e \<Rightarrow> 'e handled" where
  "load_handler x n q c e =
     (if dx_loadgen_url x = '''' then
        (error_reply 501 ''no load generator configured (set LOADGEN_URL, or run cmd/loadgen yourself)'', c, e)
      else case atoi n of
        None \<Rightarrow> (error_reply 400 ''n must be a non-negative integer'', c, e)
      | Some k \<Rightarrow>
          if k < 0 then (error_reply 400 ''n must be a non-negative integer'', c, e)
          else if k = 0 then forward_load x ''/stop'' '''' c e
          else forward_load x ''/load'' (load_query x k q) c e)"

definition load_stop_handler :: "'e surroundings \<Rightarrow> control_plane \<Rightarrow> 'e \<Rightarrow> 'e handled" where
  "load_stop_handler x c e =
     (if dx_loadgen_url x = '''' then (error_reply 501 ''no load generator configured'', c, e)
      else forward_load x ''/stop'' '''' c e)"

text \<open>\<open>body\<close> is what of the answer fits in 1024 bytes, whatever its status.\<close>

definition load_status_handler :: "'e surroundings \<Rightarrow> control_plane \<Rightarrow> 'e \<Rightarrow> 'e handled" where
  "load_status_handler x c e =
     (if dx_loadgen_url x = '''' then (Reply 200 (JObject [(''available'', JBool False)]), c, e)
      else case dx_http x \<lparr> hq_method = ''GET'', hq_url = dx_loadgen_url x @ ''/status'', hq_headers = [], hq_body = NoBody \<rparr> e of
        (Inl err, e1) \<Rightarrow> (Reply 200 (JObject [(''available'', JBool False), (''error'', JString err)]), c, e1)
      | (Inr resp, e1) \<Rightarrow>
          (RawReply ([CHR 0x7B, CHR 0x22] @ ''available'' @ [CHR 0x22] @ '':true,'' @ [CHR 0x22] @ ''status'' @ [CHR 0x22] @ '':''
             @ take 1024 (hp_text resp) @ [CHR 0x7D]), c, e1))"

section \<open>Reads\<close>

text \<open>\<open>order\<close> is the order the map of live streams is ranged over.\<close>

definition streams_handler :: "string list \<Rightarrow> control_plane \<Rightarrow> answer" where
  "streams_handler order c = StreamList (hub_streams order (ct_hub c))"

definition stream_log_handler :: "string \<Rightarrow> control_plane \<Rightarrow> answer" where
  "stream_log_handler ident c =
     (case hub_log ident (ct_hub c) of
        None \<Rightarrow> Reply 404 (JObject [(''error'', JString ''unknown stream''), (''id'', JString ident)])
      | Some evs \<Rightarrow> StreamLog ident evs)"

definition nodes_handler :: "node_sampler option \<Rightarrow> answer" where
  "nodes_handler n = NodeData (nodes_order n) (nodes_series n) (nodes_latest n)"

section \<open>Faults\<close>

fun show_bool :: "bool \<Rightarrow> string" where
  "show_bool True = ''true''"
| "show_bool False = ''false''"

text \<open>\<open>strconv.ParseBool\<close>.\<close>

definition parse_bool :: "string \<Rightarrow> bool option" where
  "parse_bool s =
     (if s \<in> {''1'', ''t'', ''T'', ''true'', ''TRUE'', ''True''} then Some True
      else if s \<in> {''0'', ''f'', ''F'', ''false'', ''FALSE'', ''False''} then Some False else None)"

definition int_param :: "string \<Rightarrow> int \<Rightarrow> int" where
  "int_param s fallback = (case atoi s of None \<Rightarrow> fallback | Some n \<Rightarrow> n)"

definition bool_param :: "string \<Rightarrow> bool \<Rightarrow> bool" where
  "bool_param s fallback = (case parse_bool s of None \<Rightarrow> fallback | Some b \<Rightarrow> b)"

definition float_param :: "'e surroundings \<Rightarrow> string \<Rightarrow> float64 \<Rightarrow> float64" where
  "float_param x s fallback = (case dx_float x s of None \<Rightarrow> fallback | Some v \<Rightarrow> v)"

text \<open>The request an action is, with its body and the detail recorded; \<open>drain\<close> is none.\<close>

definition chaos_request :: "'e surroundings \<Rightarrow> target \<Rightarrow> string \<Rightarrow> (string \<Rightarrow> string) \<Rightarrow> (string \<times> json option \<times> string) option" where
  "chaos_request x t action q =
     (if action = ''kill'' then Some (tg_admin_url t @ ''/admin/die'', None, ''SIGKILL'')
      else if action = ''restore'' then Some (tg_admin_url t @ ''/admin/restore'', None, ''respawn'')
      else if action = ''slow'' then
        (let ms = int_param (q ''ms'') 500
         in Some (tg_worker_url t @ ''/admin/slow'', Some (JObject [(''ms'', JInt ms)]), ''+'' @ show_int ms @ ''ms''))
      else if action = ''blackhole'' then
        (let on = bool_param (q ''on'') True
         in Some (tg_worker_url t @ ''/admin/blackhole'', Some (JObject [(''on'', JBool on)]), ''on='' @ show_bool on))
      else if action = ''429'' then
        (let rate = float_param x (q ''rate'') (1 / 2)
         in Some (tg_worker_url t @ ''/admin/429'', Some (JObject [(''rate'', JReal rate)]), ''rate='' @ dx_fixed2 x rate))
      else if action = ''corrupt'' then
        (let on = bool_param (q ''on'') True
         in Some (tg_worker_url t @ ''/admin/corrupt'', Some (JObject [(''on'', JBool on)]), ''on='' @ show_bool on))
      else if action = ''reset'' then Some (tg_worker_url t @ ''/admin/reset'', None, ''clear faults'')
      else None)"

definition drain_handler :: "'e surroundings \<Rightarrow> string \<Rightarrow> (string \<Rightarrow> string) \<Rightarrow> control_plane \<Rightarrow> 'e \<Rightarrow> 'e handled" where
  "drain_handler x worker q c e =
     (let on = bool_param (q ''on'') True in
      if \<not> dx_drain x then (error_reply 501 ''drain not wired'', c, e)
      else case drain_worker worker on (ct_router c) of
        Inl err \<Rightarrow> (error_reply 502 err, c, e)
      | Inr r \<Rightarrow>
          let (c', e') = hub_chaos_at x worker ''drain'' (''on='' @ show_bool on) (c\<lparr>ct_router := r\<rparr>) e
          in (Reply 200 (JObject [(''action'', JString ''drain''), (''draining'', JBool on), (''worker'', JString worker)]), c', e'))"

definition chaos_handler :: "'e surroundings \<Rightarrow> string \<Rightarrow> string \<Rightarrow> (string \<Rightarrow> string) \<Rightarrow> control_plane \<Rightarrow> 'e \<Rightarrow> 'e handled" where
  "chaos_handler x worker action q c e =
     (case target_of c worker of
        None \<Rightarrow> (Reply 404 (JObject [(''error'', JString ''unknown worker''), (''worker'', JString worker)]), c, e)
      | Some t \<Rightarrow>
          if action = ''drain'' then drain_handler x worker q c e
          else (case chaos_request x t action q of
             None \<Rightarrow> (Reply 400 (JObject [(''action'', JString action), (''error'', JString ''unknown action'')]), c, e)
           | Some (url, body, detail) \<Rightarrow>
               (case dash_post x url body e of
                  (Inl err, e1) \<Rightarrow>
                    let (c', e2) = hub_chaos_at x worker action (detail @ '' (request error: '' @ post_error_text err @ '')'') c e1
                    in (Reply 502 (JObject [(''action'', JString action), (''error'', JString (post_error_text err)),
                          (''worker'', JString worker)]), c', e2)
                | (Inr resp, e1) \<Rightarrow>
                    let (c', e2) = hub_chaos_at x worker action detail c e1
                    in (Reply 200 (JObject [(''action'', JString action), (''detail'', JString detail),
                          (''worker'', JString worker), (''worker_response'', JString resp)]), c', e2))))"

section \<open>Adding a worker\<close>

definition decode_registration :: "json \<Rightarrow> (string \<times> string) option" where
  "decode_registration v = do {
     kvs \<leftarrow> struct_of v;
     ident \<leftarrow> decode_field json_string ''id'' '''' kvs;
     url \<leftarrow> decode_field json_string ''url'' '''' kvs;
     if ident = '''' \<or> url = '''' then None else Some (ident, url) }"

definition admit_worker :: "'e surroundings \<Rightarrow> string \<Rightarrow> string \<Rightarrow> string \<Rightarrow> control_plane \<Rightarrow> 'e \<Rightarrow> 'e handled" where
  "admit_worker x family ident url c e =
     (case register_fleet_worker (dx_worker x) (dx_clock x) (ct_router c) family ident url e of
        (Inl err, e1) \<Rightarrow> (error_reply 502 (''worker was started but gateway rejected it: '' @ dx_refusal x err), c, e1)
      | (Inr r, e1) \<Rightarrow>
          let c1 = add_target ident \<lparr> tg_worker_url = url, tg_admin_url = admin_of url \<rparr> (c\<lparr>ct_router := r\<rparr>);
              (c2, e2) = hub_chaos_at x ident ''add'' (''family='' @ family) c1 e1
          in (Reply 201 (JObject [(''family'', JString family), (''status'', JString ''routeable''),
                (''worker'', JString ident)]), c2, e2))"

definition add_worker_handler :: "'e surroundings \<Rightarrow> string \<Rightarrow> control_plane \<Rightarrow> 'e \<Rightarrow> 'e handled" where
  "add_worker_handler x raw c e =
     (if dx_fleet_url x = '''' \<or> \<not> dx_register x then (error_reply 501 ''fleet manager is not configured'', c, e)
      else let family = map lower_char (trim_space raw) in
        if family \<noteq> ''zip'' \<and> family \<noteq> ''ctc'' then (error_reply 400 ''family must be zip or ctc'', c, e)
        else case dx_bad_url x (trim_right CHR ''/'' (dx_fleet_url x) @ ''/v1/workers'') of
          Some err \<Rightarrow> (error_reply 500 err, c, e)
        | None \<Rightarrow>
        (case dx_fleet x \<lparr> hq_method = ''POST'', hq_url = trim_right CHR ''/'' (dx_fleet_url x) @ ''/v1/workers'',
                 hq_headers = [(''Content-Type'', ''application/json'')],
                 hq_body = JsonBody (JObject [(''family'', JString family)]) \<rparr> e of
          (Inl err, e1) \<Rightarrow> (error_reply 502 (''fleet manager: '' @ err), c, e1)
        | (Inr resp, e1) \<Rightarrow>
            if hp_status resp < 200 \<or> hp_status resp \<ge> 300
            then (error_reply 502 (''fleet manager: '' @ trim_space (take 8192 (hp_text resp))), c, e1)
            else (case Option.bind (hp_json resp) decode_registration of
                None \<Rightarrow> (error_reply 502 ''fleet manager returned an invalid worker registration'', c, e1)
              | Some (ident, url) \<Rightarrow> admit_worker x family ident url c e1)))"

section \<open>The shared tiers (kv.go)\<close>

record kv_pool_view =
  kw_pool :: kv_pool
  kw_layout :: "json option"
  kw_tier :: "json option"
  kw_keys :: "json option"
  kw_tier_name :: string
  kw_error :: string

definition tier_name :: "'e surroundings \<Rightarrow> string \<Rightarrow> string" where
  "tier_name x u = (if u = '''' then '''' else case dx_hostname x u of None \<Rightarrow> u | Some host \<Rightarrow> host)"

text \<open>The layout of the first member of a cohort that answers.\<close>

fun first_layout :: "'e surroundings \<Rightarrow> control_plane \<Rightarrow> string list \<Rightarrow> 'e \<Rightarrow> json option \<times> 'e" where
  "first_layout x c [] e = (None, e)"
| "first_layout x c (ident # ids) e =
     (case ct_targets c ident of
        None \<Rightarrow> first_layout x c ids e
      | Some t \<Rightarrow>
          if tg_worker_url t = '''' then first_layout x c ids e
          else (case get_json x (tg_worker_url t @ ''/v1/kv/layout'') e of
             (Inr v, e1) \<Rightarrow> (Some v, e1)
           | (Inl err, e1) \<Rightarrow> first_layout x c ids e1))"

definition view_pool :: "'e surroundings \<Rightarrow> control_plane \<Rightarrow> string \<Rightarrow> kv_pool \<Rightarrow> 'e \<Rightarrow> kv_pool_view \<times> 'e" where
  "view_pool x c session p e =
     (let (layout, e1) = first_layout x c (kp_workers p) e;
          v = \<lparr> kw_pool = p, kw_layout = layout, kw_tier = None, kw_keys = None, kw_tier_name = tier_name x (kp_tier_url p),
                kw_error = '''' \<rparr>
      in if kp_tier_url p = '''' then (v, e1)
         else let (stats, e2) = get_json x (kp_tier_url p @ ''/stats'') e1;
                  v1 = (case stats of Inl err \<Rightarrow> v\<lparr>kw_error := err\<rparr> | Inr j \<Rightarrow> v\<lparr>kw_tier := Some j\<rparr>)
              in if session = '''' then (v1, e2)
                 else (case get_json x (kp_tier_url p @ ''/keys?limit=40&prefix='' @ dx_escape x (''kv:'' @ session @ '':'')) e2 of
                    (Inl err, e3) \<Rightarrow> (v1, e3)
                  | (Inr j, e3) \<Rightarrow> (v1\<lparr>kw_keys := Some j\<rparr>, e3)))"

text \<open>
  Each pool is viewed by a goroutine of its own and fills its own place; \<open>sched\<close> is the order
  they run in. \<open>None\<close>: no pools are wired.
\<close>

fun view_pools :: "'e surroundings \<Rightarrow> control_plane \<Rightarrow> string \<Rightarrow> kv_pool list \<Rightarrow> nat list \<Rightarrow> kv_pool_view option list \<Rightarrow> 'e \<Rightarrow>
    kv_pool_view option list \<times> 'e" where
  "view_pools x c session pools [] out e = (out, e)"
| "view_pools x c session pools (i # sched) out e =
     (let (v, e1) = view_pool x c session (pools ! i) e in view_pools x c session pools sched (out[i := Some v]) e1)"

definition kv_handler :: "'e surroundings \<Rightarrow> string \<Rightarrow> nat list \<Rightarrow> control_plane \<Rightarrow> 'e \<Rightarrow> kv_pool_view option list option \<times> 'e" where
  "kv_handler x session sched c e =
     (if \<not> dx_pools x then (None, e)
      else let pools = kv_pools (ct_router c);
               (views, e') = view_pools x c session pools sched (replicate (length pools) None) e
           in (Some views, e'))"

section \<open>What the handlers change\<close>

lemma hub_chaos_at_frame:
  "hub_chaos_at x worker action detail c e = (c', e') \<Longrightarrow>
     ct_router c' = ct_router c \<and> ct_targets c' = ct_targets c
     \<and> (\<exists>now. ct_hub c' = hub_chaos now worker action detail (ct_hub c))"
  by (auto simp: hub_chaos_at_def split: prod.splits)

text \<open>A 201 is a registration; everything else leaves the gateway as it was.\<close>

lemma admit_worker_cases:
  assumes "admit_worker x family ident url c e = (ans, c', e')"
  obtains (Added) r e1 where "code_of ans = 201"
      "register_fleet_worker (dx_worker x) (dx_clock x) (ct_router c) family ident url e = (Inr r, e1)"
      "ct_router c' = r" "ct_targets c' = (ct_targets c)(ident \<mapsto> \<lparr> tg_worker_url = url, tg_admin_url = admin_of url \<rparr>)"
  | (Refused) "code_of ans = 502" "c' = c"
  using assms
  by (auto simp: admit_worker_def error_reply_def add_target_def Let_def split: prod.splits sum.splits
      dest!: hub_chaos_at_frame)

lemma add_worker_cases:
  assumes "add_worker_handler x raw c e = (ans, c', e')"
  obtains (Added) family ident url r e1 e2 where "code_of ans = 201"
      "register_fleet_worker (dx_worker x) (dx_clock x) (ct_router c) family ident url e1 = (Inr r, e2)"
      "family \<in> {''zip'', ''ctc''}" "family = map lower_char (trim_space raw)"
      "ct_router c' = r" "ct_targets c' = (ct_targets c)(ident \<mapsto> \<lparr> tg_worker_url = url, tg_admin_url = admin_of url \<rparr>)"
  | (Refused) "code_of ans \<in> {400, 500, 501, 502}" "c' = c"
proof -
  let ?family = "map lower_char (trim_space raw)"
  have refused: "thesis" if "ans = error_reply code msg" "c' = c" "code \<in> {400, 500, 501, 502}" for code msg
    using that Refused by (simp add: error_reply_def)
  show ?thesis
  proof (cases "dx_fleet_url x = '''' \<or> \<not> dx_register x \<or> (?family \<noteq> ''zip'' \<and> ?family \<noteq> ''ctc'')
      \<or> dx_bad_url x (trim_right CHR ''/'' (dx_fleet_url x) @ ''/v1/workers'') \<noteq> None")
    case True
    with assms refused show ?thesis by (auto simp: add_worker_handler_def Let_def split: if_splits option.splits)
  next
    case False
    let ?q = "\<lparr> hq_method = ''POST'', hq_url = trim_right CHR ''/'' (dx_fleet_url x) @ ''/v1/workers'',
       hq_headers = [(''Content-Type'', ''application/json'')], hq_body = JsonBody (JObject [(''family'', JString ?family)]) \<rparr>"
    obtain res e1 where call: "dx_fleet x ?q e = (res, e1)" by fastforce
    have at: "add_worker_handler x raw c e = (case res of
          Inl err \<Rightarrow> (error_reply 502 (''fleet manager: '' @ err), c, e1)
        | Inr resp \<Rightarrow>
            if hp_status resp < 200 \<or> hp_status resp \<ge> 300
            then (error_reply 502 (''fleet manager: '' @ trim_space (take 8192 (hp_text resp))), c, e1)
            else (case Option.bind (hp_json resp) decode_registration of
                None \<Rightarrow> (error_reply 502 ''fleet manager returned an invalid worker registration'', c, e1)
              | Some (ident, url) \<Rightarrow> admit_worker x ?family ident url c e1))"
      using False call by (auto simp: add_worker_handler_def Let_def split: sum.split)
    consider (Out) "\<exists>msg. ans = error_reply 502 msg \<and> c' = c"
      | (In) ident url where "admit_worker x ?family ident url c e1 = (ans, c', e')"
      using assms unfolding at by (auto split: sum.splits if_splits option.splits)
    then show ?thesis
    proof cases
      case Out
      with refused show ?thesis by blast
    next
      case In
      then show ?thesis
      proof (cases rule: admit_worker_cases)
        case (Added r e2)
        show ?thesis by (rule that(1) [OF Added(1,2) _ refl Added(3,4)]) (use False in auto)
      next
        case Refused
        with that(2) show ?thesis by simp
      qed
    qed
  qed
qed

lemma chaos_handler_frame:
  assumes "chaos_handler x worker action q c e = (ans, c', e')"
  shows "ct_targets c' = ct_targets c
    \<and> (if action = ''drain'' \<and> code_of ans = 200
       then drain_worker worker (bool_param (q ''on'') True) (ct_router c) = Inr (ct_router c')
       else ct_router c' = ct_router c)
    \<and> (code_of ans \<in> {400, 404, 501} \<longrightarrow> c' = c)
    \<and> (ct_hub c' = ct_hub c \<or> (\<exists>now detail. ct_hub c' = hub_chaos now worker action detail (ct_hub c)))"
proof (cases "target_of c worker")
  case None
  with assms show ?thesis by (auto simp: chaos_handler_def)
next
  case (Some t)
  show ?thesis
  proof (cases "action = ''drain''")
    case True
    then have "drain_handler x worker q c e = (ans, c', e')" using assms Some by (simp add: chaos_handler_def)
    with True show ?thesis
      by (auto simp: drain_handler_def error_reply_def Let_def split: if_splits sum.splits prod.splits
          dest!: hub_chaos_at_frame) blast
  next
    case False
    show ?thesis
    proof (cases "chaos_request x t action q")
      case None
      with False Some assms show ?thesis by (auto simp: chaos_handler_def)
    next
      case req: (Some p)
      obtain url body detail where p: "p = (url, body, detail)" by (metis prod_cases3)
      obtain res e1 where post: "dash_post x url body e = (res, e1)" by fastforce
      show ?thesis
      proof (cases res)
        case (Inl err)
        with False Some assms req p post show ?thesis
          by (auto simp: chaos_handler_def Let_def split: prod.splits dest!: hub_chaos_at_frame)
      next
        case (Inr resp)
        with False Some assms req p post show ?thesis
          by (auto simp: chaos_handler_def Let_def split: prod.splits dest!: hub_chaos_at_frame)
      qed
    qed
  qed
qed

lemma drained:
  assumes "drain_worker ident on r = Inr r'" "router_inv r"
  shows "router_inv r' \<and> map w_id r' = map w_id r
    \<and> (\<forall>j < length r. r' ! j = (if w_id (r ! j) = ident then set_draining on (r ! j) else r ! j))"
proof -
  have r': "r' = update_worker ident (set_draining on) r" using assms(1) by (auto simp: drain_worker_def split: option.splits)
  have "worker_inv (set_draining on w)" if "worker_inv w" for w
    using that by (simp add: set_draining_def worker_inv_def)
  moreover have "distinct (map w_id r)" using assms(2) by (simp add: router_inv_def)
  ultimately show ?thesis using assms(2)
    by (auto simp: r' update_worker_ids update_worker_nth intro: router_inv_update)
qed

section \<open>What the fleet manager creates\<close>

lemma decode_response: "ident \<noteq> '''' \<Longrightarrow> url \<noteq> '''' \<Longrightarrow>
    decode_registration (worker_response ident url family key) = Some (ident, url)"
  by (simp add: decode_registration_def worker_response_def struct_of_def decode_field_def decode_into_def members_def
      fold_eq_def lower_char_def)

lemma replace_first_skip:
  "\<forall>i < length xs. \<not> prefix old (drop i xs @ ys) \<Longrightarrow> replace_first old new (xs @ ys) = xs @ replace_first old new ys"
proof (induction xs)
  case (Cons x xs)
  from Cons.prems have "\<not> prefix old (x # xs @ ys)" by (metis append_Cons drop0 length_greater_0_conv list.distinct(1))
  moreover have "\<forall>i < length xs. \<not> prefix old (drop i xs @ ys)"
    using Cons.prems by (metis Suc_less_eq drop_Suc_Cons length_Cons)
  ultimately show ?case using Cons.IH by simp
qed simp

lemma created_answer:
  assumes "create_worker dk ht clock pause body m e = Some (Created ident url family key, m', e')"
  shows "ident = dynamic_id family (mg_sequence m') \<and> url = ''http://'' @ ident @ '':9000''
    \<and> families family \<noteq> None"
  using assms
  by (auto simp: create_worker_def admit_container_def Let_def split: option.splits prod.splits sum.splits)

text \<open>The address of a created worker: no part of it before the port looks like a port.\<close>

lemma not_port:
  assumes "CHR '':'' \<notin> set ident" "i < length (''http://'' @ ident)"
  shows "\<not> prefix '':9000'' (drop i (''http://'' @ ident) @ '':9000'')"
proof
  assume p: "prefix '':9000'' (drop i (''http://'' @ ident) @ '':9000'')"
  have "drop i (''http://'' @ ident) = (''http://'' @ ident) ! i # drop (Suc i) (''http://'' @ ident)"
    using assms(2) by (rule Cons_nth_drop_Suc [symmetric])
  with p have colon: "(''http://'' @ ident) ! i = CHR '':''"
    and nine: "prefix ''9000'' (drop (Suc i) (''http://'' @ ident) @ '':9000'')" by auto
  have i: "i = 4"
  proof (rule ccontr)
    assume "i \<noteq> 4"
    then have "i \<in> {0, 1, 2, 3, 5, 6} \<or> 7 \<le> i" by auto
    then have "(''http://'' @ ident) ! i \<in> set ident \<or> (''http://'' @ ident) ! i \<noteq> CHR '':''"
      using assms(2) by (elim disjE) (auto simp: nth_append)
    with assms(1) colon show False by auto
  qed
  with nine show False by simp
qed

lemma admin_of_created:
  assumes "CHR '':'' \<notin> set ident"
  shows "admin_of (''http://'' @ ident @ '':9000'') = ''http://'' @ ident @ '':9001''"
  unfolding admin_of_def
  using replace_first_skip [of "''http://'' @ ident" "'':9000''" "'':9000''" "'':9001''"] not_port [OF assms]
  by simp

lemma dynamic_id_plain:
  assumes "families family \<noteq> None"
  shows "CHR '':'' \<notin> set (dynamic_id family n)" "prefix (family_prefix family) (dynamic_id family n)"
    "dynamic_id family n \<noteq> ''''"
proof -
  have "family = ''zip'' \<or> family = ''ctc''" using assms by (auto simp: families_def split: if_splits)
  moreover have "CHR '':'' \<notin> set (decimal k)" for k
    using digits_decimal [of k] by (auto simp: list_all_iff is_digit_def)
  ultimately show "CHR '':'' \<notin> set (dynamic_id family n)" by (auto simp: dynamic_id_def)
  show "prefix (family_prefix family) (dynamic_id family n)" "dynamic_id family n \<noteq> ''''"
    by (simp_all add: dynamic_id_def family_prefix_def)
qed

section \<open>A small dashboard\<close>

definition demo_manager_answer :: "nat transport" where
  "demo_manager_answer q e = (Inr \<lparr> hp_status = 201, hp_retry_after = '''',
     hp_json = Some (worker_response ''worker-zip-dyn-1'' ''http://a'' ''zip'' ''k''), hp_text = '''' \<rparr>, e)"

definition demo_around :: "nat surroundings" where
  "demo_around = \<lparr> dx_http = demo_http, dx_fleet = demo_manager_answer, dx_worker = demo_http, dx_clock = demo_clock,
     dx_loadgen_url = '''', dx_fleet_url = ''http://f/'', dx_drain = True, dx_register = True, dx_pools = True,
     dx_escape = (\<lambda>s. s), dx_float = (\<lambda>_. None), dx_fixed2 = (\<lambda>_. ''0.50''), dx_hostname = (\<lambda>_. None),
     dx_refusal = (\<lambda>_. ''no''), dx_bad_json = ''bad'', dx_bad_url = (\<lambda>_. None) \<rparr>"

definition demo_plane :: control_plane where
  "demo_plane = \<lparr> ct_hub = new_hub, ct_router = demo_cohort,
     ct_targets = [''worker-zip-1'' \<mapsto> \<lparr> tg_worker_url = ''http://a'', tg_admin_url = ''http://a'' \<rparr>] \<rparr>"

lemma demo_fleet_ok: "cohorts_agree (ct_router demo_plane)" "router_inv (ct_router demo_plane)"
  by (simp_all add: cohorts_agree_def demo_plane_def demo_cohort_def router_inv_def new_worker_def worker_inv_def router_consts)

text \<open>A Bifrost that takes everything.\<close>

definition kind_bifrost :: "unit transport" where
  "kind_bifrost q e = (Inr \<lparr> hp_status = 200, hp_retry_after = '''',
     hp_json = Some (JObject [(''compatibility_key_hash'', JString ''k'')]), hp_text = '''' \<rparr>, e)"

section \<open>Properties\<close>

text \<open>
  C33: adding a worker is all or nothing. An add-worker request is answered 201 exactly when the
  returned worker has been checked and registered: then the router has it once more, in a cohort
  with its key and its tier, with a target for faults, and stays well formed; on every other
  answer the router, the targets and the event hub are as they were.
\<close>

theorem adding_a_worker_is_atomic:
  assumes "add_worker_handler x raw c e = (ans, c', e')" "router_inv (ct_router c)" "cohorts_agree (ct_router c)"
  shows "(code_of ans \<noteq> 201 \<longrightarrow> c' = c \<and> code_of ans \<in> {400, 500, 501, 502})
    \<and> router_inv (ct_router c') \<and> cohorts_agree (ct_router c')
    \<and> (code_of ans = 201 \<longrightarrow> (\<exists>w cohort url. ct_router c' = ct_router c @ [w] \<and> w_id w \<notin> w_id ` set (ct_router c)
         \<and> cohort \<in> set (ct_router c) \<and> w_compatibility_key w = w_compatibility_key cohort
         \<and> w_kv_tier_url w = w_kv_tier_url cohort
         \<and> ct_targets c' = (ct_targets c)(w_id w \<mapsto> \<lparr> tg_worker_url = url, tg_admin_url = admin_of url \<rparr>)))"
  using assms(1)
proof (cases rule: add_worker_cases)
  case (Added family ident url r e1 e2)
  from Added(2) show ?thesis
  proof (rule registered)
    fix cohort advert t now
    let ?w = "worker_of now ident advert"
    assume c: "cohort \<in> set (ct_router c)" and key: "wa_compatibility_key_hash advert = w_compatibility_key cohort"
      and t: "wa_kv_tier advert = Some t" "ka_enabled t" "ka_url t = w_kv_tier_url cohort"
      and fresh: "ident \<notin> w_id ` set (ct_router c)" and r: "r = ct_router c @ [?w]"
    have tier: "w_kv_tier_url ?w = w_kv_tier_url cohort" using t by (simp add: tier_of_def)
    have "router_inv r" using assms(2) fresh by (auto simp: r router_inv_def)
    moreover have "cohorts_agree r" unfolding r
      by (rule cohorts_agree_add [OF assms(3) c]) (simp_all add: key tier del: worker_of_simps(4))
    ultimately show ?thesis using Added c key tier fresh r
      by (intro conjI impI exI [of _ ?w] exI [of _ cohort] exI [of _ url]) simp_all
  qed
next
  case Refused
  with assms(2,3) show ?thesis by auto
qed

theorem adding_a_worker_is_atomic_witness:
  "\<exists>ans c' e'. add_worker_handler demo_around '' ZIP'' demo_plane 0 = (ans, c', e') \<and> code_of ans = 201
     \<and> length (ct_router c') = 2 \<and> cohorts_agree (ct_router c')"
proof -
  obtain a t where health: "\<And>e. http_health demo_http (new_http_client ''http://a'') e = (Inr a, e + 1)"
    and a: "wa_compatibility_key_hash a = ''k''" "ca_serializable (wa_capabilities a)" "wa_kv_tier a = Some t"
      "ka_enabled t" "ka_url t = ''http://t''" by (rule demo_health) blast
  have reg: "register_fleet_worker demo_http demo_clock demo_cohort ''zip'' ''worker-zip-dyn-1'' ''http://a'' 0
      = (Inr (demo_cohort @ [worker_of 1 ''worker-zip-dyn-1'' a]), 1)"
    using health a by (simp add: register_fleet_worker_def demo_cohort_def family_prefix_def router_add_def
        new_worker_def demo_clock_def worker_of_def tier_of_def)
  have family: "map lower_char (trim_space '' ZIP'') = ''zip''"
    by code_simp
  obtain ans c' e' where run: "add_worker_handler demo_around '' ZIP'' demo_plane 0 = (ans, c', e')" by (metis prod_cases3)
  have "code_of ans = 201"
    using run reg by (simp add: add_worker_handler_def demo_around_def demo_manager_answer_def decode_response family
        admit_worker_def demo_plane_def Let_def split: prod.splits)
      (auto)
  with adding_a_worker_is_atomic [OF run demo_fleet_ok(2,1)] run
  have "cohorts_agree (ct_router c')" "\<exists>w. ct_router c' = ct_router demo_plane @ [w]" by blast+
  then have "length (ct_router c') = 2" by (auto simp: demo_plane_def demo_cohort_def)
  with run \<open>code_of ans = 201\<close> \<open>cohorts_agree (ct_router c')\<close> show ?thesis by blast
qed

text \<open>
  The chaos endpoint only drains. It never changes a target, and the router only by a drain
  that was answered 200: then exactly the worker named is draining as asked, and not eligible
  if it is, while all else about the fleet is as it was. An unknown worker or action changes
  nothing, and no request records more than one event.
\<close>

theorem chaos_only_drains:
  assumes "chaos_handler x worker action q c e = (ans, c', e')" "router_inv (ct_router c)"
  shows "ct_targets c' = ct_targets c \<and> (code_of ans \<in> {400, 404, 501} \<longrightarrow> c' = c)
    \<and> (ct_hub c' = ct_hub c \<or> (\<exists>now detail. ct_hub c' = hub_chaos now worker action detail (ct_hub c)))
    \<and> (action = ''drain'' \<and> code_of ans = 200 \<longrightarrow> router_inv (ct_router c') \<and> map w_id (ct_router c') = map w_id (ct_router c)
         \<and> (\<forall>j < length (ct_router c). let w = ct_router c ! j; w' = ct_router c' ! j in
              if w_id w = worker then w' = w\<lparr>w_draining := bool_param (q ''on'') True\<rparr> \<and> (w_draining w' \<longrightarrow> \<not> eligible w' t)
              else w' = w))
    \<and> (action \<noteq> ''drain'' \<or> code_of ans \<noteq> 200 \<longrightarrow> ct_router c' = ct_router c)"
  using chaos_handler_frame [OF assms(1)] drained [OF _ assms(2)]
  by (auto simp: Let_def set_draining_def eligible_def split: if_splits)

theorem chaos_only_drains_witness:
  "\<exists>ans c' e'. chaos_handler demo_around ''worker-zip-1'' ''drain'' (\<lambda>_. '''') demo_plane 0 = (ans, c', e')
     \<and> code_of ans = 200 \<and> map w_draining (ct_router c') = [True]"
proof -
  obtain ans c' e' where run: "chaos_handler demo_around ''worker-zip-1'' ''drain'' (\<lambda>_. '''') demo_plane 0 = (ans, c', e')"
    by (metis prod_cases3)
  then have ok: "code_of ans = 200"
    by (auto simp: chaos_handler_def target_of_def demo_plane_def drain_handler_def demo_around_def drain_worker_def
        demo_cohort_def router_find_def new_worker_def Let_def split: prod.splits)
  from chaos_only_drains [OF run demo_fleet_ok(2), of 0] ok
  have "map w_id (ct_router c') = map w_id (ct_router demo_plane)"
    "ct_router c' ! 0 = (ct_router demo_plane ! 0)\<lparr>w_draining := True\<rparr>"
    by (auto simp: demo_plane_def demo_cohort_def new_worker_def bool_param_def parse_bool_def Let_def)
  then have "map w_draining (ct_router c') = [True]" by (cases "ct_router c'") (auto simp: demo_plane_def demo_cohort_def)
  with run ok show ?thesis by (intro exI conjI) assumption+
qed

text \<open>
  The fleet manager and the gateway agree on what was created. Every worker the manager
  reports as created is decoded by the gateway to the manager's id and address, is of the family
  the gateway asked for, so that it is never refused for its identity, and its supervisor is
  addressed on the same host at the administration port.
\<close>

theorem created_worker_is_recognised:
  assumes "create_worker dk ht clock pause body m e = Some (Created ident url family key, m', e')"
  shows "decode_registration (worker_response ident url family key) = Some (ident, url)
    \<and> family \<in> {''zip'', ''ctc''} \<and> admin_of url = ''http://'' @ ident @ '':9001''
    \<and> fst (register_fleet_worker tr clk r family ident url e1) \<noteq> Inl (WrongIdentity ident)"
proof -
  note created = created_answer [OF assms]
  then have family: "families family \<noteq> None" and ident: "ident = dynamic_id family (mg_sequence m')"
    and url: "url = ''http://'' @ ident @ '':9000''" by blast+
  note plain = dynamic_id_plain [OF family, of "mg_sequence m'", folded ident]
  have "decode_registration (worker_response ident url family key) = Some (ident, url)"
    by (rule decode_response) (simp_all add: plain(3) url)
  moreover have "family \<in> {''zip'', ''ctc''}" using family by (auto simp: families_def split: if_splits)
  moreover have "admin_of url = ''http://'' @ ident @ '':9001''" unfolding url by (rule admin_of_created [OF plain(1)])
  moreover have "fst (register_fleet_worker tr clk r family ident url e1) \<noteq> Inl (WrongIdentity ident)"
    using plain(2) by (auto simp: register_fleet_worker_def Let_def split: option.split prod.split sum.split)
  ultimately show ?thesis by blast
qed

theorem created_worker_is_recognised_witness:
  "\<exists>m'. create_worker demo_docker kind_bifrost (\<lambda>e. (0, e)) (\<lambda>e. (True, e)) (Some (JObject [(''family'', JString ''ZIP'')]))
       demo_manager () = Some (Created ''worker-zip-dyn-1'' ''http://worker-zip-dyn-1:9000'' ''zip'' ''k'', m', ())
     \<and> admin_of ''http://worker-zip-dyn-1:9000'' = ''http://worker-zip-dyn-1:9001''"
proof -
  let ?run = "create_worker demo_docker kind_bifrost (\<lambda>e. (0, e)) (\<lambda>e. (True, e)) (Some (JObject [(''family'', JString ''ZIP'')]))
       demo_manager ()"
  have "map_option fst ?run = Some (Created ''worker-zip-dyn-1'' ''http://worker-zip-dyn-1:9000'' ''zip'' ''k'')" by code_simp
  then obtain m' where run: "?run = Some (Created ''worker-zip-dyn-1'' ''http://worker-zip-dyn-1:9000'' ''zip'' ''k'', m', ())"
    by auto
  have "admin_of ''http://worker-zip-dyn-1:9000'' = ''http://'' @ ''worker-zip-dyn-1'' @ '':9001''"
    using created_worker_is_recognised [OF run, of demo_http demo_clock demo_cohort 0] by blast
  with run show ?thesis by simp
qed

end
