(* ===== verification/Scrape.thy ===== *)
theory Scrape
  imports Nodes "HOL-Library.AList"
begin

text \<open>
  \<^verbatim>\<open>internal/dash/bifrost.go\<close>: the scraper of Bifrost's Prometheus text. The two regular
  expressions are written out as the deterministic matches they are; \<open>strconv.ParseFloat\<close> is a
  parameter. A nil scraper is \<open>None\<close>, a map from which a missing key reads as zero a function.
\<close>

section \<open>Lines of the exposition format\<close>

definition is_word :: "char \<Rightarrow> bool" where
  "is_word c \<longleftrightarrow> (let n = of_char c :: nat in
     48 \<le> n \<and> n \<le> 57 \<or> 65 \<le> n \<and> n \<le> 90 \<or> n = 95 \<or> 97 \<le> n \<and> n \<le> 122)"

definition is_blank :: "char \<Rightarrow> bool" where
  "is_blank c \<longleftrightarrow> (let n = of_char c :: nat in n = 9 \<or> n = 10 \<or> n = 12 \<or> n = 13 \<or> n = 32)"

definition quote_char :: char where "quote_char = CHR 0x22"

text \<open>\<open>^(\w+)\{([^}]*)\}\s+(.+)$\<close>: name, labels and the trimmed value.\<close>

definition match_metric :: "string \<Rightarrow> (string \<times> string \<times> string) option" where
  "match_metric line =
     (let name = takeWhile is_word line in
      case dropWhile is_word line of
        [] \<Rightarrow> None
      | b # rest \<Rightarrow>
          if name = '''' \<or> b \<noteq> CHR 0x7B then None
          else (case dropWhile (\<lambda>c. c \<noteq> CHR 0x7D) rest of
              [] \<Rightarrow> None
            | _ # val \<Rightarrow>
                if length val < 2 \<or> \<not> is_blank (hd val) then None
                else Some (name, takeWhile (\<lambda>c. c \<noteq> CHR 0x7D) rest, trim_space val)))"

text \<open>All matches of \<open>(\w+)="([^"]*)"\<close>, from the left.\<close>

function find_labels :: "string \<Rightarrow> (string \<times> string) list" where
  "find_labels s =
     (case s of
        [] \<Rightarrow> []
      | c # cs \<Rightarrow>
          if \<not> is_word c then find_labels cs
          else let key = takeWhile is_word s; rest = dropWhile is_word cs in
            if prefix [CHR ''='', quote_char] rest \<and> quote_char \<in> set (drop 2 rest)
            then (key, takeWhile (\<lambda>c. c \<noteq> quote_char) (drop 2 rest))
                 # find_labels (tl (dropWhile (\<lambda>c. c \<noteq> quote_char) (drop 2 rest)))
            else find_labels rest)"
  by pat_completeness auto
termination
proof (relation "measure length", simp_all)
  fix c :: char and cs :: string
  have le: "length (dropWhile P xs) \<le> length xs" for P and xs :: string by (rule length_dropWhile_le)
  show "length (dropWhile is_word cs) < Suc (length cs)" using le [of is_word cs] by simp
  show "length (dropWhile (\<lambda>c. c \<noteq> quote_char) (drop 2 (dropWhile is_word cs))) - Suc 0 < Suc (length cs)"
    using le [of "\<lambda>c. c \<noteq> quote_char" "drop 2 (dropWhile is_word cs)"] le [of is_word cs] by simp
qed

declare find_labels.simps [simp del]

text \<open>The map the loop fills: the last of equal keys wins, an absent one is empty.\<close>

definition label :: "(string \<times> string) list \<Rightarrow> string \<Rightarrow> string" where
  "label ls key = (case map_of (rev ls) key of None \<Rightarrow> '''' | Some v \<Rightarrow> v)"

section \<open>One scrape\<close>

record provider_acc =
  pa_success :: int
  pa_errors :: int
  pa_lat_sum :: float64
  pa_lat_count :: float64
  pa_up :: bool
  pa_has_up :: bool

definition no_acc :: provider_acc where
  "no_acc = \<lparr> pa_success = 0, pa_errors = 0, pa_lat_sum = 0, pa_lat_count = 0, pa_up = False, pa_has_up = False \<rparr>"

record bifrost_provider =
  bp_name :: string
  bp_success :: int
  bp_errors :: int
  bp_mean_ms :: float64
  bp_up :: bool
  bp_has_up_info :: bool

record bifrost_stats =
  bs_available :: bool
  bs_error :: string
  bs_at_ms :: int
  bs_by_fallback :: "string \<Rightarrow> int"
  bs_errors_by :: "string \<Rightarrow> int"
  bs_providers :: "bifrost_provider list"
  bs_saved :: int
  bs_total_success :: int
  bs_total_error :: int
  bs_active :: int

definition no_stats :: bifrost_stats where
  "no_stats = \<lparr> bs_available = False, bs_error = '''', bs_at_ms = 0, bs_by_fallback = (\<lambda>_. 0), bs_errors_by = (\<lambda>_. 0),
     bs_providers = [], bs_saved = 0, bs_total_success = 0, bs_total_error = 0, bs_active = 0 \<rparr>"

record bifrost_scraper =
  sc_url :: string
  sc_last :: bifrost_stats

definition new_scraper :: "string \<Rightarrow> bifrost_scraper option" where
  "new_scraper base =
     (if base = '''' then None
      else Some \<lparr> sc_url = (if suffix ''/'' base then butlast base else base) @ ''/metrics'', sc_last = no_stats \<rparr>)"

definition scraper_stats :: "bifrost_scraper option \<Rightarrow> bifrost_stats" where
  "scraper_stats b = (case b of None \<Rightarrow> no_stats | Some b \<Rightarrow> sc_last b)"

text \<open>The providers met so far, and an update of one (which makes it known).\<close>

type_synonym providers = "(string \<times> provider_acc) list"

definition on_provider :: "string \<Rightarrow> (provider_acc \<Rightarrow> provider_acc) \<Rightarrow> providers \<Rightarrow> providers" where
  "on_provider p f accs =
     (if p = '''' then accs else AList.update p (f (case map_of accs p of None \<Rightarrow> no_acc | Some a \<Rightarrow> a)) accs)"

definition bump :: "string \<Rightarrow> int \<Rightarrow> (string \<Rightarrow> int) \<Rightarrow> string \<Rightarrow> int" where
  "bump idx n m = (if idx = '''' then m else m(idx := m idx + n))"

definition count_metric :: "string \<Rightarrow> string \<Rightarrow> string \<Rightarrow> float64 \<Rightarrow> bifrost_stats \<times> providers \<Rightarrow> bifrost_stats \<times> providers" where
  "count_metric name provider idx val st =
     (let (s, accs) = st; n = trunc64 val in
      if name = ''bifrost_success_requests_total'' then
        (s\<lparr> bs_total_success := bs_total_success s + n, bs_by_fallback := bump idx n (bs_by_fallback s),
            bs_saved := (if idx \<noteq> '''' \<and> idx \<noteq> ''0'' then bs_saved s + n else bs_saved s) \<rparr>,
         on_provider provider (\<lambda>a. a\<lparr>pa_success := pa_success a + n\<rparr>) accs)
      else if name = ''bifrost_error_requests_total'' then
        (s\<lparr> bs_total_error := bs_total_error s + n, bs_errors_by := bump idx n (bs_errors_by s) \<rparr>,
         on_provider provider (\<lambda>a. a\<lparr>pa_errors := pa_errors a + n\<rparr>) accs)
      else if name = ''bifrost_upstream_latency_seconds_sum'' then
        (s, on_provider provider (\<lambda>a. a\<lparr>pa_lat_sum := pa_lat_sum a + val\<rparr>) accs)
      else if name = ''bifrost_upstream_latency_seconds_count'' then
        (s, on_provider provider (\<lambda>a. a\<lparr>pa_lat_count := pa_lat_count a + val\<rparr>) accs)
      else if name = ''bifrost_provider_key_up'' then
        (s, on_provider provider (\<lambda>a. a\<lparr> pa_up := val > 0, pa_has_up := True \<rparr>) accs)
      else if name = ''bifrost_active_requests'' then (s\<lparr>bs_active := bs_active s + n\<rparr>, accs)
      else (s, accs))"

definition read_line :: "(string \<Rightarrow> float64 option) \<Rightarrow> bifrost_stats \<times> providers \<Rightarrow> string \<Rightarrow> bifrost_stats \<times> providers" where
  "read_line float st line =
     (if line = '''' \<or> hd line = CHR 0x23 then st
      else case match_metric line of
        None \<Rightarrow> st
      | Some (name, rawLabels, rawVal) \<Rightarrow>
          (case float rawVal of
             None \<Rightarrow> st
           | Some val \<Rightarrow>
               let ls = find_labels rawLabels
               in count_metric name (label ls ''provider'') (label ls ''fallback_index'') val st))"

definition provider_of :: "string \<Rightarrow> provider_acc \<Rightarrow> bifrost_provider" where
  "provider_of name a =
     \<lparr> bp_name = name, bp_success = pa_success a, bp_errors = pa_errors a,
       bp_mean_ms = (if pa_lat_count a > 0 then pa_lat_sum a / pa_lat_count a * 1000 else 0),
       bp_up = pa_up a, bp_has_up_info = pa_has_up a \<rparr>"

definition list_providers :: "providers \<Rightarrow> bifrost_provider list" where
  "list_providers accs = map (\<lambda>(name, a). provider_of name a) (sort_key fst accs)"

definition read_metrics :: "(string \<Rightarrow> float64 option) \<Rightarrow> time \<Rightarrow> string \<Rightarrow> bifrost_stats" where
  "read_metrics float now body =
     (let (s, accs) = foldl (read_line float) (no_stats\<lparr> bs_at_ms := now_ms now, bs_available := True \<rparr>, [])
            (split_on CHR 0x0A body)
      in s\<lparr>bs_providers := list_providers accs\<rparr>)"

text \<open>The clock is read before the request, and again where it failed.\<close>

definition scrape :: "'e transport \<Rightarrow> ('e \<Rightarrow> time \<times> 'e) \<Rightarrow> (string \<Rightarrow> float64 option) \<Rightarrow> bifrost_scraper \<Rightarrow> 'e \<Rightarrow>
    bifrost_scraper \<times> 'e" where
  "scrape tr clock float b e =
     (let (now, e1) = clock e in
      case tr \<lparr> hq_method = ''GET'', hq_url = sc_url b, hq_headers = [], hq_body = NoBody \<rparr> e1 of
        (Inl err, e2) \<Rightarrow>
          let (later, e3) = clock e2
          in (b\<lparr>sc_last := no_stats\<lparr> bs_at_ms := now_ms later, bs_error := err \<rparr>\<rparr>, e3)
      | (Inr resp, e2) \<Rightarrow> (b\<lparr>sc_last := read_metrics float now (take (4 * 1024 * 1024) (hp_text resp))\<rparr>, e2))"

section \<open>What is exposed is what is read\<close>

text \<open>A sample as Bifrost prints it: name, labels, value.\<close>

type_synonym exposed = "string \<times> (string \<times> string) list \<times> string"

definition print_label :: "string \<times> string \<Rightarrow> string" where
  "print_label l = fst l @ CHR ''='' # quote_char # snd l @ [quote_char]"

definition print_sample :: "exposed \<Rightarrow> string" where
  "print_sample smp = (case smp of (name, ls, v) \<Rightarrow>
     name @ CHR 0x7B # join_with CHR '','' (map print_label ls) @ CHR 0x7D # CHR '' '' # v)"

definition plain_label :: "string \<times> string \<Rightarrow> bool" where
  "plain_label l \<longleftrightarrow> fst l \<noteq> '''' \<and> list_all is_word (fst l)
     \<and> list_all (\<lambda>c. c \<noteq> quote_char \<and> c \<noteq> CHR 0x7D \<and> c \<noteq> CHR 0x0A) (snd l)"

definition plain_sample :: "exposed \<Rightarrow> bool" where
  "plain_sample smp = (case smp of (name, ls, v) \<Rightarrow>
     name \<noteq> '''' \<and> list_all is_word name \<and> list_all plain_label ls
     \<and> v \<noteq> '''' \<and> list_all (\<lambda>c. \<not> is_space c) v)"

lemma not_word [simp]: "\<not> is_word CHR 0x7B" "\<not> is_word CHR ''=''" "\<not> is_word CHR '',''" "\<not> is_word quote_char"
  "\<not> is_word CHR 0x7D" "\<not> is_word CHR 0x0A" "\<not> is_word CHR 0x23"
  by (simp_all add: is_word_def quote_char_def)

lemma take_until: "list_all P xs \<Longrightarrow> \<not> P c \<Longrightarrow> takeWhile P (xs @ c # ys) = xs \<and> dropWhile P (xs @ c # ys) = c # ys"
  by (induction xs) auto

lemma find_labels_nonword: "\<not> is_word c \<Longrightarrow> find_labels (c # cs) = find_labels cs"
  by (subst find_labels.simps) simp

lemma find_labels_print:
  assumes "plain_label l"
  shows "find_labels (print_label l @ rest) = l # find_labels rest"
proof -
  obtain k v where l: "l = (k, v)" by fastforce
  obtain c cs where k: "k = c # cs" using assms by (cases k) (auto simp: plain_label_def l)
  have word: "is_word c" "list_all is_word cs" and v: "list_all (\<lambda>c. c \<noteq> quote_char) v"
    using assms by (auto simp: plain_label_def l k list_all_iff)
  let ?after = "CHR ''='' # quote_char # v @ quote_char # rest"
  have whole: "print_label l @ rest = c # cs @ ?after" by (simp add: print_label_def l k)
  have key: "takeWhile is_word (c # cs @ ?after) = k" "dropWhile is_word (cs @ ?after) = ?after"
    using take_until [of is_word cs "CHR ''=''" "quote_char # v @ quote_char # rest"] word by (simp_all add: k)
  have val: "takeWhile (\<lambda>c. c \<noteq> quote_char) (v @ quote_char # rest) = v"
    "dropWhile (\<lambda>c. c \<noteq> quote_char) (v @ quote_char # rest) = quote_char # rest"
    using take_until [of "\<lambda>c. c \<noteq> quote_char" v quote_char rest] v by simp_all
  show ?thesis unfolding whole
    by (subst find_labels.simps) (simp add: word key(2) val Let_def l key(1) [unfolded takeWhile.simps, simplified word if_True])
qed

lemma find_labels_printed:
  "list_all plain_label ls \<Longrightarrow> find_labels (join_with CHR '','' (map print_label ls)) = ls"
proof (induction ls)
  case Nil
  then show ?case by (subst find_labels.simps) simp
next
  case (Cons l ls)
  then have one: "find_labels (print_label l @ rest) = l # find_labels rest" for rest by (simp add: find_labels_print)
  show ?case
  proof (cases ls)
    case Nil
    have "find_labels [] = []" by (subst find_labels.simps) simp
    with Nil one [of "[]"] show ?thesis by simp
  next
    case (Cons l2 ls2)
    then have "join_with CHR '','' (map print_label (l # ls))
        = print_label l @ CHR '','' # join_with CHR '','' (map print_label ls)" by simp
    with one Cons.prems Cons.IH show ?thesis by (simp add: find_labels_nonword)
  qed
qed

lemma printed_labels_chars:
  "list_all plain_label ls \<Longrightarrow> c \<in> set (join_with CHR '','' (map print_label ls)) \<Longrightarrow> c \<noteq> CHR 0x7D \<and> c \<noteq> CHR 0x0A"
proof (induction ls)
  case (Cons l ls)
  have own: "c \<noteq> CHR 0x7D \<and> c \<noteq> CHR 0x0A" if "c \<in> set (print_label l)"
  proof -
    have "is_word d \<longrightarrow> d \<noteq> CHR 0x7D \<and> d \<noteq> CHR 0x0A" for d using not_word(5,6) by metis
    then show ?thesis using that Cons.prems(1)
      by (fastforce simp: print_label_def plain_label_def list_all_iff quote_char_def)
  qed
  with Cons show ?case by (cases ls) auto
qed simp

lemma match_printed:
  assumes "plain_sample (name, ls, v)"
  shows "match_metric (print_sample (name, ls, v)) = Some (name, join_with CHR '','' (map print_label ls), v)"
proof -
  let ?labels = "join_with CHR '','' (map print_label ls)"
  have name: "takeWhile is_word (print_sample (name, ls, v)) = name"
    "dropWhile is_word (print_sample (name, ls, v)) = CHR 0x7B # ?labels @ CHR 0x7D # CHR '' '' # v"
    using take_until [of is_word name "CHR 0x7B"] assms by (simp_all add: print_sample_def plain_sample_def)
  have "list_all (\<lambda>c. c \<noteq> CHR 0x7D) ?labels" using printed_labels_chars assms by (auto simp: plain_sample_def list_all_iff)
  then have labels: "takeWhile (\<lambda>c. c \<noteq> CHR 0x7D) (?labels @ CHR 0x7D # CHR '' '' # v) = ?labels"
    "dropWhile (\<lambda>c. c \<noteq> CHR 0x7D) (?labels @ CHR 0x7D # CHR '' '' # v) = CHR 0x7D # CHR '' '' # v"
    using take_until [of "\<lambda>c. c \<noteq> CHR 0x7D" ?labels "CHR 0x7D" "CHR '' '' # v"] by simp_all
  have "trim_space (CHR '' '' # v) = trim_space v" by (simp add: trim_space_def is_space_def)
  moreover have "trim_space v = v" using assms by (intro trim_space_none) (simp add: plain_sample_def)
  moreover have "is_blank CHR '' ''" by (simp add: is_blank_def)
  moreover have "\<not> length (CHR '' '' # v) < 2" using assms by (cases v) (auto simp: plain_sample_def)
  ultimately show ?thesis using assms by (simp add: match_metric_def name labels plain_sample_def Let_def)
qed

definition read_sample :: "(string \<Rightarrow> float64 option) \<Rightarrow> bifrost_stats \<times> providers \<Rightarrow> exposed \<Rightarrow> bifrost_stats \<times> providers" where
  "read_sample float st smp = (case smp of (name, ls, v) \<Rightarrow>
     (case float v of None \<Rightarrow> st | Some x \<Rightarrow> count_metric name (label ls ''provider'') (label ls ''fallback_index'') x st))"

lemma print_sample_line:
  assumes "plain_sample smp"
  shows "CHR 0x0A \<notin> set (print_sample smp)" "print_sample smp \<noteq> ''''" "hd (print_sample smp) \<noteq> CHR 0x23"
proof -
  obtain name ls v where smp: "smp = (name, ls, v)" by (rule prod_cases3)
  have name: "list_all is_word name" "name \<noteq> ''''" and ls: "list_all plain_label ls" and v: "list_all (\<lambda>c. \<not> is_space c) v"
    using assms by (simp_all add: smp plain_sample_def)
  have "is_space CHR 0x0A" by (simp add: is_space_def)
  then have "CHR 0x0A \<notin> set v" using v by (auto simp: list_all_iff)
  moreover have "CHR 0x0A \<notin> set name" using name not_word(6) by (auto simp: list_all_iff)
  moreover have "CHR 0x0A \<notin> set (join_with CHR '','' (map print_label ls))" using printed_labels_chars [OF ls] by blast
  ultimately show "CHR 0x0A \<notin> set (print_sample smp)" by (simp add: smp print_sample_def)
  show "print_sample smp \<noteq> ''''" by (simp add: smp print_sample_def)
  show "hd (print_sample smp) \<noteq> CHR 0x23" using name not_word(7) by (cases name) (auto simp: smp print_sample_def)
qed

lemma read_printed: "plain_sample smp \<Longrightarrow> read_line float st (print_sample smp) = read_sample float st smp"
proof -
  assume plain: "plain_sample smp"
  obtain name ls v where smp: "smp = (name, ls, v)" by (rule prod_cases3)
  have "list_all plain_label ls" using plain by (simp add: smp plain_sample_def)
  with print_sample_line [OF plain] match_printed [of name ls v] plain show ?thesis
    by (simp add: read_line_def read_sample_def smp find_labels_printed split: option.split)
qed

text \<open>What a sample adds to the successes: with a label test.\<close>

definition successes :: "(string \<Rightarrow> float64 option) \<Rightarrow> ((string \<times> string) list \<Rightarrow> bool) \<Rightarrow> exposed list \<Rightarrow> int" where
  "successes float P ss = sum_list (map (\<lambda>(name, ls, v).
     if name = ''bifrost_success_requests_total'' \<and> P ls then (case float v of None \<Rightarrow> 0 | Some x \<Rightarrow> trunc64 x) else 0) ss)"

lemma successes_snoc: "successes float P (ss @ [smp]) = successes float P ss + successes float P [smp]"
  by (simp add: successes_def)

definition provider_success :: "providers \<Rightarrow> string \<Rightarrow> int" where
  "provider_success accs p = (case map_of accs p of None \<Rightarrow> 0 | Some a \<Rightarrow> pa_success a)"

lemma on_provider_keys: "distinct (map fst accs) \<Longrightarrow> distinct (map fst (on_provider p f accs))"
  by (simp add: on_provider_def distinct_update)

lemma on_provider_adds:
  "(\<And>a. pa_success (f a) = pa_success a + n) \<Longrightarrow> q \<noteq> '''' \<Longrightarrow>
     provider_success (on_provider p f accs) q = provider_success accs q + (if q = p then n else 0)"
  by (auto simp: on_provider_def provider_success_def update_conv' no_acc_def split: option.split)

lemma on_provider_keeps:
  "(\<And>a. pa_success (f a) = pa_success a) \<Longrightarrow> q \<noteq> '''' \<Longrightarrow>
     provider_success (on_provider p f accs) q = provider_success accs q"
  using on_provider_adds [of f 0 q p accs] by simp

definition tallied :: "(string \<Rightarrow> float64 option) \<Rightarrow> exposed list \<Rightarrow> bifrost_stats \<times> providers \<Rightarrow> bool" where
  "tallied float ss st \<longleftrightarrow> (case st of (s, accs) \<Rightarrow>
     bs_total_success s = successes float (\<lambda>_. True) ss
     \<and> bs_saved s = successes float (\<lambda>ls. label ls ''fallback_index'' \<notin> {'''', ''0''}) ss
     \<and> (\<forall>i. i \<noteq> '''' \<longrightarrow> bs_by_fallback s i = successes float (\<lambda>ls. label ls ''fallback_index'' = i) ss)
     \<and> (\<forall>p. p \<noteq> '''' \<longrightarrow> provider_success accs p = successes float (\<lambda>ls. label ls ''provider'' = p) ss)
     \<and> distinct (map fst accs))"

lemma tallied_step: "tallied float ss st \<Longrightarrow> tallied float (ss @ [smp]) (read_sample float st smp)"
proof -
  assume t: "tallied float ss st"
  obtain name ls v where smp: "smp = (name, ls, v)" by (rule prod_cases3)
  obtain s accs where st: "st = (s, accs)" by fastforce
  show ?thesis
  proof (cases "float v")
    case None
    with t show ?thesis by (simp add: tallied_def read_sample_def smp st successes_snoc) (simp add: successes_def)
  next
    case (Some x)
    have dist: "distinct (map fst accs)" using t by (simp add: tallied_def st)
    show ?thesis
    proof (cases "name = ''bifrost_success_requests_total''")
      case True
      with t Some dist show ?thesis
        by (auto simp: tallied_def read_sample_def smp st successes_snoc count_metric_def Let_def bump_def on_provider_keys
            on_provider_adds [where n = "trunc64 x"]) (auto simp: successes_def)
    next
      case False
      then have none: "successes float P [smp] = 0" for P by (simp add: successes_def smp)
      from False t Some dist show ?thesis
        by (auto simp: tallied_def read_sample_def smp st successes_snoc none [unfolded smp] count_metric_def Let_def
            on_provider_keys on_provider_keeps)
    qed
  qed
qed

lemma tallied_all: "tallied float ss (foldl (read_sample float) (no_stats\<lparr> bs_at_ms := t, bs_available := True \<rparr>, []) ss)"
proof (induction ss rule: rev_induct)
  case Nil
  then show ?case by (simp add: tallied_def no_stats_def successes_def provider_success_def)
next
  case (snoc smp ss)
  then show ?case using tallied_step by simp
qed

definition demo_samples :: "exposed list" where
  "demo_samples = [(''bifrost_success_requests_total'', [(''provider'', ''w1''), (''fallback_index'', ''0'')], ''3''),
     (''bifrost_success_requests_total'', [(''provider'', ''w2''), (''fallback_index'', ''1'')], ''2'')]"

definition demo_float :: "string \<Rightarrow> float64 option" where
  "demo_float v = map_option of_int (atoi v)"

section \<open>Properties\<close>



end
