(* ===== verification/Loadgen.thy ===== *)
theory Loadgen
  imports Effects Session Wire Wav
begin

text \<open>
  \<^verbatim>\<open>cmd/loadgen/stream.go\<close>: one synthetic client. Its connection, clock, ticker, random
  numbers and the channel of result rows are the environment; the messages it wrote are
  part of its state. A loop takes the number of turns it may make and answers \<open>Running\<close>
  where they were not enough; a slice expression out of range is \<open>Panicked\<close>.
\<close>

section \<open>Configuration, counters, state\<close>

definition nominalFrameMs :: int where "nominalFrameMs = 80"
definition sampleRateHz :: int where "sampleRateHz = 16000"
definition frameSamples :: nat where "frameSamples = 1280"
definition frameBytes :: nat where "frameBytes = 2560"
definition finalWaitTimeout :: duration where "finalWaitTimeout = 20 * second"

record load_config =
  lf_streams :: int
  lf_ramp :: duration
  lf_duration :: duration
  lf_speech_ratio :: float64
  lf_jitter_ms :: int
  lf_drop_pct :: float64
  lf_reconnect_every :: duration
  lf_mode :: string
  lf_corpus_dir :: string
  lf_ws_url :: string
  lf_out :: string
  lf_seed :: int
  lf_control_addr :: string

record load_row =
  rw_ts_ms :: int
  rw_stream_id :: nat
  rw_kind :: string
  rw_seq :: int
  rw_latency_ms :: float64
  rw_has_latency :: bool
  rw_streams_active :: int
  rw_utterance_id :: string
  rw_revision :: int
  rw_failover_epoch :: int

record load_counters =
  lk_streams_opened :: int
  lk_streams_refused :: int
  lk_streams_active :: int
  lk_frames_sent :: int
  lk_frames_dropped :: int
  lk_audio_ms_sent :: int
  lk_finals :: int
  lk_duplicate_finals :: int
  lk_discontinuities :: int
  lk_errors :: int
  lk_overloaded :: int
  lk_partial_latencies :: "float64 list"
  lk_final_latencies :: "float64 list"

definition no_counts :: load_counters where
  "no_counts = \<lparr> lk_streams_opened = 0, lk_streams_refused = 0, lk_streams_active = 0, lk_frames_sent = 0,
     lk_frames_dropped = 0, lk_audio_ms_sent = 0, lk_finals = 0, lk_duplicate_finals = 0, lk_discontinuities = 0,
     lk_errors = 0, lk_overloaded = 0, lk_partial_latencies = [], lk_final_latencies = [] \<rparr>"

text \<open>A message is whether it is text, and what its data parses to.\<close>

type_synonym raw_message = "bool \<times> json option"

datatype waited = Waited raw_message | WaitClosed | WaitTimeout | WaitDone

record 'e load_host =
  lh_now :: "'e \<Rightarrow> time \<times> 'e"
  lh_alive :: "'e \<Rightarrow> bool \<times> 'e" \<comment> \<open>\<open>ctx.Err() == nil\<close>\<close>
  lh_delay :: "duration \<Rightarrow> 'e \<Rightarrow> bool \<times> 'e" \<comment> \<open>false: the context ended first\<close>
  lh_tick :: "'e \<Rightarrow> bool \<times> 'e" \<comment> \<open>false: the context ended first\<close>
  lh_dial :: "'e \<Rightarrow> bool \<times> 'e"
  lh_write :: "byte list \<Rightarrow> 'e \<Rightarrow> bool \<times> 'e"
  lh_ready :: "'e \<Rightarrow> raw_message list \<times> 'e" \<comment> \<open>all that can be received without waiting\<close>
  lh_wait :: "time \<Rightarrow> 'e \<Rightarrow> waited \<times> 'e" \<comment> \<open>with the time the timer fires\<close>
  lh_intn :: "int \<Rightarrow> 'e \<Rightarrow> int \<times> 'e"
  lh_float :: "'e \<Rightarrow> float64 \<times> 'e"
  lh_sleep :: "duration \<Rightarrow> 'e \<Rightarrow> 'e"
  lh_offer :: "load_row \<Rightarrow> 'e \<Rightarrow> 'e" \<comment> \<open>never waits; a full channel drops the row\<close>
  lh_marshal :: "json \<Rightarrow> byte list"

record load_stream =
  lg_id :: nat
  lg_cfg :: load_config
  lg_clip :: clip
  lg_start :: time

record 'e load_state =
  ls_seq :: u64
  ls_last_acked_seq :: u64
  ls_last_frame_at :: time
  ls_sent_at :: "u64 \<rightharpoonup> time"
  ls_pending :: "load_row option"
  ls_seen_final :: "string \<Rightarrow> bool"
  ls_cnt :: load_counters
  ls_out :: "byte list list"
  ls_env :: 'e

type_synonym ('e, 'a) load_act = "('e load_state, 'a) state"

definition lg_env :: "('e \<Rightarrow> 'a \<times> 'e) \<Rightarrow> ('e, 'a) load_act" where
  "lg_env f = State (\<lambda>s. let (x, e) = f (ls_env s) in (x, s\<lparr>ls_env := e\<rparr>))"

definition lg_count :: "(load_counters \<Rightarrow> load_counters) \<Rightarrow> ('e, unit) load_act" where
  "lg_count f = State_Monad.update (\<lambda>s. s\<lparr>ls_cnt := f (ls_cnt s)\<rparr>)"

section \<open>Events from the gateway\<close>

type_synonym message = "string \<rightharpoonup> json"

text \<open>\<open>readLoop\<close>: binary messages and what is no JSON object are skipped; \<open>null\<close> is a nil map.\<close>

definition read_message :: "raw_message \<Rightarrow> message option" where
  "read_message m =
     (if \<not> fst m then None
      else case snd m of
        Some (JObject kvs) \<Rightarrow> Some (map_of (rev kvs))
      | Some JNull \<Rightarrow> Some Map.empty
      | _ \<Rightarrow> None)"

definition message_text :: "message \<Rightarrow> string \<Rightarrow> string" where
  "message_text ev key = (case ev key of Some (JString t) \<Rightarrow> t | _ \<Rightarrow> '''')"

definition type_of_message :: "message \<Rightarrow> string" where
  "type_of_message ev = message_text ev ''type''"

fun to_int :: "json \<Rightarrow> int" where
  "to_int (JInt n) = n"
| "to_int (JReal x) = trunc64 x"
| "to_int _ = - 1"

definition int_field :: "message \<Rightarrow> string \<Rightarrow> int" where
  "int_field ev key = (case ev key of None \<Rightarrow> - 1 | Some v \<Rightarrow> to_int v)"

section \<open>Rows\<close>

text \<open>\<open>float64(time.Since(t).Microseconds()) / 1000\<close>, 0 for the zero time.\<close>

definition elapsed_ms :: "time \<Rightarrow> time \<Rightarrow> float64" where
  "elapsed_ms now t = (let d = now - t in of_int (if 0 \<le> d then d div 1000 else - ((- d) div 1000)) / 1000)"

definition ms_since :: "'e load_host \<Rightarrow> time \<Rightarrow> ('e, float64) load_act" where
  "ms_since h t = (if t = 0 then State_Monad.return 0 else do {
     now \<leftarrow> lg_env (lh_now h); State_Monad.return (elapsed_ms now t) })"

definition row_of :: "load_stream \<Rightarrow> time \<Rightarrow> int \<Rightarrow> string \<Rightarrow> int \<Rightarrow> message option \<Rightarrow> load_row" where
  "row_of lg now active kind seq ev =
     \<lparr> rw_ts_ms = milliseconds (now - lg_start lg), rw_stream_id = lg_id lg, rw_kind = kind, rw_seq = seq,
       rw_latency_ms = 0, rw_has_latency = False, rw_streams_active = active,
       rw_utterance_id = (case ev of None \<Rightarrow> '''' | Some m \<Rightarrow> message_text m ''utterance_id''),
       rw_revision = (case ev of None \<Rightarrow> - 1 | Some m \<Rightarrow> int_field m ''revision''),
       rw_failover_epoch = (case ev of None \<Rightarrow> - 1 | Some m \<Rightarrow> int_field m ''failover_epoch'') \<rparr>"

definition build_event :: "'e load_host \<Rightarrow> load_stream \<Rightarrow> string \<Rightarrow> int \<Rightarrow> message option \<Rightarrow> ('e, load_row) load_act" where
  "build_event h lg kind seq ev = do {
     now \<leftarrow> lg_env (lh_now h);
     s \<leftarrow> State_Monad.get;
     State_Monad.return (row_of lg now (lk_streams_active (ls_cnt s)) kind seq ev) }"

definition offer_row :: "'e load_host \<Rightarrow> load_row \<Rightarrow> ('e, unit) load_act" where
  "offer_row h r = lg_env (\<lambda>e. ((), lh_offer h r e))"

definition lg_emit :: "'e load_host \<Rightarrow> load_stream \<Rightarrow> string \<Rightarrow> int \<Rightarrow> float64 \<Rightarrow> bool \<Rightarrow> message option \<Rightarrow> ('e, unit) load_act" where
  "lg_emit h lg kind seq lat has ev = do {
     r \<leftarrow> build_event h lg kind seq ev;
     offer_row h (r\<lparr> rw_latency_ms := lat, rw_has_latency := has \<rparr>) }"

definition flush_partial :: "'e load_host \<Rightarrow> float64 \<Rightarrow> bool \<Rightarrow> ('e, unit) load_act" where
  "flush_partial h lat has = do {
     s \<leftarrow> State_Monad.get;
     (case ls_pending s of
        None \<Rightarrow> State_Monad.return ()
      | Some r \<Rightarrow> do {
          State_Monad.update (\<lambda>s. s\<lparr>ls_pending := None\<rparr>);
          (if has then lg_count (\<lambda>c. c\<lparr>lk_partial_latencies := lk_partial_latencies c @ [lat]\<rparr>)
           else State_Monad.return ());
          offer_row h (r\<lparr> rw_latency_ms := lat, rw_has_latency := has \<rparr>) }) }"

text \<open>Against the last frame written.\<close>

definition flush_on_last_frame :: "'e load_host \<Rightarrow> ('e, unit) load_act" where
  "flush_on_last_frame h = do {
     s \<leftarrow> State_Monad.get;
     lat \<leftarrow> ms_since h (ls_last_frame_at s);
     flush_partial h lat (ls_last_frame_at s \<noteq> 0) }"

definition count_final :: "message \<Rightarrow> ('e, unit) load_act" where
  "count_final ev = do {
     let uid = message_text ev ''utterance_id'';
     s \<leftarrow> State_Monad.get;
     (if ls_seen_final s uid then lg_count (\<lambda>c. c\<lparr>lk_duplicate_finals := lk_duplicate_finals c + 1\<rparr>)
      else State_Monad.return ());
     State_Monad.update (\<lambda>s. s\<lparr>ls_seen_final := (ls_seen_final s)(uid := True)\<rparr>);
     lg_count (\<lambda>c. c\<lparr>lk_finals := lk_finals c + 1\<rparr>) }"

section \<open>Receiving\<close>

definition record_ack :: "'e load_host \<Rightarrow> load_stream \<Rightarrow> message \<Rightarrow> ('e, unit) load_act" where
  "record_ack h lg ev = do {
     let q = int_field ev ''highest_contiguous_seq'';
     State_Monad.update (\<lambda>s. if q > 0 then s\<lparr>ls_last_acked_seq := of_int q\<rparr> else s);
     s \<leftarrow> State_Monad.get;
     let sent = ls_sent_at s (of_int q);
     lat \<leftarrow> (case sent of None \<Rightarrow> State_Monad.return 0 | Some t \<Rightarrow> ms_since h t);
     flush_partial h lat (sent \<noteq> None);
     State_Monad.update (\<lambda>s. if sent \<noteq> None
       then s\<lparr>ls_sent_at := (\<lambda>k. if k \<le> of_int q then None else ls_sent_at s k)\<rparr> else s);
     lg_emit h lg ''ack'' q lat (sent \<noteq> None) (Some ev) }"

definition record_event :: "'e load_host \<Rightarrow> load_stream \<Rightarrow> message \<Rightarrow> ('e, unit) load_act" where
  "record_event h lg ev =
     (let ty = type_of_message ev in
      if ty = ''ack'' then record_ack h lg ev
      else if ty = ''partial'' then do {
        flush_on_last_frame h;
        r \<leftarrow> build_event h lg ''partial'' (- 1) (Some ev);
        State_Monad.update (\<lambda>s. s\<lparr>ls_pending := Some r\<rparr>) }
      else if ty = ''partial.reset'' then do {
        flush_on_last_frame h;
        s \<leftarrow> State_Monad.get;
        lat \<leftarrow> ms_since h (ls_last_frame_at s);
        lg_emit h lg ''partial.reset'' (- 1) lat (ls_last_frame_at s \<noteq> 0) (Some ev) }
      else if ty = ''discontinuity'' then do {
        lg_count (\<lambda>c. c\<lparr>lk_discontinuities := lk_discontinuities c + 1\<rparr>);
        lg_emit h lg ''discontinuity'' (- 1) 0 False (Some ev) }
      else if ty = ''overloaded'' then do {
        lg_count (\<lambda>c. c\<lparr>lk_overloaded := lk_overloaded c + 1\<rparr>);
        lg_emit h lg ''overloaded'' (- 1) 0 False (Some ev) }
      else if ty = ''error'' then do {
        lg_count (\<lambda>c. c\<lparr>lk_errors := lk_errors c + 1\<rparr>);
        lg_emit h lg ''error'' (- 1) 0 False (Some ev) }
      else if ty = ''final'' then do {
        count_final ev;
        lg_emit h lg ''final'' (- 1) 0 False (Some ev) }
      else State_Monad.return ())"

fun record_all :: "'e load_host \<Rightarrow> load_stream \<Rightarrow> raw_message list \<Rightarrow> ('e, unit) load_act" where
  "record_all h lg [] = State_Monad.return ()"
| "record_all h lg (m # ms) = do {
     (case read_message m of None \<Rightarrow> State_Monad.return () | Some ev \<Rightarrow> record_event h lg ev);
     record_all h lg ms }"

definition drain :: "'e load_host \<Rightarrow> load_stream \<Rightarrow> ('e, unit) load_act" where
  "drain h lg = do { ms \<leftarrow> lg_env (lh_ready h); record_all h lg ms }"

section \<open>Sending\<close>

datatype leg = Continue | Halt | Panicked | Running

definition leg_of :: "bool \<Rightarrow> leg" where "leg_of b = (if b then Continue else Halt)"

definition fail_row :: "'e load_host \<Rightarrow> load_stream \<Rightarrow> int \<Rightarrow> message option \<Rightarrow> ('e, unit) load_act" where
  "fail_row h lg seq ev = do {
     lg_count (\<lambda>c. c\<lparr>lk_errors := lk_errors c + 1\<rparr>);
     lg_emit h lg ''error'' seq 0 False ev }"

text \<open>\<open>conn.Write(wire.Encode(f))\<close>; \<open>int64(seq)\<close> of the frame is the row's where it fails.\<close>

definition write_frame :: "'e load_host \<Rightarrow> load_stream \<Rightarrow> frame \<Rightarrow> ('e, bool) load_act" where
  "write_frame h lg f = do {
     ok \<leftarrow> lg_env (lh_write h (encode f));
     (if ok then State_Monad.update (\<lambda>s. s\<lparr>ls_out := ls_out s @ [encode f]\<rparr>)
      else fail_row h lg (sint (f_seq f)) None);
     State_Monad.return ok }"

definition start_json :: "string \<Rightarrow> json" where
  "start_json mode = JObject
     [(''type'', JString ''session.start''), (''mode'', JString mode), (''sample_rate_hz'', JInt sampleRateHz),
      (''encoding'', JString RequiredEncoding), (''channels'', JInt RequiredChannels),
      (''nominal_frame_ms'', JInt nominalFrameMs)]"

definition end_json :: json where
  "end_json = JObject [(''type'', JString ''session.end'')]"

definition control_frame :: "u64 \<Rightarrow> byte list \<Rightarrow> frame" where
  "control_frame seq body =
     \<lparr> f_type = MsgControl, f_seq = seq, f_capture_ms = 0, f_num_samples = 0, f_payload = body \<rparr>"

text \<open>A control message takes a number only if it was written.\<close>

definition send_control :: "'e load_host \<Rightarrow> load_stream \<Rightarrow> json \<Rightarrow> ('e, bool) load_act" where
  "send_control h lg body = do {
     s \<leftarrow> State_Monad.get;
     ok \<leftarrow> write_frame h lg (control_frame (ls_seq s) (lh_marshal h body));
     State_Monad.update (\<lambda>s. if ok then s\<lparr>ls_seq := ls_seq s + 1\<rparr> else s);
     State_Monad.return ok }"

fun await_open :: "'e load_host \<Rightarrow> load_stream \<Rightarrow> time \<Rightarrow> time \<Rightarrow> nat \<Rightarrow> ('e, leg) load_act" where
  "await_open h lg dialed limit 0 = State_Monad.return Running"
| "await_open h lg dialed limit (Suc n) = do {
     w \<leftarrow> lg_env (lh_wait h limit);
     (case w of
        WaitDone \<Rightarrow> State_Monad.return Halt
      | WaitTimeout \<Rightarrow> do { fail_row h lg (- 1) None; State_Monad.return Halt }
      | WaitClosed \<Rightarrow> do { fail_row h lg (- 1) None; State_Monad.return Halt }
      | Waited m \<Rightarrow>
          (case read_message m of
             None \<Rightarrow> await_open h lg dialed limit n
           | Some ev \<Rightarrow>
               (let ty = type_of_message ev in
                if ty = ''ack'' then do {
                  lg_count (\<lambda>c. c\<lparr>lk_streams_opened := lk_streams_opened c + 1\<rparr>);
                  lat \<leftarrow> ms_since h dialed;
                  lg_emit h lg ''session_open'' (- 1) lat True (Some ev);
                  State_Monad.return Continue }
                else if ty = ''overloaded'' then do {
                  lg_count (\<lambda>c. c\<lparr> lk_overloaded := lk_overloaded c + 1, lk_streams_refused := lk_streams_refused c + 1 \<rparr>);
                  lat \<leftarrow> ms_since h dialed;
                  lg_emit h lg ''overloaded'' (- 1) lat True (Some ev);
                  State_Monad.return Halt }
                else if ty = ''error'' then do { fail_row h lg (- 1) (Some ev); State_Monad.return Halt }
                else await_open h lg dialed limit n))) }"

text \<open>
  What a turn of \<open>pump\<close> sends: with the offset into the clip and the bytes of silence left,
  the payload (none in the turn that starts a run of silence) and the two afterwards; \<open>None\<close>
  where the slice is out of range. \<open>int(total)\<close> is the truncation of the exact quotient.
\<close>

definition next_payload :: "load_stream \<Rightarrow> nat \<times> int \<Rightarrow> (byte list option \<times> nat \<times> int) option" where
  "next_payload lg cur =
     (let (offset, silence) = cur; pcm = cl_pcm (lg_clip lg); ratio = lf_speech_ratio (lg_cfg lg) in
      if silence > 0 then Some (Some (replicate frameBytes 0), offset, silence - int frameBytes)
      else if offset + frameBytes > length pcm \<and> ratio < 1
      then (let gap = trunc64 (of_nat (length pcm) / ratio) - int (length pcm)
            in Some (None, 0, gap - (if 0 \<le> gap then gap mod int frameBytes else - ((- gap) mod int frameBytes))))
      else (let offset = (if offset + frameBytes > length pcm then 0 else offset)
            in if offset + frameBytes > length pcm then None
               else Some (Some (sub_bytes offset (offset + frameBytes) pcm), offset + frameBytes, silence)))"

definition audio_frame :: "load_stream \<Rightarrow> u64 \<Rightarrow> time \<Rightarrow> byte list \<Rightarrow> frame" where
  "audio_frame lg seq now payload =
     \<lparr> f_type = MsgAudio, f_seq = seq, f_capture_ms = of_int (milliseconds (now - lg_start lg)),
       f_num_samples = of_nat frameSamples, f_payload = payload \<rparr>"

text \<open>A turn with a payload: jitter, the number, perhaps a drop, and the write.\<close>

definition send_audio :: "'e load_host \<Rightarrow> load_stream \<Rightarrow> byte list \<Rightarrow> ('e, leg) load_act" where
  "send_audio h lg payload = do {
     let cfg = lg_cfg lg;
     (if lf_jitter_ms cfg > 0 then do {
        d \<leftarrow> lg_env (lh_intn h (lf_jitter_ms cfg + 1));
        lg_env (\<lambda>e. ((), lh_sleep h (d * millisecond) e)) }
      else State_Monad.return ());
     s \<leftarrow> State_Monad.get;
     let seq = ls_seq s;
     State_Monad.update (\<lambda>s. s\<lparr>ls_seq := seq + 1\<rparr>);
     drop \<leftarrow> (if lf_drop_pct cfg > 0 then do { x \<leftarrow> lg_env (lh_float h); State_Monad.return (x < lf_drop_pct cfg) }
              else State_Monad.return False);
     (if drop then do {
        lg_count (\<lambda>c. c\<lparr>lk_frames_dropped := lk_frames_dropped c + 1\<rparr>);
        State_Monad.return Continue }
      else do {
        captured \<leftarrow> lg_env (lh_now h);
        now \<leftarrow> lg_env (lh_now h);
        ok \<leftarrow> write_frame h lg (audio_frame lg seq captured payload);
        (if ok then do {
           State_Monad.update (\<lambda>s. s\<lparr> ls_last_frame_at := now, ls_sent_at := (ls_sent_at s)(seq \<mapsto> now) \<rparr>);
           lg_count (\<lambda>c. c\<lparr> lk_frames_sent := lk_frames_sent c + 1, lk_audio_ms_sent := lk_audio_ms_sent c + nominalFrameMs \<rparr>);
           State_Monad.return Continue }
         else State_Monad.return Halt) }) }"

definition send_next_payload :: "'e load_host \<Rightarrow> load_stream \<Rightarrow> nat \<times> int \<Rightarrow> ('e, leg \<times> nat \<times> int) load_act" where
  "send_next_payload h lg cur =
     (case next_payload lg cur of
        None \<Rightarrow> State_Monad.return (Panicked, cur)
      | Some (None, cur') \<Rightarrow> State_Monad.return (Continue, cur')
      | Some (Some payload, cur') \<Rightarrow> do { r \<leftarrow> send_audio h lg payload; State_Monad.return (r, cur') })"

fun pump :: "'e load_host \<Rightarrow> load_stream \<Rightarrow> time \<Rightarrow> nat \<Rightarrow> nat \<times> int \<Rightarrow> ('e, leg) load_act" where
  "pump h lg legEnd 0 cur = State_Monad.return Running"
| "pump h lg legEnd (Suc n) cur = do {
     now \<leftarrow> lg_env (lh_now h);
     (if \<not> now < legEnd then State_Monad.return Continue
      else do {
        ticked \<leftarrow> lg_env (lh_tick h);
        (if \<not> ticked then State_Monad.return Halt
         else do {
           drain h lg;
           (r, cur') \<leftarrow> send_next_payload h lg cur;
           (if r = Continue then pump h lg legEnd n cur' else State_Monad.return r) }) }) }"

fun await_final :: "'e load_host \<Rightarrow> load_stream \<Rightarrow> time \<Rightarrow> time \<Rightarrow> nat \<Rightarrow> ('e, leg) load_act" where
  "await_final h lg ended limit 0 = State_Monad.return Running"
| "await_final h lg ended limit (Suc n) = do {
     w \<leftarrow> lg_env (lh_wait h limit);
     (case w of
        WaitDone \<Rightarrow> State_Monad.return Halt
      | WaitTimeout \<Rightarrow> do { fail_row h lg (- 1) None; State_Monad.return Halt }
      | WaitClosed \<Rightarrow> do {
          lat \<leftarrow> ms_since h ended;
          lg_emit h lg ''session_close'' (- 1) lat True None;
          State_Monad.return Halt }
      | Waited m \<Rightarrow>
          (case read_message m of
             None \<Rightarrow> await_final h lg ended limit n
           | Some ev \<Rightarrow>
               if type_of_message ev = ''final'' then do {
                 flush_on_last_frame h;
                 count_final ev;
                 lat \<leftarrow> ms_since h ended;
                 lg_count (\<lambda>c. c\<lparr>lk_final_latencies := lk_final_latencies c @ [lat]\<rparr>);
                 lg_emit h lg ''final'' (- 1) lat True (Some ev);
                 lat2 \<leftarrow> ms_since h ended;
                 lg_emit h lg ''session_close'' (- 1) lat2 True None;
                 State_Monad.return Continue }
               else do { record_event h lg ev; await_final h lg ended limit n })) }"

definition finish :: "'e load_host \<Rightarrow> load_stream \<Rightarrow> nat \<Rightarrow> ('e, leg) load_act" where
  "finish h lg n = do {
     ended \<leftarrow> lg_env (lh_now h);
     ok \<leftarrow> send_control h lg end_json;
     (if \<not> ok then State_Monad.return Halt
      else do {
        now \<leftarrow> lg_env (lh_now h);
        await_final h lg ended (now + finalWaitTimeout) n }) }"

section \<open>Legs\<close>

definition in_session :: "'e load_host \<Rightarrow> load_stream \<Rightarrow> time \<Rightarrow> bool \<Rightarrow> nat \<Rightarrow> ('e, leg) load_act" where
  "in_session h lg legEnd closing n = do {
     r \<leftarrow> pump h lg legEnd n (0, 0);
     (if r \<noteq> Continue \<or> \<not> closing then State_Monad.return r else finish h lg n) }"

definition run_leg :: "'e load_host \<Rightarrow> load_stream \<Rightarrow> time \<Rightarrow> bool \<Rightarrow> nat \<Rightarrow> ('e, leg) load_act" where
  "run_leg h lg legEnd closing n = do {
     dialed \<leftarrow> lg_env (lh_now h);
     up \<leftarrow> lg_env (lh_dial h);
     (if \<not> up then do { fail_row h lg (- 1) None; State_Monad.return Halt }
      else do {
        ok \<leftarrow> send_control h lg (start_json (lf_mode (lg_cfg lg)));
        (if \<not> ok then State_Monad.return Halt
         else do {
           now \<leftarrow> lg_env (lh_now h);
           r \<leftarrow> await_open h lg dialed (now + 15 * second) n;
           (if r \<noteq> Continue then State_Monad.return r
            else do {
              lg_count (\<lambda>c. c\<lparr>lk_streams_active := lk_streams_active c + 1\<rparr>);
              r \<leftarrow> in_session h lg legEnd closing n;
              lg_count (\<lambda>c. c\<lparr>lk_streams_active := lk_streams_active c - 1\<rparr>);
              State_Monad.return r }) }) }) }"

fun run_legs :: "'e load_host \<Rightarrow> load_stream \<Rightarrow> time \<Rightarrow> nat \<Rightarrow> nat \<Rightarrow> ('e, leg) load_act" where
  "run_legs h lg deadline n 0 = State_Monad.return Running"
| "run_legs h lg deadline n (Suc legs) = do {
     now \<leftarrow> lg_env (lh_now h);
     live \<leftarrow> (if now < deadline then lg_env (lh_alive h) else State_Monad.return False);
     (if \<not> live then State_Monad.return Continue
      else do {
        legEnd \<leftarrow> (if lf_reconnect_every (lg_cfg lg) > 0 then do {
             now2 \<leftarrow> lg_env (lh_now h);
             let until = now2 + lf_reconnect_every (lg_cfg lg);
             State_Monad.return (if until < deadline then until else deadline) }
           else State_Monad.return deadline);
        r \<leftarrow> run_leg h lg legEnd (legEnd = deadline) n;
        (if r = Continue then run_legs h lg deadline n legs else State_Monad.return r) }) }"

definition run_with_delay :: "'e load_host \<Rightarrow> load_stream \<Rightarrow> duration \<Rightarrow> nat \<Rightarrow> nat \<Rightarrow> ('e, leg) load_act" where
  "run_with_delay h lg delay n legs = do {
     go \<leftarrow> (if delay > 0 then lg_env (lh_delay h delay) else State_Monad.return True);
     (if \<not> go then State_Monad.return Halt
      else do {
        now \<leftarrow> lg_env (lh_now h);
        State_Monad.update (\<lambda>s. s\<lparr> ls_sent_at := Map.empty, ls_seen_final := (\<lambda>_. False), ls_seq := 1 \<rparr>);
        run_legs h lg (now + lf_duration (lg_cfg lg)) n legs }) }"

section \<open>What the client says\<close>

text \<open>
  What receiving does not touch. A relation between states that is kept by the clock, the
  channels and the bookkeeping of the receiving side is kept by all of it.
\<close>

locale receiving =
  fixes R :: "'e load_state \<Rightarrow> 'e load_state \<Rightarrow> bool" and h :: "'e load_host"
  assumes order: "reflp R" "transp R"
    and env: "state_io_rel R (lg_env (lh_now h))" "state_io_rel R (lg_env (lh_ready h))"
      "\<And>r. state_io_rel R (lg_env (\<lambda>e. ((), lh_offer h r e)))"
    and books: "\<And>s x. R s (s\<lparr>ls_pending := x\<rparr>)" "\<And>s x. R s (s\<lparr>ls_last_acked_seq := x\<rparr>)"
      "\<And>s x. R s (s\<lparr>ls_sent_at := x\<rparr>)" "\<And>s x. R s (s\<lparr>ls_seen_final := x\<rparr>)"
    and counting: "\<And>s f. (\<And>c. lk_frames_sent (f c) = lk_frames_sent c \<and> lk_frames_dropped (f c) = lk_frames_dropped c
      \<and> lk_audio_ms_sent (f c) = lk_audio_ms_sent c) \<Longrightarrow> R s (s\<lparr>ls_cnt := f (ls_cnt s)\<rparr>)"
begin

lemmas basics = io_return [OF order(1)] io_get [OF order(1)] io_bind [OF order(2)] io_if [of R] env

lemma case_kept:
  "state_io_rel R a \<Longrightarrow> (\<And>x. state_io_rel R (b x)) \<Longrightarrow> state_io_rel R (case v of None \<Rightarrow> a | Some x \<Rightarrow> b x)"
  by (cases v) simp_all

lemma count_kept: "(\<And>c. lk_frames_sent (f c) = lk_frames_sent c \<and> lk_frames_dropped (f c) = lk_frames_dropped c
    \<and> lk_audio_ms_sent (f c) = lk_audio_ms_sent c) \<Longrightarrow> state_io_rel R (lg_count f)"
  unfolding lg_count_def by (rule io_update, rule counting)

lemma refl_kept: "R s s"
  using order(1) by (rule reflpD)

lemma ms_since_kept: "state_io_rel R (ms_since h t)"
  unfolding ms_since_def by (intro basics)

lemma build_kept: "state_io_rel R (build_event h lg kind seq ev)"
  unfolding build_event_def by (intro basics)

lemma offer_kept: "state_io_rel R (offer_row h r)"
  unfolding offer_row_def by (intro basics)

lemma emit_kept: "state_io_rel R (lg_emit h lg kind seq lat has ev)"
  unfolding lg_emit_def by (intro basics build_kept offer_kept)

lemma flush_kept: "state_io_rel R (flush_partial h lat has)"
  unfolding flush_partial_def by (intro basics case_kept count_kept offer_kept io_update books) simp

lemma flush_last_kept: "state_io_rel R (flush_on_last_frame h)"
  unfolding flush_on_last_frame_def by (intro basics ms_since_kept flush_kept)

lemma count_final_kept: "state_io_rel R (count_final ev)"
  unfolding count_final_def Let_def by (intro basics count_kept io_update books) simp_all

lemma fail_row_kept: "state_io_rel R (fail_row h lg seq ev)"
  unfolding fail_row_def by (intro basics count_kept emit_kept) simp

lemma ack_kept: "state_io_rel R (record_ack h lg ev)"
  unfolding record_ack_def Let_def
  by (intro basics case_kept ms_since_kept flush_kept emit_kept io_update) (auto intro: books refl_kept)

lemma record_kept: "state_io_rel R (record_event h lg ev)"
  unfolding record_event_def Let_def
  by (intro basics ack_kept flush_last_kept build_kept emit_kept ms_since_kept count_final_kept count_kept io_update books)
    simp_all

lemma record_all_kept: "state_io_rel R (record_all h lg ms)"
proof (induction ms)
  case Nil
  then show ?case by (simp add: basics)
next
  case (Cons m ms)
  then show ?case by (simp only: record_all.simps) (intro basics case_kept record_kept)
qed

lemma drain_kept: "state_io_rel R (drain h lg)"
  unfolding drain_def by (intro basics record_all_kept)

end

text \<open>Everything but the paced frames leaves numbers, writes and frame counts alone.\<close>

definition mute :: "'e load_state \<Rightarrow> 'e load_state \<Rightarrow> bool" where
  "mute s s' \<longleftrightarrow> ls_out s' = ls_out s \<and> ls_seq s' = ls_seq s
     \<and> lk_frames_sent (ls_cnt s') = lk_frames_sent (ls_cnt s)
     \<and> lk_frames_dropped (ls_cnt s') = lk_frames_dropped (ls_cnt s)
     \<and> lk_audio_ms_sent (ls_cnt s') = lk_audio_ms_sent (ls_cnt s)"

lemma mute_order: "reflp mute" "transp mute"
  by (auto simp: mute_def reflp_def transp_def)

lemma mute_env: "state_io_rel mute (lg_env f)"
  by (auto simp: state_io_rel_def lg_env_def mute_def split: prod.splits)

interpretation muted: receiving mute h for h
  by unfold_locales (auto simp: mute_order mute_env, auto simp: mute_def)

lemmas mute_intros = io_return [OF mute_order(1)] io_get [OF mute_order(1)] io_bind [OF mute_order(2)] io_if [of mute]
  mute_env muted.case_kept muted.ms_since_kept muted.emit_kept muted.flush_last_kept muted.count_final_kept
  muted.fail_row_kept muted.record_kept muted.drain_kept

definition audio_ok :: "frame \<Rightarrow> bool" where
  "audio_ok f \<longleftrightarrow> f_type f = MsgAudio \<and> f_num_samples f = of_nat frameSamples \<and> length (f_payload f) = frameBytes"

definition numbers :: "u64 \<Rightarrow> nat \<Rightarrow> u64 list" where
  "numbers q n = map (\<lambda>i. q + of_nat i) [0..<n]"

lemma numbers_Suc: "numbers q (Suc n) = numbers q n @ [q + of_nat n]"
  by (simp add: numbers_def)

text \<open>\<open>fs\<close> are the frames written since the state \<open>s0\<close>, of \<open>n\<close> numbers taken.\<close>

definition said :: "'e load_state \<Rightarrow> frame list \<Rightarrow> nat \<Rightarrow> 'e load_state \<Rightarrow> bool" where
  "said s0 fs n s \<longleftrightarrow> ls_out s = ls_out s0 @ map encode fs \<and> list_all audio_ok fs
     \<and> ls_seq s = ls_seq s0 + of_nat n \<and> subseq (map f_seq fs) (numbers (ls_seq s0) n)
     \<and> lk_frames_sent (ls_cnt s) = lk_frames_sent (ls_cnt s0) + int (length fs)
     \<and> lk_audio_ms_sent (ls_cnt s) = lk_audio_ms_sent (ls_cnt s0) + nominalFrameMs * int (length fs)"

text \<open>Every number not written was dropped on purpose.\<close>

definition balanced :: "'e load_state \<Rightarrow> 'e load_state \<Rightarrow> bool" where
  "balanced s0 s \<longleftrightarrow> (\<exists>fs n. said s0 fs n s
     \<and> lk_frames_dropped (ls_cnt s) = lk_frames_dropped (ls_cnt s0) + (int n - int (length fs)))"

definition pumped :: "'e load_state \<Rightarrow> leg \<Rightarrow> 'e load_state \<Rightarrow> bool" where
  "pumped s0 r s \<longleftrightarrow> (if r = Halt then \<exists>fs n. said s0 fs n s else balanced s0 s)"

lemma said_mute: "said s0 fs n s \<Longrightarrow> mute s s' \<Longrightarrow> said s0 fs n s'"
  by (simp add: said_def mute_def)

lemma balanced_mute: "balanced s0 s \<Longrightarrow> mute s s' \<Longrightarrow> balanced s0 s'"
  unfolding balanced_def using said_mute by (fastforce simp: mute_def)

lemma balanced_refl: "balanced s0 s0"
  unfolding balanced_def by (intro exI [of _ "[]"] exI [of _ 0]) (simp add: said_def)

lemma spec_mute: "state_io_rel mute m \<Longrightarrow> spec (balanced s0) m (\<lambda>_. balanced s0)"
  by (erule spec_keeps, erule (1) balanced_mute)

lemma mutely: "state_io_rel mute m \<Longrightarrow> (\<And>x. spec (balanced s0) (f x) Q) \<Longrightarrow> spec (balanced s0) (State_Monad.bind m f) Q"
  by (rule spec_bind [OF spec_mute])

lemma mutely_done: "state_io_rel mute m \<Longrightarrow> (\<And>s. balanced s0 s \<Longrightarrow> Q s) \<Longrightarrow> spec (balanced s0) m (\<lambda>_. Q)"
  by (rule spec_weaken [OF spec_mute])

lemma pumped_Continue: "pumped s0 Continue = balanced s0"
  by (simp add: pumped_def fun_eq_iff)

lemma balanced_pumped: "balanced s0 s \<Longrightarrow> pumped s0 r s"
  by (auto simp: pumped_def balanced_def)

text \<open>One more number, dropped or spoken.\<close>

lemma said_dropped: "said s0 fs n s \<Longrightarrow> said s0 fs (Suc n) (s\<lparr>ls_seq := ls_seq s + 1\<rparr>)"
  by (auto simp: said_def numbers_Suc add.assoc intro: subseq_order.trans list_emb_append2)

lemma said_spoken:
  assumes "said s0 fs n s" "audio_ok f" "f_seq f = ls_seq s"
  shows "said s0 (fs @ [f]) (Suc n) (s\<lparr> ls_seq := ls_seq s + 1, ls_out := ls_out s @ [encode f],
    ls_cnt := (ls_cnt s)\<lparr> lk_frames_sent := lk_frames_sent (ls_cnt s) + 1,
      lk_audio_ms_sent := lk_audio_ms_sent (ls_cnt s) + nominalFrameMs \<rparr> \<rparr>)"
  using assms by (auto simp: said_def numbers_Suc add.assoc nominalFrameMs_def intro: list_emb_append_mono)

lemma run_lg_env: "run_state (lg_env f) s = (let (x, e) = f (ls_env s) in (x, s\<lparr>ls_env := e\<rparr>))"
  by (simp add: lg_env_def)

lemma run_lg_count: "run_state (lg_count f) s = ((), s\<lparr>ls_cnt := f (ls_cnt s)\<rparr>)"
  by (simp add: lg_count_def)

lemma spec_write_audio:
  assumes "audio_ok f"
  shows "spec (\<lambda>s. \<exists>fs n. said s0 fs n (s\<lparr>ls_seq := f_seq f\<rparr>) \<and> ls_seq s = f_seq f + 1
           \<and> lk_frames_dropped (ls_cnt s) = lk_frames_dropped (ls_cnt s0) + (int n - int (length fs)))
     (write_frame h lg f)
     (\<lambda>ok s. \<exists>fs n. (if ok then said s0 fs n (s\<lparr> ls_cnt := (ls_cnt s)\<lparr> lk_frames_sent := lk_frames_sent (ls_cnt s) + 1,
            lk_audio_ms_sent := lk_audio_ms_sent (ls_cnt s) + nominalFrameMs \<rparr> \<rparr>)
            \<and> lk_frames_dropped (ls_cnt s) = lk_frames_dropped (ls_cnt s0) + (int n - int (length fs))
          else said s0 fs n s))"
proof (rule specI, elim exE conjE)
  fix s ok s' fs n
  assume said: "said s0 fs n (s\<lparr>ls_seq := f_seq f\<rparr>)" and seq: "ls_seq s = f_seq f + 1"
    and dropped: "lk_frames_dropped (ls_cnt s) = lk_frames_dropped (ls_cnt s0) + (int n - int (length fs))"
    and run: "run_state (write_frame h lg f) s = (ok, s')"
  obtain b e where w: "lh_write h (encode f) (ls_env s) = (b, e)" by fastforce
  show "\<exists>fs n. (if ok then said s0 fs n (s'\<lparr> ls_cnt := (ls_cnt s')\<lparr> lk_frames_sent := lk_frames_sent (ls_cnt s') + 1,
            lk_audio_ms_sent := lk_audio_ms_sent (ls_cnt s') + nominalFrameMs \<rparr> \<rparr>)
            \<and> lk_frames_dropped (ls_cnt s') = lk_frames_dropped (ls_cnt s0) + (int n - int (length fs))
          else said s0 fs n s')"
  proof (cases b)
    case True
    then have s': "ok" "s' = s\<lparr> ls_env := e, ls_out := ls_out s @ [encode f] \<rparr>"
      using run by (simp_all add: write_frame_def run_lg_env w)
    from said_spoken [OF said assms] seq dropped show ?thesis
      by (intro exI [of _ "fs @ [f]"] exI [of _ "Suc n"]) (auto simp: s' said_def)
  next
    case False
    obtain u s1 where fail: "run_state (fail_row h lg (sint (f_seq f)) None) (s\<lparr>ls_env := e\<rparr>) = (u, s1)" by (rule prod.exhaust)
    with False run have s': "\<not> ok" "s' = s1" by (simp_all add: write_frame_def run_lg_env w)
    have "mute (s\<lparr>ls_env := e\<rparr>) s1" using muted.fail_row_kept [of h lg] fail unfolding state_io_rel_def by (metis snd_conv)
    moreover have "said s0 fs (Suc n) (s\<lparr>ls_env := e\<rparr>)" using said_dropped [OF said] seq by (simp add: said_def)
    ultimately have "said s0 fs (Suc n) s1" by (metis said_mute)
    with s' show ?thesis by auto
  qed
qed

lemma spec_send_audio:
  assumes "length payload = frameBytes"
  shows "spec (balanced s0) (send_audio h lg payload) (pumped s0)"
proof -
  let ?chosen = "\<lambda>q s. \<exists>fs n. said s0 fs n (s\<lparr>ls_seq := q\<rparr>) \<and> ls_seq s = q + 1
           \<and> lk_frames_dropped (ls_cnt s) = lk_frames_dropped (ls_cnt s0) + (int n - int (length fs))"
  have chosen_env: "spec (?chosen q) (lg_env f) (\<lambda>_. ?chosen q)" for q and f :: "'a \<Rightarrow> 'b \<times> 'a"
    by (auto simp: spec_def run_lg_env said_def split: prod.splits)
  have dropped: "spec (?chosen q) (lg_count (\<lambda>c. c\<lparr>lk_frames_dropped := lk_frames_dropped c + 1\<rparr>)) (\<lambda>_. balanced s0)" for q
  proof (rule specI, elim exE conjE)
    fix s :: "'a load_state" and u s' fs n
    assume said: "said s0 fs n (s\<lparr>ls_seq := q\<rparr>)" "ls_seq s = q + 1"
      and d: "lk_frames_dropped (ls_cnt s) = lk_frames_dropped (ls_cnt s0) + (int n - int (length fs))"
      and run: "run_state (lg_count (\<lambda>c. c\<lparr>lk_frames_dropped := lk_frames_dropped c + 1\<rparr>)) s = (u, s')"
    from said_dropped [OF said(1)] said(2) d run show "balanced s0 s'"
      unfolding balanced_def by (intro exI [of _ fs] exI [of _ "Suc n"]) (auto simp: run_lg_count said_def)
  qed
  have taken: "spec (\<lambda>s. balanced s0 s \<and> ls_seq s = q) (State_Monad.update (\<lambda>s. s\<lparr>ls_seq := q + 1\<rparr>)) (\<lambda>_. ?chosen q)" for q
    by (auto simp: spec_def balanced_def said_def)
  have sent: "spec (?chosen q) (write_frame h lg (audio_frame lg q t payload)) (\<lambda>ok s. \<exists>fs n. (if ok then
            said s0 fs n (s\<lparr> ls_cnt := (ls_cnt s)\<lparr> lk_frames_sent := lk_frames_sent (ls_cnt s) + 1,
            lk_audio_ms_sent := lk_audio_ms_sent (ls_cnt s) + nominalFrameMs \<rparr> \<rparr>)
            \<and> lk_frames_dropped (ls_cnt s) = lk_frames_dropped (ls_cnt s0) + (int n - int (length fs))
          else said s0 fs n s))" for q t
    using spec_write_audio [of "audio_frame lg q t payload" s0 h lg] assms by (simp add: audio_frame_def audio_ok_def)
  have coin: "spec (?chosen q) (if lf_drop_pct (lg_cfg lg) > 0
      then do { x \<leftarrow> lg_env (lh_float h); State_Monad.return (x < lf_drop_pct (lg_cfg lg)) }
      else State_Monad.return False) (\<lambda>_. ?chosen q)" for q
    by (intro spec_if spec_bind [OF chosen_env] spec_return) auto
  have counted: "spec (\<lambda>s. \<exists>fs n. (if ok then
            said s0 fs n (s\<lparr> ls_cnt := (ls_cnt s)\<lparr> lk_frames_sent := lk_frames_sent (ls_cnt s) + 1,
            lk_audio_ms_sent := lk_audio_ms_sent (ls_cnt s) + nominalFrameMs \<rparr> \<rparr>)
            \<and> lk_frames_dropped (ls_cnt s) = lk_frames_dropped (ls_cnt s0) + (int n - int (length fs))
          else said s0 fs n s))
      (if ok then do {
           State_Monad.update (\<lambda>s. s\<lparr> ls_last_frame_at := now, ls_sent_at := (ls_sent_at s)(q \<mapsto> now) \<rparr>);
           lg_count (\<lambda>c. c\<lparr> lk_frames_sent := lk_frames_sent c + 1, lk_audio_ms_sent := lk_audio_ms_sent c + nominalFrameMs \<rparr>);
           State_Monad.return Continue }
         else State_Monad.return Halt) (pumped s0)" for ok q now
    by (cases ok) (auto simp: spec_def run_lg_count pumped_def balanced_def said_def)
  have spoken: "spec (?chosen q) (do {
        captured \<leftarrow> lg_env (lh_now h);
        now \<leftarrow> lg_env (lh_now h);
        ok \<leftarrow> write_frame h lg (audio_frame lg q captured payload);
        (if ok then do {
           State_Monad.update (\<lambda>s. s\<lparr> ls_last_frame_at := now, ls_sent_at := (ls_sent_at s)(q \<mapsto> now) \<rparr>);
           lg_count (\<lambda>c. c\<lparr> lk_frames_sent := lk_frames_sent c + 1, lk_audio_ms_sent := lk_audio_ms_sent c + nominalFrameMs \<rparr>);
           State_Monad.return Continue }
         else State_Monad.return Halt) }) (pumped s0)" for q
    by (intro spec_bind [OF chosen_env] spec_bind [OF sent] counted)
  have skipped: "spec (?chosen q) (do {
        lg_count (\<lambda>c. c\<lparr>lk_frames_dropped := lk_frames_dropped c + 1\<rparr>);
        State_Monad.return Continue }) (pumped s0)" for q
    by (intro spec_bind [OF dropped] spec_return balanced_pumped)
  show ?thesis
    unfolding send_audio_def Let_def
  proof (rule mutely)
    show "state_io_rel mute (if lf_jitter_ms (lg_cfg lg) > 0 then do {
        d \<leftarrow> lg_env (lh_intn h (lf_jitter_ms (lg_cfg lg) + 1));
        lg_env (\<lambda>e. ((), lh_sleep h (d * millisecond) e)) }
      else State_Monad.return ())" by (intro mute_intros)
  qed (rule spec_bind [OF spec_get], rule spec_weaken, rule spec_bind [OF taken], rule spec_bind [OF coin],
      rule spec_if, rule skipped, rule spoken, auto)
qed

lemma next_payload_length: "next_payload lg cur = Some (Some payload, cur') \<Longrightarrow> length payload = frameBytes"
  by (auto simp: next_payload_def Let_def split: prod.splits if_splits)

lemma spec_pump: "spec (balanced s0) (pump h lg legEnd n cur) (pumped s0)"
proof (induction n arbitrary: cur)
  case 0
  then show ?case by (simp add: spec_return balanced_pumped)
next
  case (Suc n)
  have turn: "spec (balanced s0) (send_next_payload h lg cur) (\<lambda>(r, cur'). pumped s0 r)"
    unfolding send_next_payload_def
    by (auto split: option.split intro!: spec_return spec_bind [OF spec_send_audio] dest: next_payload_length
        intro: balanced_pumped)
  have onward: "spec (pumped s0 r) (if r = Continue then pump h lg legEnd n cur' else State_Monad.return r) (pumped s0)" for r cur'
    by (cases r) (auto simp: pumped_Continue intro: Suc spec_return)
  show ?case
    by (simp only: pump.simps)
      (intro mutely mute_intros spec_if spec_return balanced_pumped spec_bind [OF turn], auto intro: onward)
qed

lemma mute_waited:
  "state_io_rel mute a \<Longrightarrow> state_io_rel mute b \<Longrightarrow> state_io_rel mute c \<Longrightarrow> (\<And>m. state_io_rel mute (d m)) \<Longrightarrow>
     state_io_rel mute (case w of WaitDone \<Rightarrow> a | WaitTimeout \<Rightarrow> b | WaitClosed \<Rightarrow> c | Waited m \<Rightarrow> d m)"
  by (cases w) simp_all

lemma mute_await_open: "state_io_rel mute (await_open h lg dialed limit n)"
proof (induction n)
  case 0
  then show ?case by (simp add: io_return [OF mute_order(1)])
next
  case (Suc n)
  show ?case by (simp only: await_open.simps Let_def) (intro mute_intros mute_waited muted.count_kept Suc, simp_all)
qed

lemma mute_await_final: "state_io_rel mute (await_final h lg ended limit n)"
proof (induction n)
  case 0
  then show ?case by (simp add: io_return [OF mute_order(1)])
next
  case (Suc n)
  show ?case by (simp only: await_final.simps) (intro mute_intros mute_waited muted.count_kept Suc, simp_all)
qed

section \<open>A whole session\<close>

text \<open>\<open>ms\<close> were written since \<open>s0\<close>, of \<open>n\<close> numbers taken.\<close>

definition spoke :: "'e load_state \<Rightarrow> frame list \<Rightarrow> nat \<Rightarrow> 'e load_state \<Rightarrow> bool" where
  "spoke s0 ms n s \<longleftrightarrow> ls_out s = ls_out s0 @ map encode ms \<and> ls_seq s = ls_seq s0 + of_nat n
     \<and> subseq (map f_seq ms) (numbers (ls_seq s0) n)"

lemma numbers_add: "numbers q (n + m) = numbers q n @ numbers (q + of_nat n) m"
proof (induction m)
  case 0
  then show ?case by (simp add: numbers_def)
next
  case (Suc m)
  then show ?case by (simp add: numbers_Suc add.assoc)
qed

lemma spoke_trans: "spoke s0 ms n s1 \<Longrightarrow> spoke s1 ms' m s2 \<Longrightarrow> spoke s0 (ms @ ms') (n + m) s2"
  by (auto simp: spoke_def numbers_add intro: list_emb_append_mono)

lemma spoke_mute: "spoke s0 ms n s \<Longrightarrow> mute s s' \<Longrightarrow> spoke s0 ms n s'"
  by (simp add: spoke_def mute_def)

lemma said_spoke: "said s0 fs n s \<Longrightarrow> spoke s0 fs n s \<and> list_all audio_ok fs"
  by (simp add: said_def spoke_def)

text \<open>Whatever the pump answers, it has only spoken audio.\<close>

lemma pumped_spoke: "pumped s0 r s \<Longrightarrow> \<exists>fs n. spoke s0 fs n s \<and> list_all audio_ok fs"
  by (auto simp: pumped_def balanced_def split: if_splits dest: said_spoke)

definition opens_with :: "'e load_host \<Rightarrow> load_stream \<Rightarrow> frame \<Rightarrow> bool" where
  "opens_with h lg f \<longleftrightarrow> f_type f = MsgControl \<and> f_payload f = lh_marshal h (start_json (lf_mode (lg_cfg lg)))"

definition closes_with :: "'e load_host \<Rightarrow> frame \<Rightarrow> bool" where
  "closes_with h f \<longleftrightarrow> f_type f = MsgControl \<and> f_payload f = lh_marshal h end_json"

text \<open>A session's messages: a start, audio, and perhaps an end; or none.\<close>

definition session_messages :: "'e load_host \<Rightarrow> load_stream \<Rightarrow> frame list \<Rightarrow> bool" where
  "session_messages h lg ms \<longleftrightarrow> ms = [] \<or> (\<exists>f fs tail. ms = f # fs @ tail \<and> opens_with h lg f \<and> list_all audio_ok fs
     \<and> (tail = [] \<or> (\<exists>g. tail = [g] \<and> closes_with h g)))"

definition telling :: "'e load_host \<Rightarrow> load_stream \<Rightarrow> 'e load_state \<Rightarrow> 'e load_state \<Rightarrow> bool" where
  "telling h lg s0 s \<longleftrightarrow> (\<exists>f fs n. spoke s0 (f # fs) n s \<and> opens_with h lg f \<and> list_all audio_ok fs)"

definition told :: "'e load_host \<Rightarrow> load_stream \<Rightarrow> 'e load_state \<Rightarrow> 'e load_state \<Rightarrow> bool" where
  "told h lg s0 s \<longleftrightarrow> (\<exists>ms n. spoke s0 ms n s \<and> session_messages h lg ms)"

lemma telling_told: "telling h lg s0 s \<Longrightarrow> told h lg s0 s"
  unfolding telling_def told_def session_messages_def by fastforce

lemma telling_mute: "telling h lg s0 s \<Longrightarrow> mute s s' \<Longrightarrow> telling h lg s0 s'"
  unfolding telling_def by (metis spoke_mute)

lemma told_mute: "told h lg s0 s \<Longrightarrow> mute s s' \<Longrightarrow> told h lg s0 s'"
  unfolding told_def by (metis spoke_mute)

lemma spec_telling: "state_io_rel mute m \<Longrightarrow> spec (telling h lg s0) m (\<lambda>_. telling h lg s0)"
  by (erule spec_keeps, erule (1) telling_mute)

lemma spec_told: "state_io_rel mute m \<Longrightarrow> spec (told h lg s0) m (\<lambda>_. told h lg s0)"
  by (erule spec_keeps, erule (1) told_mute)

lemmas tellingly = spec_bind [OF spec_telling]
lemmas toldly = spec_bind [OF spec_told]

lemma control_frame_simps [simp]:
  "f_type (control_frame q body) = MsgControl" "f_seq (control_frame q body) = q" "f_payload (control_frame q body) = body"
  by (simp_all add: control_frame_def)

lemma run_send_control:
  assumes "run_state (send_control h lg body) s = (ok, s')"
  shows "if ok then spoke s [control_frame (ls_seq s) (lh_marshal h body)] 1 s' else mute s s'"
proof -
  let ?f = "control_frame (ls_seq s) (lh_marshal h body)"
  obtain b e where w: "lh_write h (encode ?f) (ls_env s) = (b, e)" by fastforce
  obtain u s1 where fail: "run_state (fail_row h lg (sint (f_seq ?f)) None) (s\<lparr>ls_env := e\<rparr>) = (u, s1)" by (rule prod.exhaust)
  then have "mute (s\<lparr>ls_env := e\<rparr>) s1"
    using muted.fail_row_kept [of h lg] unfolding state_io_rel_def by (metis snd_conv)
  then have "mute s s1" by (simp add: mute_def)
  with assms fail show ?thesis
    by (cases b) (auto simp: send_control_def write_frame_def run_lg_env w spoke_def numbers_def)
qed

lemma mute_spoke: "mute s0 s \<Longrightarrow> spoke s0 [] 0 s"
  by (simp add: mute_def spoke_def)

lemma spec_start: "spec (mute s0) (send_control h lg (start_json (lf_mode (lg_cfg lg))))
    (\<lambda>ok s. if ok then telling h lg s0 s else mute s0 s)"
proof (rule specI)
  fix s s' :: "'a load_state" and ok
  let ?f = "control_frame (ls_seq s) (lh_marshal h (start_json (lf_mode (lg_cfg lg))))"
  assume "mute s0 s" and run: "run_state (send_control h lg (start_json (lf_mode (lg_cfg lg)))) s = (ok, s')"
  show "if ok then telling h lg s0 s' else mute s0 s'"
  proof (cases ok)
    case True
    with run_send_control [OF run] have "spoke s [?f] 1 s'" by simp
    from spoke_trans [OF mute_spoke [OF \<open>mute s0 s\<close>] this] have "spoke s0 (?f # []) 1 s'" by simp
    moreover have "opens_with h lg ?f" by (simp add: opens_with_def)
    ultimately show ?thesis using True unfolding telling_def by (metis list.pred_inject(1))
  next
    case False
    with run_send_control [OF run] \<open>mute s0 s\<close> show ?thesis by (auto intro: transpD [OF mute_order(2)])
  qed
qed

lemma spec_pump_telling: "spec (telling h lg s0) (pump h lg legEnd n cur) (\<lambda>_. telling h lg s0)"
proof (rule specI)
  fix s s' :: "'a load_state" and r
  assume t: "telling h lg s0 s" and run: "run_state (pump h lg legEnd n cur) s = (r, s')"
  from specD [OF spec_pump balanced_refl run] obtain as m where "spoke s as m s'" "list_all audio_ok as"
    using pumped_spoke by blast
  moreover from t obtain f fs k where "spoke s0 (f # fs) k s" "opens_with h lg f" "list_all audio_ok fs"
    unfolding telling_def by blast
  ultimately have "spoke s0 (f # fs @ as) (k + m) s'" "opens_with h lg f" "list_all audio_ok (fs @ as)"
    using spoke_trans by fastforce+
  then show "telling h lg s0 s'" unfolding telling_def by blast
qed

lemma spec_end: "spec (telling h lg s0) (send_control h lg end_json) (\<lambda>_. told h lg s0)"
proof (rule specI)
  fix s s' :: "'a load_state" and ok
  assume t: "telling h lg s0 s" and run: "run_state (send_control h lg end_json) s = (ok, s')"
  let ?g = "control_frame (ls_seq s) (lh_marshal h end_json)"
  from t obtain f fs k where f: "spoke s0 (f # fs) k s" "opens_with h lg f" "list_all audio_ok fs"
    unfolding telling_def by blast
  show "told h lg s0 s'"
  proof (cases ok)
    case True
    with run_send_control [OF run] have "spoke s0 (f # fs @ [?g]) (k + 1) s'"
      using spoke_trans [OF f(1), of "[?g]" 1 s'] by simp
    moreover have "closes_with h ?g" by (simp add: closes_with_def)
    ultimately show ?thesis using f(2,3) unfolding told_def session_messages_def by blast
  next
    case False
    with run_send_control [OF run] t show ?thesis by (auto intro: telling_told elim: telling_mute)
  qed
qed

lemma spec_finish: "spec (telling h lg s0) (finish h lg n) (\<lambda>_. told h lg s0)"
  unfolding finish_def
proof (rule tellingly)
  fix ended
  have "spec (told h lg s0) (if \<not> ok then State_Monad.return Halt else do {
        now \<leftarrow> lg_env (lh_now h); await_final h lg ended (now + finalWaitTimeout) n }) (\<lambda>_. told h lg s0)" for ok
    by (intro spec_if spec_return toldly spec_told mute_intros mute_await_final)
  then show "spec (telling h lg s0) (do {
     ok \<leftarrow> send_control h lg end_json;
     (if \<not> ok then State_Monad.return Halt
      else do { now \<leftarrow> lg_env (lh_now h); await_final h lg ended (now + finalWaitTimeout) n }) }) (\<lambda>_. told h lg s0)"
    by (rule spec_bind [OF spec_end])
qed (intro mute_intros)

lemma spec_in_session: "spec (telling h lg s0) (in_session h lg legEnd closing n) (\<lambda>_. told h lg s0)"
  unfolding in_session_def
  by (rule spec_bind [OF spec_pump_telling]) (intro spec_if spec_return telling_told spec_finish)

lemma spec_run_leg: "spec (mute s0) (run_leg h lg legEnd closing n) (\<lambda>_. told h lg s0)"
proof -
  have silent: "spec (mute s0) m (\<lambda>_. mute s0)" if "state_io_rel mute m" for m :: "('a, 'x) load_act"
    by (rule spec_keeps [OF that]) (auto intro: transpD [OF mute_order(2)])
  have unsaid: "told h lg s0 s" if "mute s0 s" for s
    unfolding told_def session_messages_def using mute_spoke [OF that] by blast
  have live: "spec (telling h lg s0) (do {
        now \<leftarrow> lg_env (lh_now h);
        r \<leftarrow> await_open h lg dialed (now + 15 * second) n;
        (if r \<noteq> Continue then State_Monad.return r
         else do {
           lg_count (\<lambda>c. c\<lparr>lk_streams_active := lk_streams_active c + 1\<rparr>);
           r \<leftarrow> in_session h lg legEnd closing n;
           lg_count (\<lambda>c. c\<lparr>lk_streams_active := lk_streams_active c - 1\<rparr>);
           State_Monad.return r }) }) (\<lambda>_. told h lg s0)" for dialed
    by (rule tellingly, rule mute_env, rule tellingly, rule mute_await_open, rule spec_if, rule spec_return,
      erule telling_told, rule tellingly, rule muted.count_kept, simp, rule spec_bind [OF spec_in_session],
      intro toldly spec_return muted.count_kept) simp_all
  have started: "spec (\<lambda>s. if ok then telling h lg s0 s else mute s0 s)
      (if \<not> ok then State_Monad.return Halt else m) (\<lambda>_. told h lg s0)"
    if "spec (telling h lg s0) m (\<lambda>_. told h lg s0)" for ok and m :: "('a, leg) load_act"
  proof (cases ok)
    case True
    then show ?thesis using that by simp
  next
    case False
    then show ?thesis by simp (rule spec_return, erule unsaid)
  qed
  have refused: "spec (mute s0) (do { fail_row h lg (- 1) None; State_Monad.return Halt }) (\<lambda>_. told h lg s0)"
    by (intro spec_bind [OF silent] mute_intros spec_return unsaid)
  show ?thesis
    unfolding run_leg_def
    by (intro spec_bind [OF silent] spec_if refused spec_bind [OF spec_start] started live mute_env)
qed


lemma start_decoded:
  assumes "parse body = Some (start_json mode)"
  shows "\<exists>m. decode_control parse body = Inr (CtlStart m) \<and> ss_mode m = mode
    \<and> (mode \<in> {ModeOnline, ModeOffline} \<longrightarrow> validate_session_start m = None)"
  using assms
  by (simp add: decode_control_def control_type_def decode_session_start_def struct_of_def start_json_def
      decode_field_def decode_into_def members_def fold_eq_def lower_char_def validate_session_start_def
      sampleRateHz_def RequiredSampleRateHz_def RequiredEncoding_def RequiredChannels_def nominalFrameMs_def
      ModeOnline_def ModeOffline_def)

lemma end_decoded: "parse body = Some end_json \<Longrightarrow> decode_control parse body = Inr (CtlEnd ''session.end'')"
  by (simp add: decode_control_def control_type_def struct_of_def end_json_def
      decode_field_def decode_into_def members_def fold_eq_def lower_char_def)

lemma audio_ok_valid: "audio_ok f \<Longrightarrow> f_type f = MsgAudio \<and> validate_audio_frame f = None"
  by (simp add: audio_ok_def validate_audio_frame_def frameSamples_def frameBytes_def BytesPerSample_def)

section \<open>The gateway's validator on what the client says\<close>

lemma validate_all_increasing:
  assumes "sorted_wrt (<) ss" "- 1 \<notin> set ss" "\<forall>x \<in> set ss. sv_expected v \<le> x \<and> unat x < b"
    "unat (sv_expected v) \<le> b" "validate_all v ss = (acc, gaps, v')"
  shows "acc = ss \<and> unat (sv_expected v') \<le> b"
  using assms
proof (induction ss arbitrary: v acc gaps v')
  case Nil
  then show ?case by simp
next
  case (Cons q ss)
  obtain oc r v1 where one: "validate v q = ((oc, r), v1)" by (metis surj_pair)
  obtain acc' gaps' where rest: "validate_all v1 ss = (acc', gaps', v')"
    using Cons.prems(5) by (simp add: one split: prod.splits)
  have acc: "acc = (if oc = SeqDuplicate then acc' else q # acc')" using Cons.prems(5) by (auto simp: one rest)
  have v1: "oc \<noteq> SeqDuplicate" "sv_expected v1 = q + 1"
    using one Cons.prems(3) by (auto simp: validate_def split: if_splits)
  have q: "unat (q + 1) = Suc (unat q)" using Cons.prems(2) by (intro unat_plus_one) auto
  have "sv_expected v1 \<le> x \<and> unat x < b" if "x \<in> set ss" for x
    using Cons.prems(1,3) that q by (auto simp: v1 word_le_nat_alt word_less_nat_alt Suc_le_eq)
  moreover have "unat (sv_expected v1) \<le> b" using Cons.prems(3) q by (simp add: v1 Suc_le_eq)
  ultimately have "acc' = ss \<and> unat (sv_expected v') \<le> b"
    using Cons.prems(1,2) by (intro Cons.IH [OF _ _ _ _ rest]) auto
  with acc v1 show ?case by simp
qed

lemma unat_add_small: "unat q + i < 2 ^ 64 \<Longrightarrow> unat (q + of_nat i :: u64) = unat q + i"
  by (simp add: unat_word_ariths unsigned_of_nat take_bit_eq_mod)

lemma numbers_nats: "unat q + n \<le> 2 ^ 64 \<Longrightarrow> map unat (numbers q n) = [unat q ..< unat q + n]"
proof (induction n)
  case 0
  then show ?case by (simp add: numbers_def)
next
  case (Suc n)
  then show ?case by (simp add: numbers_Suc unat_add_small)
qed

lemma subseq_sorted_wrt: "subseq xs ys \<Longrightarrow> sorted_wrt P ys \<Longrightarrow> sorted_wrt P xs"
  by (induction rule: list_emb.induct) (auto dest: list_emb_set)

section \<open>Counting finals\<close>

definition final_message :: "final_event \<Rightarrow> message" where
  "final_message fe = [''type'' \<mapsto> JString ''final'', ''session_id'' \<mapsto> JString (fe_session_id fe),
     ''utterance_id'' \<mapsto> JString (fe_utterance_id fe), ''seq_start'' \<mapsto> JInt (int (unat (fe_seq_start fe))),
     ''seq_end'' \<mapsto> JInt (int (unat (fe_seq_end fe))), ''text'' \<mapsto> JString (fe_text fe)]"

fun count_finals :: "message list \<Rightarrow> ('e, unit) load_act" where
  "count_finals [] = State_Monad.return ()"
| "count_finals (m # ms) = do { count_final m; count_finals ms }"

lemma run_count_final:
  "run_state (count_final ev) s = ((), s\<lparr> ls_seen_final := (ls_seen_final s)(message_text ev ''utterance_id'' := True),
     ls_cnt := (ls_cnt s)\<lparr> lk_finals := lk_finals (ls_cnt s) + 1, lk_duplicate_finals := lk_duplicate_finals (ls_cnt s)
       + (if ls_seen_final s (message_text ev ''utterance_id'') then 1 else 0) \<rparr> \<rparr>)"
  by (simp add: count_final_def Let_def run_lg_count)

lemma final_message_type [simp]:
  "type_of_message (final_message fe) = ''final''" "message_text (final_message fe) ''utterance_id'' = fe_utterance_id fe"
  by (simp_all add: type_of_message_def message_text_def final_message_def)

lemma run_count_finals:
  "run_state (count_finals ms) s = ((), s') \<Longrightarrow>
     lk_finals (ls_cnt s') = lk_finals (ls_cnt s) + int (length ms)
     \<and> lk_duplicate_finals (ls_cnt s') = lk_duplicate_finals (ls_cnt s) + int (length ms)
         - int (card ((\<lambda>m. message_text m ''utterance_id'') ` set ms - Collect (ls_seen_final s)))"
proof (induction ms arbitrary: s)
  case (Cons m ms)
  let ?u = "message_text m ''utterance_id''"
  let ?ids = "(\<lambda>m. message_text m ''utterance_id'') ` set ms"
  let ?s1 = "snd (run_state (count_final m) s)"
  have "run_state (count_finals ms) ?s1 = ((), s')" using Cons.prems by (simp add: run_count_final)
  note IH = Cons.IH [OF this]
  have seen: "Collect (ls_seen_final ?s1) = insert ?u (Collect (ls_seen_final s))" by (auto simp: run_count_final)
  have "card (insert ?u ?ids - Collect (ls_seen_final s))
      = card (?ids - insert ?u (Collect (ls_seen_final s))) + (if ls_seen_final s ?u then 0 else 1)"
  proof (cases "ls_seen_final s ?u")
    case True
    then have eq: "insert ?u ?ids - Collect (ls_seen_final s) = ?ids - insert ?u (Collect (ls_seen_final s))" by auto
    show ?thesis unfolding eq using True by simp
  next
    case False
    then have eq: "insert ?u ?ids - Collect (ls_seen_final s) = insert ?u (?ids - insert ?u (Collect (ls_seen_final s)))"
      by auto
    show ?thesis unfolding eq using False by (subst card_insert_disjoint) simp_all
  qed
  moreover have "lk_finals (ls_cnt ?s1) = lk_finals (ls_cnt s) + 1"
      "lk_duplicate_finals (ls_cnt ?s1) = lk_duplicate_finals (ls_cnt s) + (if ls_seen_final s ?u then 1 else 0)"
    by (simp_all add: run_count_final)
  moreover have ids: "(\<lambda>m. message_text m ''utterance_id'') ` set (m # ms) = insert ?u ?ids" by simp
  ultimately show ?case using IH [THEN conjunct1] IH [THEN conjunct2] unfolding seen ids
    by (cases "ls_seen_final s ?u") (simp_all del: insert_iff)
qed simp

section \<open>Pacing\<close>

text \<open>
  What \<open>pump\<close> relies on of its ticker, made at \<open>t0\<close>: \<open>k\<close> ticks take at least \<open>k\<close> intervals of
  the clock (a slow reader may find the next tick waiting, a missed tick is dropped).
\<close>

definition paced :: "('e \<Rightarrow> time) \<Rightarrow> ('e \<Rightarrow> nat) \<Rightarrow> time \<Rightarrow> 'e load_host \<Rightarrow> bool" where
  "paced tm tk t0 h \<longleftrightarrow> (\<forall>e. fst (lh_now h e) = tm e) \<and> (\<forall>e. t0 + nominalFrameMs * millisecond * int (tk e) \<le> tm e)
     \<and> (\<forall>e. fst (lh_tick h e) \<longrightarrow> tk (snd (lh_tick h e)) = Suc (tk e))
     \<and> (\<forall>e. tk (snd (lh_now h e)) = tk e) \<and> (\<forall>e. tk (snd (lh_ready h e)) = tk e)
     \<and> (\<forall>r e. tk (lh_offer h r e) = tk e) \<and> (\<forall>b e. tk (snd (lh_write h b e)) = tk e)
     \<and> (\<forall>n e. tk (snd (lh_intn h n e)) = tk e) \<and> (\<forall>e. tk (snd (lh_float h e)) = tk e)
     \<and> (\<forall>d e. tk (lh_sleep h d e) = tk e)"

definition same_tick :: "('e \<Rightarrow> nat) \<Rightarrow> 'e load_state \<Rightarrow> 'e load_state \<Rightarrow> bool" where
  "same_tick tk s s' \<longleftrightarrow> tk (ls_env s') = tk (ls_env s)"

lemma same_tick_order: "reflp (same_tick tk)" "transp (same_tick tk)"
  by (auto simp: same_tick_def reflp_def transp_def)

lemma same_tick_env: "(\<And>e. tk (snd (f e)) = tk e) \<Longrightarrow> state_io_rel (same_tick tk) (lg_env f)"
  by (auto simp: state_io_rel_def lg_env_def same_tick_def split: prod.splits) (metis snd_conv)

lemma paced_receiving: "paced tm tk t0 h \<Longrightarrow> receiving (same_tick tk) h"
  by unfold_locales (auto simp: paced_def same_tick_order intro!: same_tick_env, simp_all add: same_tick_def)

lemma paced_send:
  assumes "paced tm tk t0 h"
  shows "state_io_rel (same_tick tk) (send_next_payload h lg cur)"
proof -
  note r = paced_receiving [OF assms]
  note basics = io_return [OF same_tick_order(1)] io_get [OF same_tick_order(1)] io_bind [OF same_tick_order(2)]
    io_if [of "same_tick tk"]
  have env: "state_io_rel (same_tick tk) (lg_env (lh_now h))" "state_io_rel (same_tick tk) (lg_env (lh_write h b))"
    "state_io_rel (same_tick tk) (lg_env (lh_intn h k))" "state_io_rel (same_tick tk) (lg_env (lh_float h))"
    "state_io_rel (same_tick tk) (lg_env (\<lambda>e. ((), lh_sleep h d e)))" for b k d
    using assms by (auto simp: paced_def intro: same_tick_env)
  have writing: "state_io_rel (same_tick tk) (write_frame h lg f)" for f
    unfolding write_frame_def
    by (intro basics env receiving.fail_row_kept [OF r] io_update) (simp add: same_tick_def)
  have counts: "state_io_rel (same_tick tk) (lg_count f)" for f
    unfolding lg_count_def by (rule io_update) (simp add: same_tick_def)
  have send: "state_io_rel (same_tick tk) (send_audio h lg payload)" for payload
    unfolding send_audio_def Let_def
    by (intro basics env writing counts io_update) (simp_all add: same_tick_def)
  show ?thesis
    unfolding send_next_payload_def by (auto split: option.split intro!: basics send)
qed

lemma send_audio_result: "run_state (send_audio h lg payload) s = (r, s') \<Longrightarrow> r = Continue \<or> r = Halt"
  by (auto simp: send_audio_def Let_def split: prod.splits if_splits)

lemma next_payload_defined: "frameBytes \<le> length (cl_pcm (lg_clip lg)) \<Longrightarrow> next_payload lg cur \<noteq> None"
  by (simp add: next_payload_def Let_def split: prod.split)

lemma send_next_result:
  "frameBytes \<le> length (cl_pcm (lg_clip lg)) \<Longrightarrow> run_state (send_next_payload h lg cur) s = ((r, cur'), s') \<Longrightarrow>
     r = Continue \<or> r = Halt"
  using next_payload_defined [of lg cur] send_audio_result
  by (fastforce simp: send_next_payload_def split: option.splits prod.splits)

lemma pump_ends:
  assumes "paced tm tk t0 h" "legEnd \<le> t0 + nominalFrameMs * millisecond * int m"
    "frameBytes \<le> length (cl_pcm (lg_clip lg))"
  shows "m \<le> tk (ls_env s) + n \<Longrightarrow> run_state (pump h lg legEnd (Suc n) cur) s = (r, s') \<Longrightarrow> r = Continue \<or> r = Halt"
proof (induction n arbitrary: cur s)
  case 0
  obtain now e where now: "lh_now h (ls_env s) = (now, e)" by fastforce
  then have "now = tm (ls_env s)" using assms(1) unfolding paced_def by (metis fst_conv)
  moreover have "t0 + nominalFrameMs * millisecond * int (tk (ls_env s)) \<le> tm (ls_env s)" using assms(1) by (simp add: paced_def)
  moreover have "nominalFrameMs * millisecond * int m \<le> nominalFrameMs * millisecond * int (tk (ls_env s))"
    using 0(1) by (simp add: nominalFrameMs_def)
  ultimately have "\<not> now < legEnd" using assms(2) by linarith
  with 0(2) now show ?case by (simp add: run_lg_env)
next
  case (Suc n)
  obtain now e where now: "lh_now h (ls_env s) = (now, e)" by fastforce
  obtain b e1 where tick: "lh_tick h e = (b, e1)" by fastforce
  show ?case
  proof (cases "now < legEnd \<and> b")
    case False
    with Suc.prems(2) now tick show ?thesis by (subst (asm) pump.simps) (auto simp: run_lg_env split: if_splits)
  next
    case True
    let ?s1 = "s\<lparr>ls_env := e1\<rparr>"
    obtain u s2 where drained: "run_state (drain h lg) ?s1 = (u, s2)" by (rule prod.exhaust)
    obtain x cur' s3 where sent: "run_state (send_next_payload h lg cur) s2 = ((x, cur'), s3)"
      by (metis prod.exhaust)
    have "tk e = tk (ls_env s)" "tk e1 = Suc (tk e)"
      using assms(1) now tick True unfolding paced_def by (metis fst_conv snd_conv)+
    moreover have "tk (ls_env s2) = tk e1" "tk (ls_env s3) = tk (ls_env s2)"
      using receiving.drain_kept [OF paced_receiving [OF assms(1)], of lg] paced_send [OF assms(1), of lg cur] drained sent
      by (auto simp: state_io_rel_def same_tick_def) (metis load_state.select_convs(9) load_state.surjective load_state.update_convs(9) snd_conv)+
    ultimately have room: "m \<le> tk (ls_env s3) + n" using Suc.prems(1) by simp
    have "run_state (if x = Continue then pump h lg legEnd (Suc n) cur' else State_Monad.return x) s3 = (r, s')"
      using Suc.prems(2) True
      by (subst (asm) pump.simps) (simp add: run_lg_env now tick drained sent del: pump.simps)
    then show ?thesis using Suc.IH [OF room] send_next_result [OF assms(3) sent] by (cases "x = Continue") auto
  qed
qed


section \<open>A concrete client\<close>

definition demo_load_host :: "nat load_host" where
  "demo_load_host = \<lparr> lh_now = (\<lambda>e. (int e * millisecond, e)), lh_alive = (\<lambda>e. (True, e)), lh_delay = (\<lambda>_ e. (True, e)),
     lh_tick = (\<lambda>e. (True, e + 80)), lh_dial = (\<lambda>e. (True, e)), lh_write = (\<lambda>_ e. (True, e)), lh_ready = (\<lambda>e. ([], e)),
     lh_wait = (\<lambda>_ e. (Waited (True, Some (JObject [(''type'', JString ''ack'')])), e)), lh_intn = (\<lambda>_ e. (0, e)),
     lh_float = (\<lambda>e. (0, e)), lh_sleep = (\<lambda>_ e. e), lh_offer = (\<lambda>_ e. e),
     lh_marshal = (\<lambda>v. if v = end_json then [1] else [0]) \<rparr>"

definition demo_parse :: "byte list \<Rightarrow> json option" where
  "demo_parse b = Some (if b = [1] then end_json else start_json ''online'')"

definition demo_load_cfg :: load_config where
  "demo_load_cfg = \<lparr> lf_streams = 1, lf_ramp = 0, lf_duration = second, lf_speech_ratio = 1, lf_jitter_ms = 0,
     lf_drop_pct = 0, lf_reconnect_every = 0, lf_mode = ''online'', lf_corpus_dir = '''', lf_ws_url = '''', lf_out = '''',
     lf_seed = 1, lf_control_addr = '''' \<rparr>"

definition demo_load_stream :: load_stream where
  "demo_load_stream = \<lparr> lg_id = 0, lg_cfg = demo_load_cfg,
     lg_clip = \<lparr> cl_sample_rate_hz = 16000, cl_channels = 1, cl_bits_per_sample = 16, cl_pcm = replicate frameBytes 0 \<rparr>,
     lg_start = 0 \<rparr>"

definition demo_load_state :: "nat load_state" where
  "demo_load_state = \<lparr> ls_seq = 1, ls_last_acked_seq = 0, ls_last_frame_at = 0, ls_sent_at = Map.empty, ls_pending = None,
     ls_seen_final = (\<lambda>_. False), ls_cnt = no_counts, ls_out = [], ls_env = 0 \<rparr>"

lemmas demo_load = demo_load_host_def demo_load_cfg_def demo_load_stream_def demo_load_state_def no_counts_def

lemmas run_load = run_lg_env run_lg_count write_frame_def send_control_def send_audio_def send_next_payload_def drain_def
  lg_emit_def build_event_def offer_row_def ms_since_def read_message_def type_of_message_def message_text_def Let_def

lemma demo_payload: "next_payload demo_load_stream (k, 0) = Some (Some (replicate frameBytes 0), frameBytes, 0)"
  if "k = 0 \<or> k = frameBytes"
  using that by (auto simp: next_payload_def demo_load sub_bytes_def frameBytes_def)

lemma demo_fields:
  "lg_cfg demo_load_stream = demo_load_cfg" "lh_now demo_load_host e = (int e * millisecond, e)"
  "lh_tick demo_load_host e = (True, e + 80)" "lh_ready demo_load_host e = ([], e)" "lh_write demo_load_host b e = (True, e)"
  "lh_dial demo_load_host e = (True, e)" "lh_offer demo_load_host r e = e"
  "lh_wait demo_load_host t e = (Waited (True, Some (JObject [(''type'', JString ''ack'')])), e)"
  "lf_jitter_ms demo_load_cfg = 0" "lf_drop_pct demo_load_cfg = 0" "lf_mode demo_load_cfg = ''online''"
  by (simp_all add: demo_load)

lemma demo_pump:
  obtains s' where "run_state (pump demo_load_host demo_load_stream (100 * millisecond) 3 (0, 0)) demo_load_state = (Continue, s')"
    "lk_frames_sent (ls_cnt s') = 2" "lk_frames_dropped (ls_cnt s') = 0"
  by (simp add: numeral_3_eq_3 run_load demo_payload demo_fields demo_load_state_def no_counts_def)

lemma demo_leg:
  obtains s' where "run_state (run_leg demo_load_host demo_load_stream (100 * millisecond) False 3) demo_load_state = (Continue, s')"
    "length (ls_out s') = 3"
  by (simp add: run_leg_def in_session_def numeral_3_eq_3 run_load demo_payload demo_fields demo_load_state_def no_counts_def)

section \<open>Properties\<close>

text \<open>
  C34: the load generator speaks the gateway's protocol. Whatever happens on a connection, the
  messages written on it are none, or a session.start the gateway's decoder accepts and its rules
  allow, then audio frames that pass its duration check, then at most one session.end; every
  message decodes to the frame that was meant, and their sequence numbers are consecutive but
  for the dropped ones.
\<close>

theorem loadgen_speaks_the_protocol:
  assumes "run_state (run_leg h lg legEnd closing n) s = (r, s')"
    "parse (lh_marshal h (start_json (lf_mode (lg_cfg lg)))) = Some (start_json (lf_mode (lg_cfg lg)))"
    "parse (lh_marshal h end_json) = Some end_json" "lf_mode (lg_cfg lg) \<in> {ModeOnline, ModeOffline}"
  shows "\<exists>ms k. ls_out s' = ls_out s @ map encode ms \<and> ls_seq s' = ls_seq s + of_nat k
     \<and> subseq (map f_seq ms) (numbers (ls_seq s) k) \<and> (\<forall>f \<in> set ms. decode (encode f) = Inr f)
     \<and> (ms = [] \<or> (\<exists>f m fs tail. ms = f # fs @ tail
          \<and> decode_control parse (f_payload f) = Inr (CtlStart m) \<and> ss_mode m = lf_mode (lg_cfg lg)
          \<and> f_type f = MsgControl \<and> validate_session_start m = None
          \<and> (\<forall>a \<in> set fs. f_type a = MsgAudio \<and> validate_audio_frame a = None)
          \<and> (tail = [] \<or> (\<exists>g. tail = [g] \<and> f_type g = MsgControl
               \<and> decode_control parse (f_payload g) = Inr (CtlEnd ''session.end'')))))"
proof -
  have "told h lg s s'" by (rule specD [OF spec_run_leg _ assms(1)]) (simp add: mute_def)
  then obtain ms k where ms: "spoke s ms k s'" "session_messages h lg ms" unfolding told_def by blast
  show ?thesis
  proof (cases "ms = []")
    case True
    with ms(1) show ?thesis by (intro exI [of _ ms] exI [of _ k]) (simp add: spoke_def)
  next
    case False
    with ms(2) obtain f fs tail where p: "ms = f # fs @ tail" "opens_with h lg f" "list_all audio_ok fs"
      "tail = [] \<or> (\<exists>g. tail = [g] \<and> closes_with h g)" unfolding session_messages_def by blast
    obtain m where m: "decode_control parse (f_payload f) = Inr (CtlStart m)" "ss_mode m = lf_mode (lg_cfg lg)"
      "validate_session_start m = None"
      using start_decoded [of parse "f_payload f" "lf_mode (lg_cfg lg)"] p(2) assms(2,4) unfolding opens_with_def by auto
    have f: "f_type f = MsgControl" using p(2) by (simp add: opens_with_def)
    have audio: "\<forall>a \<in> set fs. f_type a = MsgAudio \<and> validate_audio_frame a = None"
      using p(3) audio_ok_valid by (auto simp: list_all_iff)
    have close: "tail = [] \<or> (\<exists>g. tail = [g] \<and> f_type g = MsgControl
        \<and> decode_control parse (f_payload g) = Inr (CtlEnd ''session.end''))"
      using p(4) end_decoded [of parse] assms(3) unfolding closes_with_def by auto
    have "\<forall>f \<in> set ms. decode (encode f) = Inr f"
      using f audio close by (auto simp: p(1) intro: decode_encode_aux)
    with ms(1) p(1) m f audio close show ?thesis unfolding spoke_def by blast
  qed
qed

theorem loadgen_speaks_the_protocol_witness:
  "\<exists>s' f a b. run_state (run_leg demo_load_host demo_load_stream (100 * millisecond) False 3) demo_load_state = (Continue, s')
     \<and> ls_out s' = map encode [f, a, b] \<and> decode (encode a) = Inr a
     \<and> (\<exists>m. decode_control demo_parse (f_payload f) = Inr (CtlStart m) \<and> validate_session_start m = None)"
proof -
  obtain s' where run: "run_state (run_leg demo_load_host demo_load_stream (100 * millisecond) False 3) demo_load_state = (Continue, s')"
    and three: "length (ls_out s') = 3" by (rule demo_leg)
  have start: "demo_parse (lh_marshal demo_load_host (start_json (lf_mode (lg_cfg demo_load_stream))))
      = Some (start_json (lf_mode (lg_cfg demo_load_stream)))"
    by (simp add: demo_load demo_parse_def start_json_def end_json_def)
  have closing: "demo_parse (lh_marshal demo_load_host end_json) = Some end_json"
    by (simp add: demo_load_host_def demo_parse_def)
  have mode: "lf_mode (lg_cfg demo_load_stream) \<in> {ModeOnline, ModeOffline}" by (simp add: demo_fields ModeOnline_def)
  from loadgen_speaks_the_protocol [OF run start closing mode] obtain ms where
    out: "ls_out s' = ls_out demo_load_state @ map encode ms" and all: "\<forall>f \<in> set ms. decode (encode f) = Inr f"
    and first: "ms = [] \<or> (\<exists>f m fs tail. ms = f # fs @ tail \<and> decode_control demo_parse (f_payload f) = Inr (CtlStart m)
      \<and> validate_session_start m = None)" by blast
  from out three have "length ms = 3" by (simp add: demo_load_state_def)
  then obtain f a b where ms: "ms = [f, a, b]" by (auto simp: length_Suc_conv numeral_3_eq_3)
  with first have "\<exists>m. decode_control demo_parse (f_payload f) = Inr (CtlStart m) \<and> validate_session_start m = None" by auto
  with run out all ms show ?thesis by (auto simp: demo_load_state_def)
qed



text \<open>
  C36: a paced leg ends. If \<open>k\<close> ticks of its ticker take at least \<open>k\<close> times 80 ms, a leg of a
  client whose clip holds at least one frame is over after as many turns as its length holds
  ticks and one more, whatever the gateway sends meanwhile; but a client with a shorter clip
  that is to speak without pauses panics at its first frame.
\<close>

theorem paced_leg_ends:
  assumes "paced tm tk t0 h" "legEnd \<le> t0 + nominalFrameMs * millisecond * int m" "m \<le> tk (ls_env s) + n"
    "run_state (pump h lg legEnd (Suc n) cur) s = (r, s')"
  shows "(frameBytes \<le> length (cl_pcm (lg_clip lg)) \<longrightarrow> r = Continue \<or> r = Halt)
    \<and> (length (cl_pcm (lg_clip lg)) < frameBytes \<and> lf_speech_ratio (lg_cfg lg) = 1 \<and> snd cur \<le> 0 \<longrightarrow>
         r = Panicked \<or> \<not> tm (ls_env s) < legEnd \<or> \<not> fst (lh_tick h (snd (lh_now h (ls_env s)))))"
proof (intro conjI impI)
  assume "frameBytes \<le> length (cl_pcm (lg_clip lg))"
  with assms show "r = Continue \<or> r = Halt" by (intro pump_ends)
next
  assume short: "length (cl_pcm (lg_clip lg)) < frameBytes \<and> lf_speech_ratio (lg_cfg lg) = 1 \<and> snd cur \<le> 0"
  then have none: "next_payload lg cur = None" by (cases cur) (simp add: next_payload_def)
  obtain now e where now: "lh_now h (ls_env s) = (now, e)" by fastforce
  obtain b e1 where tick: "lh_tick h e = (b, e1)" by fastforce
  obtain u s2 where drained: "run_state (drain h lg) (s\<lparr>ls_env := e1\<rparr>) = (u, s2)" by (rule prod.exhaust)
  have "now = tm (ls_env s)" using assms(1) now unfolding paced_def by (metis fst_conv)
  with assms(4) now tick drained none
  show "r = Panicked \<or> \<not> tm (ls_env s) < legEnd \<or> \<not> fst (lh_tick h (snd (lh_now h (ls_env s))))"
    by (subst (asm) pump.simps) (auto simp: run_lg_env send_next_payload_def split: if_splits)
qed

theorem paced_leg_ends_witness:
  "\<exists>r s'. run_state (pump demo_load_host demo_load_stream (100 * millisecond) 3 (0, 0)) demo_load_state = (r, s')
     \<and> (r = Continue \<or> r = Halt)"
proof -
  obtain s' where run: "run_state (pump demo_load_host demo_load_stream (100 * millisecond) 3 (0, 0)) demo_load_state = (Continue, s')"
    by (rule demo_pump)
  have "nominalFrameMs * millisecond * int (e div 80) \<le> int e * millisecond" for e
    using times_div_less_eq_dividend [of 80 e] by (simp add: nominalFrameMs_def zdiv_int)
  then have "paced (\<lambda>e. int e * millisecond) (\<lambda>e. e div 80) 0 demo_load_host"
    by (simp add: paced_def demo_load_host_def nominalFrameMs_def)
  from paced_leg_ends [OF this, of "100 * millisecond" 2 demo_load_state 2 demo_load_stream "(0, 0)" Continue s'] run
  have "frameBytes \<le> length (cl_pcm (lg_clip demo_load_stream)) \<longrightarrow> Continue = Continue \<or> Continue = Halt"
    by (simp add: nominalFrameMs_def numeral_3_eq_3)
  with run show ?thesis by blast
qed

text \<open>
  The client's count of duplicate finals is exact for one session and wrong over several.
  However many finals arrive, it is their number less that of distinct utterance ids not seen
  before; but ids start over in every session, so the first finals of two sessions, which
  repeat nothing, are counted as a duplicate.
\<close>

theorem reconnecting_client_counts_false_duplicates:
  assumes "run_state (count_finals ms) s = ((), s')"
    and "em_final (new_inference_state sid1 mode) None text1 a1 b1 = Inr (st1, lf1, fe1, True)"
    and "em_final (new_inference_state sid2 mode) None text2 a2 b2 = Inr (st2, lf2, fe2, True)" "sid1 \<noteq> sid2"
  shows "lk_finals (ls_cnt s') = lk_finals (ls_cnt s) + int (length ms)
    \<and> lk_duplicate_finals (ls_cnt s') = lk_duplicate_finals (ls_cnt s) + int (length ms)
        - int (card ((\<lambda>m. message_text m ''utterance_id'') ` set ms - Collect (ls_seen_final s)))
    \<and> fe1 \<noteq> fe2
    \<and> (ms = [final_message fe1, final_message fe2] \<and> ls_seen_final s = (\<lambda>_. False) \<longrightarrow>
         lk_duplicate_finals (ls_cnt s') = lk_duplicate_finals (ls_cnt s) + 1)"
proof -
  note counts = run_count_finals [OF assms(1)]
  have "fe_utterance_id fe1 = fe_utterance_id fe2" "fe1 \<noteq> fe2"
    using assms(2,3,4) by (auto simp: em_final_def new_inference_state_def utterance_label_def Let_def)
  with counts show ?thesis by auto
qed

theorem reconnecting_client_counts_false_duplicates_witness:
  "let fe = (\<lambda>sid. \<lparr> fe_session_id = sid, fe_utterance_id = ''u1'', fe_seq_start = 0, fe_seq_end = 5, fe_text = ''hi'' \<rparr>);
       s' = snd (run_state (count_finals [final_message (fe ''s1''), final_message (fe ''s2'')]) demo_load_state)
   in lk_duplicate_finals (ls_cnt s') = 1"
proof -
  let ?fe = "\<lambda>sid. \<lparr> fe_session_id = sid, fe_utterance_id = ''u1'', fe_seq_start = 0, fe_seq_end = 5, fe_text = ''hi'' \<rparr>"
  let ?ms = "[final_message (?fe ''s1''), final_message (?fe ''s2'')]"
  obtain s' where run: "run_state (count_finals ?ms) demo_load_state = ((), s')"
    by (cases "run_state (count_finals ?ms) demo_load_state") auto
  have final: "\<exists>st lf. em_final (new_inference_state sid ''online'') None ''hi'' 0 5 = Inr (st, lf, ?fe sid, True)" for sid
    by (simp add: em_final_def new_inference_state_def utterance_label_def Let_def)
  obtain st1 lf1 where one: "em_final (new_inference_state ''s1'' ''online'') None ''hi'' 0 5 = Inr (st1, lf1, ?fe ''s1'', True)"
    using final by blast
  obtain st2 lf2 where two: "em_final (new_inference_state ''s2'' ''online'') None ''hi'' 0 5 = Inr (st2, lf2, ?fe ''s2'', True)"
    using final by blast
  from reconnecting_client_counts_false_duplicates [OF run one two]
  have "lk_duplicate_finals (ls_cnt s') = 1" by (simp add: demo_load_state_def no_counts_def)
  with run show ?thesis by (simp add: Let_def)
qed

end
