(* ===== verification/LoadRun.thy ===== *)
theory LoadRun
  imports Loadgen "HOL-Library.List_Lexorder" "HOL-Library.Char_ord" "HOL-Library.Multiset"
begin

text \<open>
  \<^verbatim>\<open>cmd/loadgen/main.go\<close>, a batch of synthetic clients, and \<^verbatim>\<open>cmd/loadgen/control.go\<close>, the
  control API that starts and stops batches. Files, shuffling and the text formats of
  durations and floats are parameters. A batch that has not returned yet is in the list of
  the controller's runs with whether its context was cancelled; it returns in a step of its own.
\<close>

section \<open>A batch (main.go)\<close>

definition eventChanBuffer :: nat where "eventChanBuffer = 4096"

definition percentile_of :: "float64 list \<Rightarrow> float64 \<Rightarrow> float64" where
  "percentile_of samples p =
     (if samples = [] then 0
      else let s = sort samples; idx = trunc64 (of_nat (length s) * p);
               idx = (if idx \<ge> int (length s) then int (length s) - 1 else idx)
           in s ! nat idx)"

datatype run_error =
    TooFewStreams int
  | BadMode string
  | BadSpeechRatio float64
  | NoCorpus string
  | NoClips string
  | BadClip string corpus_error
  | WrongFormat string clip

definition check_config :: "load_config \<Rightarrow> run_error option" where
  "check_config cfg =
     (if lf_streams cfg < 1 then Some (TooFewStreams (lf_streams cfg))
      else if lf_mode cfg \<noteq> ''online'' \<and> lf_mode cfg \<noteq> ''offline'' then Some (BadMode (lf_mode cfg))
      else if lf_speech_ratio cfg \<le> 0 \<or> lf_speech_ratio cfg > 1 then Some (BadSpeechRatio (lf_speech_ratio cfg))
      else None)"

definition maxLoadedClips :: int where "maxLoadedClips = 64"

text \<open>\<open>walk\<close> is \<open>corpus.WalkClips\<close>, \<open>shuffled\<close> the seeded shuffle, \<open>read\<close> \<open>corpus.LoadWAV\<close>.\<close>

fun read_clips :: "(string \<Rightarrow> corpus_error + clip) \<Rightarrow> string list \<Rightarrow> run_error + clip list" where
  "read_clips read [] = Inr []"
| "read_clips read (p # ps) =
     (case read p of
        Inl err \<Rightarrow> Inl (BadClip p err)
      | Inr c \<Rightarrow>
          if cl_sample_rate_hz c \<noteq> sampleRateHz \<or> cl_channels c \<noteq> 1 \<or> cl_bits_per_sample c \<noteq> 16
          then Inl (WrongFormat p c)
          else (case read_clips read ps of Inl err \<Rightarrow> Inl err | Inr cs \<Rightarrow> Inr (c # cs)))"

definition load_clips :: "(string \<Rightarrow> string + string list) \<Rightarrow> (int \<Rightarrow> string list \<Rightarrow> string list) \<Rightarrow>
    (string \<Rightarrow> corpus_error + clip) \<Rightarrow> string \<Rightarrow> int \<Rightarrow> int \<Rightarrow> run_error + clip list" where
  "load_clips walk shuffled read dir want seed =
     (case walk dir of
        Inl err \<Rightarrow> Inl (NoCorpus err)
      | Inr paths \<Rightarrow>
          if paths = [] then Inl (NoClips dir)
          else let want = (if want < 1 then 1 else want);
                   want = (if want > maxLoadedClips then maxLoadedClips else want);
                   paths = (if want < int (length paths)
                            then sort (take (nat want) (shuffled seed paths))
                            else paths)
               in read_clips read paths)"

text \<open>\<open>time.Duration(int64(ramp) * int64(i) / int64(streams))\<close>; Go's division truncates.\<close>

definition ramp_delay :: "load_config \<Rightarrow> nat \<Rightarrow> duration" where
  "ramp_delay cfg i =
     (if lf_ramp cfg > 0 \<and> lf_streams cfg > 1
      then (let x = wrap64 (lf_ramp cfg * int i); n = lf_streams cfg in if 0 \<le> x then x div n else - ((- x) div n))
      else 0)"

text \<open>The streams of a batch with their delays, \<open>resolve\<close> finding the default corpus.\<close>

definition plan_run :: "(string \<Rightarrow> string + string list) \<Rightarrow> (int \<Rightarrow> string list \<Rightarrow> string list) \<Rightarrow>
    (string \<Rightarrow> corpus_error + clip) \<Rightarrow> (string + string) \<Rightarrow> time \<Rightarrow> load_config \<Rightarrow>
    run_error + (load_stream \<times> duration) list" where
  "plan_run walk shuffled read resolve start cfg =
     (case check_config cfg of
        Some err \<Rightarrow> Inl err
      | None \<Rightarrow>
          (case (if lf_corpus_dir cfg = '''' then resolve else Inr (lf_corpus_dir cfg)) of
             Inl err \<Rightarrow> Inl (NoCorpus err)
           | Inr dir \<Rightarrow>
               let cfg = cfg\<lparr>lf_corpus_dir := dir\<rparr> in
               (case load_clips walk shuffled read dir (lf_streams cfg) (lf_seed cfg) of
                  Inl err \<Rightarrow> Inl err
                | Inr clips \<Rightarrow> Inr (map (\<lambda>i.
                    (\<lparr> lg_id = i, lg_cfg = cfg, lg_clip = clips ! (i mod length clips), lg_start = start \<rparr>,
                     ramp_delay cfg i)) [0..<nat (lf_streams cfg)]))))"

text \<open>A row of the CSV; \<open>fixed3\<close> prints a float with three decimals.\<close>

definition csv_header :: "string list" where
  "csv_header = [''ts_ms'', ''stream_id'', ''event'', ''seq'', ''latency_ms'', ''streams_active'',
     ''utterance_id'', ''revision'', ''failover_epoch'']"

definition csv_row :: "(float64 \<Rightarrow> string) \<Rightarrow> load_row \<Rightarrow> string list" where
  "csv_row fixed3 r = [show_int (rw_ts_ms r), decimal (rw_stream_id r), rw_kind r, show_int (rw_seq r),
     (if rw_has_latency r then fixed3 (rw_latency_ms r) else ''''), show_int (rw_streams_active r), rw_utterance_id r,
     show_int (rw_revision r), show_int (rw_failover_epoch r)]"

section \<open>The control API (control.go)\<close>

text \<open>\<open>fmt.Sscanf(s, "%d", &n)\<close> reads as far as a number goes; the rest is ignored.\<close>

definition scan_int :: "string \<Rightarrow> int option" where
  "scan_int s =
     (let t = dropWhile (\<lambda>c. is_space c \<and> c \<noteq> CHR 0x0A) s;
          neg = (t \<noteq> [] \<and> hd t = CHR ''-'');
          ds = takeWhile is_digit (if t \<noteq> [] \<and> (hd t = CHR ''-'' \<or> hd t = CHR ''+'') then tl t else t)
      in if ds = [] then None
         else let v = (if neg then - int (undecimal ds) else int (undecimal ds))
              in if - (2 ^ 63) \<le> v \<and> v < 2 ^ 63 then Some v else None)"

record load_run =
  lr_gen :: u64
  lr_cfg :: load_config
  lr_cancelled :: bool

record load_controller =
  lc_base :: load_config
  lc_cancel :: "u64 option" \<comment> \<open>the run whose context it cancels\<close>
  lc_running :: bool
  lc_current :: load_config
  lc_started :: time
  lc_gen :: u64
  lc_runs :: "load_run list"

definition new_load_controller :: "load_config \<Rightarrow> load_controller" where
  "new_load_controller base = \<lparr> lc_base = base, lc_cancel = None, lc_running = False, lc_current = base, lc_started = 0,
     lc_gen = 0, lc_runs = [] \<rparr>"

datatype load_answer =
    LoadStarted load_config
  | BadStreams
  | BadDuration
  | BadRatio
  | LoadStopped bool

record formats =
  fo_duration :: "string \<Rightarrow> duration option"
  fo_float :: "string \<Rightarrow> float64 option"

definition overlay_ramp :: "formats \<Rightarrow> string \<Rightarrow> load_config \<Rightarrow> load_config" where
  "overlay_ramp fo v cfg =
     (if v \<noteq> '''' then (case fo_duration fo v of None \<Rightarrow> cfg | Some d \<Rightarrow> cfg\<lparr>lf_ramp := d\<rparr>)
      else if lf_ramp cfg = 0 \<and> lf_streams cfg > 1
      then (let d = wrap64 (lf_streams cfg * (400 * millisecond)) in cfg\<lparr>lf_ramp := (if d > 15 * second then 15 * second else d)\<rparr>)
      else cfg)"

text \<open>The request's parameters over the configuration loadgen was started with.\<close>

definition overlay :: "formats \<Rightarrow> (string \<Rightarrow> string) \<Rightarrow> load_config \<Rightarrow> load_answer + load_config" where
  "overlay fo q base =
     (let cfg = base\<lparr> lf_control_addr := '''', lf_out := '''' \<rparr> in
      case (if q ''streams'' = '''' then Inr cfg
            else case scan_int (q ''streams'') of
                None \<Rightarrow> Inl BadStreams | Some n \<Rightarrow> if n < 1 then Inl BadStreams else Inr (cfg\<lparr>lf_streams := n\<rparr>)) of
        Inl a \<Rightarrow> Inl a
      | Inr cfg \<Rightarrow>
          (case (if q ''duration'' = '''' then Inr cfg
                 else case fo_duration fo (q ''duration'') of
                     None \<Rightarrow> Inl BadDuration | Some d \<Rightarrow> Inr (cfg\<lparr>lf_duration := d\<rparr>)) of
             Inl a \<Rightarrow> Inl a
           | Inr cfg \<Rightarrow>
               let cfg = (if q ''mode'' = '''' then cfg else cfg\<lparr>lf_mode := q ''mode''\<rparr>) in
               (case (if q ''speech-ratio'' = '''' then Inr cfg
                      else case fo_float fo (q ''speech-ratio'') of
                          None \<Rightarrow> Inl BadRatio | Some x \<Rightarrow> Inr (cfg\<lparr>lf_speech_ratio := x\<rparr>)) of
                  Inl a \<Rightarrow> Inl a
                | Inr cfg \<Rightarrow> Inr (overlay_ramp fo (q ''ramp'') cfg))))"

definition cancel_run :: "u64 option \<Rightarrow> load_run list \<Rightarrow> load_run list" where
  "cancel_run c rs = (case c of None \<Rightarrow> rs
     | Some g \<Rightarrow> map (\<lambda>r. if lr_gen r = g then r\<lparr>lr_cancelled := True\<rparr> else r) rs)"

definition handle_load :: "formats \<Rightarrow> (string \<Rightarrow> string) \<Rightarrow> time \<Rightarrow> load_controller \<Rightarrow> load_answer \<times> load_controller" where
  "handle_load fo q now c =
     (case overlay fo q (lc_base c) of
        Inl a \<Rightarrow> (a, c)
      | Inr cfg \<Rightarrow>
          let g = lc_gen c + 1 in
          (LoadStarted cfg,
           c\<lparr> lc_gen := g, lc_cancel := Some g, lc_running := True, lc_current := cfg, lc_started := now,
              lc_runs := cancel_run (lc_cancel c) (lc_runs c) @ [\<lparr> lr_gen = g, lr_cfg = cfg, lr_cancelled = False \<rparr>] \<rparr>))"

definition handle_stop :: "load_controller \<Rightarrow> load_answer \<times> load_controller" where
  "handle_stop c =
     (LoadStopped (lc_running c),
      c\<lparr> lc_gen := lc_gen c + 1, lc_runs := cancel_run (lc_cancel c) (lc_runs c), lc_cancel := None, lc_running := False \<rparr>)"

text \<open>A run's goroutine, when \<open>runCtx\<close> has returned.\<close>

definition run_returned :: "u64 \<Rightarrow> load_controller \<Rightarrow> load_controller" where
  "run_returned g c =
     (let c1 = c\<lparr>lc_runs := filter (\<lambda>r. lr_gen r \<noteq> g) (lc_runs c)\<rparr>
      in if lc_gen c = g then c1\<lparr> lc_running := False, lc_cancel := None \<rparr> else c1)"

text \<open>What \<open>GET /status\<close> shows: streams, mode, duration and whole seconds, of a running batch.\<close>

definition handle_status :: "time \<Rightarrow> load_controller \<Rightarrow> (int \<times> string \<times> duration \<times> int) option" where
  "handle_status now c =
     (if lc_running c
      then Some (lf_streams (lc_current c), lf_mode (lc_current c), lf_duration (lc_current c),
                 trunc64 (seconds (now - lc_started c)))
      else None)"

datatype control_op = Load "string \<Rightarrow> string" time | StopLoad | Returned u64

fun control_do :: "formats \<Rightarrow> control_op \<Rightarrow> load_controller \<Rightarrow> load_controller" where
  "control_do fo (Load q now) c = snd (handle_load fo q now c)"
| "control_do fo StopLoad c = snd (handle_stop c)"
| "control_do fo (Returned g) c = run_returned g c"

definition control_run :: "formats \<Rightarrow> control_op list \<Rightarrow> load_controller \<Rightarrow> load_controller" where
  "control_run fo ops c = fold (control_do fo) ops c"

section \<open>One batch at a time\<close>

text \<open>
  At most the current batch is not cancelled, and the flags tell the truth about it: it is
  running and can be cancelled exactly while its goroutine has not returned.
\<close>

definition live_runs :: "load_controller \<Rightarrow> load_run list" where
  "live_runs c = filter (\<lambda>r. \<not> lr_cancelled r) (lc_runs c)"

definition control_inv :: "nat \<Rightarrow> load_controller \<Rightarrow> bool" where
  "control_inv n c \<longleftrightarrow> unat (lc_gen c) \<le> n \<and> (\<forall>r \<in> set (lc_runs c). lr_gen r \<le> lc_gen c)
     \<and> distinct (map lr_gen (lc_runs c))
     \<and> lc_cancel c = (if lc_running c then Some (lc_gen c) else None)
     \<and> (if lc_running c
        then live_runs c = [\<lparr> lr_gen = lc_gen c, lr_cfg = lc_current c, lr_cancelled = False \<rparr>]
        else live_runs c = [])"

lemma cancel_run_gens [simp]: "map lr_gen (cancel_run g rs) = map lr_gen rs"
  by (auto simp: cancel_run_def split: option.split)

lemma cancel_run_set [simp]: "lr_gen ` set (cancel_run g rs) = lr_gen ` set rs"
  by (metis cancel_run_gens set_map)

lemma live_filter: "filter (\<lambda>r. \<not> lr_cancelled r) (cancel_run g rs)
    = filter (\<lambda>r. g \<noteq> Some (lr_gen r)) (filter (\<lambda>r. \<not> lr_cancelled r) rs)"
  by (induction rs) (auto simp: cancel_run_def split: option.splits)

lemma control_inv_cancelled:
  "control_inv n c \<Longrightarrow> filter (\<lambda>r. \<not> lr_cancelled r) (cancel_run (lc_cancel c) (lc_runs c)) = []"
  unfolding live_filter live_runs_def [symmetric] by (auto simp: control_inv_def split: if_splits)

lemma gen_fresh: "unat (g :: u64) \<le> n \<Longrightarrow> Suc n < 2 ^ 64 \<Longrightarrow> unat (g + 1) = Suc (unat g)"
  by (rule unat_plus_one, rule not_max64) simp

lemma control_inv_step [inv_intros]:
  assumes inv: "control_inv n c" and small: "Suc n < 2 ^ 64"
  shows "control_inv (Suc n) (control_do fo op c)"
proof -
  have gen: "unat (lc_gen c) \<le> n" using inv by (simp add: control_inv_def)
  note up = gen_fresh [OF gen small]
  have older: "lr_gen r < lc_gen c + 1" if "r \<in> set (cancel_run (lc_cancel c) (lc_runs c))" for r
  proof -
    have "lr_gen r \<in> lr_gen ` set (lc_runs c)" using imageI [OF that, of lr_gen] unfolding cancel_run_set .
    then have "lr_gen r \<le> lc_gen c" using inv by (auto simp: control_inv_def)
    with up show ?thesis by (simp add: word_le_nat_alt word_less_nat_alt)
  qed
  have dist: "distinct (map lr_gen (cancel_run (lc_cancel c) (lc_runs c)))" using inv by (simp add: control_inv_def)
  note quiet = control_inv_cancelled [OF inv]
  show ?thesis
  proof (cases op)
    case (Load q now)
    show ?thesis
    proof (cases "overlay fo q (lc_base c)")
      case (Inl a)
      with inv Load show ?thesis by (auto simp: handle_load_def control_inv_def)
    next
      case (Inr cfg)
      have "lc_gen c + 1 \<notin> lr_gen ` set (lc_runs c)"
        unfolding cancel_run_set [of "lc_cancel c" "lc_runs c", symmetric] using older by fastforce
      with Inr Load dist older quiet up gen show ?thesis
        by (auto simp: handle_load_def control_inv_def live_runs_def Let_def intro: order_less_imp_le)
    qed
  next
    case StopLoad
    with dist older quiet up gen show ?thesis
      by (auto simp: handle_stop_def control_inv_def live_runs_def intro: order_less_imp_le)
  next
    case (Returned g)
    let ?c = "run_returned g c"
    have runs: "lc_runs ?c = filter (\<lambda>r. lr_gen r \<noteq> g) (lc_runs c)" by (simp add: run_returned_def Let_def)
    have live: "live_runs ?c = filter (\<lambda>r. lr_gen r \<noteq> g) (live_runs c)"
      unfolding live_runs_def runs by (simp add: conj_commute)
    have flags: "lc_gen ?c = lc_gen c" "lc_current ?c = lc_current c" "lc_running ?c = (lc_running c \<and> lc_gen c \<noteq> g)"
      "lc_cancel ?c = (if lc_gen c = g then None else lc_cancel c)" by (simp_all add: run_returned_def Let_def)
    have "distinct (map lr_gen (lc_runs ?c))" using inv unfolding runs control_inv_def by (intro distinct_map_filter) simp
    with inv show ?thesis
      unfolding Returned control_do.simps control_inv_def live flags by (auto simp: runs split: if_splits)
  qed
qed

lemma control_inv_run:
  "length ops < 2 ^ 64 \<Longrightarrow> control_inv (length ops) (control_run fo ops (new_load_controller base))"
proof (induction ops rule: rev_induct)
  case Nil
  then show ?case by (simp add: control_run_def control_inv_def new_load_controller_def live_runs_def)
next
  case (snoc op ops)
  then have "control_inv (Suc (length ops)) (control_do fo op (control_run fo ops (new_load_controller base)))"
    by (intro control_inv_step) simp_all
  then show ?case by (simp add: control_run_def)
qed

section \<open>Planning\<close>

definition locked_format :: "clip \<Rightarrow> bool" where
  "locked_format c \<longleftrightarrow> cl_sample_rate_hz c = sampleRateHz \<and> cl_channels c = 1 \<and> cl_bits_per_sample c = 16"

lemma read_clips_ok: "read_clips read ps = Inr cs \<Longrightarrow> length cs = length ps \<and> list_all locked_format cs"
  by (induction ps arbitrary: cs) (auto simp: locked_format_def split: sum.splits if_splits)

lemma load_clips_ok:
  assumes "load_clips walk shuffled read dir want seed = Inr cs" "\<And>seed ps. mset (shuffled seed ps) = mset ps"
  shows "cs \<noteq> [] \<and> list_all locked_format cs"
proof -
  obtain paths where paths: "paths \<noteq> []" "walk dir = Inr paths"
    using assms(1) by (auto simp: load_clips_def split: sum.splits if_splits)
  have "length (shuffled seed paths) = length paths" using assms(2) by (metis size_mset)
  then have "shuffled seed paths \<noteq> []" using paths(1) by auto
  moreover define n where "n = (if (if want < 1 then 1 else want) > maxLoadedClips then maxLoadedClips else (if want < 1 then 1 else want))"
  moreover have "0 < nat n" by (simp add: n_def maxLoadedClips_def)
  ultimately have "sort (take (nat n) (shuffled seed paths)) \<noteq> []"
    by (metis length_sort length_0_conv take_eq_Nil less_irrefl)
  then have "(if n < int (length paths) then sort (take (nat n) (shuffled seed paths)) else paths) \<noteq> []"
    using paths(1) by simp
  moreover have "read_clips read (if n < int (length paths) then sort (take (nat n) (shuffled seed paths)) else paths) = Inr cs"
    using assms(1) unfolding load_clips_def paths(2) Let_def sum.case if_not_P [OF paths(1)] n_def .
  note read_clips_ok [OF this]
  ultimately show ?thesis by (cases cs) auto
qed

lemma ramp_delay_value:
  assumes "lf_ramp cfg * lf_streams cfg < 2 ^ 63" "int i < lf_streams cfg"
  shows "ramp_delay cfg i = (if lf_ramp cfg > 0 \<and> lf_streams cfg > 1 then lf_ramp cfg * int i div lf_streams cfg else 0)"
proof (cases "lf_ramp cfg > 0 \<and> lf_streams cfg > 1")
  case True
  have "lf_ramp cfg * int i \<le> lf_ramp cfg * lf_streams cfg" using True assms(2) by (intro mult_left_mono) auto
  moreover have "0 \<le> lf_ramp cfg * int i" using True by simp
  ultimately have "wrap64 (lf_ramp cfg * int i) = lf_ramp cfg * int i" using assms(1) by (intro wrap64_id) linarith+
  with True show ?thesis by (simp add: ramp_delay_def Let_def)
next
  case False
  then show ?thesis by (auto simp: ramp_delay_def)
qed

lemma ramp_delay_bounds:
  assumes "lf_ramp cfg * lf_streams cfg < 2 ^ 63" "int j < lf_streams cfg" "i \<le> j"
  shows "0 \<le> ramp_delay cfg i \<and> ramp_delay cfg i \<le> ramp_delay cfg j \<and> ramp_delay cfg j \<le> max 0 (lf_ramp cfg)"
proof (cases "lf_ramp cfg > 0 \<and> lf_streams cfg > 1")
  case True
  have i: "int i < lf_streams cfg" using assms by simp
  have "lf_ramp cfg * int i div lf_streams cfg \<le> lf_ramp cfg * int j div lf_streams cfg"
    using True assms(3) by (intro zdiv_mono1 mult_left_mono) auto
  moreover have "lf_ramp cfg * int j div lf_streams cfg \<le> lf_ramp cfg * lf_streams cfg div lf_streams cfg"
    using True assms(2) by (intro zdiv_mono1 mult_left_mono) auto
  moreover have "0 \<le> lf_ramp cfg * int i div lf_streams cfg" using True by (simp add: pos_imp_zdiv_nonneg_iff)
  ultimately show ?thesis using True by (simp add: ramp_delay_value [OF assms(1)] assms(2) i)
next
  case False
  then show ?thesis by (auto simp: ramp_delay_def)
qed

section \<open>Properties\<close>

text \<open>
  C37: one batch at a time. Whatever loads, stops and returns of batches come in whatever order,
  late returns of replaced batches included, at most one batch runs that has not been told to
  end, the status reports exactly that one, and a stop leaves none. But a load is answered as
  started even where the batch refuses its configuration at once.
\<close>

theorem one_batch_at_a_time:
  assumes "length ops < 2 ^ 64" "c = control_run fo ops (new_load_controller base)"
  shows "length (live_runs c) \<le> 1
    \<and> (handle_status now c = None \<longleftrightarrow> live_runs c = [])
    \<and> (\<forall>r \<in> set (live_runs c). \<exists>d. handle_status now c = Some (lf_streams (lr_cfg r), lf_mode (lr_cfg r), lf_duration (lr_cfg r), d))
    \<and> live_runs (snd (handle_stop c)) = []
    \<and> (\<exists>cfg. fst (handle_load fo ((\<lambda>_. '''')(''mode'' := ''fast'')) now c) = LoadStarted cfg \<and> check_config cfg \<noteq> None)"
proof -
  have inv: "control_inv (length ops) c" using control_inv_run [OF assms(1)] assms(2) by simp
  have "live_runs (snd (handle_stop c)) = []"
    using control_inv_cancelled [OF inv] by (simp add: handle_stop_def live_runs_def)
  moreover have "\<exists>cfg. fst (handle_load fo ((\<lambda>_. '''')(''mode'' := ''fast'')) now c) = LoadStarted cfg \<and> check_config cfg \<noteq> None"
    by (simp add: handle_load_def overlay_def overlay_ramp_def check_config_def Let_def)
  ultimately show ?thesis using inv by (auto simp: control_inv_def handle_status_def split: if_splits)
qed

theorem one_batch_at_a_time_witness:
  "let c = control_run \<lparr> fo_duration = (\<lambda>_. None), fo_float = (\<lambda>_. None) \<rparr>
       [Load (\<lambda>_. '''') 0, Load (\<lambda>_. '''') 5, Returned 1] (new_load_controller demo_load_cfg)
   in map lr_gen (live_runs c) = [2] \<and> handle_status 5 c \<noteq> None"
proof -
  let ?fo = "\<lparr> fo_duration = (\<lambda>_. None), fo_float = (\<lambda>_. None) \<rparr>"
  let ?ops = "[Load (\<lambda>_. '''') 0, Load (\<lambda>_. '''') 5, Returned 1]"
  let ?c = "control_run ?fo ?ops (new_load_controller demo_load_cfg)"
  have "map lr_gen (live_runs ?c) = [2]"
    by (simp add: control_run_def handle_load_def overlay_def overlay_ramp_def new_load_controller_def demo_load_cfg_def
        cancel_run_def run_returned_def live_runs_def Let_def)
  moreover have "length ?ops < 2 ^ 64" by simp
  from one_batch_at_a_time [OF this refl, of ?fo demo_load_cfg 5] have "handle_status 5 ?c = None \<longleftrightarrow> live_runs ?c = []"
    by blast
  ultimately show ?thesis by (auto simp: Let_def)
qed

text \<open>
  A planned batch is one the gateway can serve. If a batch starts at all, it has as many
  streams as asked for, in order; each speaks one of the two modes, has a clip in the locked
  format, and starts within the ramp, no earlier than the stream before it.
\<close>

theorem planned_streams_are_valid:
  assumes "plan_run walk shuffled read resolve start cfg = Inr plan" "\<And>seed ps. mset (shuffled seed ps) = mset ps"
    and "lf_ramp cfg * lf_streams cfg < 2 ^ 63"
  shows "int (length plan) = lf_streams cfg \<and> map (lg_id \<circ> fst) plan = [0..<length plan]
    \<and> (\<forall>(lg, d) \<in> set plan. lf_mode (lg_cfg lg) \<in> {ModeOnline, ModeOffline} \<and> 0 < lf_speech_ratio (lg_cfg lg)
         \<and> lf_speech_ratio (lg_cfg lg) \<le> 1
         \<and> cl_sample_rate_hz (lg_clip lg) = sampleRateHz \<and> cl_channels (lg_clip lg) = 1
         \<and> cl_bits_per_sample (lg_clip lg) = 16 \<and> 0 \<le> d \<and> d \<le> max 0 (lf_ramp cfg))
    \<and> sorted (map snd plan)"
proof -
  have check: "check_config cfg = None" using assms(1) by (auto simp: plan_run_def split: option.splits)
  then have cfg: "1 \<le> lf_streams cfg" "lf_mode cfg \<in> {ModeOnline, ModeOffline}" "0 < lf_speech_ratio cfg" "lf_speech_ratio cfg \<le> 1"
    by (auto simp: check_config_def ModeOnline_def ModeOffline_def split: if_splits)
  obtain dir clips where clips: "load_clips walk shuffled read dir (lf_streams cfg) (lf_seed cfg) = Inr clips"
    and plan: "plan = map (\<lambda>i. (\<lparr> lg_id = i, lg_cfg = cfg\<lparr>lf_corpus_dir := dir\<rparr>, lg_clip = clips ! (i mod length clips), lg_start = start \<rparr>,
        ramp_delay (cfg\<lparr>lf_corpus_dir := dir\<rparr>) i)) [0..<nat (lf_streams cfg)]"
    using assms(1) check by (auto simp: plan_run_def Let_def split: sum.splits)
  have delay: "ramp_delay (cfg\<lparr>lf_corpus_dir := dir\<rparr>) i = ramp_delay cfg i" for i by (simp add: ramp_delay_def)
  have clip: "locked_format (clips ! (i mod length clips))" for i
    using load_clips_ok [OF clips assms(2)] by (simp add: list_all_length)
  have "sorted (map (ramp_delay cfg) [0..<nat (lf_streams cfg)])"
    using ramp_delay_bounds [OF assms(3)] by (intro sorted_iff_nth_mono [THEN iffD2]) auto
  moreover have "lf_mode (lg_cfg lg) \<in> {ModeOnline, ModeOffline} \<and> 0 < lf_speech_ratio (lg_cfg lg)
         \<and> lf_speech_ratio (lg_cfg lg) \<le> 1
         \<and> cl_sample_rate_hz (lg_clip lg) = sampleRateHz \<and> cl_channels (lg_clip lg) = 1
         \<and> cl_bits_per_sample (lg_clip lg) = 16 \<and> 0 \<le> d \<and> d \<le> max 0 (lf_ramp cfg)"
    if "(lg, d) \<in> set plan" for lg d
  proof -
    from that obtain i where i: "i < nat (lf_streams cfg)" "lg_cfg lg = cfg\<lparr>lf_corpus_dir := dir\<rparr>"
      "lg_clip lg = clips ! (i mod length clips)" "d = ramp_delay cfg i" by (auto simp: plan delay)
    then have "int i < lf_streams cfg" by simp
    from ramp_delay_bounds [OF assms(3) this order_refl] clip [of i] cfg i show ?thesis
      by (simp add: locked_format_def)
  qed
  moreover have "int (length plan) = lf_streams cfg" "map (lg_id \<circ> fst) plan = [0..<length plan]"
    "map snd plan = map (ramp_delay cfg) [0..<nat (lf_streams cfg)]" using cfg(1) by (simp_all add: plan delay o_def)
  ultimately show ?thesis by (simp only: case_prod_beta) auto
qed

theorem planned_streams_are_valid_witness:
  "\<exists>plan. plan_run (\<lambda>_. Inr [''a.wav'']) (\<lambda>_ ps. ps) (\<lambda>_. Inr (lg_clip demo_load_stream)) (Inr ''corpus'') 0
       (demo_load_cfg\<lparr> lf_streams := 3, lf_ramp := second \<rparr>) = Inr plan
     \<and> length plan = 3 \<and> sorted (map snd plan)"
proof -
  let ?run = "plan_run (\<lambda>_. Inr [''a.wav'']) (\<lambda>_ ps. ps) (\<lambda>_. Inr (lg_clip demo_load_stream)) (Inr ''corpus'') 0
       (demo_load_cfg\<lparr> lf_streams := 3, lf_ramp := second \<rparr>)"
  obtain plan where run: "?run = Inr plan"
    by (simp add: plan_run_def check_config_def load_clips_def maxLoadedClips_def demo_load_cfg_def demo_load_stream_def
        sampleRateHz_def Let_def)
  have "lf_ramp (demo_load_cfg\<lparr> lf_streams := 3, lf_ramp := second \<rparr>)
      * lf_streams (demo_load_cfg\<lparr> lf_streams := 3, lf_ramp := second \<rparr>) < 2 ^ 63" by simp
  with planned_streams_are_valid [OF run] have "int (length plan) = 3" "sorted (map snd plan)" by auto
  with run show ?thesis by auto
qed

end
