(* ===== verification/Chaos.thy ===== *)
theory Chaos
  imports Dash Loadgen
begin

text \<open>
  \<^verbatim>\<open>cmd/chaostest\<close>: the tool that injects faults into a running deployment and checks what
  becomes of a session. HTTP is a transport; a WebSocket is a number, and what its reader has
  put in the event channel, the clock, the ticker and sleeping are the environment. The state
  also remembers the messages written and the addresses posted to. Of an error text the part
  before its first formatted value is kept. \<open>cx_lit\<close> gives the bytes of a JSON literal.
\<close>

section \<open>The tool and what it talks to\<close>

record worker_ref =
  wr_id :: string
  wr_health_url :: string
  wr_admin_url :: string

definition no_ref :: worker_ref where
  "no_ref = \<lparr> wr_id = '''', wr_health_url = '''', wr_admin_url = '''' \<rparr>"

type_synonym fleet = "string \<rightharpoonup> worker_ref"

definition ref_of :: "env \<Rightarrow> string \<Rightarrow> string \<Rightarrow> string \<Rightarrow> string \<Rightarrow> string \<Rightarrow> string \<times> worker_ref" where
  "ref_of env ident url health admin_var admin =
     (ident, \<lparr> wr_id = ident, wr_health_url = env_or env url health, wr_admin_url = env_or env admin_var admin \<rparr>)"

definition default_fleet :: "env \<Rightarrow> fleet" where
  "default_fleet env = map_of
     [ref_of env ''worker-a'' ''WORKER_A_URL'' ''http://localhost:18001'' ''WORKER_A_ADMIN_URL'' ''http://localhost:19001'',
      ref_of env ''worker-b'' ''WORKER_B_URL'' ''http://localhost:18002'' ''WORKER_B_ADMIN_URL'' ''http://localhost:19002'',
      ref_of env ''worker-c'' ''WORKER_C_URL'' ''http://localhost:18003'' ''WORKER_C_ADMIN_URL'' ''http://localhost:19003'',
      ref_of env ''worker-f'' ''WORKER_F_URL'' ''http://localhost:18007'' ''WORKER_F_ADMIN_URL'' ''http://localhost:19007'',
      ref_of env ''worker-g'' ''WORKER_G_URL'' ''http://localhost:18008'' ''WORKER_G_ADMIN_URL'' ''http://localhost:19008'',
      ref_of env ''worker-h'' ''WORKER_H_URL'' ''http://localhost:18009'' ''WORKER_H_ADMIN_URL'' ''http://localhost:19009'']"

text \<open>\<open>fleet[id]\<close>: the zero value where the key is absent.\<close>

definition member :: "fleet \<Rightarrow> string \<Rightarrow> worker_ref" where
  "member fl ident = (case fl ident of None \<Rightarrow> no_ref | Some w \<Rightarrow> w)"

datatype heard = Heard message | HungUp | Silent

record 'e rig =
  rg_http :: "'e transport"
  rg_dial :: "string \<Rightarrow> 'e \<Rightarrow> (string + nat) \<times> 'e"
  rg_write :: "nat \<Rightarrow> byte list \<Rightarrow> 'e \<Rightarrow> string option \<times> 'e" \<comment> \<open>the error, if any\<close>
  rg_next :: "nat \<Rightarrow> duration \<Rightarrow> 'e \<Rightarrow> heard \<times> 'e"
  rg_ready :: "nat \<Rightarrow> 'e \<Rightarrow> message list \<times> 'e" \<comment> \<open>all that can be received without waiting\<close>
  rg_read_err :: "nat \<Rightarrow> 'e \<Rightarrow> string option \<times> 'e"
  rg_close :: "nat \<Rightarrow> 'e \<Rightarrow> 'e"
  rg_now :: "'e \<Rightarrow> time \<times> 'e"
  rg_sleep :: "duration \<Rightarrow> 'e \<Rightarrow> 'e"
  rg_tick :: "'e \<Rightarrow> 'e"
  rg_load :: "string \<Rightarrow> corpus_error + clip"
  rg_lit :: "json \<Rightarrow> byte list"

record 'e chaos_state =
  cx_out :: "(nat \<times> byte list) list"
  cx_posts :: "string list"
  cx_env :: 'e

datatype chaos_error = Skipped string | Failed string | Because string chaos_error

type_synonym ('e, 'a) chaos = "('e chaos_state, chaos_error + 'a) state"

definition cx_do :: "('e \<Rightarrow> 'a \<times> 'e) \<Rightarrow> ('e chaos_state, 'a) state" where
  "cx_do f = State (\<lambda>s. let (x, e) = f (cx_env s) in (x, s\<lparr>cx_env := e\<rparr>))"

definition accept :: "'a \<Rightarrow> ('e, 'a) chaos" where "accept x = State_Monad.return (Inr x)"
definition reject :: "chaos_error \<Rightarrow> ('e, 'a) chaos" where "reject err = State_Monad.return (Inl err)"

text \<open>\<open>if err != nil { return err }\<close>, also with the error wrapped; a deferred call.\<close>

definition check :: "('e, 'a) chaos \<Rightarrow> ('a \<Rightarrow> ('e, 'b) chaos) \<Rightarrow> ('e, 'b) chaos" where
  "check m f = do { r \<leftarrow> m; (case r of Inl err \<Rightarrow> reject err | Inr x \<Rightarrow> f x) }"

definition because :: "string \<Rightarrow> ('e, 'a) chaos \<Rightarrow> ('e, 'a) chaos" where
  "because what m = do { r \<leftarrow> m; (case r of Inl err \<Rightarrow> reject (Because what err) | Inr x \<Rightarrow> accept x) }"

definition demand :: "bool \<Rightarrow> string \<Rightarrow> ('e, unit) chaos" where
  "demand b what = (if b then accept () else reject (Failed what))"

definition afterwards :: "('e, 'a) chaos \<Rightarrow> ('e chaos_state, unit) state \<Rightarrow> ('e, 'a) chaos" where
  "afterwards m f = do { r \<leftarrow> m; f; State_Monad.return r }"

definition cx_sleep :: "'e rig \<Rightarrow> duration \<Rightarrow> ('e chaos_state, unit) state" where
  "cx_sleep h d = cx_do (\<lambda>e. ((), rg_sleep h d e))"

section \<open>HTTP\<close>

definition cx_get :: "'e rig \<Rightarrow> string \<Rightarrow> ('e, http_response) chaos" where
  "cx_get h url = do {
     r \<leftarrow> cx_do (rg_http h \<lparr> hq_method = ''GET'', hq_url = url, hq_headers = [], hq_body = NoBody \<rparr>);
     (case r of Inl err \<Rightarrow> reject (Failed err) | Inr resp \<Rightarrow> accept resp) }"

definition cx_post :: "'e rig \<Rightarrow> string \<Rightarrow> http_body \<Rightarrow> ('e, http_response) chaos" where
  "cx_post h url body = do {
     State_Monad.update (\<lambda>s. s\<lparr>cx_posts := cx_posts s @ [url]\<rparr>);
     r \<leftarrow> cx_do (rg_http h \<lparr> hq_method = ''POST'', hq_url = url,
            hq_headers = [(''Content-Type'', ''application/json'')], hq_body = body \<rparr>);
     (case r of Inl err \<Rightarrow> reject (Failed err) | Inr resp \<Rightarrow> accept resp) }"

text \<open>\<open>json.NewDecoder(resp.Body).Decode\<close>; the status is not looked at.\<close>

definition decoded :: "(json \<Rightarrow> 'a option) \<Rightarrow> http_response \<Rightarrow> ('e, 'a) chaos" where
  "decoded dec resp = (case Option.bind (hp_json resp) dec of None \<Rightarrow> reject (Failed ''json'') | Some x \<Rightarrow> accept x)"

record metrics_snap =
  mx_duplicate_finals :: int
  mx_stale_generation_writes :: int
  mx_failover :: int
  mx_failover_same_model :: int
  mx_failover_cross_model :: int
  mx_failover_exhausted :: int
  mx_checkpoint_restores :: int
  mx_checkpoint_degraded :: int
  mx_admission_rejected :: int
  mx_backend_429 :: int
  mx_backend_pushes :: int

definition decode_metrics :: "json \<Rightarrow> metrics_snap option" where
  "decode_metrics v = do {
     kvs \<leftarrow> struct_of v;
     dup \<leftarrow> decode_field json_int ''duplicate_finals_total'' 0 kvs;
     stale \<leftarrow> decode_field json_int ''stale_generation_writes_total'' 0 kvs;
     fail \<leftarrow> decode_field json_int ''failover_total'' 0 kvs;
     same \<leftarrow> decode_field json_int ''failover_same_model_total'' 0 kvs;
     cross \<leftarrow> decode_field json_int ''failover_cross_model_total'' 0 kvs;
     exh \<leftarrow> decode_field json_int ''failover_exhausted_total'' 0 kvs;
     rest \<leftarrow> decode_field json_int ''checkpoint_restores_total'' 0 kvs;
     degr \<leftarrow> decode_field json_int ''checkpoint_degraded_total'' 0 kvs;
     adm \<leftarrow> decode_field json_int ''admission_rejected_total'' 0 kvs;
     too \<leftarrow> decode_field json_int ''backend_429_total'' 0 kvs;
     push \<leftarrow> decode_field json_int ''backend_pushes_total'' 0 kvs;
     Some \<lparr> mx_duplicate_finals = dup, mx_stale_generation_writes = stale, mx_failover = fail,
            mx_failover_same_model = same, mx_failover_cross_model = cross, mx_failover_exhausted = exh,
            mx_checkpoint_restores = rest, mx_checkpoint_degraded = degr, mx_admission_rejected = adm,
            mx_backend_429 = too, mx_backend_pushes = push \<rparr> }"

definition fetch_metrics :: "'e rig \<Rightarrow> string \<Rightarrow> ('e, metrics_snap) chaos" where
  "fetch_metrics h gateway = check (cx_get h (gateway @ ''/api/debug/metrics'')) (decoded decode_metrics)"

definition decode_sessions :: "json \<Rightarrow> int option" where
  "decode_sessions v = do { kvs \<leftarrow> struct_of v; decode_field json_int ''active_sessions'' 0 kvs }"

definition active_sessions :: "'e rig \<Rightarrow> string \<Rightarrow> ('e, int) chaos" where
  "active_sessions h url = check (cx_get h (url @ ''/health'')) (decoded decode_sessions)"

text \<open>Unreachable workers are omitted.\<close>

fun session_counts :: "'e rig \<Rightarrow> worker_ref list \<Rightarrow> ('e chaos_state, string \<rightharpoonup> int) state" where
  "session_counts h [] = State_Monad.return Map.empty"
| "session_counts h (w # ws) = do {
     r \<leftarrow> active_sessions h (wr_health_url w);
     out \<leftarrow> session_counts h ws;
     State_Monad.return (case r of Inl _ \<Rightarrow> out
       | Inr n \<Rightarrow> if out (wr_id w) = None then out(wr_id w \<mapsto> n) else out) }"

fun find_pinned_worker :: "'e rig \<Rightarrow> (string \<rightharpoonup> int) \<Rightarrow> worker_ref list \<Rightarrow> ('e, worker_ref) chaos" where
  "find_pinned_worker h before [] = reject (Failed ''none of'')"
| "find_pinned_worker h before (w # ws) =
     (case before (wr_id w) of
        None \<Rightarrow> find_pinned_worker h before ws
      | Some prior \<Rightarrow> do {
          r \<leftarrow> active_sessions h (wr_health_url w);
          (case r of
             Inl err \<Rightarrow> find_pinned_worker h before ws
           | Inr n \<Rightarrow> if n > prior then accept w else find_pinned_worker h before ws) })"

definition kill_worker :: "'e rig \<Rightarrow> worker_ref \<Rightarrow> ('e, unit) chaos" where
  "kill_worker h w = check (cx_post h (wr_admin_url w @ ''/admin/die'') NoBody) (\<lambda>resp. demand (hp_status resp = 200) ''admin/die on'')"

definition decode_corrupted :: "json \<Rightarrow> bool option" where
  "decode_corrupted v = do { kvs \<leftarrow> struct_of v; decode_field json_bool ''corrupted'' False kvs }"

definition ask_to_corrupt :: "'e rig \<Rightarrow> string \<Rightarrow> string \<Rightarrow> ('e, bool) chaos" where
  "ask_to_corrupt h gateway sid =
     check (cx_post h (gateway @ ''/api/debug/corrupt-checkpoint/'' @ sid) NoBody) (decoded decode_corrupted)"

text \<open>The loop of \<open>restoreWorker\<close> with the turns it may make.\<close>

fun await_serving :: "'e rig \<Rightarrow> worker_ref \<Rightarrow> time \<Rightarrow> nat \<Rightarrow> ('e, unit) chaos" where
  "await_serving h w deadline 0 = reject (Failed ''turns'')"
| "await_serving h w deadline (Suc n) = do {
     now \<leftarrow> cx_do (rg_now h);
     (if \<not> now < deadline then reject (Failed (wr_id w))
      else do {
        r \<leftarrow> active_sessions h (wr_health_url w);
        (case r of
           Inr _ \<Rightarrow> accept ()
         | Inl err \<Rightarrow> do { cx_sleep h (500 * millisecond); await_serving h w deadline n }) }) }"

definition restore_worker :: "'e rig \<Rightarrow> worker_ref \<Rightarrow> nat \<Rightarrow> ('e, unit) chaos" where
  "restore_worker h w n = check (cx_post h (wr_admin_url w @ ''/admin/restore'') NoBody) (\<lambda>_. do {
     now \<leftarrow> cx_do (rg_now h); await_serving h w (now + 60 * second) n })"

text \<open>faults.go\<close>

definition post_admin :: "'e rig \<Rightarrow> string \<Rightarrow> string \<Rightarrow> json option \<Rightarrow> ('e, unit) chaos" where
  "post_admin h base path body =
     check (cx_post h (base @ path) (JsonBody (case body of None \<Rightarrow> JObject [] | Some j \<Rightarrow> j)))
       (\<lambda>resp. demand (hp_status resp = 200) base)"

definition inject_slow :: "'e rig \<Rightarrow> worker_ref \<Rightarrow> duration \<Rightarrow> ('e, unit) chaos" where
  "inject_slow h w d = post_admin h (wr_health_url w) ''/admin/slow'' (Some (JObject [(''ms'', JInt (milliseconds d))]))"

definition inject_blackhole :: "'e rig \<Rightarrow> worker_ref \<Rightarrow> bool \<Rightarrow> ('e, unit) chaos" where
  "inject_blackhole h w on = post_admin h (wr_health_url w) ''/admin/blackhole'' (Some (JObject [(''on'', JBool on)]))"

definition inject_429 :: "'e rig \<Rightarrow> worker_ref \<Rightarrow> float64 \<Rightarrow> ('e, unit) chaos" where
  "inject_429 h w rate = post_admin h (wr_health_url w) ''/admin/429'' (Some (JObject [(''rate'', JReal rate)]))"

definition reset_faults :: "'e rig \<Rightarrow> worker_ref \<Rightarrow> ('e chaos_state, unit) state" where
  "reset_faults h w = do { r \<leftarrow> post_admin h (wr_health_url w) ''/admin/reset'' None; State_Monad.return () }"

text \<open>\<open>order\<close> is the order the map is ranged over.\<close>

fun reset_all_faults :: "'e rig \<Rightarrow> fleet \<Rightarrow> string list \<Rightarrow> ('e chaos_state, unit) state" where
  "reset_all_faults h fl [] = State_Monad.return ()"
| "reset_all_faults h fl (i # order) = do { reset_faults h (member fl i); reset_all_faults h fl order }"

record seen_worker =
  sw_id :: string
  sw_status :: string
  sw_outstanding :: int
  sw_rate_limited :: bool
  sw_streaming :: bool

record seen_fleet =
  sf_workers :: "seen_worker list"
  sf_admitted :: int
  sf_high_water :: int

definition decode_seen_worker :: "json \<Rightarrow> seen_worker option" where
  "decode_seen_worker v = do {
     kvs \<leftarrow> struct_of v;
     ident \<leftarrow> decode_field json_string ''id'' '''' kvs;
     status \<leftarrow> decode_field json_string ''status'' '''' kvs;
     out \<leftarrow> decode_field json_int ''outstanding'' 0 kvs;
     limited \<leftarrow> decode_field json_bool ''rate_limited'' False kvs;
     streaming \<leftarrow> decode_field json_bool ''streaming'' False kvs;
     Some \<lparr> sw_id = ident, sw_status = status, sw_outstanding = out, sw_rate_limited = limited, sw_streaming = streaming \<rparr> }"

fun seen_workers :: "json \<Rightarrow> seen_worker list option" where
  "seen_workers (JArray vs) = those (map decode_seen_worker vs)"
| "seen_workers _ = None"

definition decode_fleet :: "json \<Rightarrow> seen_fleet option" where
  "decode_fleet v = do {
     kvs \<leftarrow> struct_of v;
     ws \<leftarrow> decode_field seen_workers ''workers'' [] kvs;
     adm \<leftarrow> decode_field json_int ''admitted_sessions'' 0 kvs;
     high \<leftarrow> decode_field json_int ''high_water_sessions'' 0 kvs;
     Some \<lparr> sf_workers = ws, sf_admitted = adm, sf_high_water = high \<rparr> }"

definition fetch_fleet :: "'e rig \<Rightarrow> string \<Rightarrow> ('e, seen_fleet) chaos" where
  "fetch_fleet h gateway = check (cx_get h (gateway @ ''/api/debug/workers'')) (decoded decode_fleet)"

definition status_of :: "seen_fleet \<Rightarrow> string \<Rightarrow> string" where
  "status_of f ident = (case find (\<lambda>w. sw_id w = ident) (sf_workers f) of None \<Rightarrow> ''unknown'' | Some w \<Rightarrow> sw_status w)"

text \<open>The loop of \<open>awaitWorkerStatus\<close> with the last status seen; \<open>None\<close>: the turns were not enough.\<close>

fun await_status :: "'e rig \<Rightarrow> string \<Rightarrow> string \<Rightarrow> string list \<Rightarrow> time \<Rightarrow> nat \<Rightarrow> string \<Rightarrow> ('e chaos_state, (string \<times> bool) option) state" where
  "await_status h gateway ident wanted deadline 0 seen = State_Monad.return None"
| "await_status h gateway ident wanted deadline (Suc n) seen = do {
     now \<leftarrow> cx_do (rg_now h);
     (if \<not> now < deadline then State_Monad.return (Some (seen, False))
      else do {
        r \<leftarrow> fetch_fleet h gateway;
        let seen' = (case r of Inl _ \<Rightarrow> seen | Inr f \<Rightarrow> status_of f ident);
        (if \<not> isl r \<and> seen' \<in> set wanted then State_Monad.return (Some (seen', True))
         else do { cx_sleep h (250 * millisecond); await_status h gateway ident wanted deadline n seen' }) }) }"

definition await_worker_status :: "'e rig \<Rightarrow> string \<Rightarrow> string \<Rightarrow> duration \<Rightarrow> string list \<Rightarrow> nat \<Rightarrow>
    ('e chaos_state, (string \<times> bool) option) state" where
  "await_worker_status h gateway ident most wanted n = do {
     now \<leftarrow> cx_do (rg_now h); await_status h gateway ident wanted (now + most) n ''unknown'' }"

section \<open>One session\<close>

record ws_session =
  wn_conn :: nat
  wn_session_id :: string

text \<open>
  \<open>diagnoseClosure\<close>: an error event if one is buffered, else the last event, else the
  reader's error; the description is the event's type.
\<close>

definition diagnose_closure :: "'e rig \<Rightarrow> nat \<Rightarrow> ('e chaos_state, string) state" where
  "diagnose_closure h c = do {
     evs \<leftarrow> cx_do (rg_ready h c);
     (if ''error'' \<in> set (map type_of_message evs) then State_Monad.return ''gateway sent error''
      else if evs \<noteq> [] then State_Monad.return ''last event before closure''
      else do {
        r \<leftarrow> cx_do (rg_read_err h c);
        State_Monad.return (case r of None \<Rightarrow> '''' | Some err \<Rightarrow> ''reader goroutine'') }) }"

definition cx_write :: "'e rig \<Rightarrow> nat \<Rightarrow> frame \<Rightarrow> ('e, unit) chaos" where
  "cx_write h c f = do {
     r \<leftarrow> cx_do (rg_write h c (encode f));
     (case r of
        None \<Rightarrow> do {
          State_Monad.update (\<lambda>s. s\<lparr>cx_out := cx_out s @ [(c, encode f)]\<rparr>);
          accept () }
      | Some err \<Rightarrow> do {
          diag \<leftarrow> diagnose_closure h c;
          reject (if diag = '''' then Failed err else Because diag (Failed err)) }) }"

definition next_event :: "'e rig \<Rightarrow> nat \<Rightarrow> duration \<Rightarrow> ('e, message) chaos" where
  "next_event h c timeout = do {
     r \<leftarrow> cx_do (rg_next h c timeout);
     (case r of
        Heard ev \<Rightarrow> accept ev
      | Silent \<Rightarrow> reject (Failed ''timed out waiting for an event'')
      | HungUp \<Rightarrow> do {
          err \<leftarrow> cx_do (rg_read_err h c);
          reject (Failed (case err of None \<Rightarrow> ''event stream closed with no error'' | Some x \<Rightarrow> x)) }) }"

text \<open>The loop of \<open>nextOfType\<close> with the turns it may make.\<close>

fun next_of_type :: "'e rig \<Rightarrow> nat \<Rightarrow> duration \<Rightarrow> string list \<Rightarrow> time \<Rightarrow> nat \<Rightarrow> ('e, message) chaos" where
  "next_of_type h c timeout types deadline 0 = reject (Failed ''turns'')"
| "next_of_type h c timeout types deadline (Suc n) = do {
     now \<leftarrow> cx_do (rg_now h);
     (if \<not> now < deadline then reject (Failed ''timed out waiting for one of'')
      else check (next_event h c timeout) (\<lambda>ev.
        let ty = type_of_message ev in
        if ty \<in> set types then accept ev
        else if ty = ''error'' then reject (Failed ''gateway reported error while waiting for'')
        else next_of_type h c timeout types deadline n)) }"

definition await_type :: "'e rig \<Rightarrow> nat \<Rightarrow> nat \<Rightarrow> duration \<Rightarrow> string list \<Rightarrow> ('e, message) chaos" where
  "await_type h n c timeout types = do {
     now \<leftarrow> cx_do (rg_now h); next_of_type h c timeout types (now + timeout) n }"

definition dial_session :: "'e rig \<Rightarrow> string \<Rightarrow> ('e, nat) chaos" where
  "dial_session h url = do {
     r \<leftarrow> cx_do (rg_dial h url);
     (case r of Inl err \<Rightarrow> reject (Because ''dial'' (Failed err)) | Inr c \<Rightarrow> accept c) }"

definition chaos_start :: "string \<Rightarrow> json" where
  "chaos_start mode = JObject
     [(''type'', JString ''session.start''), (''mode'', JString mode), (''sample_rate_hz'', JInt 16000),
      (''encoding'', JString ''pcm_s16le''), (''channels'', JInt 1), (''nominal_frame_ms'', JInt 20)]"

definition send_start :: "'e rig \<Rightarrow> string \<Rightarrow> nat \<Rightarrow> ('e, unit) chaos" where
  "send_start h mode c = because ''send session.start'' (cx_write h c (control_frame 0 (rg_lit h (chaos_start mode))))"

definition cx_start :: "'e rig \<Rightarrow> nat \<Rightarrow> ('e, message) chaos" where
  "cx_start h c = check (send_start h ''online'' c)
     (\<lambda>_. because ''read first event after session.start'' (next_event h c (10 * second)))"

text \<open>The end of \<open>openSession\<close> and \<open>openSessionMode\<close>.\<close>

definition acked_session :: "nat \<Rightarrow> message \<Rightarrow> ('e, ws_session) chaos" where
  "acked_session c ack =
     (if type_of_message ack \<noteq> ''ack'' then reject (Failed ''got'')
      else let sid = message_text ack ''session_id'' in
        if sid = '''' then reject (Failed ''ack carried no session_id'')
        else accept \<lparr> wn_conn = c, wn_session_id = sid \<rparr>)"

definition cx_open :: "'e rig \<Rightarrow> string \<Rightarrow> ('e, ws_session) chaos" where
  "cx_open h url = check (dial_session h url) (\<lambda>c. check (cx_start h c) (acked_session c))"

definition open_session_mode :: "'e rig \<Rightarrow> nat \<Rightarrow> string \<Rightarrow> string \<Rightarrow> ('e, ws_session) chaos" where
  "open_session_mode h n url mode = check (dial_session h url) (\<lambda>c. check (send_start h mode c) (\<lambda>_.
     check (await_type h n c (15 * second) [''ack'', ''overloaded'', ''error'']) (acked_session c)))"

definition close_session :: "'e rig \<Rightarrow> nat \<Rightarrow> ('e chaos_state, unit) state" where
  "close_session h c = cx_do (\<lambda>e. ((), rg_close h c e))"

text \<open>The number of attempts still allowed is the recursion's measure.\<close>

fun open_pinned :: "'e rig \<Rightarrow> string \<Rightarrow> worker_ref list \<Rightarrow> nat \<Rightarrow> ('e, ws_session \<times> worker_ref) chaos" where
  "open_pinned h url ws 0 = reject (Failed ''did not pin to any of'')"
| "open_pinned h url ws (Suc attempts) = do {
     before \<leftarrow> session_counts h ws;
     check (because ''attempt'' (cx_open h url)) (\<lambda>s. do {
       r \<leftarrow> find_pinned_worker h before ws;
       (case r of
          Inr w \<Rightarrow> accept (s, w)
        | Inl err \<Rightarrow> do {
            close_session h (wn_conn s);
            cx_sleep h (100 * millisecond);
            open_pinned h url ws attempts }) }) }"

text \<open>The frames of a clip: 20 ms each, the last one what is left.\<close>

definition chaosFrameBytes :: nat where "chaosFrameBytes = 640"

fun clip_payloads :: "nat \<Rightarrow> byte list \<Rightarrow> byte list list" where
  "clip_payloads 0 pcm = []"
| "clip_payloads (Suc n) pcm = (if pcm = [] then [] else take chaosFrameBytes pcm # clip_payloads n (drop chaosFrameBytes pcm))"

definition clip_frame :: "u64 \<Rightarrow> byte list \<Rightarrow> frame" where
  "clip_frame seq payload = \<lparr> f_type = MsgAudio, f_seq = seq, f_capture_ms = 0,
     f_num_samples = of_nat (length payload div 2), f_payload = payload \<rparr>"

fun stream_payloads :: "'e rig \<Rightarrow> nat \<Rightarrow> byte list list \<Rightarrow> u64 \<Rightarrow> ('e, u64) chaos" where
  "stream_payloads h c [] seq = accept seq"
| "stream_payloads h c (p # ps) seq = do {
     cx_do (\<lambda>e. ((), rg_tick h e));
     check (because ''send audio frame'' (cx_write h c (clip_frame seq p))) (\<lambda>_. stream_payloads h c ps (seq + 1)) }"

definition stream_clip :: "'e rig \<Rightarrow> nat \<Rightarrow> byte list \<Rightarrow> u64 \<Rightarrow> ('e, u64) chaos" where
  "stream_clip h c pcm seq = stream_payloads h c (clip_payloads (length pcm) pcm) seq"

definition cx_end :: "'e rig \<Rightarrow> nat \<Rightarrow> nat \<Rightarrow> u64 \<Rightarrow> ('e, message) chaos" where
  "cx_end h n c seq =
     check (because ''send session.end'' (cx_write h c (control_frame seq (rg_lit h end_json))))
       (\<lambda>_. await_type h n c (15 * second) [''final''])"

text \<open>\<open>(len(pcm) / 2) &^ 1\<close>\<close>

definition even_midpoint :: "byte list \<Rightarrow> nat" where
  "even_midpoint pcm = (let m = length pcm div 2 in m - m mod 2)"

definition load_clip :: "'e rig \<Rightarrow> string \<Rightarrow> ('e, clip) chaos" where
  "load_clip h path =
     (case rg_load h path of
        Inl err \<Rightarrow> reject (Failed ''corpus'')
      | Inr c \<Rightarrow>
          if cl_sample_rate_hz c \<noteq> 16000 \<or> cl_channels c \<noteq> 1 \<or> cl_bits_per_sample c \<noteq> 16
          then reject (Failed path) else accept c)"

fun require_up :: "'e rig \<Rightarrow> worker_ref list \<Rightarrow> ('e, unit) chaos" where
  "require_up h [] = accept ()"
| "require_up h (w # ws) = do {
     r \<leftarrow> active_sessions h (wr_health_url w);
     (case r of Inl err \<Rightarrow> reject (Failed (wr_id w)) | Inr _ \<Rightarrow> require_up h ws) }"

section \<open>Running the combinators\<close>

lemma run_cx_do: "run_state (cx_do f) s = (case f (cx_env s) of (x, e) \<Rightarrow> (x, s\<lparr>cx_env := e\<rparr>))"
  by (simp add: cx_do_def split: prod.split)

lemma run_accept [simp]: "run_state (accept x) s = (Inr x, s)"
  by (simp add: accept_def)

lemma run_reject [simp]: "run_state (reject err) s = (Inl err, s)"
  by (simp add: reject_def)

lemma run_check: "run_state (check m f) s = (case run_state m s of
    (Inl err, s') \<Rightarrow> (Inl err, s') | (Inr x, s') \<Rightarrow> run_state (f x) s')"
  by (simp add: check_def split: prod.split sum.split)

lemma run_because: "run_state (because what m) s = (case run_state m s of
    (Inl err, s') \<Rightarrow> (Inl (Because what err), s') | (Inr x, s') \<Rightarrow> (Inr x, s'))"
  by (simp add: because_def split: prod.split sum.split)

lemma run_demand [simp]: "run_state (demand b what) s = (if b then Inr () else Inl (Failed what), s)"
  by (simp add: demand_def)

lemma run_afterwards: "run_state (afterwards m f) s = (case run_state m s of (r, s') \<Rightarrow> (r, snd (run_state f s')))"
  by (simp add: afterwards_def split: prod.split)

section \<open>What reaches the gateway of a clip\<close>

lemma clip_payloads_concat: "length pcm \<le> n \<Longrightarrow> concat (clip_payloads n pcm) = pcm"
proof (induction n arbitrary: pcm)
  case (Suc n)
  then show ?case by (simp add: chaosFrameBytes_def)
qed simp

lemma clip_payloads_length: "p \<in> set (clip_payloads n pcm) \<Longrightarrow> 0 < length p \<and> length p \<le> chaosFrameBytes"
  by (induction n arbitrary: pcm) (auto simp: chaosFrameBytes_def split: if_splits)

lemma clip_payloads_even: "even (length pcm) \<Longrightarrow> p \<in> set (clip_payloads n pcm) \<Longrightarrow> even (length p)"
proof (induction n arbitrary: pcm)
  case (Suc n)
  have ev: "even (length (take chaosFrameBytes pcm))" "even (length (drop chaosFrameBytes pcm))"
    using Suc.prems(1) by (simp_all add: chaosFrameBytes_def min_def)
  have "p = take chaosFrameBytes pcm \<or> p \<in> set (clip_payloads n (drop chaosFrameBytes pcm))"
    using Suc.prems(2) by (simp split: if_splits)
  with Suc.IH [OF ev(2)] ev(1) show ?case by blast
qed simp

text \<open>The frames that carry payloads from a number on.\<close>

fun numbered :: "u64 \<Rightarrow> byte list list \<Rightarrow> frame list" where
  "numbered seq [] = []"
| "numbered seq (p # ps) = clip_frame seq p # numbered (seq + 1) ps"

lemma numbered_append: "numbered seq (ps @ qs) = numbered seq ps @ numbered (seq + of_nat (length ps)) qs"
  by (induction ps arbitrary: seq) (simp_all add: algebra_simps)

lemma numbered_payloads [simp]: "map f_payload (numbered seq ps) = ps"
  by (induction ps arbitrary: seq) (simp_all add: clip_frame_def)

lemma numbered_length [simp]: "length (numbered seq ps) = length ps"
  by (induction ps arbitrary: seq) simp_all

lemma numbered_audio: "f \<in> set (numbered seq ps) \<Longrightarrow> \<exists>q. \<exists>p \<in> set ps. f = clip_frame q p"
  by (induction ps arbitrary: seq) (simp, fastforce)

lemma numbered_in_order:
  "validate_all \<lparr> sv_expected = seq \<rparr> (map f_seq (numbered seq ps))
     = (map f_seq (numbered seq ps), [], \<lparr> sv_expected = seq + of_nat (length ps) \<rparr>)"
  by (induction ps arbitrary: seq) (simp_all add: clip_frame_def validate_def algebra_simps)

lemma clip_frame_valid:
  assumes "length p \<le> chaosFrameBytes"
  shows "validate_audio_frame (clip_frame seq p) = None \<longleftrightarrow> even (length p)"
proof -
  have "unat (of_nat (length p div 2) :: u32) = length p div 2"
    using assms by (simp add: chaosFrameBytes_def unat_of_nat take_bit_nat_eq_self_iff)
  then have "validate_audio_frame (clip_frame seq p) = None \<longleftrightarrow> length p = length p div 2 * 2"
    by (simp add: validate_audio_frame_def clip_frame_def BytesPerSample_def Let_def)
  also have "\<dots> \<longleftrightarrow> even (length p)" by presburger
  finally show ?thesis .
qed

lemma run_cx_write:
  assumes "run_state (cx_write h c f) s = (r, s')"
  shows "(r = Inr () \<longrightarrow> cx_out s' = cx_out s @ [(c, encode f)]) \<and> (isl r \<longrightarrow> cx_out s' = cx_out s)"
  using assms
  by (auto simp: cx_write_def run_cx_do diagnose_closure_def split: prod.splits option.splits if_splits)

lemma run_stream_payloads:
  assumes "run_state (stream_payloads h c ps seq) s = (Inr q, s')"
  shows "cx_out s' = cx_out s @ map (\<lambda>f. (c, encode f)) (numbered seq ps) \<and> q = seq + of_nat (length ps)"
  using assms
proof (induction ps arbitrary: seq s)
  case Nil
  then show ?case by simp
next
  case (Cons p ps)
  obtain x s1 where tick: "run_state (cx_do (\<lambda>e. ((), rg_tick h e))) s = (x, s1)" by (rule prod.exhaust)
  then have out: "cx_out s1 = cx_out s" by (auto simp: run_cx_do)
  obtain r s2 where wrote: "run_state (cx_write h c (clip_frame seq p)) s1 = (r, s2)" by fastforce
  have step: "run_state (because ''send audio frame'' (cx_write h c (clip_frame seq p))) s1
      = (case r of Inl err \<Rightarrow> Inl (Because ''send audio frame'' err) | Inr y \<Rightarrow> Inr y, s2)"
    by (simp add: run_because wrote split: sum.split)
  from Cons.prems tick have "r = Inr ()" and rest: "run_state (stream_payloads h c ps (seq + 1)) s2 = (Inr q, s')"
    by (cases r; simp add: run_check step)+
  with run_cx_write [OF wrote] have "cx_out s2 = cx_out s @ [(c, encode (clip_frame seq p))]" by (simp add: out)
  with Cons.IH [OF rest] show ?case by (simp add: algebra_simps)
qed

lemma even_concat: "(\<And>p. p \<in> set ps \<Longrightarrow> even (length p)) \<Longrightarrow> even (length (concat ps))"
  by (induction ps) simp_all

lemma even_midpoint_even: "even (even_midpoint pcm)"
  unfolding even_midpoint_def Let_def by (simp add: minus_mod_eq_mult_div)

lemma even_midpoint_le: "even_midpoint pcm \<le> length pcm"
  unfolding even_midpoint_def Let_def by (rule order_trans [OF diff_le_self]) simp

section \<open>Properties\<close>

text \<open>
  The halves a scenario streams are the clip. When both calls succeed, the messages written
  are frames the gateway's decoder reads back, their payloads are together exactly the clip, and
  a validator that expects the first number accepts every one without a gap or a duplicate; if
  the clip holds whole samples every frame passes the gateway's duration check, and only then,
  because the split is at an even offset.
\<close>

theorem halves_carry_the_clip:
  assumes "run_state (stream_clip h c (take (even_midpoint pcm) pcm) q) s = (Inr q1, s1)"
    and "run_state (stream_clip h c (drop (even_midpoint pcm) pcm) q1) s2 = (Inr q2, s3)"
  shows "\<exists>fs1 fs2. cx_out s1 = cx_out s @ map (\<lambda>f. (c, encode f)) fs1
     \<and> cx_out s3 = cx_out s2 @ map (\<lambda>f. (c, encode f)) fs2
     \<and> (\<forall>f \<in> set (fs1 @ fs2). decode (encode f) = Inr f)
     \<and> concat (map f_payload (fs1 @ fs2)) = pcm
     \<and> validate_all \<lparr> sv_expected = q \<rparr> (map f_seq (fs1 @ fs2)) = (map f_seq (fs1 @ fs2), [], \<lparr> sv_expected = q2 \<rparr>)
     \<and> ((\<forall>f \<in> set (fs1 @ fs2). validate_audio_frame f = None) \<longleftrightarrow> even (length pcm))"
proof -
  let ?a = "take (even_midpoint pcm) pcm" and ?b = "drop (even_midpoint pcm) pcm"
  let ?p = "clip_payloads (length ?a) ?a" and ?r = "clip_payloads (length ?b) ?b"
  let ?fs = "numbered q (?p @ ?r)"
  note one = run_stream_payloads [OF assms(1) [unfolded stream_clip_def]]
  note two = run_stream_payloads [OF assms(2) [unfolded stream_clip_def]]
  have fs: "?fs = numbered q ?p @ numbered q1 ?r" using one by (simp add: numbered_append)
  have whole: "concat (?p @ ?r) = pcm" by (simp add: clip_payloads_concat)
  have frames: "\<exists>x p. f = clip_frame x p \<and> p \<in> set (?p @ ?r) \<and> length p \<le> chaosFrameBytes" if "f \<in> set ?fs" for f
    using numbered_audio [OF that] clip_payloads_length by auto blast+
  have "decode (encode f) = Inr f" if "f \<in> set ?fs" for f
    using frames [OF that] by (auto simp: clip_frame_def intro: decode_encode_aux)
  moreover have "(\<forall>f \<in> set ?fs. validate_audio_frame f = None) \<longleftrightarrow> even (length pcm)"
  proof
    assume valid: "\<forall>f \<in> set ?fs. validate_audio_frame f = None"
    have "even (length p)" if "p \<in> set (?p @ ?r)" for p
    proof -
      have "p \<in> f_payload ` set ?fs" using that numbered_payloads [of q "?p @ ?r"] by (metis set_map)
      then obtain f where f: "f \<in> set ?fs" "p = f_payload f" by blast
      obtain x p' where "f = clip_frame x p'" "length p' \<le> chaosFrameBytes" using frames [OF f(1)] by blast
      with valid f clip_frame_valid show ?thesis by (metis clip_frame_def frame.select_convs(5))
    qed
    then have "even (length (concat (?p @ ?r)))" by (rule even_concat)
    then show "even (length pcm)" unfolding whole .
  next
    assume ev: "even (length pcm)"
    have "even (length ?a)" "even (length ?b)" using ev even_midpoint_even [of pcm] even_midpoint_le [of pcm] by simp_all
    then have "even (length p)" if "p \<in> set (?p @ ?r)" for p
      using clip_payloads_even [of ?a p] clip_payloads_even [of ?b p] that unfolding set_append Un_iff by blast
    then have "validate_audio_frame f = None" if "f \<in> set ?fs" for f
      using frames [OF that] clip_frame_valid by metis
    then show "\<forall>f \<in> set ?fs. validate_audio_frame f = None" by blast
  qed
  moreover have "validate_all \<lparr> sv_expected = q \<rparr> (map f_seq ?fs) = (map f_seq ?fs, [], \<lparr> sv_expected = q2 \<rparr>)"
    using numbered_in_order [of q "?p @ ?r"] one two by (simp add: algebra_simps)
  moreover have "concat (map f_payload ?fs) = pcm" unfolding numbered_payloads whole ..
  ultimately have all: "(\<forall>f \<in> set ?fs. decode (encode f) = Inr f) \<and> concat (map f_payload ?fs) = pcm
     \<and> validate_all \<lparr> sv_expected = q \<rparr> (map f_seq ?fs) = (map f_seq ?fs, [], \<lparr> sv_expected = q2 \<rparr>)
     \<and> ((\<forall>f \<in> set ?fs. validate_audio_frame f = None) \<longleftrightarrow> even (length pcm))" by blast
  show ?thesis
    by (rule exI [of _ "numbered q ?p"], rule exI [of _ "numbered q1 ?r"], intro conjI [OF conjunct1 [OF one]]
        conjI [OF conjunct1 [OF two]]) (rule all [unfolded fs])
qed


definition demo_rig :: "unit rig" where
  "demo_rig = \<lparr>
     rg_http = (\<lambda>q e. (if prefix ''http://'' (hq_url q)
       then Inr \<lparr> hp_status = 200, hp_retry_after = '''', hp_json = Some (JObject []), hp_text = '''' \<rparr>
       else Inl ''unsupported protocol scheme'', e)),
     rg_dial = (\<lambda>_ e. (Inr 0, e)), rg_write = (\<lambda>_ _ e. (None, e)),
     rg_next = (\<lambda>_ _ e. (Heard [''type'' \<mapsto> JString ''ack'', ''session_id'' \<mapsto> JString ''s''], e)),
     rg_ready = (\<lambda>_ e. ([], e)), rg_read_err = (\<lambda>_ e. (None, e)), rg_close = (\<lambda>_ e. e), rg_now = (\<lambda>e. (0, e)),
     rg_sleep = (\<lambda>_ e. e), rg_tick = (\<lambda>e. e),
     rg_load = (\<lambda>_. Inr \<lparr> cl_sample_rate_hz = 16000, cl_channels = 1, cl_bits_per_sample = 16, cl_pcm = [1, 2, 3, 4] \<rparr>),
     rg_lit = (\<lambda>_. []) \<rparr>"

definition demo_chaos :: "unit chaos_state" where
  "demo_chaos = \<lparr> cx_out = [], cx_posts = [], cx_env = () \<rparr>"

lemma demo_write: "run_state (cx_write demo_rig c f) s = (Inr (), s\<lparr>cx_out := cx_out s @ [(c, encode f)]\<rparr>)"
  by (simp add: cx_write_def run_cx_do demo_rig_def)

theorem halves_carry_the_clip_witness:
  "\<exists>s1 s3 fs. run_state (stream_clip demo_rig 0 [1, 2] 1) demo_chaos = (Inr 2, s1)
     \<and> run_state (stream_clip demo_rig 0 [3, 4] 2) s1 = (Inr 3, s3)
     \<and> concat (map f_payload fs) = [1, 2, 3, 4] \<and> (\<forall>f \<in> set fs. validate_audio_frame f = None)"
proof -
  have mid: "even_midpoint [1, 2, 3, 4 :: byte] = 2" by (simp add: even_midpoint_def)
  have run: "\<exists>s'. run_state (stream_clip demo_rig 0 [a, b] q) s = (Inr (q + 1), s')" for a b :: byte and q and s :: "unit chaos_state"
    by (simp add: stream_clip_def chaosFrameBytes_def run_check run_because run_cx_do demo_write)
  obtain s1 where one: "run_state (stream_clip demo_rig 0 [1, 2] 1) demo_chaos = (Inr 2, s1)"
    using run [of 1 2 1 demo_chaos] by auto
  obtain s3 where two: "run_state (stream_clip demo_rig 0 [3, 4] 2) s1 = (Inr 3, s3)"
    using run [of 3 4 2 s1] by auto
  have "run_state (stream_clip demo_rig 0 (take (even_midpoint [1, 2, 3, 4]) [1, 2, 3, 4]) 1) demo_chaos = (Inr 2, s1)"
    "run_state (stream_clip demo_rig 0 (drop (even_midpoint [1, 2, 3, 4]) [1, 2, 3, 4]) 2) s1 = (Inr 3, s3)"
    using one two by (simp_all add: mid)
  from halves_carry_the_clip [OF this] obtain fs1 fs2 where
    "concat (map f_payload (fs1 @ fs2)) = [1, 2, 3, 4]"
    "(\<forall>f \<in> set (fs1 @ fs2). validate_audio_frame f = None) \<longleftrightarrow> even (length [1, 2, 3, 4 :: byte])" by blast
  with one two show ?thesis by (intro exI [of _ s1] exI [of _ s3] exI [of _ "fs1 @ fs2"]) simp
qed

text \<open>
  The tool compares what the gateway counts: the counters' own snapshot, as JSON, is read back to
  every counter, so no assertion of a scenario rests on a misread field.
\<close>

definition snapshot_json :: "counters \<Rightarrow> json" where
  "snapshot_json c = JObject (map (\<lambda>(k, v). (k, JInt v)) (snapshot c))"

lemma snapshot_is_read_back:
  assumes "\<forall>(k, v) \<in> set (snapshot c). - (2 ^ 63) \<le> v \<and> v < 2 ^ 63"
  shows "decode_metrics (snapshot_json c) = Some
    \<lparr> mx_duplicate_finals = mt_duplicate_finals c, mx_stale_generation_writes = mt_stale_generation_writes c,
      mx_failover = mt_failover c, mx_failover_same_model = mt_failover_same_model c,
      mx_failover_cross_model = mt_failover_cross_model c, mx_failover_exhausted = mt_failover_exhausted c,
      mx_checkpoint_restores = mt_checkpoint_restores c, mx_checkpoint_degraded = mt_checkpoint_degraded c,
      mx_admission_rejected = mt_admission_rejected c, mx_backend_429 = mt_backend_429 c,
      mx_backend_pushes = mt_backend_pushes c \<rparr>"
  using assms
  by (simp add: decode_metrics_def snapshot_json_def snapshot_def struct_of_def decode_field_def decode_into_def
      members_def fold_eq_def lower_char_def)

end
