(* ===== verification/ChaosRun.thy ===== *)
theory ChaosRun
  imports Chaos
begin

text \<open>
  The scenarios of \<^verbatim>\<open>cmd/chaostest\<close> (scenarios.go, scenarios_load.go, scenarios_kv.go,
  scenarios_fleet.go) and the dispatch of its \<open>main\<close>. \<open>n\<close> bounds the turns of every waiting
  loop, \<open>order\<close> is the order the fleet is ranged over. What a scenario prints is left out.
\<close>

section \<open>Shared steps\<close>

definition checkpointSettleDelay :: duration where "checkpointSettleDelay = 500 * millisecond"

definition zip_pair :: "fleet \<Rightarrow> worker_ref list" where
  "zip_pair fl = [member fl ''worker-zip-1'', member fl ''worker-zip-2'']"

definition could_not_get :: string where
  "could_not_get = ''could not get a session pinned to worker-zip-1 or worker-zip-2''"

text \<open>Pin a session and stream the first half of the clip on it.\<close>

definition first_half :: "'e rig \<Rightarrow> ('e, ws_session \<times> worker_ref) chaos \<Rightarrow> clip \<Rightarrow> ('e, nat \<times> ws_session \<times> worker_ref \<times> u64) chaos" where
  "first_half h pin clip = check pin (\<lambda>(s, pinned).
     check (because ''first half'' (stream_clip h (wn_conn s) (take (even_midpoint (cl_pcm clip)) (cl_pcm clip)) 1))
       (\<lambda>seq. accept (wn_conn s, s, pinned, seq)))"

definition second_half :: "'e rig \<Rightarrow> string \<Rightarrow> nat \<Rightarrow> clip \<Rightarrow> u64 \<Rightarrow> ('e, u64) chaos" where
  "second_half h what c clip seq = because what (stream_clip h c (drop (even_midpoint (cl_pcm clip)) (cl_pcm clip)) seq)"

definition baseline :: "'e rig \<Rightarrow> string \<Rightarrow> ('e, metrics_snap) chaos" where
  "baseline h gateway = because ''fetch baseline metrics'' (fetch_metrics h gateway)"

definition kill :: "'e rig \<Rightarrow> worker_ref \<Rightarrow> ('e, unit) chaos" where
  "kill h w = because ''kill'' (kill_worker h w)"

definition await_reset :: "'e rig \<Rightarrow> nat \<Rightarrow> nat \<Rightarrow> duration \<Rightarrow> ('e, message) chaos" where
  "await_reset h n c timeout = because ''partial.reset'' (await_type h n c timeout [''partial.reset''])"

definition no_duplicates :: "metrics_snap \<Rightarrow> metrics_snap \<Rightarrow> ('e, unit) chaos" where
  "no_duplicates before after =
     demand (mx_duplicate_finals after = mx_duplicate_finals before) ''duplicate_finals_total changed''"

definition ends_with_text :: "'e rig \<Rightarrow> nat \<Rightarrow> nat \<Rightarrow> u64 \<Rightarrow> ('e, unit) chaos" where
  "ends_with_text h n c seq = check (because ''session.end'' (cx_end h n c seq))
     (\<lambda>final. demand (message_text final ''text'' \<noteq> '''') ''final carried empty text'')"

section \<open>Crashes (scenarios.go)\<close>

definition scenario2 :: "'e rig \<Rightarrow> nat \<Rightarrow> env \<Rightarrow> string \<Rightarrow> string \<Rightarrow> string \<Rightarrow> fleet \<Rightarrow> ('e, unit) chaos" where
  "scenario2 h n env url gateway path fl =
     check (load_clip h path) (\<lambda>clip.
     check (first_half h (because could_not_get (open_pinned h url (zip_pair fl) 10)) clip) (\<lambda>(c, s, pinned, seq). do {
       cx_sleep h checkpointSettleDelay;
       check (baseline h gateway) (\<lambda>before.
       check (kill h pinned) (\<lambda>_.
       check (second_half h ''second half (post-kill)'' c clip seq) (\<lambda>seq.
       check (await_reset h n c (15 * second)) (\<lambda>_.
       check (because ''fetch post-recovery metrics'' (fetch_metrics h gateway)) (\<lambda>after.
       check (no_duplicates before after) (\<lambda>_.
       check (demand (mx_failover_same_model after > mx_failover_same_model before)
                ''failover_same_model_total did not increase'') (\<lambda>_.
       let warmBefore = mx_checkpoint_restores before + mx_checkpoint_degraded before;
           warmAfter = mx_checkpoint_restores after + mx_checkpoint_degraded after in
       check (demand (env ''CHECKPOINTS_ENABLED'' = ''0'' \<or> warmAfter > warmBefore)
                ''neither checkpoint_restores_total nor checkpoint_degraded_total moved'') (\<lambda>_.
       ends_with_text h n c seq)))))))) }))"

definition scenario3 :: "'e rig \<Rightarrow> nat \<Rightarrow> string \<Rightarrow> string \<Rightarrow> string \<Rightarrow> fleet \<Rightarrow> ('e, unit) chaos" where
  "scenario3 h n url gateway path fl =
     check (load_clip h path) (\<lambda>clip.
     check (first_half h (because could_not_get (open_pinned h url (zip_pair fl) 10)) clip) (\<lambda>(c, s, _, seq). do {
       cx_sleep h checkpointSettleDelay;
       check (baseline h gateway) (\<lambda>before.
       check (kill h (member fl ''worker-zip-1'')) (\<lambda>_.
       check (kill h (member fl ''worker-zip-2'')) (\<lambda>_.
       check (second_half h ''second half (post-kill)'' c clip seq) (\<lambda>seq.
       check (await_reset h n c (15 * second)) (\<lambda>_.
       check (because ''fetch post-recovery metrics'' (fetch_metrics h gateway)) (\<lambda>after.
       check (no_duplicates before after) (\<lambda>_.
       check (demand (mx_failover_cross_model after > mx_failover_cross_model before)
                ''failover_cross_model_total did not increase'') (\<lambda>_.
       ends_with_text h n c seq)))))))) }))"

definition scenario5 :: "'e rig \<Rightarrow> nat \<Rightarrow> string \<Rightarrow> string \<Rightarrow> string \<Rightarrow> fleet \<Rightarrow> ('e, unit) chaos" where
  "scenario5 h n url gateway path fl =
     check (load_clip h path) (\<lambda>clip.
     check (first_half h (open_pinned h url (zip_pair fl) 10) clip) (\<lambda>(c, s, pinned, seq). do {
       cx_sleep h checkpointSettleDelay;
       check (because ''corrupt-checkpoint call'' (ask_to_corrupt h gateway (wn_session_id s))) (\<lambda>corrupted.
       check (demand corrupted ''gateway reported no checkpoint to corrupt for session'') (\<lambda>_.
       check (baseline h gateway) (\<lambda>before.
       check (kill h pinned) (\<lambda>_.
       check (second_half h ''second half (post-kill)'' c clip seq) (\<lambda>seq.
       check (await_reset h n c (15 * second)) (\<lambda>_.
       check (because ''fetch post-recovery metrics'' (fetch_metrics h gateway)) (\<lambda>after.
       check (no_duplicates before after) (\<lambda>_.
       check (demand (mx_checkpoint_restores after = mx_checkpoint_restores before)
                ''checkpoint_restores_total increased'') (\<lambda>_.
       check (demand (mx_failover after > mx_failover before) ''failover_total did not increase'') (\<lambda>_.
       ends_with_text h n c seq)))))))))) }))"

section \<open>Load and degraded backends (scenarios_load.go)\<close>

definition could_not_pin :: string where
  "could_not_pin = ''could not pin a session to worker-zip-1 or worker-zip-2''"

definition scenario4 :: "'e rig \<Rightarrow> nat \<Rightarrow> string \<Rightarrow> string \<Rightarrow> string \<Rightarrow> fleet \<Rightarrow> string list \<Rightarrow> ('e, unit) chaos" where
  "scenario4 h n url gateway path fl order =
     check (load_clip h path) (\<lambda>clip. afterwards
     (check (because could_not_pin (open_pinned h url (zip_pair fl) 10)) (\<lambda>(s, pinned). afterwards
       (check (first_half h (accept (s, pinned)) clip) (\<lambda>(c, _, _, seq).
        check (baseline h gateway) (\<lambda>before.
        check (because ''inject 429 on'' (inject_429 h pinned (1 / 2))) (\<lambda>_.
        check (second_half h ''second half (under 429 storm)'' c clip seq) (\<lambda>seq.
        check (because ''fetch post-storm metrics'' (fetch_metrics h gateway)) (\<lambda>after.
        check (demand (mx_backend_429 after > mx_backend_429 before) ''backend_429_total did not move'') (\<lambda>_.
        check (no_duplicates before after) (\<lambda>_.
        check (demand (mx_backend_429 after - mx_backend_429 before \<le> 50) ''backend_429_total rose by'') (\<lambda>_.
        ends_with_text h n c seq)))))))))
       (close_session h (wn_conn s))))
     (reset_all_faults h fl order))"

definition scenario6 :: "'e rig \<Rightarrow> nat \<Rightarrow> string \<Rightarrow> string \<Rightarrow> string \<Rightarrow> fleet \<Rightarrow> string list \<Rightarrow> ('e, unit) chaos" where
  "scenario6 h n url gateway path fl order =
     check (load_clip h path) (\<lambda>clip. afterwards
     (check (because ''warm-up session'' (open_pinned h url (zip_pair fl @ [member fl ''worker-ctc-1'']) 10)) (\<lambda>(warm, _).
      check (because ''warm-up stream'' (stream_clip h (wn_conn warm) (cl_pcm clip) 1)) (\<lambda>warmSeq. do {
        ignored \<leftarrow> cx_end h n (wn_conn warm) warmSeq;
        close_session h (wn_conn warm);
        check (because could_not_pin (open_pinned h url (zip_pair fl) 10)) (\<lambda>(s, pinned). afterwards
          (check (because ''inject +2s latency on'' (inject_slow h pinned (2 * second))) (\<lambda>_. do {
             ignored \<leftarrow> stream_clip h (wn_conn s) (cl_pcm clip) 1;
             r \<leftarrow> await_worker_status h gateway (wr_id pinned) (15 * second) [''ejected'', ''degraded''] n;
             (case r of None \<Rightarrow> reject (Failed ''turns'') | Some (status, ok) \<Rightarrow> demand ok (wr_id pinned)) }))
          (close_session h (wn_conn s))) })))
     (reset_all_faults h fl order))"

definition scenario7 :: "'e rig \<Rightarrow> nat \<Rightarrow> string \<Rightarrow> string \<Rightarrow> string \<Rightarrow> fleet \<Rightarrow> string list \<Rightarrow> ('e, unit) chaos" where
  "scenario7 h n url gateway path fl order =
     check (load_clip h path) (\<lambda>clip. afterwards
     (check (because could_not_pin (open_pinned h url (zip_pair fl) 10)) (\<lambda>(s, pinned). afterwards
       (check (first_half h (accept (s, pinned)) clip) (\<lambda>(c, _, _, seq).
        check (baseline h gateway) (\<lambda>before.
        check (because ''blackhole'' (inject_blackhole h pinned True)) (\<lambda>_.
        check (second_half h ''second half (into the blackhole)'' c clip seq) (\<lambda>_.
        check (await_reset h n c (30 * second)) (\<lambda>_.
        check (because ''fetch post-failover metrics'' (fetch_metrics h gateway)) (\<lambda>after.
        check (demand (mx_failover after > mx_failover before) ''failover_total did not increase'') (\<lambda>_.
        no_duplicates before after))))))))
       (close_session h (wn_conn s))))
     (reset_all_faults h fl order))"

definition silenceFrames :: nat where "silenceFrames = 3000"

text \<open>The silent frames of scenario 10, unpaced.\<close>

fun send_silence :: "'e rig \<Rightarrow> nat \<Rightarrow> nat \<Rightarrow> u64 \<Rightarrow> ('e, unit) chaos" where
  "send_silence h c 0 seq = accept ()"
| "send_silence h c (Suc n) seq =
     check (because ''silence frame'' (cx_write h c (clip_frame seq (replicate chaosFrameBytes 0)))) (\<lambda>_. send_silence h c n (seq + 1))"

definition scenario10 :: "'e rig \<Rightarrow> string \<Rightarrow> string \<Rightarrow> fleet \<Rightarrow> string list \<Rightarrow> ('e, unit) chaos" where
  "scenario10 h url gateway fl order = afterwards
     (check (cx_open h url) (\<lambda>s. afterwards
       (check (baseline h gateway) (\<lambda>before.
        check (send_silence h (wn_conn s) silenceFrames 1) (\<lambda>_. do {
          cx_sleep h (2 * second);
          check (because ''fetch post-silence metrics'' (fetch_metrics h gateway)) (\<lambda>after.
          demand (mx_backend_pushes after - mx_backend_pushes before \<le> 10) ''60s of silence produced'') })))
       (close_session h (wn_conn s))))
     (reset_all_faults h fl order)"

fun kill_all :: "'e rig \<Rightarrow> fleet \<Rightarrow> string list \<Rightarrow> ('e, unit) chaos" where
  "kill_all h fl [] = accept ()"
| "kill_all h fl (i # order) = check (kill h (member fl i)) (\<lambda>_. kill_all h fl order)"

definition scenario11 :: "'e rig \<Rightarrow> string \<Rightarrow> string \<Rightarrow> fleet \<Rightarrow> string list \<Rightarrow> ('e, unit) chaos" where
  "scenario11 h url gateway fl order =
     check (kill_all h fl order) (\<lambda>_.
     check (because ''could not even open a socket'' (dial_session h url)) (\<lambda>c. afterwards
       (do {
          start \<leftarrow> cx_do (rg_now h);
          check (because ''no response to session.start within the timeout'' (cx_start h c)) (\<lambda>ev. do {
            now \<leftarrow> cx_do (rg_now h);
            check (demand (type_of_message ev = ''overloaded'' \<or> type_of_message ev = ''error'') ''got'') (\<lambda>_.
            check (demand (now - start \<le> 10 * second) ''refusal took'') (\<lambda>_.
            check (because ''gateway stopped answering'' (fetch_metrics h gateway)) (\<lambda>_. accept ()))) }) })
       (close_session h c)))"

section \<open>Real checkpoints (scenarios_kv.go)\<close>

text \<open>The workers a scenario needs: skipped unless all are in the fleet and answer.\<close>

definition needs :: "'e rig \<Rightarrow> fleet \<Rightarrow> string list \<Rightarrow> string \<Rightarrow> ('e, worker_ref list) chaos" where
  "needs h fl ids absent =
     (if \<not> list_all (\<lambda>i. fl i \<noteq> None) ids then reject (Skipped absent)
      else do {
        r \<leftarrow> require_up h (map (member fl) ids);
        (case r of Inl err \<Rightarrow> reject (Skipped ''is not answering at'') | Inr _ \<Rightarrow> accept (map (member fl) ids)) })"

definition scenario12 :: "'e rig \<Rightarrow> nat \<Rightarrow> string \<Rightarrow> string \<Rightarrow> string \<Rightarrow> fleet \<Rightarrow> ('e, unit) chaos" where
  "scenario12 h n url gateway path fl =
     check (needs h fl [''worker-zip-1'', ''worker-zip-2''] ''worker-zip-1/worker-zip-2 not in the fleet'') (\<lambda>ws.
     check (load_clip h path) (\<lambda>clip.
     check (first_half h (because could_not_pin (open_pinned h url ws 12)) clip) (\<lambda>(c, s, pinned, seq). do {
       cx_sleep h checkpointSettleDelay;
       check (because ''baseline metrics'' (fetch_metrics h gateway)) (\<lambda>before.
       check (kill h pinned) (\<lambda>_.
       check (second_half h ''second half (post-kill)'' c clip seq) (\<lambda>seq.
       check (await_reset h n c (20 * second)) (\<lambda>_.
       check (because ''post-recovery metrics'' (fetch_metrics h gateway)) (\<lambda>after.
       check (demand (mx_failover_same_model after > mx_failover_same_model before)
                ''failover_same_model_total did not move'') (\<lambda>_.
       check (demand (mx_checkpoint_restores after > mx_checkpoint_restores before)
                ''checkpoint_restores_total did not increase'') (\<lambda>_.
       check (no_duplicates before after) (\<lambda>_.
       ends_with_text h n c (seq + 1))))))))) })))"

definition scenario13 :: "'e rig \<Rightarrow> nat \<Rightarrow> string \<Rightarrow> string \<Rightarrow> string \<Rightarrow> fleet \<Rightarrow> ('e, unit) chaos" where
  "scenario13 h n url gateway path fl =
     check (needs h fl [''worker-zip-1'', ''worker-zip-2''] ''worker-zip-1/worker-zip-2 not in the fleet'') (\<lambda>ws.
     check (load_clip h path) (\<lambda>clip.
     check (first_half h (because could_not_pin (open_pinned h url ws 12)) clip) (\<lambda>(c, s, pinned, seq). do {
       cx_sleep h checkpointSettleDelay;
       check (because ''corrupt-checkpoint call'' (ask_to_corrupt h gateway (wn_session_id s))) (\<lambda>corrupted.
       check (demand corrupted ''gateway had no checkpoint to corrupt for'') (\<lambda>_.
       check (because ''baseline metrics'' (fetch_metrics h gateway)) (\<lambda>before.
       check (kill h pinned) (\<lambda>_.
       check (second_half h ''second half (post-kill)'' c clip seq) (\<lambda>seq.
       check (await_reset h n c (20 * second)) (\<lambda>_.
       check (because ''post-recovery metrics'' (fetch_metrics h gateway)) (\<lambda>after.
       check (demand (mx_checkpoint_restores after = mx_checkpoint_restores before)
                ''checkpoint_restores_total moved'') (\<lambda>_.
       check (demand (mx_checkpoint_degraded after > mx_checkpoint_degraded before)
                ''checkpoint_degraded_total did not move'') (\<lambda>_.
       check (no_duplicates before after) (\<lambda>_.
       ends_with_text h n c (seq + 1))))))))))) })))"

section \<open>The fleet (scenarios_fleet.go)\<close>

definition scenario14 :: "'e rig \<Rightarrow> nat \<Rightarrow> string \<Rightarrow> string \<Rightarrow> string \<Rightarrow> fleet \<Rightarrow> ('e, unit) chaos" where
  "scenario14 h n url gateway path fl =
     check (needs h fl [''worker-zip-1'', ''worker-zip-2''] ''the zipformer pair is not in the fleet'') (\<lambda>ws.
     check (load_clip h path) (\<lambda>clip.
     check (first_half h (because ''could not pin a session to the zipformer pair'' (open_pinned h url ws 12)) clip)
       (\<lambda>(c, s, _, seq). do {
       cx_sleep h checkpointSettleDelay;
       check (because ''baseline metrics'' (fetch_metrics h gateway)) (\<lambda>before.
       check (kill h (member fl ''worker-zip-1'')) (\<lambda>_.
       check (kill h (member fl ''worker-zip-2'')) (\<lambda>_.
       check (second_half h ''second half (post-kill)'' c clip seq) (\<lambda>seq.
       check (await_reset h n c (25 * second)) (\<lambda>_.
       check (because ''post-recovery metrics'' (fetch_metrics h gateway)) (\<lambda>after.
       check (demand (mx_failover_cross_model after > mx_failover_cross_model before)
                ''failover_cross_model_total did not move'') (\<lambda>_.
       check (demand (mx_checkpoint_restores after = mx_checkpoint_restores before)
                ''checkpoint_restores_total moved'') (\<lambda>_.
       check (no_duplicates before after) (\<lambda>_.
       ends_with_text h n c (seq + 1)))))))))) })))"

text \<open>The slices still to be streamed, each checked to have stayed on the worker.\<close>

fun stream_slices :: "'e rig \<Rightarrow> worker_ref \<Rightarrow> nat \<Rightarrow> byte list list \<Rightarrow> u64 \<Rightarrow> ('e, u64) chaos" where
  "stream_slices h w c [] seq = accept seq"
| "stream_slices h w c (p # ps) seq =
     check (because ''slice'' (stream_clip h c p seq)) (\<lambda>seq.
     check (because ''slice'' (active_sessions h (wr_health_url w))) (\<lambda>k.
     check (demand (k \<ge> 1) ''after slice'') (\<lambda>_. stream_slices h w c ps seq)))"

definition quarters :: "byte list \<Rightarrow> byte list list" where
  "quarters pcm = (let q = length pcm div 4; step = q - q mod 2 in
     map (\<lambda>i. sub_bytes (i * step) (if i = 3 then length pcm else (i + 1) * step) pcm) [0, 1, 2, 3])"

definition scenario15 :: "'e rig \<Rightarrow> nat \<Rightarrow> string \<Rightarrow> string \<Rightarrow> string \<Rightarrow> fleet \<Rightarrow> ('e, unit) chaos" where
  "scenario15 h n url gateway path fl =
     check (load_clip h path) (\<lambda>clip.
     let ids = filter (\<lambda>i. fl i \<noteq> None) [''worker-zip-1'', ''worker-zip-2'', ''worker-ctc-1'', ''worker-ctc-2''] in
     if length ids < 2 then reject (Skipped ''need at least two streaming workers'')
     else check (needs h fl ids '''') (\<lambda>ws.
     check (because ''could not pin a session'' (open_pinned h url ws 12)) (\<lambda>(s, pinned).
     check (stream_slices h pinned (wn_conn s) (quarters (cl_pcm clip)) 1) (\<lambda>seq.
     check (ends_with_text h n (wn_conn s) (seq + 1)) (\<lambda>_. do {
       ignored \<leftarrow> fetch_metrics h gateway;
       accept () })))))"

definition scenario16 :: "'e rig \<Rightarrow> nat \<Rightarrow> string \<Rightarrow> string \<Rightarrow> fleet \<Rightarrow> ('e, unit) chaos" where
  "scenario16 h n url path fl =
     (let one = member fl ''worker-whisper-1''; two = member fl ''worker-whisper-2'' in
      if fl ''worker-whisper-1'' = None \<or> fl ''worker-whisper-2'' = None
      then reject (Skipped ''the whisper pair is not in the fleet'')
      else check (needs h fl [''worker-whisper-1'', ''worker-whisper-2'', ''worker-ctc-2'']
                    ''need a worker outside the Bifrost chain to survive on'') (\<lambda>_.
      check (load_clip h path) (\<lambda>clip. afterwards
        (check (kill h one) (\<lambda>_.
         check (kill h two) (\<lambda>_.
         check (because ''open offline session'' (open_session_mode h n url ''offline'')) (\<lambda>s.
         check (because ''streaming offline clip'' (stream_clip h (wn_conn s) (cl_pcm clip) 1)) (\<lambda>seq.
         ends_with_text h n (wn_conn s) (seq + 1))))))
        (do { r1 \<leftarrow> restore_worker h one n; r2 \<leftarrow> restore_worker h two n; State_Monad.return () }))))"

section \<open>The dispatch of main\<close>

text \<open>The scenario of a number, of those \<open>main\<close> knows.\<close>

definition scenario_of :: "'e rig \<Rightarrow> nat \<Rightarrow> env \<Rightarrow> string \<Rightarrow> string \<Rightarrow> string \<Rightarrow> fleet \<Rightarrow> string list \<Rightarrow> int \<Rightarrow> ('e, unit) chaos option" where
  "scenario_of h n env url gateway path fl order k =
     (if k = 2 then Some (scenario2 h n env url gateway path fl)
      else if k = 3 then Some (scenario3 h n url gateway path fl)
      else if k = 4 then Some (scenario4 h n url gateway path fl order)
      else if k = 5 then Some (scenario5 h n url gateway path fl)
      else if k = 6 then Some (scenario6 h n url gateway path fl order)
      else if k = 7 then Some (scenario7 h n url gateway path fl order)
      else if k = 10 then Some (scenario10 h url gateway fl order)
      else if k = 11 then Some (scenario11 h url gateway fl order)
      else if k = 12 then Some (scenario12 h n url gateway path fl)
      else if k = 13 then Some (scenario13 h n url gateway path fl)
      else None)"

datatype verdict = Usage | Skip | Fail | Pass

fun is_skip :: "chaos_error \<Rightarrow> bool" where
  "is_skip (Skipped _) = True"
| "is_skip _ = False"

definition verdict_of :: "chaos_error + unit \<Rightarrow> verdict" where
  "verdict_of r = (case r of Inr _ \<Rightarrow> Pass | Inl err \<Rightarrow> if is_skip err then Skip else Fail)"

definition run_scenario :: "'e rig \<Rightarrow> nat \<Rightarrow> env \<Rightarrow> string \<Rightarrow> string \<Rightarrow> string \<Rightarrow> string list \<Rightarrow> int \<Rightarrow> ('e chaos_state, verdict) state" where
  "run_scenario h n env url gateway path order k =
     (case scenario_of h n env url gateway path (default_fleet env) order k of
        None \<Rightarrow> State_Monad.return Usage
      | Some m \<Rightarrow> do { r \<leftarrow> m; State_Monad.return (verdict_of r) })"

text \<open>\<open>--scenario -1\<close>: the session counts it prints.\<close>

fun count_each :: "'e rig \<Rightarrow> fleet \<Rightarrow> string list \<Rightarrow> ('e chaos_state, (string \<times> int option) list) state" where
  "count_each h fl [] = State_Monad.return []"
| "count_each h fl (i # is) = do {
     r \<leftarrow> active_sessions h (wr_health_url (member fl i));
     rest \<leftarrow> count_each h fl is;
     State_Monad.return ((i, case r of Inl _ \<Rightarrow> None | Inr k \<Rightarrow> Some k) # rest) }"

definition diagnostic :: "'e rig \<Rightarrow> env \<Rightarrow> string \<Rightarrow> ('e, (string \<times> int option) list) chaos" where
  "diagnostic h env url = check (cx_open h url) (\<lambda>s. do {
     counts \<leftarrow> count_each h (default_fleet env) [''worker-zip-1'', ''worker-zip-2'', ''worker-ctc-1'', ''worker-ctc-2'',
       ''worker-whisper-1'', ''worker-whisper-2''];
     close_session h (wn_conn s);
     accept counts })"

section \<open>The wait for a status ends\<close>

text \<open>What a polling loop relies on: a clock that keeps up with sleeping.\<close>

definition paced_rig :: "('e \<Rightarrow> time) \<Rightarrow> 'e rig \<Rightarrow> bool" where
  "paced_rig tm h \<longleftrightarrow> (\<forall>e. fst (rg_now h e) = tm e \<and> tm e \<le> tm (snd (rg_now h e)))
     \<and> (\<forall>q e. tm e \<le> tm (snd (rg_http h q e))) \<and> (\<forall>d e. tm e + d \<le> tm (rg_sleep h d e))"

lemma paced_fetch:
  assumes "paced_rig tm h" "run_state (fetch_fleet h gateway) s = (r, s')"
  shows "tm (cx_env s) \<le> tm (cx_env s')"
proof -
  let ?q = "\<lparr> hq_method = ''GET'', hq_url = gateway @ ''/api/debug/workers'', hq_headers = [], hq_body = NoBody \<rparr>"
  have "cx_env s' = snd (rg_http h ?q (cx_env s))"
    using assms(2) by (auto simp: fetch_fleet_def run_check cx_get_def run_cx_do decoded_def
        split: prod.splits sum.splits option.splits)
  with assms(1) show ?thesis by (simp add: paced_rig_def)
qed

lemma await_status_returns:
  assumes "paced_rig tm h" "deadline \<le> tm (cx_env s) + 250 * millisecond * int n"
  shows "fst (run_state (await_status h gateway ident wanted deadline (Suc n) seen) s) \<noteq> None"
  using assms(2)
proof (induction n arbitrary: s seen)
  case 0
  obtain now e where now: "rg_now h (cx_env s) = (now, e)" by fastforce
  then have "now = tm (cx_env s)" using assms(1) unfolding paced_rig_def by (metis fst_conv)
  with 0 now show ?case by (simp add: run_cx_do)
next
  case (Suc n)
  obtain now e where now: "rg_now h (cx_env s) = (now, e)" by fastforce
  then have t: "now = tm (cx_env s)" "tm (cx_env s) \<le> tm e" using assms(1) unfolding paced_rig_def by (metis fst_conv snd_conv)+
  obtain r s1 where asked: "run_state (fetch_fleet h gateway) (s\<lparr>cx_env := e\<rparr>) = (r, s1)" by fastforce
  have "tm (cx_env s1) + 250 * millisecond \<le> tm (rg_sleep h (250 * millisecond) (cx_env s1))"
    using assms(1) by (simp add: paced_rig_def)
  with Suc.prems t paced_fetch [OF assms(1) asked]
  have "deadline \<le> tm (cx_env (s1\<lparr>cx_env := rg_sleep h (250 * millisecond) (cx_env s1)\<rparr>)) + 250 * millisecond * int n"
    by (simp add: algebra_simps)
  note ih = Suc.IH [OF this]
  show ?case
    by (subst await_status.simps) (use now asked ih in \<open>auto simp: run_cx_do cx_sleep_def Let_def simp del: await_status.simps\<close>)
qed

lemma status_wait_ends:
  assumes "paced_rig tm h" "rg_now h (cx_env s) = (now, e)"
  shows "fst (run_state (await_worker_status h gateway ident (15 * second) wanted 61) s) \<noteq> None"
proof -
  have "now = tm (cx_env s)" "tm (cx_env s) \<le> tm e" using assms unfolding paced_rig_def by (metis fst_conv snd_conv)+
  then have "now + 15 * second \<le> tm (cx_env (s\<lparr>cx_env := e\<rparr>)) + 250 * millisecond * int 60" by simp
  from await_status_returns [OF assms(1) this] assms(2) show ?thesis
    by (simp add: await_worker_status_def run_cx_do del: await_status.simps)
qed

section \<open>Scenarios that ask for a worker the fleet does not have\<close>

text \<open>
  \<open>net/http\<close> refuses an address without scheme and host; that is all the fleet's zero value
  gives.
\<close>

definition refuses_hostless :: "'e rig \<Rightarrow> bool" where
  "refuses_hostless h \<longleftrightarrow> (\<forall>q e. prefix ''/'' (hq_url q) \<longrightarrow> isl (fst (rg_http h q e)))"

text \<open>Nothing is posted but resets of faults.\<close>

definition only_resets :: "'e chaos_state \<Rightarrow> 'e chaos_state \<Rightarrow> bool" where
  "only_resets s s' \<longleftrightarrow> (\<exists>ps. cx_posts s' = cx_posts s @ ps \<and> (\<forall>u \<in> set ps. suffix ''/admin/reset'' u))"

lemma only_resets_trans: "transp only_resets"
proof (rule transpI)
  fix x y z :: "'a chaos_state"
  assume "only_resets x y" "only_resets y z"
  then obtain ps qs where "cx_posts z = cx_posts x @ ps @ qs" "\<forall>u \<in> set (ps @ qs). suffix ''/admin/reset'' u"
    unfolding only_resets_def by fastforce
  then show "only_resets x z" unfolding only_resets_def by blast
qed

lemma only_resets_refl [simp]: "reflp only_resets" "only_resets s s"
  by (auto simp: only_resets_def intro: reflpI)

lemma only_resets_same: "cx_posts s' = cx_posts s \<Longrightarrow> only_resets s s'"
  by (simp add: only_resets_def)

lemmas quiet_rules = io_bind [OF only_resets_trans] io_if io_return [OF only_resets_refl(1)]

lemma quiet_do [io_intros]: "state_io_rel only_resets (cx_do f)"
  by (rule state_io_relI) (auto simp: run_cx_do intro: only_resets_same split: prod.splits)

lemma quiet_accept [io_intros]: "state_io_rel only_resets (accept x)"
  unfolding accept_def by (rule quiet_rules)

lemma quiet_reject [io_intros]: "state_io_rel only_resets (reject err)"
  unfolding reject_def by (rule quiet_rules)

lemma quiet_check:
  assumes "state_io_rel only_resets m" "\<And>x. state_io_rel only_resets (f x)"
  shows "state_io_rel only_resets (check m f)"
  unfolding check_def by (rule quiet_rules(1) [OF assms(1)]) (auto split: sum.split intro: assms(2) quiet_reject)

lemma quiet_because: "state_io_rel only_resets m \<Longrightarrow> state_io_rel only_resets (because what m)"
  unfolding because_def by (rule quiet_rules(1)) (auto split: sum.split intro: quiet_accept quiet_reject)

lemma quiet_get: "state_io_rel only_resets (cx_get h url)"
  unfolding cx_get_def by (rule quiet_rules(1) [OF quiet_do]) (auto split: sum.split intro: quiet_accept quiet_reject)

lemma quiet_decoded: "state_io_rel only_resets (decoded dec resp)"
  by (auto simp: decoded_def split: option.split intro: quiet_accept quiet_reject)

lemma quiet_sessions: "state_io_rel only_resets (active_sessions h url)"
  unfolding active_sessions_def by (rule quiet_check [OF quiet_get quiet_decoded])

lemma quiet_counts: "state_io_rel only_resets (session_counts h ws)"
  by (induction ws) (auto intro!: quiet_rules quiet_sessions)

lemma quiet_find: "state_io_rel only_resets (find_pinned_worker h before ws)"
  by (induction ws) (auto split: option.split sum.split intro!: quiet_rules quiet_sessions quiet_accept quiet_reject)

lemma quiet_write: "state_io_rel only_resets (cx_write h c f)"
  by (rule state_io_relI)
    (auto simp: cx_write_def diagnose_closure_def run_cx_do intro!: only_resets_same split: prod.splits option.splits if_splits)

lemma quiet_open: "state_io_rel only_resets (cx_open h url)"
proof -
  have "state_io_rel only_resets (dial_session h url)"
    unfolding dial_session_def
    by (rule quiet_rules(1) [OF quiet_do]) (auto split: sum.split intro: quiet_accept quiet_reject)
  moreover have "state_io_rel only_resets (next_event h c d)" for c d
    unfolding next_event_def
    by (rule quiet_rules(1) [OF quiet_do])
      (auto split: heard.split intro!: quiet_accept quiet_reject quiet_rules(1) [OF quiet_do])
  then have "state_io_rel only_resets (cx_start h c)" for c
    unfolding cx_start_def send_start_def by (intro quiet_check quiet_because quiet_write)
  moreover have "state_io_rel only_resets (acked_session c ack)" for c ack
    by (auto simp: acked_session_def Let_def intro: quiet_accept quiet_reject)
  ultimately show ?thesis unfolding cx_open_def by (intro quiet_check)
qed

text \<open>An action that fails, is no skip, and posts nothing but resets.\<close>

definition hopeless :: "('e, 'a) chaos \<Rightarrow> bool" where
  "hopeless m \<longleftrightarrow> (\<forall>s r s'. run_state m s = (r, s') \<longrightarrow> (\<exists>err. r = Inl err \<and> \<not> is_skip err) \<and> only_resets s s')"

lemma hopelessD: "hopeless m \<Longrightarrow> run_state m s = (r, s') \<Longrightarrow> (\<exists>err. r = Inl err \<and> \<not> is_skip err) \<and> only_resets s s'"
  by (auto simp: hopeless_def)

lemma hopeless_check: "hopeless m \<Longrightarrow> hopeless (check m f)"
  unfolding hopeless_def by (fastforce simp: run_check split: prod.splits sum.splits)

lemma hopeless_because: "hopeless m \<Longrightarrow> hopeless (because what m)"
  unfolding hopeless_def by (fastforce simp: run_because split: prod.splits sum.splits)

lemma hopeless_half: "hopeless pin \<Longrightarrow> hopeless (first_half h pin clip)"
  unfolding first_half_def by (rule hopeless_check)

lemma hopeless_load: "(\<And>clip. hopeless (f clip)) \<Longrightarrow> hopeless (check (load_clip h path) f)"
  by (auto simp: hopeless_def run_check load_clip_def split: sum.splits if_splits)

lemma hopeless_afterwards:
  assumes "hopeless m" "state_io_rel only_resets f"
  shows "hopeless (afterwards m f)"
  unfolding hopeless_def
proof (intro allI impI)
  fix s r s'
  assume run: "run_state (afterwards m f) s = (r, s')"
  obtain r1 s1 where one: "run_state m s = (r1, s1)" by fastforce
  obtain u s2 where two: "run_state f s1 = (u, s2)" by (rule prod.exhaust)
  from run one two have eqs: "r = r1" "s' = s2" by (auto simp: run_afterwards)
  note fails = hopelessD [OF assms(1) one]
  have "only_resets s s2"
    by (rule transpD [OF only_resets_trans conjunct2 [OF fails] state_io_relD [OF assms(2) two]])
  with fails show "(\<exists>err. r = Inl err \<and> \<not> is_skip err) \<and> only_resets s s'" unfolding eqs by blast
qed

lemma quiet_resets: "state_io_rel only_resets (reset_all_faults h fl order)"
proof (induction order)
  case Nil
  then show ?case by (simp add: quiet_rules)
next
  case (Cons i order)
  have "state_io_rel only_resets (reset_faults h w)" for w
    by (rule state_io_relI)
      (auto simp: reset_faults_def post_admin_def run_check cx_post_def run_cx_do only_resets_def suffix_def
        split: prod.splits sum.splits)
  with Cons show ?case by (auto intro: quiet_rules)
qed

lemma hostless_sessions:
  assumes "refuses_hostless h"
  shows "isl (fst (run_state (active_sessions h '''') s))"
proof -
  let ?q = "\<lparr> hq_method = ''GET'', hq_url = ''/health'', hq_headers = [], hq_body = NoBody \<rparr>"
  have "isl (fst (rg_http h ?q (cx_env s)))" using assms by (simp add: refuses_hostless_def)
  then show ?thesis
    by (auto simp: active_sessions_def run_check cx_get_def run_cx_do isl_def split: prod.splits sum.splits)
qed

lemma no_counts_of_nobody:
  assumes "refuses_hostless h" "set ws \<subseteq> {no_ref}"
  shows "fst (run_state (session_counts h ws) s) = Map.empty"
  using assms(2)
proof (induction ws arbitrary: s)
  case (Cons w ws)
  then have url: "wr_health_url w = ''''" by (simp add: no_ref_def)
  obtain r s1 where one: "run_state (active_sessions h '''') s = (r, s1)" by fastforce
  with hostless_sessions [OF assms(1), of s] obtain err where "r = Inl err" by (auto simp: isl_def)
  moreover obtain out s2 where two: "run_state (session_counts h ws) s1 = (out, s2)" by fastforce
  moreover have "out = Map.empty" using Cons.IH [of s1] Cons.prems two by simp
  ultimately show ?case using url one by simp
qed simp

lemma nobody_is_pinned: "run_state (find_pinned_worker h Map.empty ws) s = (Inl (Failed ''none of''), s)"
  by (induction ws) simp_all

lemma hopeless_pin:
  assumes "refuses_hostless h" "set ws \<subseteq> {no_ref}"
  shows "hopeless (open_pinned h url ws k)"
proof (induction k)
  case 0
  then show ?case by (simp add: hopeless_def)
next
  case (Suc k)
  show ?case unfolding hopeless_def
  proof (intro allI impI)
    fix s r s'
    assume run: "run_state (open_pinned h url ws (Suc k)) s = (r, s')"
    obtain s1 where counts: "run_state (session_counts h ws) s = (Map.empty, s1)"
      using no_counts_of_nobody [OF assms, of s] by (metis prod.collapse)
    obtain o1 s2 where opened: "run_state (because ''attempt'' (cx_open h url)) s1 = (o1, s2)" by fastforce
    have quiet: "only_resets s s1" "only_resets s1 s2"
      using state_io_relD [OF quiet_counts counts] state_io_relD [OF quiet_because [OF quiet_open] opened] by simp_all
    then have upto: "only_resets s s2" by (rule transpD [OF only_resets_trans])
    show "(\<exists>err. r = Inl err \<and> \<not> is_skip err) \<and> only_resets s s'"
    proof (cases o1)
      case (Inl err)
      then have "r = Inl err" "s' = s2" using run counts opened by (simp_all add: run_check)
      moreover have "\<not> is_skip err" using opened Inl by (auto simp: run_because split: prod.splits sum.splits)
      ultimately show ?thesis using upto by simp
    next
      case (Inr ses)
      obtain u s3 where closed: "run_state (close_session h (wn_conn ses)) s2 = (u, s3)" by (rule prod.exhaust)
      obtain v s4 where slept: "run_state (cx_sleep h (100 * millisecond)) s3 = (v, s4)" by (rule prod.exhaust)
      have "run_state (open_pinned h url ws k) s4 = (r, s')"
        using run counts opened Inr closed slept nobody_is_pinned [of h ws] by (simp add: run_check)
      note end_ = hopelessD [OF Suc this]
      have "only_resets s2 s4" using closed slept
        by (auto simp: close_session_def cx_sleep_def run_cx_do intro: only_resets_same split: prod.splits)
      from transpD [OF only_resets_trans upto this] have "only_resets s s4" .
      from transpD [OF only_resets_trans this conjunct2 [OF end_]] conjunct1 [OF end_] show ?thesis by blast
    qed
  qed
qed


lemma absent_from_the_fleet:
  "default_fleet env ''worker-zip-1'' = None" "default_fleet env ''worker-zip-2'' = None"
  "default_fleet env ''worker-ctc-1'' = None"
  by (simp_all add: default_fleet_def ref_of_def)

lemma nobody_in_the_pair: "set (zip_pair (default_fleet env)) \<subseteq> {no_ref}"
  by (simp add: zip_pair_def member_def absent_from_the_fleet)

lemma nobody_to_warm_up: "set (zip_pair (default_fleet env) @ [member (default_fleet env) ''worker-ctc-1'']) \<subseteq> {no_ref}"
  by (simp add: zip_pair_def member_def absent_from_the_fleet)

lemma pinned_scenarios_fail:
  assumes "refuses_hostless h" "k \<in> {2, 3, 4, 5, 6, 7}"
  shows "\<exists>m. scenario_of h n env url gateway path (default_fleet env) order k = Some m \<and> hopeless m"
proof -
  let ?fl = "default_fleet env"
  note pin = hopeless_pin [OF assms(1) nobody_in_the_pair [of env]]
  note half = hopeless_check [OF hopeless_half]
  have "hopeless (scenario2 h n env url gateway path ?fl)" "hopeless (scenario3 h n url gateway path ?fl)"
    "hopeless (scenario5 h n url gateway path ?fl)"
    unfolding scenario2_def scenario3_def scenario5_def by (intro hopeless_load half hopeless_because pin)+
  moreover have "hopeless (scenario4 h n url gateway path ?fl order)" "hopeless (scenario7 h n url gateway path ?fl order)"
    unfolding scenario4_def scenario7_def
    by (intro hopeless_load hopeless_afterwards hopeless_check [OF hopeless_because] pin quiet_resets)+
  moreover have "hopeless (scenario6 h n url gateway path ?fl order)"
    unfolding scenario6_def
    by (intro hopeless_load hopeless_afterwards hopeless_check [OF hopeless_because]
        hopeless_pin [OF assms(1) nobody_to_warm_up] quiet_resets)
  ultimately show ?thesis using assms(2) by (auto simp: scenario_of_def)
qed

section \<open>Properties\<close>

text \<open>
  C39: no scenario that needs a particular worker can test anything. The fleet's map is keyed by
  worker-a to worker-h, but the scenarios look up worker-zip-1, worker-zip-2 and worker-ctc-1 and
  get the zero value, whose health address has no host. So whatever the gateway does, scenarios 2
  to 7 fail before a fault is injected and 12 and 13 are skipped; they post nothing but resets of
  faults. Only scenarios 10 and 11 can pass.
\<close>

theorem pinned_scenarios_never_test:
  assumes "refuses_hostless h" "run_state (run_scenario h n env url gateway path order k) s = (v, s')"
  shows "(k \<in> {2, 3, 4, 5, 6, 7} \<longrightarrow> v = Fail) \<and> (k \<in> {12, 13} \<longrightarrow> v = Skip)
    \<and> (k \<in> {2, 3, 4, 5, 6, 7, 12, 13} \<longrightarrow> only_resets s s') \<and> (v = Pass \<longrightarrow> k = 10 \<or> k = 11)"
proof -
  consider (pinned) "k \<in> {2, 3, 4, 5, 6, 7}" | (kv) "k \<in> {12, 13}" | (other) "k = 10 \<or> k = 11"
    | (unknown) "k \<notin> {2, 3, 4, 5, 6, 7, 10, 11, 12, 13}" by auto
  then show ?thesis
  proof cases
    case pinned
    obtain m where m: "scenario_of h n env url gateway path (default_fleet env) order k = Some m" "hopeless m"
      using pinned_scenarios_fail [OF assms(1) pinned] by blast
    obtain r s1 where run: "run_state m s = (r, s1)" by fastforce
    then have "v = verdict_of r" "s' = s1" using assms(2) m(1) by (simp_all add: run_scenario_def)
    with hopelessD [OF m(2) run] pinned show ?thesis by (auto simp: verdict_of_def)
  next
    case kv
    have "run_state (needs h (default_fleet env) [''worker-zip-1'', ''worker-zip-2''] what) s = (Inl (Skipped what), s)" for what
      by (simp add: needs_def absent_from_the_fleet)
    with kv assms(2) have "v = Skip" "s' = s"
      by (auto simp: run_scenario_def scenario_of_def scenario12_def scenario13_def run_check verdict_of_def)
    with kv show ?thesis by auto
  next
    case other
    then show ?thesis by auto
  next
    case unknown
    with assms(2) have "v = Usage" by (auto simp: run_scenario_def scenario_of_def)
    with unknown show ?thesis by auto
  qed
qed

theorem pinned_scenarios_never_test_witness:
  "refuses_hostless demo_rig
   \<and> fst (run_state (run_scenario demo_rig 5 (\<lambda>_. '''') ''ws'' ''http://g'' ''clip'' [''worker-a''] 2) demo_chaos) = Fail
   \<and> fst (run_state (run_scenario demo_rig 5 (\<lambda>_. '''') ''ws'' ''http://g'' ''clip'' [''worker-a''] 12) demo_chaos) = Skip"
proof -
  have "\<not> prefix ''http://'' url" if "prefix ''/'' url" for url
    using that by (cases url) (auto simp: prefix_def)
  then have rig: "refuses_hostless demo_rig" by (auto simp: refuses_hostless_def demo_rig_def)
  let ?run = "\<lambda>k. run_state (run_scenario demo_rig 5 (\<lambda>_. '''') ''ws'' ''http://g'' ''clip'' [''worker-a''] k) demo_chaos"
  have "?run k = (fst (?run k), snd (?run k))" for k by simp
  note verdict = pinned_scenarios_never_test [OF rig this]
  show ?thesis using rig verdict [of 2] verdict [of 12] by simp
qed

text \<open>
  A pinned worker is one that gained the session. Whatever counts the workers hold from
  earlier sessions, the worker the tool injects its fault into is a candidate that answered both
  before and after the session was opened, and its count was higher after than before.
\<close>

lemma pinned_worker_gained_the_session:
  assumes "run_state (find_pinned_worker h before ws) s = (Inr w, s')"
  shows "w \<in> set ws \<and> (\<exists>prior k s1. before (wr_id w) = Some prior \<and> prior < k
    \<and> run_state (active_sessions h (wr_health_url w)) s1 = (Inr k, s'))"
  using assms
proof (induction ws arbitrary: s)
  case (Cons v ws)
  show ?case
  proof (cases "before (wr_id v)")
    case None
    with Cons show ?thesis by auto
  next
    case (Some prior)
    obtain r s1 where asked: "run_state (active_sessions h (wr_health_url v)) s = (r, s1)" by fastforce
    show ?thesis
    proof (cases "\<exists>k > prior. r = Inr k")
      case True
      then obtain k where k: "k > prior" "r = Inr k" by blast
      with Cons.prems Some asked have "w = v" "s' = s1" by simp_all
      with Some k asked show ?thesis by auto
    next
      case False
      with Cons.prems Some asked have "run_state (find_pinned_worker h before ws) s1 = (Inr w, s')"
        by (auto split: sum.splits if_splits)
      from Cons.IH [OF this] show ?thesis by auto
    qed
  qed
qed simp

end
