(* ===== verification/Concurrent.thy ===== *)
theory Concurrent
  imports Nodes
begin

text \<open>
  The gateway with any number of connections. What \<open>main\<close> builds once (router, checkpoints,
  counters, admission, hub) is shared; a connection's record holds the rest. A step is one
  handler of one connection, on whatever the others have made of the shared part, or an
  operation of the dashboard on the router; connections come and go in any order.
\<close>

section \<open>Steps\<close>

record 'e commons =
  co_router :: router
  co_checkpoints :: checkpoint_store
  co_metrics :: counters
  co_admission :: controller
  co_hub :: "hub option"
  co_env :: 'e

definition joined :: "'e commons \<Rightarrow> ('e, 'd) conn \<Rightarrow> ('e, 'd) conn" where
  "joined g c = c\<lparr> ss_router := co_router g, ss_checkpoints := co_checkpoints g, ss_metrics := co_metrics g,
     ss_env := co_env g, cn_admission := co_admission g, cn_hub := co_hub g \<rparr>"

definition commons_of :: "('e, 'd) conn \<Rightarrow> 'e commons" where
  "commons_of c = \<lparr> co_router = ss_router c, co_checkpoints = ss_checkpoints c, co_metrics = ss_metrics c,
     co_admission = cn_admission c, co_hub = cn_hub c, co_env = ss_env c \<rparr>"

definition accepted :: "string \<Rightarrow> 'd pipeline \<Rightarrow> bifrost_client option \<Rightarrow> 'e commons \<Rightarrow> ('e, 'd) conn" where
  "accepted sid pipe b g = new_conn sid pipe (co_router g) (co_checkpoints g) (co_metrics g) (co_admission g) b
     (co_hub g) (co_env g)"

definition booted :: "env \<Rightarrow> router \<Rightarrow> 'e \<Rightarrow> 'e commons" where
  "booted env r e = \<lparr> co_router = r, co_checkpoints = checkpoints_from env, co_metrics = zero_counters,
     co_admission = new_controller (admission_from env), co_hub = Some new_hub, co_env = e \<rparr>"

text \<open>A worker is added under an id no open session names, since it was in no fleet before.\<close>

inductive gateway_step :: "('e, 'd) conn_config \<Rightarrow> 'e commons \<times> ('e, 'd) conn list \<Rightarrow> 'e commons \<times> ('e, 'd) conn list \<Rightarrow> bool"
  for cfg where
  Accepted: "gateway_step cfg (g, cs) (g, cs @ [accepted sid pipe b g])"
| Handled: "i < length cs \<Longrightarrow> run_state (handle_input cfg inp) (joined g (cs ! i)) = (Go, c) \<Longrightarrow>
    gateway_step cfg (g, cs) (commons_of c, cs[i := c])"
| Ended: "run_state (input_loop cfg inps) (joined g c) = (r, c1) \<Longrightarrow> run_state (teardown cfg) c1 = (x, c2) \<Longrightarrow>
    gateway_step cfg (g, as @ c # bs) (commons_of c2, as @ bs)"
| Drained: "drain_worker ident on (co_router g) = Inr r \<Longrightarrow> gateway_step cfg (g, cs) (g\<lparr>co_router := r\<rparr>, cs)"
| Silenced: "gateway_step cfg (g, cs) (g\<lparr>co_router := mark_unhealthy now ident (co_router g)\<rparr>, cs)"
| Added: "register_fleet_worker tr clock (co_router g) family ident url (co_env g) = (Inr r, e') \<Longrightarrow>
    \<forall>c \<in> set cs. st_worker_id (ss_state c) \<noteq> ident \<Longrightarrow>
    gateway_step cfg (g, cs) (g\<lparr>co_router := r, co_env := e'\<rparr>, cs)"

section \<open>The books\<close>

definition binding :: "router \<Rightarrow> string \<Rightarrow> ('e, 'd) conn \<Rightarrow> int" where
  "binding r j c = (if cn_started c \<and> st_worker_id (ss_state c) = j then in_fleet r j else 0)"

definition slot :: "('e, 'd) conn \<Rightarrow> int" where
  "slot c = (if cn_started c then 1 else 0)"

definition in_balance :: "'e commons \<times> ('e, 'd) conn list \<Rightarrow> bool" where
  "in_balance S \<longleftrightarrow> (case S of (g, cs) \<Rightarrow> router_inv (co_router g)
     \<and> ct_admitted (co_admission g) = sum_list (map slot cs)
     \<and> (\<forall>j. outstanding (co_router g) j = sum_list (map (binding (co_router g) j) cs))
     \<and> (\<forall>c \<in> set cs. cn_admitted c = cn_started c \<and> settled_at False c))"

lemma joined_simps [simp]:
  "ss_router (joined g c) = co_router g" "cn_admission (joined g c) = co_admission g"
  "cn_admitted (joined g c) = cn_admitted c" "cn_started (joined g c) = cn_started c"
  "ss_state (joined g c) = ss_state c" "settled_at fin (joined g c) = settled_at fin c"
  by (simp_all add: joined_def settled_at_def)

lemma commons_of_simps [simp]:
  "co_router (commons_of c) = ss_router c" "co_admission (commons_of c) = cn_admission c"
  by (simp_all add: commons_of_def)

text \<open>The fleet and the slots as they would be without one connection.\<close>

definition without :: "('e, 'd) conn \<Rightarrow> router \<Rightarrow> router" where
  "without c r = (if cn_started c then update_worker (st_worker_id (ss_state c)) unbind_session r else r)"

lemma outstanding_without: "outstanding (without c r) j = outstanding r j - binding r j c"
  by (auto simp: without_def binding_def outstanding_bind)

lemma without_ids [simp]: "map w_id (without c r) = map w_id r"
  by (simp add: without_def)

lemma in_fleet_without [simp]: "in_fleet (without c r) j = in_fleet r j"
  by (rule in_fleet_ids) simp

lemma resting_apart:
  assumes "router_inv (co_router g)" "cn_admitted c = cn_started c" "settled_at False c"
  shows "resting (without c (co_router g)) (ct_admitted (co_admission g) - slot c) (st_session_id (ss_state c)) (joined g c)"
  using assms by (auto simp: rests_def ledger_def slot_def outstanding_without binding_def)

lemma ledger_books:
  assumes "ledger a a r0 n0 sid c"
  shows "router_inv (ss_router c)" "ct_admitted (cn_admission c) = n0 + slot c" "cn_admitted c = cn_started c"
    "map w_id (ss_router c) = map w_id r0" "outstanding (ss_router c) j = outstanding r0 j + binding (ss_router c) j c"
proof -
  show "router_inv (ss_router c)" "ct_admitted (cn_admission c) = n0 + slot c" "cn_admitted c = cn_started c"
    "map w_id (ss_router c) = map w_id r0" using assms by (auto simp: ledger_def slot_def)
  then have "in_fleet (ss_router c) j = in_fleet r0 j" by (intro in_fleet_ids) simp
  moreover have "outstanding (ss_router c) j = outstanding r0 j
      + (if a \<and> j = st_worker_id (ss_state c) then in_fleet r0 j else 0)" "cn_started c = a"
    using assms by (simp_all add: ledger_def)
  ultimately show "outstanding (ss_router c) j = outstanding r0 j + binding (ss_router c) j c"
    by (cases a) (simp_all add: binding_def)
qed

lemma binding_ids: "map w_id r' = map w_id r \<Longrightarrow> binding r' j c = binding r j c"
  using in_fleet_ids [of r' r j] by (simp add: binding_def)

lemma teardown_fleet:
  assumes "router_inv (ss_router s)" "run_state (teardown cfg) s = (x, s')"
  shows "router_inv (ss_router s') \<and> map w_id (ss_router s') = map w_id (ss_router s)"
proof (cases "cn_started s")
  case True
  let ?s1 = "if cn_admitted s then s\<lparr>cn_admission := release (cn_admission s)\<rparr> else s"
  obtain y s2 where close: "run_state (do {
      hub_at cfg (\<lambda>now. session_ended now (st_session_id (ss_state s)) ''closed'');
      client_close cfg (st_handle (ss_state s)) }) ?s1 = (y, s2)" by fastforce
  have "ss_router s2 = ss_router s" using close_untouched [OF close] by (simp add: untouched_def)
  moreover have "ss_router s' = update_worker (st_worker_id (ss_state s)) unbind_session (ss_router s2)"
    using assms(2) close True by (auto simp: teardown_def split: prod.splits if_splits)
  moreover have "router_inv (update_worker i unbind_session (ss_router s))" for i
    by (rule router_inv_update [OF assms(1) _ load_inv(2)]) (simp add: unbind_session_def)
  ultimately show ?thesis by simp
next
  case False
  with assms show ?thesis by (auto simp: teardown_def split: if_splits)
qed


section \<open>Every step keeps the books\<close>

lemma sum_list_update_int:
  "i < length xs \<Longrightarrow> sum_list (map f (xs[i := x])) = sum_list (map f xs) - f (xs ! i) + (f x :: int)"
  by (induction xs arbitrary: i) (auto split: nat.splits)

lemma sum_bindings_ids: "map w_id r' = map w_id r \<Longrightarrow>
    sum_list (map (binding r' j) cs) = sum_list (map (binding r j) cs)"
  by (rule arg_cong [where f = sum_list], rule map_cong [OF refl], rule binding_ids)

text \<open>A change of the router that touches neither ids nor counts.\<close>

lemma books_router:
  assumes "in_balance (g, cs)" "router_inv r" "map w_id r = map w_id (co_router g)"
    "\<And>j. outstanding r j = outstanding (co_router g) j"
  shows "in_balance (g\<lparr>co_router := r\<rparr>, cs)"
  using assms by (simp add: in_balance_def sum_bindings_ids [OF assms(3)])

lemma outstanding_update:
  assumes "\<And>w. w_id (f w) = w_id w" "\<And>w. w_outstanding (f w) = w_outstanding w"
  shows "outstanding (update_worker i f r) j = outstanding r j"
  by (auto simp: outstanding_def router_find_update [OF assms(1)] assms(2) split: option.split)

lemma books_handled:
  assumes host: "host_ok (cg_host cfg)" and B: "in_balance (g, cs)" and i: "i < length cs"
    and run: "run_state (handle_input cfg inp) (joined g (cs ! i)) = (Go, c)"
  shows "in_balance (commons_of c, cs[i := c])"
proof -
  let ?c = "cs ! i" and ?r = "co_router g"
  let ?apart = "without ?c ?r" and ?others = "ct_admitted (co_admission g) - slot ?c"
  have own: "router_inv ?r" "cn_admitted ?c = cn_started ?c" "settled_at False ?c" using B i by (simp_all add: in_balance_def)
  note rest = resting_apart [OF own]
  have "left Go c" by (rule specD [OF keeps_input _ run]) (simp add: own)
  then have settled: "settled_at False c" by (simp add: left_def)
  obtain a where "ledger a a ?apart ?others (st_session_id (ss_state ?c)) c"
    using specD [OF rested_input(1) [OF host] rest run] by (auto simp: rests_def)
  note L = ledger_books [OF this]
  have ids: "map w_id (ss_router c) = map w_id ?r" using L(4) by simp
  have "outstanding (ss_router c) j = sum_list (map (binding (ss_router c) j) (cs[i := c]))" for j
    using B i L(5) [of j] unfolding sum_list_update_int [OF i]
    by (simp add: in_balance_def outstanding_without sum_bindings_ids [OF ids] binding_ids [OF ids])
  moreover have "ct_admitted (cn_admission c) = sum_list (map slot (cs[i := c]))"
    using B L(2) unfolding sum_list_update_int [OF i] by (simp add: in_balance_def)
  ultimately show ?thesis using B L(1,3) settled by (auto simp: in_balance_def dest!: set_update_subset_insert [THEN subsetD])
qed

lemma slots_sum_nonneg: "0 \<le> sum_list (map slot cs)"
  by (induction cs) (simp_all add: slot_def)

lemma books_ended:
  assumes host: "host_ok (cg_host cfg)" and B: "in_balance (g, as @ c # bs)"
    and run: "run_state (input_loop cfg inps) (joined g c) = (r, c1)" and tear: "run_state (teardown cfg) c1 = (x, c2)"
  shows "in_balance (commons_of c2, as @ bs)"
proof -
  let ?r = "co_router g"
  let ?apart = "without c ?r" and ?others = "ct_admitted (co_admission g) - slot c"
  have own: "router_inv ?r" "cn_admitted c = cn_started c" "settled_at False c" using B by (simp_all add: in_balance_def)
  note rest = resting_apart [OF own]
  obtain a b where L: "ledger a b ?apart ?others (st_session_id (ss_state c)) c1"
    using specD [OF rested_input(2) [OF host] rest run] by (auto simp: rests_def)
  have n0: "?others = sum_list (map slot (as @ bs))" using B by (simp add: in_balance_def)
  note settles = teardown_settles [OF L _ tear]
  have pos: "0 \<le> ?others" unfolding n0 by (rule slots_sum_nonneg)
  have fleet: "router_inv (ss_router c2)" "map w_id (ss_router c2) = map w_id ?r"
    using teardown_fleet [OF _ tear] L by (simp_all add: ledger_def)
  have "outstanding (ss_router c2) j = sum_list (map (binding (ss_router c2) j) (as @ bs))" for j
    using settles [OF pos] B by (simp add: outstanding_without in_balance_def sum_bindings_ids [OF fleet(2)])
  then show ?thesis using settles [OF pos] n0 fleet(1) B by (simp add: in_balance_def)
qed

lemma router_find_new: "w_id w \<notin> w_id ` set r \<Longrightarrow>
    router_find (r @ [w]) j = (if j = w_id w then Some w else router_find r j)"
  by (induction r) (auto simp: router_find_def)

lemma outstanding_new: "w_id w \<notin> w_id ` set r \<Longrightarrow> w_outstanding w = 0 \<Longrightarrow>
    outstanding (r @ [w]) j = outstanding r j"
  by (simp add: outstanding_def router_find_new router_find_none [THEN iffD2])

lemma books_added:
  assumes B: "in_balance (g, cs)" and reg: "register_fleet_worker tr clock (co_router g) family ident url (co_env g) = (Inr r, e')"
    and free: "\<forall>c \<in> set cs. st_worker_id (ss_state c) \<noteq> ident"
  shows "in_balance (g\<lparr>co_router := r, co_env := e'\<rparr>, cs)"
  using reg
proof (rule registered)
  fix cohort advert t now
  let ?w = "worker_of now ident advert" and ?r = "co_router g"
  assume fresh: "ident \<notin> w_id ` set ?r" and r: "r = ?r @ [?w]"
  have "w_outstanding ?w = 0" by (simp add: worker_of_def new_worker_def)
  then have out: "outstanding r j = outstanding ?r j" for j
    using fresh by (simp add: r outstanding_new)
  have "binding r j c = binding ?r j c" if "c \<in> set cs" for j c
    using free that by (auto simp: binding_def in_fleet_def r)
  then have "sum_list (map (binding r j) cs) = sum_list (map (binding ?r j) cs)" for j
    by (intro arg_cong [where f = sum_list] map_cong) simp_all
  moreover have "router_inv r" using B fresh by (auto simp: r router_inv_def in_balance_def)
  ultimately show ?thesis using B out by (simp add: in_balance_def)
qed

lemma books_step:
  assumes "host_ok (cg_host cfg)" "gateway_step cfg S S'" "in_balance S"
  shows "in_balance S'"
  using assms(2,3)
proof cases
  case (Accepted g cs sid pipe b)
  have "\<not> cn_started (accepted sid pipe b g)" "cn_admitted (accepted sid pipe b g) = cn_started (accepted sid pipe b g)"
    "settled_at False (accepted sid pipe b g)"
    using new_conn_settled by (simp_all add: accepted_def new_conn_def)
  with assms(3) Accepted show ?thesis by (auto simp: in_balance_def slot_def binding_def)
next
  case (Handled i cs inp g c)
  with assms show ?thesis by (simp add: books_handled)
next
  case (Ended inps g c r c1 x c2 as bs)
  with assms show ?thesis by (simp add: books_ended)
next
  case (Drained ident on g r cs)
  then have r: "r = update_worker ident (set_draining on) (co_router g)" by (auto simp: drain_worker_def split: option.splits)
  have "in_balance (g\<lparr>co_router := r\<rparr>, cs)"
  proof (rule books_router)
    show "in_balance (g, cs)" using assms(3) Drained by simp
    then have "router_inv (co_router g)" by (simp add: in_balance_def)
    then show "router_inv r" unfolding r by (rule router_inv_update [OF _ _ load_inv(3)]) (simp add: set_draining_def)
    show "map w_id r = map w_id (co_router g)" by (simp add: r update_worker_ids set_draining_def)
    show "outstanding r j = outstanding (co_router g) j" for j
      unfolding r by (rule outstanding_update) (simp_all add: set_draining_def)
  qed
  with Drained show ?thesis by simp
next
  case (Silenced g cs now ident)
  have "in_balance (g\<lparr>co_router := mark_unhealthy now ident (co_router g)\<rparr>, cs)"
  proof (rule books_router)
    show "in_balance (g, cs)" using assms(3) Silenced by simp
    then have "router_inv (co_router g)" by (simp add: in_balance_def)
    then show "router_inv (mark_unhealthy now ident (co_router g))"
      unfolding mark_unhealthy_def by (rule router_inv_update) (simp_all add: eject_def, simp_all add: eject_inv [unfolded eject_def])
    show "map w_id (mark_unhealthy now ident (co_router g)) = map w_id (co_router g)"
      by (simp add: mark_unhealthy_def update_worker_ids eject_def)
    show "outstanding (mark_unhealthy now ident (co_router g)) j = outstanding (co_router g) j" for j
      unfolding mark_unhealthy_def by (rule outstanding_update) (simp_all add: eject_def)
  qed
  with Silenced show ?thesis by simp
next
  case (Added tr clock g family ident url r e' cs)
  with assms(3) show ?thesis using books_added by simp
qed


lemma books_kept:
  assumes "(gateway_step cfg)\<^sup>*\<^sup>* S S'" "host_ok (cg_host cfg)" "in_balance S"
  shows "in_balance S'"
  using assms by (induction rule: rtranclp_induct) (simp_all add: books_step)

lemma sum_slots: "sum_list (map slot cs) = int (length (filter cn_started cs))"
  by (induction cs) (simp_all add: slot_def)

lemma sum_bindings: "j \<in> w_id ` set r \<Longrightarrow> sum_list (map (binding r j) cs)
    = int (length (filter (\<lambda>c. cn_started c \<and> st_worker_id (ss_state c) = j) cs))"
  by (induction cs) (simp_all add: binding_def in_fleet_def)

lemma booted_books:
  assumes "build_router tr sleep clock urls order e = (r, e')" "distinct order"
  shows "in_balance (booted env r e', [])"
proof -
  note fleet = boot_fleet_is_who_answered [OF assms]
  have inv: "router_inv r" using fleet by simp
  have fresh: "w_outstanding (worker_of now i a) = 0" for now i a by (simp add: worker_of_def new_worker_def)
  have "w_outstanding w = 0" if "w \<in> set r" for w
  proof -
    from fleet that have "\<exists>now a. w = worker_of now (w_id w) a" by fast
    then show ?thesis using fresh by metis
  qed
  then have "outstanding r j = 0" for j
    by (auto simp: outstanding_def router_find_def find_Some_iff split: option.split)
  with inv show ?thesis by (simp add: in_balance_def booted_def new_controller_def Let_def)
qed

section \<open>A gateway with one client\<close>

definition demo_fleet_http :: "push_req list transport" where
  "demo_fleet_http q e = (fst (demo_http q 0), e)"

definition demo_found :: "router \<times> push_req list" where
  "demo_found = build_router demo_fleet_http (\<lambda>e. e) (\<lambda>e. (1, e)) demo_urls demo_ids []"

text \<open>The two rings of the hub are variables: nothing here looks into them.\<close>

definition demo_commons :: "window \<Rightarrow> window \<Rightarrow> push_req list commons" where
  "demo_commons v w = \<lparr> co_router = fst demo_found, co_checkpoints = checkpoints_from (\<lambda>_. ''''),
     co_metrics = zero_counters, co_admission = new_controller (admission_from (\<lambda>_. '''')),
     co_hub = Some \<lparr> hb_streams = Map.empty, hb_ended = [], hb_notable = [], hb_next_id = 0, hb_subs = [],
       hb_next_sub = 0, hb_push_lat = v, hb_final_lat = w, hb_worker_pushes = (\<lambda>_. 0), hb_utt_start = Map.empty \<rparr>,
     co_env = snd demo_found \<rparr>"

lemma demo_booted: "booted (\<lambda>_. '''') (fst demo_found) (snd demo_found)
    = demo_commons (new_window latencyCapacity) (new_window latencyCapacity)"
  by (simp add: booted_def demo_commons_def new_hub_def)

lemma demo_caller_run:
  "(case run_state (start_session demo_cfg demo_frame demo_start) (joined (demo_commons v w) (demo_with j)) of (r, s) \<Rightarrow>
     (r, cn_started s)) = (Go, True)"
  by code_simp

lemma demo_caller_input:
  "run_state (handle_input demo_cfg (Inbound (Inr demo_frame)))
       (joined g (accepted ''s'' (Passthrough (new_passthrough 0 0)) None g))
     = run_state (start_session demo_cfg demo_frame demo_start) (joined g (demo_with (the (new_journal journalCapacity))))"
  using demo_control
  by (simp add: handle_input_def handle_inbound_def handle_frame_def handle_control_def joined_def accepted_def
      new_conn_def demo_with_def validate_def new_seq_validator_def demo_frame_def MsgControl_def)

section \<open>Property\<close>

text \<open>
  C7: the gateway's books balance at every moment. Start from the fleet the gateway found and
  let any number of clients connect, send whatever they like and leave, in any order of
  their handlers, while the dashboard drains, silences and adds workers. Then the sessions that
  admission counts are exactly the connections with a started session, the \<open>Outstanding\<close> of
  every worker is the number of those sessions that are bound to it, the router's invariant
  holds, and what each client was sent so far is a lawful transcript.
\<close>

theorem books_always_balance:
  assumes "host_ok (cg_host cfg)" "build_router tr sleep clock urls order e = (r, e')" "distinct order"
    and "(gateway_step cfg)\<^sup>*\<^sup>* (booted env r e', []) (g, cs)"
  shows "ct_admitted (co_admission g) = int (length (filter cn_started cs))
    \<and> (\<forall>w \<in> set (co_router g). w_outstanding w
         = int (length (filter (\<lambda>c. cn_started c \<and> st_worker_id (ss_state c) = w_id w) cs)))
    \<and> router_inv (co_router g)
    \<and> (\<forall>c \<in> set cs. length (cn_events c) < 2 ^ 64 - 1 \<longrightarrow> transcript_ok (cn_events c))"
proof -
  have B: "in_balance (g, cs)" by (rule books_kept [OF assms(4,1) booted_books [OF assms(2,3)]])
  then have inv: "router_inv (co_router g)" by (simp add: in_balance_def)
  have "w_outstanding w = int (length (filter (\<lambda>c. cn_started c \<and> st_worker_id (ss_state c) = w_id w) cs))"
    if "w \<in> set (co_router g)" for w
  proof -
    have "outstanding (co_router g) (w_id w) = w_outstanding w" by (simp add: outstanding_def find_own [OF inv that])
    moreover have "outstanding (co_router g) (w_id w) = sum_list (map (binding (co_router g) (w_id w)) cs)"
      using B by (simp add: in_balance_def)
    ultimately show ?thesis using that by (simp add: sum_bindings)
  qed
  moreover have "transcript_ok (cn_events c)" if "c \<in> set cs" "length (cn_events c) < 2 ^ 64 - 1" for c
    using B that settled_sound [of False c] by (simp add: in_balance_def sound_def short_def)
  ultimately show ?thesis using B inv by (simp add: in_balance_def sum_slots)
qed

theorem books_always_balance_witness:
  "\<exists>g c. (gateway_step demo_cfg)\<^sup>*\<^sup>* (booted (\<lambda>_. '''') (fst demo_found) (snd demo_found), []) (g, [c])
     \<and> cn_started c \<and> ct_admitted (co_admission g) = 1"
proof -
  let ?g = "booted (\<lambda>_. '''') (fst demo_found) (snd demo_found)"
  let ?c = "accepted ''s'' (Passthrough (new_passthrough 0 0)) None ?g"
  obtain x c where out: "run_state (handle_input demo_cfg (Inbound (Inr demo_frame))) (joined ?g ?c) = (x, c)"
    by (rule prod.exhaust)
  have "(case run_state (handle_input demo_cfg (Inbound (Inr demo_frame))) (joined ?g ?c) of (r, s) \<Rightarrow> (r, cn_started s))
      = (Go, True)" unfolding demo_caller_input demo_booted by (rule demo_caller_run)
  with out have run: "run_state (handle_input demo_cfg (Inbound (Inr demo_frame))) (joined ?g ?c) = (Go, c)"
    and started: "cn_started c" by simp_all
  have "gateway_step demo_cfg (?g, []) (?g, [?c])"
    using gateway_step.Accepted [of demo_cfg ?g "[]"] by simp
  moreover have "gateway_step demo_cfg (?g, [?c]) (commons_of c, [c])"
    using gateway_step.Handled [of 0 "[?c]" demo_cfg _ ?g c] run by simp
  ultimately have reach: "(gateway_step demo_cfg)\<^sup>*\<^sup>* (?g, []) (commons_of c, [c])" by simp
  have boot: "build_router demo_fleet_http (\<lambda>e. e) (\<lambda>e. (1, e)) demo_urls demo_ids []
      = (fst demo_found, snd demo_found)" by (simp add: demo_found_def)
  have "distinct demo_ids" by (simp add: demo_ids_def)
  from books_always_balance [OF demo_host_ok boot this reach] started
  have "ct_admitted (co_admission (commons_of c)) = 1" by simp
  with reach started show ?thesis by blast
qed

end
