(* ===== verification/Loops.thy ===== *)
theory Loops
  imports ConnProps
begin

text \<open>
  The goroutines of one connection, \<open>handleConnection\<close> in \<^verbatim>\<open>cmd/gateway/conn.go\<close>: \<open>readLoop\<close>,
  \<open>sessionLoop\<close> (on the handler's own goroutine) and \<open>writeLoop\<close>, the two bounded channels
  between them, the context they share and the \<open>done\<close> channel, as a relation of atomic steps. The
  session is any process that uses its channels as \<open>sessionLoop\<close> does: it may take a frame, send an
  event or return whenever it is not blocked. Fields named \<open>read\<close>, \<open>taken\<close>, \<open>sent\<close>, \<open>observed\<close>
  and \<open>written\<close> record what happened; no step looks at them.
\<close>

section \<open>State\<close>

definition frameChanSize :: nat where "frameChanSize = 64"
definition eventChanSize :: nat where "eventChanSize = 64"

datatype reader_at = InRead | Offering inbound_msg | ReaderGone
datatype session_at = Computing | Receiving | Sending event | AwaitingDone | HandlerGone
datatype writer_at = Ranging | InWrite event | WriterGone

record loops =
  lp_cancelled :: bool
  lp_reader :: reader_at
  lp_frames :: "inbound_msg list"
  lp_frames_closed :: bool
  lp_session :: session_at
  lp_events :: "event list"
  lp_events_closed :: bool
  lp_writer :: writer_at
  lp_write_failed :: bool
  lp_read :: "(bool \<times> byte list) list"
  lp_taken :: "inbound_msg list"
  lp_sent :: "event list"
  lp_observed :: "event list"
  lp_written :: "event list"

definition start_loops :: loops where
  "start_loops = \<lparr> lp_cancelled = False, lp_reader = InRead, lp_frames = [], lp_frames_closed = False,
     lp_session = Computing, lp_events = [], lp_events_closed = False, lp_writer = Ranging,
     lp_write_failed = False, lp_read = [], lp_taken = [], lp_sent = [], lp_observed = [], lp_written = [] \<rparr>"

section \<open>Steps\<close>

text \<open>\<open>readLoop\<close> after a successful \<open>ws.Read\<close>.\<close>

definition frame_read :: "bool \<Rightarrow> byte list \<Rightarrow> loops \<Rightarrow> loops" where
  "frame_read binary buf s =
     (let s = s\<lparr>lp_read := lp_read s @ [(binary, buf)]\<rparr> in
      if \<not> binary then s
      else case decode buf of
        Inl err \<Rightarrow> s\<lparr>lp_reader := Offering (Inl err)\<rparr>
      | Inr f \<Rightarrow>
          (case (if f_type f = MsgAudio then validate_audio_frame f else None) of
             Some err \<Rightarrow> s\<lparr>lp_reader := Offering (Inl err)\<rparr>
           | None \<Rightarrow> s\<lparr>lp_reader := Offering (Inr f)\<rparr>))"

definition reader_leaves :: "loops \<Rightarrow> loops" where
  "reader_leaves s = s\<lparr> lp_reader := ReaderGone, lp_frames_closed := True \<rparr>"

definition frame_offered :: "inbound_msg \<Rightarrow> loops \<Rightarrow> loops" where
  "frame_offered m s =
     (let s = s\<lparr>lp_frames := lp_frames s @ [m]\<rparr> in
      if isl m then reader_leaves s else s\<lparr>lp_reader := InRead\<rparr>)"

definition session_returns :: "loops \<Rightarrow> loops" where
  "session_returns s = s\<lparr> lp_session := AwaitingDone, lp_events_closed := True \<rparr>"

text \<open>The deferred calls of \<open>writeLoop\<close>: \<open>done\<close> is closed, then the context is cancelled.\<close>

definition writer_leaves :: "loops \<Rightarrow> loops" where
  "writer_leaves s = s\<lparr> lp_writer := WriterGone, lp_cancelled := True \<rparr>"

text \<open>
  What happens from outside: a message arrives, reading fails on its own, or the server
  cancels the request's context.
\<close>

inductive peer_step :: "loops \<Rightarrow> loops \<Rightarrow> bool" where
  Arrives: "lp_reader s = InRead \<Longrightarrow> peer_step s (frame_read binary buf s)"
| Breaks: "lp_reader s = InRead \<Longrightarrow> peer_step s (reader_leaves s)"
| Abandoned: "peer_step s (s\<lparr>lp_cancelled := True\<rparr>)"

text \<open>What the goroutines do; \<open>marshals\<close> tells whether \<open>json.Marshal\<close> accepts an event.\<close>

inductive own_step :: "(event \<Rightarrow> bool) \<Rightarrow> loops \<Rightarrow> loops \<Rightarrow> bool" for marshals where
  ReadCancelled: "lp_reader s = InRead \<Longrightarrow> lp_cancelled s \<Longrightarrow> own_step marshals s (reader_leaves s)"
| Offered: "lp_reader s = Offering m \<Longrightarrow> length (lp_frames s) < frameChanSize \<Longrightarrow>
    own_step marshals s (frame_offered m s)"
| OfferCancelled: "lp_reader s = Offering m \<Longrightarrow> lp_cancelled s \<Longrightarrow> own_step marshals s (reader_leaves s)"
| Receives: "lp_session s = Computing \<Longrightarrow> own_step marshals s (s\<lparr>lp_session := Receiving\<rparr>)"
| Takes: "lp_session s = Receiving \<Longrightarrow> lp_frames s = m # ms \<Longrightarrow>
    own_step marshals s (s\<lparr> lp_session := Computing, lp_frames := ms, lp_taken := lp_taken s @ [m] \<rparr>)"
| NoMoreFrames: "lp_session s = Receiving \<Longrightarrow> lp_frames s = [] \<Longrightarrow> lp_frames_closed s \<Longrightarrow>
    own_step marshals s (session_returns s)"
| Emits: "lp_session s = Computing \<Longrightarrow> own_step marshals s (s\<lparr>lp_session := Sending ev\<rparr>)"
| Sends: "lp_session s = Sending ev \<Longrightarrow> length (lp_events s) < eventChanSize \<Longrightarrow>
    own_step marshals s (s\<lparr> lp_session := Computing, lp_events := lp_events s @ [ev], lp_sent := lp_sent s @ [ev] \<rparr>)"
| SendCancelled: "lp_session s = Sending ev \<Longrightarrow> lp_cancelled s \<Longrightarrow> own_step marshals s (s\<lparr>lp_session := Computing\<rparr>)"
| Returns: "lp_session s = Computing \<Longrightarrow> own_step marshals s (session_returns s)"
| Observes: "lp_writer s = Ranging \<Longrightarrow> lp_events s = ev # evs \<Longrightarrow>
    own_step marshals s (s\<lparr> lp_events := evs, lp_observed := lp_observed s @ [ev],
      lp_writer := (if marshals ev then InWrite ev else Ranging) \<rparr>)"
| Writes: "lp_writer s = InWrite ev \<Longrightarrow>
    own_step marshals s (s\<lparr> lp_writer := Ranging, lp_written := lp_written s @ [ev] \<rparr>)"
| WriteFails: "lp_writer s = InWrite ev \<Longrightarrow> own_step marshals s (writer_leaves (s\<lparr>lp_write_failed := True\<rparr>))"
| Drained: "lp_writer s = Ranging \<Longrightarrow> lp_events s = [] \<Longrightarrow> lp_events_closed s \<Longrightarrow>
    own_step marshals s (writer_leaves s)"
| Finishes: "lp_session s = AwaitingDone \<Longrightarrow> lp_writer s = WriterGone \<Longrightarrow>
    own_step marshals s (s\<lparr> lp_session := HandlerGone, lp_cancelled := True \<rparr>)"

definition loops_step :: "(event \<Rightarrow> bool) \<Rightarrow> loops \<Rightarrow> loops \<Rightarrow> bool" where
  "loops_step marshals s s' \<longleftrightarrow> peer_step s s' \<or> own_step marshals s s'"

section \<open>The invariant\<close>

lemma read_loop_snoc: "\<forall>m \<in> set (read_loop msgs). \<not> isl m \<Longrightarrow> read_loop (msgs @ [x]) = read_loop msgs @ read_loop [x]"
  by (induction msgs rule: read_loop.induct) (auto split: sum.splits option.splits)

text \<open>The reading side: what went into the channel is what \<open>read_loop\<close> makes of the messages read.\<close>

definition reading_ok :: "loops \<Rightarrow> bool" where
  "reading_ok s \<longleftrightarrow> length (lp_frames s) \<le> frameChanSize \<and> (lp_frames_closed s \<longleftrightarrow> lp_reader s = ReaderGone)
     \<and> (case lp_reader s of
          InRead \<Rightarrow> lp_taken s @ lp_frames s = read_loop (lp_read s) \<and> (\<forall>m \<in> set (read_loop (lp_read s)). \<not> isl m)
        | Offering m \<Rightarrow> lp_taken s @ lp_frames s @ [m] = read_loop (lp_read s)
            \<and> (\<forall>m \<in> set (lp_taken s @ lp_frames s). \<not> isl m)
        | ReaderGone \<Rightarrow> prefix (lp_taken s @ lp_frames s) (read_loop (lp_read s)))"

text \<open>The writing side: the channel holds what was sent and not yet observed.\<close>

definition writing_ok :: "(event \<Rightarrow> bool) \<Rightarrow> loops \<Rightarrow> bool" where
  "writing_ok marshals s \<longleftrightarrow> length (lp_events s) \<le> eventChanSize \<and> lp_sent s = lp_observed s @ lp_events s
     \<and> (case lp_writer s of
          Ranging \<Rightarrow> filter marshals (lp_observed s) = lp_written s \<and> \<not> lp_write_failed s
        | InWrite ev \<Rightarrow> filter marshals (lp_observed s) = lp_written s @ [ev] \<and> \<not> lp_write_failed s
        | WriterGone \<Rightarrow> lp_cancelled s \<and> (if lp_write_failed s
            then \<exists>ev. filter marshals (lp_observed s) = lp_written s @ [ev]
            else filter marshals (lp_observed s) = lp_written s \<and> lp_events s = [] \<and> lp_events_closed s))"

definition ending_ok :: "loops \<Rightarrow> bool" where
  "ending_ok s \<longleftrightarrow> (lp_events_closed s \<longleftrightarrow> lp_session s = AwaitingDone \<or> lp_session s = HandlerGone)
     \<and> (lp_session s = HandlerGone \<longrightarrow> lp_writer s = WriterGone \<and> lp_cancelled s)"

definition loops_inv :: "(event \<Rightarrow> bool) \<Rightarrow> loops \<Rightarrow> bool" where
  "loops_inv marshals s \<longleftrightarrow> reading_ok s \<and> writing_ok marshals s \<and> ending_ok s"

lemmas loops_inv_defs = loops_inv_def reading_ok_def writing_ok_def ending_ok_def
lemmas moves = frame_offered_def reader_leaves_def session_returns_def writer_leaves_def Let_def

lemma start_inv: "loops_inv marshals start_loops"
  by (simp add: loops_inv_defs start_loops_def)

lemma frame_read_untouched:
  "lp_taken (frame_read binary buf s) = lp_taken s" "lp_frames (frame_read binary buf s) = lp_frames s"
  "lp_frames_closed (frame_read binary buf s) = lp_frames_closed s" "lp_read (frame_read binary buf s) = lp_read s @ [(binary, buf)]"
  "lp_cancelled (frame_read binary buf s) = lp_cancelled s" "lp_session (frame_read binary buf s) = lp_session s"
  "lp_events (frame_read binary buf s) = lp_events s" "lp_events_closed (frame_read binary buf s) = lp_events_closed s"
  "lp_writer (frame_read binary buf s) = lp_writer s" "lp_write_failed (frame_read binary buf s) = lp_write_failed s"
  "lp_sent (frame_read binary buf s) = lp_sent s" "lp_observed (frame_read binary buf s) = lp_observed s"
  "lp_written (frame_read binary buf s) = lp_written s"
  by (simp_all add: frame_read_def Let_def split: sum.split option.split)

lemma frame_read_reader:
  assumes "lp_reader s = InRead"
  shows "case read_loop [(binary, buf)] of
      [] \<Rightarrow> lp_reader (frame_read binary buf s) = InRead
    | m # ms \<Rightarrow> ms = [] \<and> lp_reader (frame_read binary buf s) = Offering m"
  using assms by (simp add: frame_read_def Let_def split: sum.split option.split)

lemma peer_inv:
  assumes "peer_step s s'" "loops_inv marshals s"
  shows "loops_inv marshals s'"
  using assms
proof cases
  case (Arrives binary buf)
  have "reading_ok s'"
    using assms(2) Arrives frame_read_reader [OF Arrives(2), of binary buf] read_loop_snoc [of "lp_read s" "(binary, buf)"]
    by (auto simp: loops_inv_defs frame_read_untouched split: list.splits reader_at.splits)
  then show ?thesis using assms(2) Arrives
    by (auto simp: loops_inv_def writing_ok_def ending_ok_def frame_read_untouched split: writer_at.splits if_splits)
next
  case Breaks
  then show ?thesis using assms(2) by (auto simp: loops_inv_defs moves split: writer_at.splits if_splits)
next
  case Abandoned
  then show ?thesis using assms(2) by (auto simp: loops_inv_defs split: writer_at.splits reader_at.splits)
qed

lemma own_inv:
  assumes "own_step marshals s s'" "loops_inv marshals s"
  shows "loops_inv marshals s'"
  using assms
proof cases
  case (Offered m)
  then have "lp_taken s @ lp_frames s @ [m] = read_loop (lp_read s)" "\<forall>m \<in> set (lp_taken s @ lp_frames s). \<not> isl m"
    using assms(2) by (simp_all add: loops_inv_defs)
  then have "set (read_loop (lp_read s)) = insert m (set (lp_taken s @ lp_frames s))"
    by (metis append.assoc append_Nil2 insert_is_Un list.set(1,2) set_append sup_commute)
  with Offered assms(2) have "reading_ok s'" by (auto simp: loops_inv_defs moves)
  then show ?thesis using assms(2) Offered
    by (auto simp: loops_inv_def writing_ok_def ending_ok_def moves split: writer_at.splits if_splits)
next
  case (OfferCancelled m)
  then have "read_loop (lp_read s) = (lp_taken s @ lp_frames s) @ [m]" using assms(2) by (simp add: loops_inv_defs)
  then have "prefix (lp_taken s @ lp_frames s) (read_loop (lp_read s))" by (rule prefixI)
  then show ?thesis using assms(2) OfferCancelled
    by (auto simp: loops_inv_defs moves split: writer_at.splits if_splits)
next
  case (Takes m ms)
  then show ?thesis using assms(2) by (auto simp: loops_inv_defs split: reader_at.splits writer_at.splits if_splits)
next
  case (Sends ev)
  then show ?thesis using assms(2) by (auto simp: loops_inv_defs split: reader_at.splits writer_at.splits if_splits)
next
  case (Observes ev evs)
  then show ?thesis using assms(2) by (auto simp: loops_inv_defs split: reader_at.splits)
qed (use assms(2) in \<open>auto simp: loops_inv_defs moves split: reader_at.splits writer_at.splits if_splits\<close>)

lemma loops_reachable: "(loops_step marshals)\<^sup>*\<^sup>* start_loops s \<Longrightarrow> loops_inv marshals s"
  by (induction rule: rtranclp_induct) (auto simp: loops_step_def start_inv peer_inv own_inv)

section \<open>Winding down\<close>

text \<open>
  How many steps of its own a connection has left once its session has returned: two for an
  event in the channel, one for each thing a goroutine still has to do.
\<close>

definition reader_work :: "loops \<Rightarrow> nat" where
  "reader_work s = (case lp_reader s of ReaderGone \<Rightarrow> 0 | InRead \<Rightarrow> 1 | Offering m \<Rightarrow> 2)"

definition writer_work :: "loops \<Rightarrow> nat" where
  "writer_work s = (case lp_writer s of WriterGone \<Rightarrow> 0 | Ranging \<Rightarrow> 1 | InWrite ev \<Rightarrow> 2)"

definition work_left :: "loops \<Rightarrow> nat" where
  "work_left s = 2 * length (lp_events s) + reader_work s + writer_work s + (if lp_session s = AwaitingDone then 1 else 0)"

definition returned :: "loops \<Rightarrow> bool" where
  "returned s \<longleftrightarrow> lp_session s = AwaitingDone \<or> lp_session s = HandlerGone"

lemma own_step_works:
  assumes "own_step marshals s s'" "returned s"
  shows "returned s' \<and> work_left s' < work_left s"
  using assms by cases (auto simp: returned_def work_left_def reader_work_def writer_work_def moves)

lemma own_steps_work: "(own_step marshals ^^ n) s s' \<Longrightarrow> returned s \<Longrightarrow> returned s' \<and> n + work_left s' \<le> work_left s"
proof (induction n arbitrary: s')
  case (Suc n)
  then obtain t where "(own_step marshals ^^ n) s t" "own_step marshals t s'" by auto
  with Suc own_step_works [of marshals t s'] show ?case by fastforce
qed simp

lemma own_steps_inv: "(own_step marshals ^^ n) s s' \<Longrightarrow> loops_inv marshals s \<Longrightarrow> loops_inv marshals s'"
  by (induction n arbitrary: s') (auto intro: own_inv)

lemma work_bound: "loops_inv marshals s \<Longrightarrow> work_left s \<le> 2 * eventChanSize + 5"
  by (auto simp: work_left_def reader_work_def writer_work_def loops_inv_defs split: reader_at.split writer_at.split)

text \<open>A connection that cannot move waits for its client, or is over.\<close>

definition awaits_client :: "loops \<Rightarrow> bool" where
  "awaits_client s \<longleftrightarrow> lp_session s = Receiving \<and> lp_frames s = [] \<and> lp_reader s = InRead \<and> \<not> lp_cancelled s
     \<and> lp_writer s = Ranging \<and> lp_events s = []"

definition over :: "loops \<Rightarrow> bool" where
  "over s \<longleftrightarrow> lp_session s = HandlerGone \<and> lp_writer s = WriterGone \<and> lp_reader s = ReaderGone"

lemma writer_moves:
  assumes "loops_inv marshals s" "lp_writer s \<noteq> WriterGone" "lp_writer s = Ranging \<Longrightarrow> lp_events s \<noteq> [] \<or> lp_events_closed s"
  shows "\<exists>s'. own_step marshals s s'"
proof (cases "lp_writer s")
  case Ranging
  with assms(3) show ?thesis by (cases "lp_events s") (blast intro: own_step.intros)+
qed (use assms(2) in \<open>blast intro: own_step.intros\<close>)+

lemma never_stuck:
  assumes "loops_inv marshals s" "\<not> awaits_client s" "\<not> over s"
  shows "\<exists>s'. own_step marshals s s'"
proof (cases "lp_session s")
  case Computing
  then show ?thesis by (blast intro: own_step.intros)
next
  case Receiving
  show ?thesis
  proof (cases "lp_frames s")
    case Nil
    show ?thesis
    proof (cases "lp_reader s")
      case InRead
      show ?thesis
      proof (cases "lp_cancelled s")
        case True
        with InRead show ?thesis by (blast intro: own_step.intros)
      next
        case False
        then have "lp_writer s \<noteq> WriterGone" using assms(1) by (auto simp: loops_inv_defs)
        moreover have "lp_writer s = Ranging \<Longrightarrow> lp_events s \<noteq> []"
          using assms(2) False InRead Receiving Nil by (auto simp: awaits_client_def)
        ultimately show ?thesis using writer_moves [OF assms(1)] by blast
      qed
    next
      case (Offering m)
      with Nil show ?thesis using own_step.Offered [of s m marshals] by (auto simp: frameChanSize_def)
    next
      case ReaderGone
      with assms(1) Receiving Nil show ?thesis by (auto simp: loops_inv_defs intro: own_step.intros)
    qed
  next
    case (Cons m ms)
    with Receiving show ?thesis by (blast intro: own_step.intros)
  qed
next
  case (Sending ev)
  show ?thesis
  proof (cases "length (lp_events s) < eventChanSize \<or> lp_cancelled s")
    case True
    with Sending show ?thesis by (blast intro: own_step.intros)
  next
    case False
    then have "lp_events s \<noteq> []" "lp_writer s \<noteq> WriterGone" using assms(1) by (auto simp: loops_inv_defs eventChanSize_def)
    with writer_moves [OF assms(1)] show ?thesis by blast
  qed
next
  case AwaitingDone
  show ?thesis
  proof (cases "lp_writer s = WriterGone")
    case True
    with AwaitingDone show ?thesis by (blast intro: own_step.intros)
  next
    case False
    with AwaitingDone assms(1) writer_moves [OF assms(1)] show ?thesis by (auto simp: loops_inv_defs)
  qed
next
  case HandlerGone
  with assms(1,3) show ?thesis by (cases "lp_reader s") (auto simp: over_def loops_inv_defs intro: own_step.intros)
qed

section \<open>A short conversation\<close>

definition demo_event :: event where "demo_event = ErrorEvent ''s'' ''no''"

definition demo_said :: loops where
  "demo_said = start_loops\<lparr> lp_session := AwaitingDone, lp_events_closed := True, lp_events := [demo_event], lp_sent := [demo_event] \<rparr>"

definition demo_over :: loops where
  "demo_over = demo_said\<lparr> lp_cancelled := True, lp_reader := ReaderGone, lp_frames_closed := True, lp_session := HandlerGone,
     lp_writer := WriterGone, lp_events := [], lp_observed := [demo_event], lp_written := [demo_event] \<rparr>"

lemma own_run:
  assumes "(own_step marshals ^^ n) s s'"
  shows "(loops_step marshals)\<^sup>*\<^sup>* s s'"
proof -
  have "(own_step marshals)\<^sup>*\<^sup>* s s'" using assms by (rule relpowp_imp_rtranclp)
  then show ?thesis by (rule rtranclp_mono [THEN predicate2D, rotated]) (auto simp: loops_step_def)
qed

lemma demo_saying: "(own_step (\<lambda>_. True) ^^ 3) start_loops demo_said"
proof -
  let ?step = "own_step (\<lambda>_. True)"
  have "?step start_loops (start_loops\<lparr>lp_session := Sending demo_event\<rparr>)"
    by (rule own_step.Emits) (simp add: start_loops_def)
  moreover have "?step (start_loops\<lparr>lp_session := Sending demo_event\<rparr>)
      (start_loops\<lparr> lp_session := Computing, lp_events := [demo_event], lp_sent := [demo_event] \<rparr>)"
    using own_step.Sends [of "start_loops\<lparr>lp_session := Sending demo_event\<rparr>" demo_event "\<lambda>_. True"]
    by (simp add: start_loops_def eventChanSize_def)
  moreover have "?step (start_loops\<lparr> lp_session := Computing, lp_events := [demo_event], lp_sent := [demo_event] \<rparr>) demo_said"
    using own_step.Returns [of "start_loops\<lparr> lp_session := Computing, lp_events := [demo_event], lp_sent := [demo_event] \<rparr>" "\<lambda>_. True"]
    by (simp add: start_loops_def demo_said_def session_returns_def)
  ultimately show ?thesis unfolding numeral_eq_Suc pred_numeral_simps relpowp.simps BitM.simps by (auto simp: OO_def)
qed

lemma demo_ending: "(own_step (\<lambda>_. True) ^^ 5) demo_said demo_over"
proof -
  let ?step = "own_step (\<lambda>_. True)"
  let ?s1 = "demo_said\<lparr> lp_events := [], lp_observed := [demo_event], lp_writer := InWrite demo_event \<rparr>"
  let ?s2 = "?s1\<lparr> lp_writer := Ranging, lp_written := [demo_event] \<rparr>"
  let ?s3 = "?s2\<lparr> lp_writer := WriterGone, lp_cancelled := True \<rparr>"
  let ?s4 = "?s3\<lparr> lp_session := HandlerGone \<rparr>"
  note say = demo_said_def start_loops_def
  have "?step demo_said ?s1" using own_step.Observes [of demo_said demo_event "[]" "\<lambda>_. True"] by (simp add: say)
  moreover have "?step ?s1 ?s2" using own_step.Writes [of ?s1 demo_event "\<lambda>_. True"] by (simp add: say)
  moreover have "?step ?s2 ?s3" using own_step.Drained [of ?s2 "\<lambda>_. True"] by (simp add: say writer_leaves_def)
  moreover have "?step ?s3 ?s4" using own_step.Finishes [of ?s3 "\<lambda>_. True"] by (simp add: say)
  moreover have "?step ?s4 demo_over"
    using own_step.ReadCancelled [of ?s4 "\<lambda>_. True"] by (simp add: say demo_over_def reader_leaves_def)
  ultimately show ?thesis unfolding numeral_eq_Suc pred_numeral_simps relpowp.simps BitM.simps by (auto simp: OO_def)
qed

section \<open>Properties\<close>

text \<open>
  C4: the goroutines of a connection lose and invent nothing. However the three loops are
  scheduled, whatever the client sends and whenever reading, writing or the request break off:
  the session takes the messages \<open>read_loop\<close> makes of what was read, in order; the hub observes
  what the session sent, in order; the client is told exactly what the hub observed, short of at
  most one event, and nothing else; and if no write failed, then when the handler is gone
  everything the session sent has been observed and written. Neither channel outgrows its buffer.
\<close>

theorem loops_lose_nothing:
  assumes "(loops_step marshals)\<^sup>*\<^sup>* start_loops s"
  shows "prefix (lp_taken s) (read_loop (lp_read s)) \<and> prefix (lp_observed s) (lp_sent s)
    \<and> (\<exists>missing. filter marshals (lp_observed s) = lp_written s @ missing \<and> length missing \<le> 1)
    \<and> (lp_session s = HandlerGone \<and> \<not> lp_write_failed s \<longrightarrow>
        lp_observed s = lp_sent s \<and> lp_written s = filter marshals (lp_sent s))
    \<and> length (lp_frames s) \<le> frameChanSize \<and> length (lp_events s) \<le> eventChanSize"
proof -
  have inv: "loops_inv marshals s" by (rule loops_reachable [OF assms])
  then have "prefix (lp_taken s) (read_loop (lp_read s))"
    by (cases "lp_reader s") (auto simp: loops_inv_defs dest: sym intro: append_prefixD)
  moreover have "\<exists>missing. filter marshals (lp_observed s) = lp_written s @ missing \<and> length missing \<le> 1"
    using inv by (auto simp: loops_inv_defs split: writer_at.splits if_splits)
  moreover have "lp_session s = HandlerGone \<and> \<not> lp_write_failed s \<longrightarrow>
      lp_observed s = lp_sent s \<and> lp_written s = filter marshals (lp_sent s)"
    using inv by (auto simp: loops_inv_defs)
  ultimately show ?thesis using inv by (simp add: loops_inv_defs)
qed

theorem loops_lose_nothing_witness: "lp_session demo_over = HandlerGone \<and> lp_written demo_over = filter (\<lambda>_. True) (lp_sent demo_over)"
proof -
  from demo_saying demo_ending have "(loops_step (\<lambda>_. True))\<^sup>*\<^sup>* start_loops demo_over"
    by (intro rtranclp_trans [OF own_run own_run])
  from loops_lose_nothing [OF this] show ?thesis by (simp add: demo_over_def demo_said_def start_loops_def)
qed

text \<open>
  C5: a connection never deadlocks and winds down. In every state its goroutines can reach, one
  of them can move, unless the session waits for a frame that only the client can send, or all
  three are gone. Once the session has returned, at most 133 steps of their own are left, and
  when none is possible any more the handler has returned and no goroutine is left behind.
\<close>

theorem connection_winds_down:
  assumes "(loops_step marshals)\<^sup>*\<^sup>* start_loops s"
  shows "((\<exists>s'. own_step marshals s s') \<or> awaits_client s \<or> over s)
    \<and> (returned s \<and> (own_step marshals ^^ n) s s' \<longrightarrow>
        n \<le> 133 \<and> ((\<nexists>t. own_step marshals s' t) \<longrightarrow> over s'))"
proof -
  have inv: "loops_inv marshals s" by (rule loops_reachable [OF assms])
  have "n \<le> 133 \<and> ((\<nexists>t. own_step marshals s' t) \<longrightarrow> over s')" if "returned s" "(own_step marshals ^^ n) s s'"
  proof -
    note works = own_steps_work [OF that(2,1)]
    then have "\<not> awaits_client s'" by (auto simp: returned_def awaits_client_def)
    with never_stuck [OF own_steps_inv [OF that(2) inv]] works work_bound [OF inv] show ?thesis
      by (auto simp: eventChanSize_def)
  qed
  with never_stuck [OF inv] show ?thesis by blast
qed

theorem connection_winds_down_witness:
  "returned demo_said \<and> (own_step (\<lambda>_. True) ^^ 5) demo_said demo_over \<and> (5 :: nat) \<le> 133
     \<and> (\<exists>s'. own_step (\<lambda>_. True) demo_said s')"
proof -
  have ret: "returned demo_said" "\<not> awaits_client demo_said" "\<not> over demo_said"
    by (simp_all add: returned_def awaits_client_def over_def demo_said_def)
  from connection_winds_down [OF own_run [OF demo_saying], of 5 demo_over] ret demo_ending show ?thesis by blast
qed

end
