(* ===== verification/Feed.thy ===== *)
theory Feed
  imports Scrape Gateway
begin

text \<open>
  The event feed as text, \<^verbatim>\<open>internal/dash/sse.go\<close>: the whole of \<open>EventsHandlerWith\<close>, from the
  headers to the deferred unsubscription. What \<open>json.Marshal\<close> prints is a parameter; the turns of
  the handler's loop and what other goroutines do to the hub between them are arguments. The
  reading side of the protocol, an EventSource, is the specification.
\<close>

section \<open>Writing\<close>

record dash_snapshot =
  sn_hub :: hub_snapshot
  sn_fleet :: fleet_view
  sn_bifrost :: bifrost_stats

definition newline :: char where "newline = CHR 0x0A"

definition write_event :: "(hub_event \<Rightarrow> string option) \<Rightarrow> hub_event \<Rightarrow> string" where
  "write_event marshal ev =
     (case marshal ev of
        None \<Rightarrow> ''''
      | Some b \<Rightarrow> ''id: '' @ decimal (unat (he_id ev)) @ newline # ''event: event'' @ newline # ''data: '' @ b
          @ [newline, newline])"

definition write_snapshot :: "(dash_snapshot \<Rightarrow> string option) \<Rightarrow> dash_snapshot \<Rightarrow> string" where
  "write_snapshot marshal s =
     (case marshal s of
        None \<Rightarrow> ''''
      | Some b \<Rightarrow> ''event: snapshot'' @ newline # ''data: '' @ b @ [newline, newline])"

text \<open>What \<open>SnapshotWith\<close> reads besides the hub: clock, counters, the order of the stream map, fleet and scraper.\<close>

record dash_reading =
  rd_now :: time
  rd_counters :: counters
  rd_order :: "string list"
  rd_fleet :: fleet_view
  rd_scraper :: "bifrost_scraper option"

definition read_snapshot :: "dash_reading \<Rightarrow> hub \<Rightarrow> dash_snapshot" where
  "read_snapshot r h =
     \<lparr> sn_hub = snapshot_with (rd_now r) (rd_counters r) (rd_order r) h, sn_fleet = rd_fleet r,
       sn_bifrost = scraper_stats (rd_scraper r) \<rparr>"

section \<open>A connection\<close>

text \<open>A turn of the loop, or what others do to the hub before the next one. A channel without events is not selected.\<close>

datatype feed_turn = Elsewhere "hub \<Rightarrow> hub" | EventReady | TickerFired dash_reading

datatype written = WroteEvent hub_event | WroteSnapshot dash_snapshot

fun feed_loop :: "u64 \<Rightarrow> feed_turn list \<Rightarrow> hub \<Rightarrow> written list \<times> hub" where
  "feed_loop sub [] h = ([], h)"
| "feed_loop sub (t # ts) h =
     (case t of
        Elsewhere f \<Rightarrow> feed_loop sub ts (f h)
      | EventReady \<Rightarrow>
          (case feed_take sub h of
             (None, h1) \<Rightarrow> feed_loop sub ts h1
           | (Some ev, h1) \<Rightarrow> let (ws, h2) = feed_loop sub ts h1 in (WroteEvent ev # ws, h2))
      | TickerFired r \<Rightarrow>
          let (ws, h2) = feed_loop sub ts h in (WroteSnapshot (read_snapshot r h) # ws, h2))"

definition feed_writes :: "string \<Rightarrow> (hub \<Rightarrow> hub) \<Rightarrow> dash_reading \<Rightarrow> feed_turn list \<Rightarrow> hub \<Rightarrow> written list \<times> hub" where
  "feed_writes lastEventID between r turns h =
     (let (replay, sub, h1) = feed_connect lastEventID between h;
          (ws, h2) = feed_loop sub turns h1
      in (map WroteEvent replay @ WroteSnapshot (read_snapshot r h1) # ws, unsubscribe sub h2))"

text \<open>The bytes of a write.\<close>

definition print_write :: "(hub_event \<Rightarrow> string option) \<Rightarrow> (dash_snapshot \<Rightarrow> string option) \<Rightarrow> written \<Rightarrow> string" where
  "print_write me ms w = (case w of WroteEvent ev \<Rightarrow> write_event me ev | WroteSnapshot s \<Rightarrow> write_snapshot ms s)"

record feed_response =
  fr_status :: int
  fr_headers :: "(string \<times> string) list"
  fr_body :: string

definition feed_headers :: "(string \<times> string) list" where
  "feed_headers = [(''Content-Type'', ''text/event-stream''), (''Cache-Control'', ''no-cache''),
     (''Connection'', ''keep-alive''), (''X-Accel-Buffering'', ''no'')]"

definition events_handler :: "(hub_event \<Rightarrow> string option) \<Rightarrow> (dash_snapshot \<Rightarrow> string option) \<Rightarrow> bool \<Rightarrow> string \<Rightarrow>
    (hub \<Rightarrow> hub) \<Rightarrow> dash_reading \<Rightarrow> feed_turn list \<Rightarrow> hub \<Rightarrow> feed_response \<times> hub" where
  "events_handler me ms flusher lastEventID between r turns h =
     (if \<not> flusher
      then (\<lparr> fr_status = 500, fr_headers = [(''Content-Type'', ''text/plain; charset=utf-8''),
                (''X-Content-Type-Options'', ''nosniff'')],
              fr_body = ''streaming unsupported'' @ [newline] \<rparr>, h)
      else let (ws, h1) = feed_writes lastEventID between r turns h in
        (\<lparr> fr_status = 200, fr_headers = feed_headers,
           fr_body = ''retry: 1000'' @ [newline, newline] @ concat (map (print_write me ms) ws) \<rparr>, h1))"

section \<open>An EventSource\<close>

text \<open>
  The standard's algorithm for reading an event stream: the buffers of the message being
  read, the last id, and the messages dispatched with the last id at that time.
\<close>

record event_source =
  es_data :: string
  es_type :: string
  es_last :: string
  es_retry :: string
  es_messages :: "(string \<times> string \<times> string) list"

definition new_event_source :: "string \<Rightarrow> event_source" where
  "new_event_source lastID = \<lparr> es_data = '''', es_type = '''', es_last = lastID, es_retry = '''', es_messages = [] \<rparr>"

definition es_dispatch :: "event_source \<Rightarrow> event_source" where
  "es_dispatch es =
     (if es_data es = '''' then es\<lparr>es_type := ''''\<rparr>
      else es\<lparr> es_messages := es_messages es @ [(es_type es, butlast (es_data es), es_last es)],
               es_data := '''', es_type := '''' \<rparr>)"

definition es_field :: "string \<Rightarrow> string \<Rightarrow> event_source \<Rightarrow> event_source" where
  "es_field name v es =
     (if name = ''event'' then es\<lparr>es_type := v\<rparr>
      else if name = ''data'' then es\<lparr>es_data := es_data es @ v @ [newline]\<rparr>
      else if name = ''id'' then es\<lparr>es_last := v\<rparr>
      else if name = ''retry'' then es\<lparr>es_retry := v\<rparr>
      else es)"

definition es_line :: "event_source \<Rightarrow> string \<Rightarrow> event_source" where
  "es_line es line =
     (if line = '''' then es_dispatch es
      else let name = takeWhile (\<lambda>c. c \<noteq> CHR '':'') line; v = drop (length name + 1) line in
        if name = '''' then es
        else es_field name (case v of [] \<Rightarrow> '''' | c # cs \<Rightarrow> if c = CHR '' '' then cs else v) es)"

text \<open>An unfinished last line is not read.\<close>

definition es_read :: "event_source \<Rightarrow> string \<Rightarrow> event_source" where
  "es_read es body = foldl es_line es (butlast (split_on newline body))"

section \<open>Reading back what is written\<close>

definition print_lines :: "string list \<Rightarrow> string" where
  "print_lines ls = concat (map (\<lambda>l. l @ [newline]) ls)"

lemma print_lines_simps [simp]: "print_lines [] = ''''" "print_lines (l # ls) = l @ newline # print_lines ls"
    "print_lines (ls @ ks) = print_lines ls @ print_lines ks"
  by (simp_all add: print_lines_def)

lemma split_print_lines: "\<forall>l \<in> set ls. newline \<notin> set l \<Longrightarrow> split_on newline (print_lines ls) = ls @ ['''']"
  by (induction ls) (simp_all add: split_on_sep)

lemma es_read_lines: "\<forall>l \<in> set ls. newline \<notin> set l \<Longrightarrow> es_read es (print_lines ls) = foldl es_line es ls"
  by (simp add: es_read_def split_print_lines)

definition one_line :: "string option \<Rightarrow> bool" where
  "one_line b \<longleftrightarrow> (case b of None \<Rightarrow> False | Some b \<Rightarrow> newline \<notin> set b)"

definition write_lines :: "(hub_event \<Rightarrow> string option) \<Rightarrow> (dash_snapshot \<Rightarrow> string option) \<Rightarrow> written \<Rightarrow> string list" where
  "write_lines me ms w = (case w of
      WroteEvent ev \<Rightarrow> [''id: '' @ decimal (unat (he_id ev)), ''event: event'', ''data: '' @ the (me ev), '''']
    | WroteSnapshot s \<Rightarrow> [''event: snapshot'', ''data: '' @ the (ms s), ''''])"

text \<open>The message a write amounts to, under the last id before it.\<close>

fun dispatched :: "(hub_event \<Rightarrow> string option) \<Rightarrow> (dash_snapshot \<Rightarrow> string option) \<Rightarrow> string \<Rightarrow> written list \<Rightarrow>
    (string \<times> string \<times> string) list" where
  "dispatched me ms l [] = []"
| "dispatched me ms l (WroteEvent ev # ws) =
     (''event'', the (me ev), decimal (unat (he_id ev))) # dispatched me ms (decimal (unat (he_id ev))) ws"
| "dispatched me ms l (WroteSnapshot s # ws) = (''snapshot'', the (ms s), l) # dispatched me ms l ws"

fun last_id :: "string \<Rightarrow> written list \<Rightarrow> string" where
  "last_id l [] = l"
| "last_id l (WroteEvent ev # ws) = last_id (decimal (unat (he_id ev))) ws"
| "last_id l (WroteSnapshot s # ws) = last_id l ws"

lemma print_write_lines:
  "one_line (me ev) \<Longrightarrow> print_write me ms (WroteEvent ev) = print_lines (write_lines me ms (WroteEvent ev))"
  "one_line (ms s) \<Longrightarrow> print_write me ms (WroteSnapshot s) = print_lines (write_lines me ms (WroteSnapshot s))"
  by (auto simp: print_write_def write_event_def write_snapshot_def write_lines_def one_line_def split: option.splits)

lemma no_newline: "newline \<notin> set (decimal n)" "newline \<noteq> CHR '' ''"
  using decimal_digits [of "CHR 0x0A" n] by (auto simp: newline_def)

lemma write_lines_plain:
  "one_line (me ev) \<Longrightarrow> l \<in> set (write_lines me ms (WroteEvent ev)) \<Longrightarrow> newline \<notin> set l"
  "one_line (ms s) \<Longrightarrow> l \<in> set (write_lines me ms (WroteSnapshot s)) \<Longrightarrow> newline \<notin> set l"
  using no_newline by (auto simp: write_lines_def one_line_def newline_def split: option.splits)

text \<open>Between two messages the buffers of an EventSource are empty.\<close>

definition idle :: "event_source \<Rightarrow> bool" where
  "idle es \<longleftrightarrow> es_data es = '''' \<and> es_type es = ''''"

lemma read_write:
  assumes "idle es"
  shows "foldl es_line es (write_lines me ms (WroteEvent ev))
      = es\<lparr> es_messages := es_messages es @ [(''event'', the (me ev), decimal (unat (he_id ev)))],
            es_last := decimal (unat (he_id ev)) \<rparr>"
    and "foldl es_line es (write_lines me ms (WroteSnapshot s))
      = es\<lparr> es_messages := es_messages es @ [(''snapshot'', the (ms s), es_last es)] \<rparr>"
  using assms by (cases es; simp add: write_lines_def es_line_def es_field_def es_dispatch_def idle_def)+

lemma read_writes:
  assumes "idle es" "\<And>ev. one_line (me ev)" "\<And>s. one_line (ms s)"
  shows "foldl es_line es (concat (map (write_lines me ms) ws))
    = es\<lparr> es_messages := es_messages es @ dispatched me ms (es_last es) ws, es_last := last_id (es_last es) ws \<rparr>"
  using assms(1)
proof (induction ws arbitrary: es)
  case Nil
  then show ?case by simp
next
  case (Cons w ws)
  then show ?case
    by (cases w) (simp_all add: read_write [OF Cons.prems] Cons.IH [OF Cons.prems [unfolded idle_def, folded idle_def]] idle_def
        Cons.IH)
qed

lemma print_writes:
  assumes "\<And>ev. one_line (me ev)" "\<And>s. one_line (ms s)"
  shows "concat (map (print_write me ms) ws) = print_lines (concat (map (write_lines me ms) ws))"
    and "l \<in> set (concat (map (write_lines me ms) ws)) \<Longrightarrow> newline \<notin> set l"
proof -
  show "concat (map (print_write me ms) ws) = print_lines (concat (map (write_lines me ms) ws))"
  proof (induction ws)
    case (Cons w ws)
    then show ?case using assms by (cases w) (simp_all add: print_write_lines)
  qed simp
  assume "l \<in> set (concat (map (write_lines me ms) ws))"
  then obtain w where "l \<in> set (write_lines me ms w)" by auto
  then show "newline \<notin> set l"
    by (cases w) (auto dest: write_lines_plain(1) [OF assms(1)] write_lines_plain(2) [OF assms(2)])
qed

lemma parse_uint_decimal: "parse_uint (decimal (unat (i :: u64))) = Some i"
  using unsigned_less [of i, where 'a = nat] by (simp add: parse_uint_def digits_decimal)

fun last_event :: "written list \<Rightarrow> hub_event option" where
  "last_event [] = None"
| "last_event (WroteEvent ev # ws) = (case last_event ws of None \<Rightarrow> Some ev | Some e \<Rightarrow> Some e)"
| "last_event (WroteSnapshot s # ws) = last_event ws"

lemma last_id_event:
  "last_id l ws = (case last_event ws of None \<Rightarrow> l | Some ev \<Rightarrow> decimal (unat (he_id ev)))"
  by (induction l ws rule: last_id.induct) (auto split: option.splits)

section \<open>Events that overtake each other\<close>

text \<open>
  Recording an event and broadcasting it are two critical sections. When a later event is broadcast
  first, a client that reads it and reconnects gets the earlier one neither from the replay, since
  its id is smaller than the last one read, nor from its new channel.
\<close>

theorem overtaken_event_is_lost:
  assumes "hub_inv n h" "n < 2 ^ 64 - 2" "hb_subs h = [(sub, [])]"
    and a: "record_locked t1 i1 e1 True h = (a, h1)" and b: "record_locked t2 i2 e2 True h1 = (b, h2)"
    and take1: "feed_take sub (broadcast b h2) = (ev, h3)"
    and again: "feed_connect (decimal (unat (he_id b))) (broadcast a) (unsubscribe sub h3) = (replay, sub', h4)"
  shows "ev = Some b \<and> he_id a < he_id b \<and> replay = [] \<and> hb_subs h4 = [(sub', [])]"
proof -
  from record_inv [OF assms(1), of t1 i1 e1 True] assms(2) a
  have A: "hub_inv (Suc n) h1" "hb_next_id h1 = hb_next_id h + 1" "he_id a = hb_next_id h + 1" by simp_all
  from record_inv [OF A(1), of t2 i2 e2 True] assms(2) b
  have B: "hub_inv (Suc (Suc n)) h2" "hb_next_id h2 = hb_next_id h1 + 1" "he_id b = hb_next_id h1 + 1" by simp_all
  have "hb_next_id h1 \<noteq> - 1" using A(1) assms(2) by (intro not_max64) (simp add: hub_inv_def)
  then have "unat (hb_next_id h1) < unat (hb_next_id h1 + 1)" by (simp add: unat_plus_one)
  then have less: "he_id a < he_id b" using A B by (simp only: word_less_nat_alt)
  have subs: "hb_subs h2 = [(sub, [])]"
    using a b assms(3) by (auto simp: record_locked_def Let_def on_stream_def split: option.splits)
  then have took: "ev = Some b" "hb_notable h3 = hb_notable h2" "hb_subs h3 = [(sub, [])]"
    using take1 by (auto simp: feed_take_def broadcast_def offer_def subBuffer_def)
  have "\<forall>x \<in> set (hb_notable h2). he_id x \<le> he_id b" using B by (simp add: hub_inv_def history_def)
  then have "since (he_id b) (unsubscribe sub h3) = []"
    using took(2) by (auto simp: since_def unsubscribe_def filter_empty_conv leD)
  then have "replay = []" "hb_subs h4 = [(sub', [])]"
    using again took(3) by (auto simp: feed_connect_def parse_uint_decimal unsubscribe_def broadcast_def subscribe_def
        Let_def split: prod.splits)
  with took(1) less show ?thesis by simp
qed

section \<open>Property\<close>

text \<open>
  C40: an EventSource that reads the feed gets what the handler wrote: every replayed or delivered
  event under its own id and every snapshot, in that order, as messages of the two types, as
  long as the marshalled values hold no line break. The last id it has read is the one of the
  last event, snapshots leave it alone, and sent back as Last-Event-ID it replays exactly the
  events of the ring that are newer. The connection's channel is gone when the handler returns.
\<close>

theorem feed_is_read_back:
  assumes "\<And>ev. one_line (me ev)" "\<And>s. one_line (ms s)"
    and "feed_writes lastID between r turns h = (ws, h1)"
    and "events_handler me ms True lastID between r turns h = (resp, h')"
  shows "h' = h1 \<and> es_messages (es_read (new_event_source lastID) (fr_body resp)) = dispatched me ms lastID ws
    \<and> (\<forall>ev. last_event ws = Some ev \<longrightarrow>
        fst (feed_connect (es_last (es_read (new_event_source lastID) (fr_body resp))) f g)
          = filter (\<lambda>e. he_id e > he_id ev) (hb_notable g))
    \<and> (\<forall>q. (fst (snd (feed_connect lastID between h)), q) \<notin> set (hb_subs h'))"
proof -
  let ?es = "new_event_source lastID" and ?ls = "concat (map (write_lines me ms) ws)"
  have resp: "h' = h1" "fr_body resp = print_lines ([''retry: 1000'', ''''] @ ?ls)"
    using assms(3,4) by (auto simp: events_handler_def print_writes(1) [OF assms(1,2)])
  have "\<forall>l \<in> set ([''retry: 1000'', ''''] @ ?ls). newline \<notin> set l"
    using print_writes(2) [OF assms(1,2)] by (auto simp: newline_def)
  note body = es_read_lines [OF this, of ?es, folded resp(2)]
  have "foldl es_line ?es [''retry: 1000'', ''''] = ?es\<lparr>es_retry := ''1000''\<rparr>"
    by (simp add: new_event_source_def es_line_def es_field_def es_dispatch_def)
  moreover have "idle (?es\<lparr>es_retry := ''1000''\<rparr>)" by (simp add: idle_def new_event_source_def)
  ultimately have es: "es_read ?es (fr_body resp) = ?es\<lparr> es_retry := ''1000'', es_messages := dispatched me ms lastID ws,
      es_last := last_id lastID ws \<rparr>"
    unfolding body foldl_append using read_writes [OF _ assms(1,2)] by (simp add: new_event_source_def)
  have "fst (feed_connect (last_id lastID ws) f g) = filter (\<lambda>e. he_id e > he_id ev) (hb_notable g)"
    if "last_event ws = Some ev" for ev
    by (simp add: last_id_event that feed_connect_def parse_uint_decimal since_def split: prod.split)
  moreover have "(fst (snd (feed_connect lastID between h)), q) \<notin> set (hb_subs h')" for q
    using assms(3) resp(1) by (auto simp: feed_writes_def unsubscribe_def split: prod.splits)
  ultimately show ?thesis using resp(1) by (simp add: es)
qed

theorem feed_is_read_back_witness:
  "\<forall>r. \<exists>resp h'. events_handler (\<lambda>_. Some ''e'') (\<lambda>_. Some ''s'') True ''1'' id r [Elsewhere id, TickerFired r]
       (new_hub\<lparr>hb_notable := [no_event\<lparr>he_id := 2\<rparr>]\<rparr>) = (resp, h')
     \<and> es_messages (es_read (new_event_source ''1'') (fr_body resp))
       = [(''event'', ''e'', ''2''), (''snapshot'', ''s'', ''2''), (''snapshot'', ''s'', ''2'')]"
proof
  fix r
  let ?h = "new_hub\<lparr>hb_notable := [no_event\<lparr>he_id := 2\<rparr>]\<rparr>" and ?ts = "[Elsewhere id, TickerFired r]"
  obtain resp h' where run: "events_handler (\<lambda>_. Some ''e'') (\<lambda>_. Some ''s'') True ''1'' id r ?ts ?h = (resp, h')"
    by (rule prod.exhaust)
  obtain ws h1 where writes: "feed_writes ''1'' id r ?ts ?h = (ws, h1)" by (rule prod.exhaust)
  have plain: "one_line (Some ''e'')" "one_line (Some ''s'')" by (simp_all add: one_line_def newline_def)
  have two: "decimal 2 = ''2''" by (simp add: decimal.simps [of 2]) code_simp
  have one: "parse_uint ''1'' = Some 1" using parse_uint_decimal [of 1] by simp
  note read = feed_is_read_back [OF plain writes run, THEN conjunct2, THEN conjunct1]
  have "dispatched (\<lambda>_. Some ''e'') (\<lambda>_. Some ''s'') ''1'' ws
      = [(''event'', ''e'', ''2''), (''snapshot'', ''s'', ''2''), (''snapshot'', ''s'', ''2'')]"
  proof -
    have connect: "feed_connect ''1'' id ?h = ([no_event\<lparr>he_id := 2\<rparr>], snd (feed_connect ''1'' id ?h))"
      by (simp add: feed_connect_def one since_def no_event_def split: prod.split)
    obtain sub h2 where rest: "snd (feed_connect ''1'' id ?h) = (sub, h2)" by (rule prod.exhaust)
    have "ws = [WroteEvent (no_event\<lparr>he_id := 2\<rparr>), WroteSnapshot (read_snapshot r h2), WroteSnapshot (read_snapshot r h2)]"
      using writes unfolding feed_writes_def connect [unfolded rest] by simp
    then show ?thesis by (simp add: two no_event_def)
  qed
  then show "\<exists>resp h'. events_handler (\<lambda>_. Some ''e'') (\<lambda>_. Some ''s'') True ''1'' id r ?ts ?h = (resp, h')
     \<and> es_messages (es_read (new_event_source ''1'') (fr_body resp))
       = [(''event'', ''e'', ''2''), (''snapshot'', ''s'', ''2''), (''snapshot'', ''s'', ''2'')]"
    using run read by (intro exI conjI) simp_all
qed

end
