(* ===== verification/TierServer.thy ===== *)
theory TierServer
  imports Tier Json
begin

text \<open>
  The tier as a process, \<open>main\<close> of \<^verbatim>\<open>cmd/kvtier/main.go\<close>: the flags, the routes, and the
  sweep that a ticker runs between requests.
\<close>

section \<open>Flags and routes\<close>

text \<open>\<open>*maxMB<<20\<close> on an \<open>int64\<close>.\<close>

definition boot_tier :: "int \<Rightarrow> duration \<Rightarrow> tier" where
  "boot_tier maxMB ttl = new_tier (wrap64 (maxMB * 1048576)) ttl"

definition defaultMaxMB :: int where "defaultMaxMB = 512"
definition defaultTTL :: duration where "defaultTTL = 5 * 60 * second"

text \<open>A request; the query's \<^verbatim>\<open>limit\<close> and \<^verbatim>\<open>prefix\<close> are the empty string when absent.\<close>

record server_request =
  tq_kv :: kv_request
  tq_limit :: string

datatype tier_reply =
    KvReply kv_response
  | HealthReply
  | StatsReply tier_stats
  | KeysReply "key_info list" int
  | NoRoute

definition keys_limit :: "string \<Rightarrow> int" where
  "keys_limit s = (case atoi s of None \<Rightarrow> 50 | Some n \<Rightarrow> if n > 0 then n else 50)"

definition serve_request :: "time \<Rightarrow> string list \<Rightarrow> server_request \<Rightarrow> tier \<Rightarrow> tier_reply \<times> tier" where
  "serve_request now order q t =
     (let path = kq_path (tq_kv q) in
      if prefix ''/kv/'' path \<or> path = ''/kv'' then
        (case handle_kv now (tq_kv q) t of (a, t') \<Rightarrow> (KvReply a, t'))
      else if path = ''/health'' then (HealthReply, t)
      else if path = ''/stats'' then (StatsReply (tier_stats t), t)
      else if path = ''/keys'' then
        (let keys = tier_keys now order (kq_prefix (tq_kv q)) (keys_limit (tq_limit q)) t
         in (KeysReply keys (int (length keys)), t))
      else (NoRoute, t))"

datatype tier_turn = Serve time "string list" server_request | SweepTick time

fun run_tier :: "tier_turn list \<Rightarrow> tier \<Rightarrow> tier_reply list \<times> tier" where
  "run_tier [] t = ([], t)"
| "run_tier (Serve now order q # ts) t =
     (let (a, t1) = serve_request now order q t; (as, t2) = run_tier ts t1 in (a # as, t2))"
| "run_tier (SweepTick now # ts) t = run_tier ts (sweep now t)"

section \<open>What the views show\<close>

lemma serve_request_inv: "tier_inv t \<Longrightarrow> tier_inv (snd (serve_request now order q t))"
  using handle_kv_inv [of t now "tq_kv q"] by (auto simp: serve_request_def Let_def split: prod.split)

lemma run_tier_inv: "tier_inv t \<Longrightarrow> tier_inv (snd (run_tier ts t))"
proof (induction ts t rule: run_tier.induct)
  case (2 now order q ts t)
  then show ?case using serve_request_inv [of t now order q] by (auto split: prod.splits)
qed (simp_all add: sweep_inv)

lemma keys_limit_pos: "0 < keys_limit s"
  by (auto simp: keys_limit_def split: option.split)

text \<open>The rows of a page before it is sorted and cut.\<close>

definition key_row :: "time \<Rightarrow> tier \<Rightarrow> string \<Rightarrow> entry \<Rightarrow> key_info" where
  "key_row now t k e = \<lparr> ki_key = k, ki_bytes = int (length (en_blob e)),
     ki_age_ms = (now - en_stored e) div 1000000, ki_compat_key = en_compat_key e \<rparr>"

definition key_rows :: "time \<Rightarrow> string list \<Rightarrow> string \<Rightarrow> tier \<Rightarrow> key_info list" where
  "key_rows now order pre t = concat (map (\<lambda>k. case tr_m t k of None \<Rightarrow> []
     | Some e \<Rightarrow> if pre \<noteq> '''' \<and> \<not> prefix pre k then [] else [key_row now t k e]) order)"

lemma tier_keys_rows: "tier_keys now order pre limit t =
    (let rows = sort_key ki_age_ms (key_rows now order pre t) in
     if limit > 0 \<and> int (length rows) > limit then take (nat limit) rows else rows)"
  unfolding tier_keys_def key_rows_def key_row_def Let_def by (rule refl)

lemma key_rows_set: "set (key_rows now order pre t) =
    {key_row now t k e |k e. k \<in> set order \<and> tr_m t k = Some e \<and> (pre = '''' \<or> prefix pre k)}"
  by (auto simp: key_rows_def split: option.splits if_splits) (metis (no_types))+

text \<open>
  A page of \<^verbatim>\<open>/keys\<close> shows the youngest resident versions under the prefix, with their true sizes,
  youngest first and no more than asked for; a page that is not full shows all of them. Reading
  it changes nothing.
\<close>

theorem keys_page_is_true:
  assumes "set order = dom (tr_m t)" "kq_path (tq_kv q) = ''/keys''"
    and "serve_request now order q t = (KeysReply rows n, t')"
  shows "t' = t \<and> n = int (length rows) \<and> n \<le> keys_limit (tq_limit q) \<and> sorted (map ki_age_ms rows)
    \<and> (\<forall>row \<in> set rows. \<exists>e. tr_m t (ki_key row) = Some e \<and> row = key_row now t (ki_key row) e)
    \<and> (n < keys_limit (tq_limit q) \<longrightarrow> (\<forall>k e. tr_m t k = Some e \<and> prefix (kq_prefix (tq_kv q)) k \<longrightarrow> key_row now t k e \<in> set rows))"
proof -
  let ?all = "key_rows now order (kq_prefix (tq_kv q)) t" and ?l = "keys_limit (tq_limit q)"
  have rows: "rows = (if int (length ?all) > ?l then take (nat ?l) (sort_key ki_age_ms ?all) else sort_key ki_age_ms ?all)"
    and rest: "t' = t" "n = int (length rows)"
    using assms(2,3) keys_limit_pos by (auto simp: serve_request_def tier_keys_rows Let_def)
  have "n \<le> ?l" using rest(2) rows keys_limit_pos [of "tq_limit q"] by auto
  moreover have "sorted (map ki_age_ms rows)" unfolding rows by (simp add: sorted_wrt_take flip: take_map)
  moreover have "set rows \<subseteq> set ?all"
    using set_take_subset [of "nat ?l" "sort_key ki_age_ms ?all"] by (simp add: rows)
  then have "\<forall>row \<in> set rows. \<exists>e. tr_m t (ki_key row) = Some e \<and> row = key_row now t (ki_key row) e"
    by (auto simp: key_rows_set key_row_def)
  moreover have "key_row now t k e \<in> set rows" if "n < ?l" "tr_m t k = Some e" "prefix (kq_prefix (tq_kv q)) k" for k e
  proof -
    have "\<not> ?l < int (length ?all)"
    proof
      assume cut: "?l < int (length ?all)"
      then have "length rows = nat ?l" unfolding rows by simp
      moreover have "0 < ?l" by (rule keys_limit_pos)
      ultimately show False using that(1) rest(2) by linarith
    qed
    then have "set rows = set ?all" using rows by simp
    then show ?thesis using that assms(1) by (auto simp: key_rows_set)
  qed
  ultimately show ?thesis using rest by blast
qed

end
