(* ===== verification/Corpus.thy ===== *)
theory Corpus
  imports LoadRun
begin

text \<open>
  Finding the corpus, the second half of \<^verbatim>\<open>internal/corpus/wav.go\<close>: the walk over a directory
  tree, the upward search for \<^verbatim>\<open>corpus/large\<close> and the choice of a clip. The file system is a
  function from paths to trees; a directory lists its entries by name, as \<^verbatim>\<open>os.ReadDir\<close> does.
\<close>

section \<open>Paths and trees\<close>

text \<open>Everything that is not a directory is a \<open>Leaf\<close>, symbolic links included.\<close>

datatype file_node = Leaf | Unreadable string | Folder "(string \<times> file_node) list"

text \<open>\<^verbatim>\<open>filepath.Ext\<close>: from the last dot of the last element on.\<close>

definition file_ext :: "string \<Rightarrow> string" where
  "file_ext p =
     (let name = takeWhile (\<lambda>c. c \<noteq> CHR ''/'') (rev p) in
      if CHR ''.'' \<in> set name then CHR ''.'' # rev (takeWhile (\<lambda>c. c \<noteq> CHR ''.'') name) else '''')"

definition is_wav :: "string \<Rightarrow> bool" where
  "is_wav p = fold_eq (file_ext p) ''.wav''"

text \<open>An absolute directory by its elements, and a path below it.\<close>

definition below :: "string \<Rightarrow> string list \<Rightarrow> string" where
  "below base ns = base @ concat (map (\<lambda>n. CHR ''/'' # n) ns)"

definition abs_path :: "string list \<Rightarrow> string" where
  "abs_path ns = (if ns = [] then ''/'' else below '''' ns)"

section \<open>Walking\<close>

text \<open>What the callback appends, up to the first error, which ends the walk.\<close>

fun walk_dir :: "string \<Rightarrow> file_node \<Rightarrow> string + string list"
  and walk_entries :: "string \<Rightarrow> (string \<times> file_node) list \<Rightarrow> string + string list" where
  "walk_dir p Leaf = Inr (if is_wav p then [p] else [])"
| "walk_dir p (Unreadable err) = Inl err"
| "walk_dir p (Folder es) = walk_entries p es"
| "walk_entries p [] = Inr []"
| "walk_entries p ((n, d) # es) =
     (case walk_dir (p @ CHR ''/'' # n) d of
        Inl err \<Rightarrow> Inl err
      | Inr ps \<Rightarrow> (case walk_entries p es of Inl err \<Rightarrow> Inl err | Inr qs \<Rightarrow> Inr (ps @ qs)))"

type_synonym file_system = "string \<Rightarrow> string + file_node"

definition walk_clips :: "file_system \<Rightarrow> string \<Rightarrow> string + string list" where
  "walk_clips fs base =
     (case fs base of
        Inl err \<Rightarrow> Inl err
      | Inr d \<Rightarrow> (case walk_dir base d of Inl err \<Rightarrow> Inl err | Inr paths \<Rightarrow> Inr (sort paths)))"

section \<open>The corpus directory\<close>

datatype dir_error = NoWorkingDir string | NoClipsFrom string | WalkFailed string

definition corpus_of :: "string list \<Rightarrow> string" where
  "corpus_of dir = abs_path (dir @ [''corpus'', ''large''])"

text \<open>The loop of \<open>ResolveDir\<close>, on the elements of the directory from the last to the first.\<close>

fun search_up :: "file_system \<Rightarrow> string list \<Rightarrow> string option" where
  "search_up fs rdir =
     (let candidate = corpus_of (rev rdir) in
      case walk_clips fs candidate of
        Inr (c # cs) \<Rightarrow> Some candidate
      | _ \<Rightarrow> (case rdir of [] \<Rightarrow> None | _ # parent \<Rightarrow> search_up fs parent))"

declare search_up.simps [simp del]

definition resolve_dir :: "file_system \<Rightarrow> string + string list \<Rightarrow> dir_error + string" where
  "resolve_dir fs getwd =
     (case getwd of
        Inl err \<Rightarrow> Inl (NoWorkingDir err)
      | Inr wd \<Rightarrow> (case search_up fs (rev wd) of None \<Rightarrow> Inl (NoClipsFrom (abs_path wd)) | Some dir \<Rightarrow> Inr dir))"

definition all_clips :: "file_system \<Rightarrow> string + string list \<Rightarrow> dir_error + string list" where
  "all_clips fs getwd =
     (case resolve_dir fs getwd of
        Inl err \<Rightarrow> Inl err
      | Inr dir \<Rightarrow> (case walk_clips fs dir of Inl err \<Rightarrow> Inl (WalkFailed err) | Inr paths \<Rightarrow> Inr paths))"

text \<open>\<open>paths[0]\<close>: \<open>None\<close> is the index panic of an empty list.\<close>

definition any_clip :: "file_system \<Rightarrow> string + string list \<Rightarrow> dir_error + string option" where
  "any_clip fs getwd =
     (case all_clips fs getwd of
        Inl err \<Rightarrow> Inl err
      | Inr paths \<Rightarrow> Inr (case paths of [] \<Rightarrow> None | p # _ \<Rightarrow> Some p))"

text \<open>The clip argument of the chaos tool; an empty one means any clip.\<close>

definition chosen_clip :: "file_system \<Rightarrow> string + string list \<Rightarrow> string \<Rightarrow> dir_error + string option" where
  "chosen_clip fs getwd path = (if path = '''' then any_clip fs getwd else Inr (Some path))"

section \<open>What a walk finds\<close>

text \<open>The reference: the leaves of a tree by their names from the base, and its unreadable directories.\<close>

fun leaf_at :: "file_node \<Rightarrow> string list \<Rightarrow> bool" where
  "leaf_at Leaf ns = (ns = [])"
| "leaf_at (Unreadable err) ns = False"
| "leaf_at (Folder es) ns = (case ns of [] \<Rightarrow> False | n # ms \<Rightarrow> (\<exists>(m, d) \<in> set es. m = n \<and> leaf_at d ms))"

fun readable :: "file_node \<Rightarrow> bool" where
  "readable Leaf = True"
| "readable (Unreadable err) = False"
| "readable (Folder es) = (\<forall>(n, d) \<in> set es. readable d)"

text \<open>Names as file systems have them: no slash, each once in its directory.\<close>

fun tidy :: "file_node \<Rightarrow> bool" where
  "tidy (Folder es) = (distinct (map fst es) \<and> (\<forall>(n, d) \<in> set es. CHR ''/'' \<notin> set n \<and> tidy d))"
| "tidy _ = True"

lemma below_simps [simp]: "below base [] = base" "below base (n # ns) = below (base @ CHR ''/'' # n) ns"
  by (simp_all add: below_def)

lemma walk_fails:
  "(\<exists>err. walk_dir p d = Inl err) \<longleftrightarrow> \<not> readable d"
  "(\<exists>err. walk_entries p es = Inl err) \<longleftrightarrow> \<not> (\<forall>(n, d) \<in> set es. readable d)"
proof (induction p d and p es rule: walk_dir_walk_entries.induct)
  case (5 p n d es)
  then show ?case by (cases "walk_dir (p @ CHR ''/'' # n) d"; cases "walk_entries p es") auto
qed auto

lemma walk_set:
  "walk_dir p d = Inr ps \<Longrightarrow> set ps = {below p ns |ns. leaf_at d ns \<and> is_wav (below p ns)}"
  "walk_entries p es = Inr ps \<Longrightarrow>
     set ps = {below p (n # ns) |n d ns. (n, d) \<in> set es \<and> leaf_at d ns \<and> is_wav (below p (n # ns))}"
proof (induction p d and p es arbitrary: ps and ps rule: walk_dir_walk_entries.induct)
  case (3 p es)
  then have "set ps = {below p (n # ns) |n d ns. (n, d) \<in> set es \<and> leaf_at d ns \<and> is_wav (below p (n # ns))}"
    by simp
  also have "\<dots> = {below p ns |ns. leaf_at (Folder es) ns \<and> is_wav (below p ns)}"
    (is "?L = ?R")
  proof
    show "?L \<subseteq> ?R" by (fastforce intro: exI [where x = "_ # _"])
    show "?R \<subseteq> ?L"
    proof
      fix x assume "x \<in> ?R"
      then obtain ns where "x = below p ns" "leaf_at (Folder es) ns" "is_wav x" by blast
      then show "x \<in> ?L" by (cases ns) (auto simp del: below_simps)
    qed
  qed
  finally show ?case .
next
  case (5 p n d es)
  then obtain ps1 qs where parts: "walk_dir (p @ CHR ''/'' # n) d = Inr ps1" "walk_entries p es = Inr qs" "ps = ps1 @ qs"
    by (auto split: sum.splits)
  have "set ps1 = {below p (m # ns) |m e ns. (m, e) = (n, d) \<and> leaf_at e ns \<and> is_wav (below p (m # ns))}"
    using 5(1) [OF parts(1)] by simp
  moreover note 5(2) [OF parts(1,2)]
  ultimately show ?case unfolding parts(3) set_append list.set insert_iff by blast
qed (auto split: if_splits)

text \<open>The clips of a directory, by the reference.\<close>

definition clip_below :: "file_system \<Rightarrow> string \<Rightarrow> string \<Rightarrow> bool" where
  "clip_below fs dir p \<longleftrightarrow>
     (\<exists>d ns. fs dir = Inr d \<and> readable d \<and> leaf_at d ns \<and> p = below dir ns \<and> is_wav p)"

lemma walk_clips_spec:
  assumes "walk_clips fs dir = Inr ps"
  shows "sorted ps" "set ps = {p. clip_below fs dir p}"
proof -
  obtain d qs where d: "fs dir = Inr d" "walk_dir dir d = Inr qs" "ps = sort qs"
    using assms by (auto simp: walk_clips_def split: sum.splits)
  have "readable d" using walk_fails(1) [of dir d] d(2) by auto
  with walk_set(1) [OF d(2)] d show "set ps = {p. clip_below fs dir p}" by (auto simp: clip_below_def)
  show "sorted ps" using d(3) by simp
qed

lemma walk_clips_finds: "clip_below fs dir p \<Longrightarrow> \<exists>c cs. walk_clips fs dir = Inr (c # cs)"
proof -
  assume p: "clip_below fs dir p"
  then obtain d where d: "fs dir = Inr d" "readable d" by (auto simp: clip_below_def)
  then obtain qs where "walk_dir dir d = Inr qs" using walk_fails(1) [of dir d] by (cases "walk_dir dir d") auto
  with d(1) have walk: "walk_clips fs dir = Inr (sort qs)" by (simp add: walk_clips_def)
  with walk_clips_spec(2) [OF walk] p have "sort qs \<noteq> []" by fastforce
  with walk show ?thesis by (cases "sort qs") auto
qed

definition holds_clips :: "file_system \<Rightarrow> string \<Rightarrow> bool" where
  "holds_clips fs dir \<longleftrightarrow> (\<exists>p. clip_below fs dir p)"

lemma holds_clips_walk: "holds_clips fs dir \<longleftrightarrow> (\<exists>c cs. walk_clips fs dir = Inr (c # cs))"
proof
  assume "holds_clips fs dir"
  then show "\<exists>c cs. walk_clips fs dir = Inr (c # cs)" using walk_clips_finds by (auto simp: holds_clips_def)
next
  assume "\<exists>c cs. walk_clips fs dir = Inr (c # cs)"
  then obtain c cs where "walk_clips fs dir = Inr (c # cs)" by blast
  from walk_clips_spec(2) [OF this] have "c \<in> {p. clip_below fs dir p}" by (metis list.set_intros(1))
  then show "holds_clips fs dir" by (auto simp: holds_clips_def)
qed


lemma search_up_unfold:
  "search_up fs rdir = (if holds_clips fs (corpus_of (rev rdir)) then Some (corpus_of (rev rdir))
     else case rdir of [] \<Rightarrow> None | _ # parent \<Rightarrow> search_up fs parent)"
  unfolding search_up.simps [of fs rdir] holds_clips_walk
  by (auto simp: Let_def split: sum.splits list.splits)

text \<open>The nearest directory above, itself included, whose corpus holds a clip.\<close>

definition nearest_corpus :: "file_system \<Rightarrow> string list \<Rightarrow> nat \<Rightarrow> bool" where
  "nearest_corpus fs wd k \<longleftrightarrow> k \<le> length wd \<and> holds_clips fs (corpus_of (take k wd))
     \<and> (\<forall>i. k < i \<and> i \<le> length wd \<longrightarrow> \<not> holds_clips fs (corpus_of (take i wd)))"

lemma nearest_snoc:
  "nearest_corpus fs (wd @ [n]) k \<longleftrightarrow>
     (if holds_clips fs (corpus_of (wd @ [n])) then k = Suc (length wd) else nearest_corpus fs wd k)"
proof (cases "k = Suc (length wd)")
  case True
  then show ?thesis by (auto simp: nearest_corpus_def)
next
  case False
  have "nearest_corpus fs (wd @ [n]) k \<longleftrightarrow> k \<le> length wd \<and> holds_clips fs (corpus_of (take k wd))
      \<and> \<not> holds_clips fs (corpus_of (wd @ [n]))
      \<and> (\<forall>i. k < i \<and> i \<le> length wd \<longrightarrow> \<not> holds_clips fs (corpus_of (take i wd)))"
    using False by (simp add: nearest_corpus_def le_Suc_eq all_conj_distrib imp_conjL conj_disj_distribL
        conj_disj_distribR) (force simp: less_Suc_eq_le)
  with False show ?thesis by (auto simp: nearest_corpus_def)
qed

lemma search_up_nearest:
  "search_up fs (rev wd) = Some dir \<longleftrightarrow> (\<exists>k. nearest_corpus fs wd k \<and> dir = corpus_of (take k wd))"
proof (induction wd rule: rev_induct)
  case Nil
  then show ?case by (auto simp: search_up_unfold [of fs "[]"] nearest_corpus_def)
next
  case (snoc n wd)
  show ?case
  proof (cases "holds_clips fs (corpus_of (wd @ [n]))")
    case True
    then show ?thesis by (simp add: search_up_unfold [of fs "n # rev wd"] nearest_snoc) auto
  next
    case False
    have "nearest_corpus fs wd k \<and> dir = corpus_of (take k (wd @ [n]))
        \<longleftrightarrow> nearest_corpus fs wd k \<and> dir = corpus_of (take k wd)" for k
      by (auto simp: nearest_corpus_def)
    with False snoc show ?thesis
      by (simp add: search_up_unfold [of fs "n # rev wd"] nearest_snoc del: take_append)
  qed
qed

lemma any_clip_search:
  "any_clip fs (Inr wd) = (case search_up fs (rev wd) of None \<Rightarrow> Inl (NoClipsFrom (abs_path wd))
     | Some dir \<Rightarrow> (case walk_clips fs dir of Inl err \<Rightarrow> Inl (WalkFailed err)
         | Inr ps \<Rightarrow> Inr (case ps of [] \<Rightarrow> None | p # _ \<Rightarrow> Some p)))"
  by (simp add: any_clip_def all_clips_def resolve_dir_def split: option.split sum.split)

lemma search_up_none: "search_up fs (rev wd) = None \<longleftrightarrow> (\<forall>k \<le> length wd. \<not> holds_clips fs (corpus_of (take k wd)))"
proof (induction wd rule: rev_induct)
  case Nil
  then show ?case by (simp add: search_up_unfold [of fs "[]"])
next
  case (snoc n wd)
  then show ?case by (simp add: search_up_unfold [of fs "n # rev wd"] le_Suc_eq all_conj_distrib disj_imp) auto
qed

section \<open>A small disk\<close>

definition demo_disk :: file_system where
  "demo_disk dir =
     (if dir = ''/home/corpus/large'' then Inr (Folder [(''README.md'', Leaf),
        (''dialogue'', Folder [(''b.WAV'', Leaf), (''c.wav'', Leaf)]), (''long'', Folder [])])
      else if dir = ''/corpus/large'' then Inr (Folder [(''a.wav'', Leaf)])
      else Inl ''no such file or directory'')"

section \<open>Properties\<close>

text \<open>
  The default clip. Started anywhere below a generated corpus, the tools find it: the search
  goes up from the working directory to the nearest directory whose \<^verbatim>\<open>corpus/large\<close> can be
  walked and holds a clip at any depth, and the clip chosen is the first of its clips in
  byte order, whatever their kinds' directories. The choice never indexes an empty list, and it
  fails exactly when no directory above has a clip.
\<close>

theorem default_clip_is_first_of_the_nearest_corpus:
  "any_clip fs (Inr wd) \<noteq> Inr None
   \<and> (any_clip fs (Inr wd) = Inl (NoClipsFrom (abs_path wd))
        \<longleftrightarrow> (\<forall>k \<le> length wd. \<forall>q. \<not> clip_below fs (corpus_of (take k wd)) q))
   \<and> (any_clip fs (Inr wd) = Inr (Some p) \<longleftrightarrow>
        (\<exists>k. nearest_corpus fs wd k \<and> clip_below fs (corpus_of (take k wd)) p
           \<and> (\<forall>q. clip_below fs (corpus_of (take k wd)) q \<longrightarrow> p \<le> q)))"
proof (cases "search_up fs (rev wd)")
  case None
  with search_up_none [of fs wd] search_up_nearest [of fs wd] show ?thesis
    by (auto simp: any_clip_search holds_clips_def nearest_corpus_def)
next
  case (Some dir)
  then obtain k where k: "nearest_corpus fs wd k" "dir = corpus_of (take k wd)"
    using search_up_nearest [of fs wd dir] by blast
  have only: "corpus_of (take j wd) = dir" if "nearest_corpus fs wd j" for j
    using that Some search_up_nearest [of fs wd "corpus_of (take j wd)"] by auto
  obtain c cs where walk: "walk_clips fs dir = Inr (c # cs)"
    using k by (auto simp: nearest_corpus_def holds_clips_walk)
  note spec = walk_clips_spec [OF walk]
  have out: "any_clip fs (Inr wd) = Inr (Some c)" by (simp add: any_clip_search Some walk)
  have "c = p \<longleftrightarrow> clip_below fs dir p \<and> (\<forall>q. clip_below fs dir q \<longrightarrow> p \<le> q)"
  proof -
    have "clip_below fs dir q \<longleftrightarrow> q \<in> set (c # cs)" for q using spec(2) by auto
    moreover have "c \<le> q" if "q \<in> set (c # cs)" for q using spec(1) that by auto
    ultimately show ?thesis by (metis antisym list.set_intros(1))
  qed
  moreover have "\<not> (\<forall>k \<le> length wd. \<forall>q. \<not> clip_below fs (corpus_of (take k wd)) q)"
    using k by (auto simp: nearest_corpus_def holds_clips_def)
  moreover have "(\<exists>k. nearest_corpus fs wd k \<and> clip_below fs (corpus_of (take k wd)) p
      \<and> (\<forall>q. clip_below fs (corpus_of (take k wd)) q \<longrightarrow> p \<le> q))
    \<longleftrightarrow> clip_below fs dir p \<and> (\<forall>q. clip_below fs dir q \<longrightarrow> p \<le> q)" using k only by metis
  ultimately show ?thesis unfolding out by simp
qed

theorem default_clip_is_first_of_the_nearest_corpus_witness:
  "\<forall>q. clip_below demo_disk ''/home/corpus/large'' q \<longrightarrow> ''/home/corpus/large/dialogue/b.WAV'' \<le> q"
proof -
  let ?wd = "[''home'', ''src'']"
  have "any_clip demo_disk (Inr ?wd) = Inr (Some ''/home/corpus/large/dialogue/b.WAV'')" by code_simp
  with default_clip_is_first_of_the_nearest_corpus [of demo_disk ?wd "''/home/corpus/large/dialogue/b.WAV''"]
  obtain k where k: "nearest_corpus demo_disk ?wd k" "clip_below demo_disk (corpus_of (take k ?wd)) ''/home/corpus/large/dialogue/b.WAV''"
    "\<forall>q. clip_below demo_disk (corpus_of (take k ?wd)) q \<longrightarrow> ''/home/corpus/large/dialogue/b.WAV'' \<le> q" by blast
  have "search_up demo_disk (rev ?wd) = Some ''/home/corpus/large''" by code_simp
  moreover have "search_up demo_disk (rev ?wd) = Some (corpus_of (take k ?wd))"
    using k(1) search_up_nearest [of demo_disk ?wd "corpus_of (take k ?wd)"] by blast
  ultimately show ?thesis using k(3) by simp
qed

text \<open>
  A batch started without a corpus directory looks where \<open>ResolveDir\<close> found clips, so it never
  reports an empty corpus.
\<close>

theorem resolved_corpus_is_not_empty:
  assumes "lf_corpus_dir cfg = ''''"
  shows "plan_run (walk_clips fs) shuffled read (map_sum err id (resolve_dir fs (Inr wd))) start cfg \<noteq> Inl (NoClips dir)"
proof (cases "search_up fs (rev wd)")
  case None
  then show ?thesis using assms by (auto simp: plan_run_def resolve_dir_def check_config_def)
next
  case (Some found)
  then obtain c cs where walk: "walk_clips fs found = Inr (c # cs)"
    using search_up_nearest [of fs wd found] by (auto simp: nearest_corpus_def holds_clips_walk)
  have "read_clips read ps \<noteq> Inl (NoClips d)" for ps d
    by (induction ps) (auto split: sum.splits)
  with walk Some assms show ?thesis
    by (auto simp: plan_run_def resolve_dir_def check_config_def load_clips_def Let_def split: sum.splits)
qed

end
