(* ===== verification/LoadReport.thy ===== *)
theory LoadReport
  imports LoadRun
begin

text \<open>
  What a batch of the load generator leaves behind, the end of \<open>runCtx\<close> with \<open>writeCSV\<close> and
  \<open>printSummary\<close> of \<^verbatim>\<open>cmd/loadgen/main.go\<close>. The text is what \<^verbatim>\<open>encoding/csv\<close> makes of the rows;
  a reader of the format in RFC 4180 is the specification.
\<close>

section \<open>The CSV file\<close>

text \<open>\<open>fieldNeedsQuotes\<close>; \<open>space_first\<close> is \<open>unicode.IsSpace\<close> of a field's first rune.\<close>

definition csv_special :: "char \<Rightarrow> bool" where
  "csv_special c \<longleftrightarrow> c = CHR 0x0A \<or> c = CHR 0x0D \<or> c = CHR 0x22 \<or> c = CHR '',''"

definition needs_quotes :: "(string \<Rightarrow> bool) \<Rightarrow> string \<Rightarrow> bool" where
  "needs_quotes space_first f \<longleftrightarrow> f \<noteq> '''' \<and> (f = [CHR 0x5C, CHR ''.''] \<or> list_ex csv_special f \<or> space_first f)"

definition csv_field :: "(string \<Rightarrow> bool) \<Rightarrow> string \<Rightarrow> string" where
  "csv_field space_first f =
     (if needs_quotes space_first f
      then CHR 0x22 # concat (map (\<lambda>c. if c = CHR 0x22 then [CHR 0x22, CHR 0x22] else [c]) f) @ [CHR 0x22]
      else f)"

fun csv_record :: "(string \<Rightarrow> bool) \<Rightarrow> string list \<Rightarrow> string" where
  "csv_record space_first [] = [CHR 0x0A]"
| "csv_record space_first [f] = csv_field space_first f @ [CHR 0x0A]"
| "csv_record space_first (f # g # fs) = csv_field space_first f @ CHR '','' # csv_record space_first (g # fs)"

text \<open>
  The rows that \<open>w.Write\<close> accepts: \<open>ok\<close> tells of the \<open>k\<close>-th one. The first refusal ends the loop, with
  the rows before it flushed.
\<close>

fun write_rows :: "(nat \<Rightarrow> bool) \<Rightarrow> nat \<Rightarrow> string list list \<Rightarrow> string list list \<times> bool" where
  "write_rows ok k [] = ([], True)"
| "write_rows ok k (r # rs) =
     (if ok k then (case write_rows ok (Suc k) rs of (out, whole) \<Rightarrow> (r # out, whole)) else ([], False))"

datatype csv_result = NotAsked | NotCreated string | WriteFailed string | CSVWritten string

definition write_csv :: "(float64 \<Rightarrow> string) \<Rightarrow> (string \<Rightarrow> bool) \<Rightarrow> (string \<Rightarrow> string option) \<Rightarrow> (nat \<Rightarrow> bool) \<Rightarrow>
    string \<Rightarrow> load_row list \<Rightarrow> csv_result" where
  "write_csv fixed3 space_first create ok path events =
     (if path = '''' then NotAsked
      else case create path of
        Some err \<Rightarrow> NotCreated err
      | None \<Rightarrow>
          (case write_rows ok 0 (csv_header # map (csv_row fixed3) events) of
             (out, whole) \<Rightarrow>
               let text = concat (map (csv_record space_first) out)
               in if whole then CSVWritten text else WriteFailed text))"

section \<open>The summary\<close>

record load_summary =
  sy_requested :: int
  sy_opened :: int
  sy_refused :: int
  sy_elapsed :: float64
  sy_audio_seconds :: float64
  sy_frames_sent :: int
  sy_frames_dropped :: int
  sy_partial_p50 :: float64
  sy_partial_p95 :: float64
  sy_final_p50 :: float64
  sy_final_p95 :: float64
  sy_finals :: int
  sy_duplicate_finals :: int
  sy_discontinuities :: int
  sy_errors :: int
  sy_overloaded :: int

definition summary_of :: "load_config \<Rightarrow> load_counters \<Rightarrow> duration \<Rightarrow> load_summary" where
  "summary_of cfg c elapsed =
     \<lparr> sy_requested = lf_streams cfg, sy_opened = lk_streams_opened c, sy_refused = lk_streams_refused c,
       sy_elapsed = seconds elapsed, sy_audio_seconds = of_int (lk_audio_ms_sent c) / 1000,
       sy_frames_sent = lk_frames_sent c, sy_frames_dropped = lk_frames_dropped c,
       sy_partial_p50 = percentile_of (lk_partial_latencies c) (1 / 2),
       sy_partial_p95 = percentile_of (lk_partial_latencies c) (95 / 100),
       sy_final_p50 = percentile_of (lk_final_latencies c) (1 / 2),
       sy_final_p95 = percentile_of (lk_final_latencies c) (95 / 100),
       sy_finals = lk_finals c, sy_duplicate_finals = lk_duplicate_finals c,
       sy_discontinuities = lk_discontinuities c, sy_errors = lk_errors c, sy_overloaded = lk_overloaded c \<rparr>"

text \<open>
  The end of a run, once every stream has returned: \<open>streams\<close> is what they made of the plan, the
  counters, the rows in the order they entered the channel and the time it took.
\<close>

definition run_ctx :: "(string \<Rightarrow> string + string list) \<Rightarrow> (int \<Rightarrow> string list \<Rightarrow> string list) \<Rightarrow>
    (string \<Rightarrow> corpus_error + clip) \<Rightarrow> (string + string) \<Rightarrow> time \<Rightarrow>
    ((load_stream \<times> duration) list \<Rightarrow> load_counters \<times> load_row list \<times> duration) \<Rightarrow>
    (load_row list \<Rightarrow> csv_result) \<Rightarrow> load_config \<Rightarrow> run_error + csv_result \<times> load_summary" where
  "run_ctx walk shuffled read resolve start streams csv cfg =
     (case plan_run walk shuffled read resolve start cfg of
        Inl err \<Rightarrow> Inl err
      | Inr plan \<Rightarrow> (case streams plan of (cnt, rows, elapsed) \<Rightarrow> Inr (csv rows, summary_of cfg cnt elapsed)))"

section \<open>Reading it back\<close>

datatype csv_mode = FieldStart | InPlain | InQuoted | AfterQuote

fun csv_read :: "csv_mode \<Rightarrow> string \<Rightarrow> string list \<Rightarrow> string list list \<Rightarrow> string \<Rightarrow> string list list option" where
  "csv_read m f r rs [] = (if m = FieldStart \<and> r = [] then Some rs else None)"
| "csv_read m f r rs (c # cs) =
     (if m = InQuoted then
        (if c = CHR 0x22 then csv_read AfterQuote f r rs cs else csv_read InQuoted (f @ [c]) r rs cs)
      else if c = CHR '','' then csv_read FieldStart '''' (r @ [f]) rs cs
      else if c = CHR 0x0A then csv_read FieldStart '''' [] (rs @ [r @ [f]]) cs
      else if c = CHR 0x22 then
        (if m = FieldStart then csv_read InQuoted f r rs cs
         else if m = AfterQuote then csv_read InQuoted (f @ [c]) r rs cs else None)
      else if m = AfterQuote then None else csv_read InPlain (f @ [c]) r rs cs)"

lemma read_quoted:
  "csv_read InQuoted f r rs (concat (map (\<lambda>c. if c = CHR 0x22 then [CHR 0x22, CHR 0x22] else [c]) g) @ CHR 0x22 # cs)
     = csv_read AfterQuote (f @ g) r rs cs"
  by (induction g arbitrary: f) simp_all

lemma read_plain: "\<not> list_ex csv_special g \<Longrightarrow> m \<noteq> InQuoted \<Longrightarrow> m \<noteq> AfterQuote \<Longrightarrow>
    csv_read m f r rs (g @ cs) = csv_read (if g = '''' then m else InPlain) (f @ g) r rs cs"
  by (induction g arbitrary: f m) (auto simp: csv_special_def)

lemma read_field:
  assumes "c = CHR '','' \<or> c = CHR 0x0A"
  shows "csv_read FieldStart '''' r rs (csv_field sp f @ c # cs)
    = (if c = CHR '','' then csv_read FieldStart '''' (r @ [f]) rs cs else csv_read FieldStart '''' [] (rs @ [r @ [f]]) cs)"
proof (cases "needs_quotes sp f")
  case True
  then show ?thesis using assms by (auto simp: csv_field_def read_quoted)
next
  case False
  then have "\<not> list_ex csv_special f" by (cases "f = ''''") (auto simp: needs_quotes_def)
  with False assms show ?thesis by (auto simp: csv_field_def read_plain)
qed

lemma read_record:
  "fs \<noteq> [] \<Longrightarrow> csv_read FieldStart '''' r rs (csv_record sp fs @ cs) = csv_read FieldStart '''' [] (rs @ [r @ fs]) cs"
  by (induction sp fs arbitrary: r rule: csv_record.induct) (simp_all add: read_field)

lemma read_records: "[] \<notin> set fss \<Longrightarrow>
    csv_read FieldStart '''' [] rs (concat (map (csv_record sp) fss)) = Some (rs @ fss)"
proof (induction fss arbitrary: rs)
  case (Cons fs fss)
  then have "fs \<noteq> []" by auto
  from read_record [OF this] Cons show ?case by simp
qed simp

text \<open>
  The file of a run holds what the streams reported: read by the rules of the format it is the
  header and one record per row, in order, whatever utterance ids the gateway made up.
\<close>

theorem csv_is_read_back:
  assumes "write_csv fixed3 sp create ok path events = CSVWritten text"
  shows "csv_read FieldStart '''' [] [] text = Some (csv_header # map (csv_row fixed3) events)"
proof -
  have whole: "write_rows ok k rows = (out, True) \<Longrightarrow> out = rows" for k rows out
    by (induction ok k rows arbitrary: out rule: write_rows.induct) (auto split: if_splits prod.splits)
  have "text = concat (map (csv_record sp) (csv_header # map (csv_row fixed3) events))"
    using assms whole by (fastforce simp: write_csv_def Let_def split: if_splits option.splits prod.splits)
  moreover have "[] \<notin> set (csv_header # map (csv_row fixed3) events)" by (auto simp: csv_header_def csv_row_def)
  from read_records [OF this, of "[]" sp] show ?thesis unfolding calculation by simp
qed

end
