(* ===== verification/Spec2Isabelle.thy ===== *)
theory Spec2Isabelle
  imports Prelude Window Wire Session Audio Wav Journal Admission Bucket Router Tier Json Backend Stateless
    Effects Metrics Pipeline Coord Hub Bifrost Conn ConnProofs ConnProps
    Gateway FleetManager Nodes Dash Scrape Loadgen LoadRun Chaos ChaosRun Concurrent
    Loops Feed TierServer Corpus LoadReport
begin

text \<open>
  The speech-recognition gateway and its stress gym.

  \<^bold>\<open>The program.\<close> A client sends 16 kHz audio in binary frames over a WebSocket. The gateway
  (\<^verbatim>\<open>cmd/gateway\<close>) numbers and journals it, cuts it into chunks at the pauses a voice detector
  finds, sends the chunks to one worker of a fleet and returns transcript events. When a worker
  fails, the session moves to another one: from a checkpoint if the models are compatible,
  otherwise by replaying the journal since the last final. Workers that share a model may keep
  their state in a shared tier (\<^verbatim>\<open>cmd/kvtier\<close>), through a proxy (Bifrost). A dashboard watches
  all of this and injects faults, a fleet manager (\<^verbatim>\<open>cmd/fleetmanager\<close>) starts workers, and a
  load generator (\<^verbatim>\<open>cmd/loadgen\<close>) plays the clients; \<^verbatim>\<open>cmd/chaostest\<close> drives failures.

  \<^bold>\<open>Theories and sources.\<close>
  \<^item> \<^verbatim>\<open>Prelude\<close>, \<^verbatim>\<open>Window\<close>, \<^verbatim>\<open>Effects\<close>: machine types, byte orders, decimals; the contract of a
    bounded history as the locale \<open>bounded_window\<close>, interpreted for the journal's ring, the
    router's windows and the slices of hub and sampler; relations that steps of the state monad
    keep, and their pre- and postconditions. The other interfaces are locales beside their
    providers: \<open>recutting\<close> (replay over a pipeline, \<^verbatim>\<open>Audio\<close>), \<open>version_store\<close> (\<^verbatim>\<open>Tier\<close>) and
    \<open>receiving\<close> (what reading a socket leaves alone, \<^verbatim>\<open>Loadgen\<close>).
  \<^item> \<^verbatim>\<open>Wire\<close> (\<^verbatim>\<open>internal/wire\<close>): frames and control messages. \<^verbatim>\<open>Session\<close> (\<^verbatim>\<open>internal/session\<close>): the
    sequence validator, the session record, the emitter. \<^verbatim>\<open>Audio\<close>, \<^verbatim>\<open>Pipeline\<close>
    (\<^verbatim>\<open>internal/audio\<close>): accumulator, voice pipeline, recut. \<^verbatim>\<open>Wav\<close> (\<^verbatim>\<open>internal/audio/wav.go\<close>,
    \<^verbatim>\<open>internal/corpus\<close>) reads and writes clips, \<^verbatim>\<open>Corpus\<close> (\<^verbatim>\<open>internal/corpus\<close>) finds them.
    \<^verbatim>\<open>Journal\<close> (\<^verbatim>\<open>internal/journal\<close>).
  \<^item> \<^verbatim>\<open>Admission\<close>, \<^verbatim>\<open>Bucket\<close>, \<^verbatim>\<open>Router\<close> (\<^verbatim>\<open>internal/admission\<close>, \<^verbatim>\<open>internal/router\<close>): the session
    ceiling, rate limits, worker health and selection.
  \<^item> \<^verbatim>\<open>Json\<close>, \<^verbatim>\<open>Backend\<close>, \<^verbatim>\<open>Stateless\<close>, \<^verbatim>\<open>Bifrost\<close> (\<^verbatim>\<open>internal/backend\<close>, \<^verbatim>\<open>internal/bifrost\<close>): the
    clients of workers, of the shared tier and of the proxy. \<^verbatim>\<open>Tier\<close> (\<^verbatim>\<open>cmd/kvtier/main.go\<close>):
    the tier itself, so that client and server are composed; \<^verbatim>\<open>TierServer\<close>: its routes and ticker.
  \<^item> \<^verbatim>\<open>Coord\<close> (\<^verbatim>\<open>internal/coord\<close>): checkpoints and failover. \<^verbatim>\<open>Metrics\<close>, \<^verbatim>\<open>Hub\<close>
    (\<^verbatim>\<open>internal/metrics\<close>, \<^verbatim>\<open>internal/dash/hub.go\<close>, \<^verbatim>\<open>sse.go\<close>): counters, histories, the event feed;
    \<^verbatim>\<open>Feed\<close>: the feed's text and the loop that writes it.
  \<^item> \<^verbatim>\<open>Conn\<close>, \<^verbatim>\<open>ConnProofs\<close>, \<^verbatim>\<open>ConnProps\<close> (\<^verbatim>\<open>cmd/gateway/conn.go\<close>): a connection, from the read loop
    to the deferred clean-up. \<^verbatim>\<open>Gateway\<close> (\<^verbatim>\<open>cmd/gateway/main.go\<close>): configuration, the fleet at
    start-up, dynamic admission. \<^verbatim>\<open>Concurrent\<close>: the gateway as a whole, many connections and the
    dashboard's operations interleaved over the state they share. \<^verbatim>\<open>Loops\<close>: the three goroutines
    of one connection, their channels and their cancellation.
  \<^item> \<^verbatim>\<open>Nodes\<close>, \<^verbatim>\<open>Scrape\<close>, \<^verbatim>\<open>Dash\<close> (\<^verbatim>\<open>internal/dash/nodes.go\<close>, \<^verbatim>\<open>bifrost.go\<close>, \<^verbatim>\<open>api.go\<close>, \<^verbatim>\<open>kv.go\<close>): the
    node sampler, the reader of Prometheus text, the control plane. \<^verbatim>\<open>FleetManager\<close>
    (\<^verbatim>\<open>cmd/fleetmanager/main.go\<close>): creating a worker.
  \<^item> \<^verbatim>\<open>Loadgen\<close>, \<^verbatim>\<open>LoadRun\<close> (\<^verbatim>\<open>cmd/loadgen\<close>): one client; batches and their control API;
    \<^verbatim>\<open>LoadReport\<close>: the CSV file and the summary they leave. \<^verbatim>\<open>Chaos\<close>,
    \<^verbatim>\<open>ChaosRun\<close> (\<^verbatim>\<open>cmd/chaostest\<close>): the tool's probes and sessions; its scenarios, step by step.

  \<^bold>\<open>How code becomes definitions.\<close> A struct is a record, a method a function that returns the
  updated record, an error a value of a sum. A mutex-protected method is one step; where the
  code interleaves (admission by compare-and-swap, checkpoints that arrive late, batches that
  end late, probes of several workers, goroutines of a connection) the order of the
  steps is an argument or a transition
  relation. The connection, the recovery and the load generator are state monads over a record
  of everything they touch. Numbers keep their width where they wrap (\<open>uint64\<close> sequence
  numbers, \<open>time.Duration\<close>); a \<open>float64\<close> is an exact rational, so no statement depends on
  rounding.

  \<^bold>\<open>What the lemmas show.\<close> Each theory proves the invariants of its state first, then what its
  operations do on every branch, then its properties, which are numbered C1 to C40. The
  transcript contract of \<^verbatim>\<open>Session\<close> is carried through the whole connection by \<^verbatim>\<open>ConnProofs\<close>;
  the exactness of a replay goes from \<^verbatim>\<open>Audio\<close> and \<^verbatim>\<open>Journal\<close> through \<^verbatim>\<open>Coord\<close>. Components are
  composed where one relies on the other: the stateless client with the tier's handler, the
  stateless client with cohorts of the router (\<^verbatim>\<open>Gateway\<close>), the Retry-After header with the
  router (below), the fleet manager's answer with the dashboard's decoder (\<^verbatim>\<open>Dash\<close>), the load
  generator's messages with the gateway's decoder and sequence validator (\<^verbatim>\<open>Loadgen\<close>), the feed's text with the
  standard's reader (\<^verbatim>\<open>Feed\<close>), connections with each other and with the dashboard (\<^verbatim>\<open>Concurrent\<close>).
  Several properties state what the code does where that is not what its comments promise.

  \<^bold>\<open>Bounds and fuel.\<close> The failover and opening loops make the code's own
  \<open>MaxFailoverAttempts = 3\<close> attempts, the health check at start-up its \<open>healthRetries = 10\<close>. The
  loop that drains queued pipeline events takes a bound above the number queued, which is
  proved to change nothing. The fleet manager's wait may poll 76 times, one more than its 75
  second window holds pauses, and is proved to end within that whenever a pause takes its
  second. The load generator's loops take the number of turns as an argument and answer
  \<open>Running\<close> if it was too small; \<open>paced_leg_ends\<close> gives a number that is enough. The waiting
  loops of the chaos tool are bounded in the same way; \<open>status_wait_ends\<close> shows that 61 polls
  cover its 15 second wait for a worker's status. Waiting for an event has no such bound, since
  the events are the environment's.

  \<^bold>\<open>Parameters.\<close> HTTP and WebSocket transports, the clock, sleeping, timers, random numbers,
  map iteration order, the scheduler, the WebRTC voice detector, SHA-256, the text syntax of
  JSON and multipart forms (bodies are JSON values and part lists; what Go's decoder does with
  them is modelled), the formats of floats and durations, URL parsing and the file system.

  \<^bold>\<open>Not modelled.\<close> Server start-up, routing of URLs and flag parsing in the \<open>main\<close> functions,
  log lines and the printed summary of a load run: input and output without state of their
  own. The workers are Python behind HTTP and appear only as the transport. In \<^verbatim>\<open>Concurrent\<close> a
  handler of one connection is one step: what two connections do between the lock operations
  of a single handler is not interleaved there (it is for admission, in \<^verbatim>\<open>Admission\<close>).
\<close>

section \<open>Retry-After, from the header to the router\<close>

lemma on429_blocks:
  assumes "router_inv r" "router_find r ident = Some w" "w_bucket w = Some b" "j < length r"
    and "w_id (r ! j) = ident"
  shows "bucket_blocked (w_bucket (snd (router_on429 t ident d r) ! j)) now = (now < t + d)"
    and "w_id (snd (router_on429 t ident d r) ! j) = ident"
proof -
  from assms(1,2) have "w \<in> set r" "w_id w = ident" by (auto simp: router_find_def find_Some_iff)
  then obtain i where i: "i < length r" "r ! i = w" by (auto simp: in_set_conv_nth)
  have "distinct (map w_id r)" using assms(1) by (simp add: router_inv_def)
  with i \<open>w_id w = ident\<close> assms(4,5) have "i = j" by (auto simp: distinct_conv_nth)
  with i assms(3) have "w_bucket (r ! j) = Some b" by simp
  then show "bucket_blocked (w_bucket (snd (router_on429 t ident d r) ! j)) now = (now < t + d)"
    and "w_id (snd (router_on429 t ident d r) ! j) = ident"
    using assms(2,4,5) \<open>distinct (map w_id r)\<close>
    by (simp_all add: router_on429_def update_worker_nth bucket_on429_def bucket_blocked_def on429_at_def)
qed

lemma blocked_not_candidate:
  "bucket_blocked (w_bucket w) now \<Longrightarrow> \<not> candidate now mode ex w"
  by (auto simp: candidate_def bucket_blocked_def bucket_available_def available_at_def Let_def
      split: option.splits)

definition two_workers :: router where
  "two_workers = [new_worker 1 ''a'' ''k'' demo_caps, new_worker 1 ''b'' ''k'' demo_caps]"



end
